(* ===== verification/Prelude.thy ===== *)
theory Prelude
  imports Main "HOL-Library.AList" "HOL-Library.List_Lexorder" "HOL-Library.Char_ord"
begin

text \<open>
  What the components share: the type synonyms of the model, database tables as lists of
  rows with the SQL statements the Worker issues on them, the JavaScript string operations
  the source uses, and the contract of an \<open>INSERT .. ON CONFLICT DO UPDATE\<close> statement as a
  locale that every keyed table of the model interprets.

  Timestamps are the ISO-8601 text the code stores; the code compares them as text, and the
  model compares them with the lexicographic order of the library on strings.
\<close>

type_synonym iso = string
type_synonym vin = string
type_synonym member_id = string
type_synonym field_key = string

named_theorems table_simps \<open>equations of the table operations\<close>
named_theorems frame_simps \<open>fields that an operation leaves alone\<close>

section \<open>Tables\<close>

text \<open>
  A table is the list of its rows in insertion order. \<open>UPDATE .. WHERE\<close> maps over it,
  \<open>DELETE .. WHERE\<close> filters it, \<open>SELECT .. LIMIT 1\<close> takes the first row that matches.
\<close>

definition update_where :: "('r \<Rightarrow> bool) \<Rightarrow> ('r \<Rightarrow> 'r) \<Rightarrow> 'r list \<Rightarrow> 'r list" where
  "update_where P f rows = map (\<lambda>r. if P r then f r else r) rows"

definition delete_where :: "('r \<Rightarrow> bool) \<Rightarrow> 'r list \<Rightarrow> 'r list" where
  "delete_where P rows = filter (\<lambda>r. \<not> P r) rows"

definition count_where :: "('r \<Rightarrow> bool) \<Rightarrow> 'r list \<Rightarrow> nat" where
  "count_where P rows = length (filter P rows)"

abbreviation first_where :: "('r \<Rightarrow> bool) \<Rightarrow> 'r list \<Rightarrow> 'r option" where
  "first_where P rows \<equiv> List.find P rows"

text \<open>\<open>ORDER BY k DESC LIMIT 1\<close>; on a tie the earliest inserted row is taken.\<close>

fun latest_by :: "('r \<Rightarrow> 'k::linorder) \<Rightarrow> 'r list \<Rightarrow> 'r option" where
  "latest_by k [] = None"
| "latest_by k (r # rs) =
     (case latest_by k rs of
        None \<Rightarrow> Some r
      | Some s \<Rightarrow> if k r < k s then Some s else Some r)"

text \<open>
  \<open>INSERT .. ON CONFLICT (key) DO UPDATE\<close>: the row with the key of the new one is merged
  with it in place, and without such a row the new one is appended.
\<close>

fun upsert_by :: "('r \<Rightarrow> 'k) \<Rightarrow> ('r \<Rightarrow> 'r \<Rightarrow> 'r) \<Rightarrow> 'r \<Rightarrow> 'r list \<Rightarrow> 'r list" where
  "upsert_by key merge new [] = [new]"
| "upsert_by key merge new (r # rs) =
     (if key r = key new then merge r new # rs else r # upsert_by key merge new rs)"

lemma update_where_Nil [simp]: "update_where P f [] = []"
  by (simp add: update_where_def)

lemma update_where_Cons [simp]:
  "update_where P f (r # rs) = (if P r then f r else r) # update_where P f rs"
  by (simp add: update_where_def)

lemma length_update_where [simp]: "length (update_where P f rows) = length rows"
  by (simp add: update_where_def)

lemma set_update_where: "set (update_where P f rows) = (\<lambda>r. if P r then f r else r) ` set rows"
  by (simp add: update_where_def)

lemma map_update_where [table_simps]:
  "(\<And>r. P r \<Longrightarrow> g (f r) = g r) \<Longrightarrow> map g (update_where P f rows) = map g rows"
  by (simp add: update_where_def)

lemma find_update_where_other:
  assumes "\<And>r. Q (f r) = Q r" and "\<And>r. Q r \<Longrightarrow> \<not> P r"
  shows "first_where Q (update_where P f rows) = first_where Q rows"
  using assms by (induction rows) auto

lemma find_update_where_same:
  assumes "\<And>r. Q (f r) = Q r" and "\<And>r. Q r \<Longrightarrow> P r"
  shows "first_where Q (update_where P f rows) = map_option f (first_where Q rows)"
  using assms by (induction rows) auto

lemma find_update_where:
  assumes "\<And>r. Q (f r) = Q r"
  shows "first_where Q (update_where P f rows) =
    map_option (\<lambda>r. if P r then f r else r) (first_where Q rows)"
  using assms by (induction rows) auto

lemma find_append: "List.find P (xs @ ys) = (case List.find P xs of None \<Rightarrow> List.find P ys | Some x \<Rightarrow> Some x)"
  by (induction xs) auto

lemma find_SomeD: "List.find P xs = Some x \<Longrightarrow> x \<in> set xs \<and> P x"
  by (induction xs) (auto split: if_splits)

lemma find_None_set: "List.find P xs = None \<longleftrightarrow> (\<forall>x \<in> set xs. \<not> P x)"
  by (induction xs) auto

lemma latest_by_None [simp]: "latest_by k rs = None \<longleftrightarrow> rs = []"
  by (induction rs) (auto split: option.splits)

lemma latest_by_SomeD:
  "latest_by k rs = Some r \<Longrightarrow> r \<in> set rs \<and> (\<forall>s \<in> set rs. k s \<le> k r)"
proof (induction rs arbitrary: r)
  case Nil
  then show ?case by simp
next
  case (Cons x xs)
  show ?case
  proof (cases "latest_by k xs")
    case None
    with Cons.prems show ?thesis by simp
  next
    case (Some s)
    from Cons.IH [OF Some] Cons.prems Some show ?thesis
      by (fastforce split: if_splits)
  qed
qed

section \<open>The contract of an upsert\<close>

text \<open>
  What a component relies on when it writes a keyed table with \<open>ON CONFLICT DO UPDATE\<close>:
  reading the key back gives the merged row, and no other key changes.
\<close>

locale upsert_table =
  fixes put :: "'r \<Rightarrow> 's \<Rightarrow> 's"
    and get :: "'s \<Rightarrow> 'k \<Rightarrow> 'r option"
    and key :: "'r \<Rightarrow> 'k"
    and merge :: "'r \<Rightarrow> 'r \<Rightarrow> 'r"
  assumes get_put_same:
      "get (put r s) (key r) = Some (case get s (key r) of None \<Rightarrow> r | Some old \<Rightarrow> merge old r)"
    and get_put_other: "k \<noteq> key r \<Longrightarrow> get (put r s) k = get s k"
begin

lemma get_fold_put_other:
  "k \<notin> key ` set rs \<Longrightarrow> get (fold put rs s) k = get s k"
  by (induction rs arbitrary: s) (auto simp: get_put_other)

lemma get_put_defined: "get (put r s) k = None \<longleftrightarrow> k \<noteq> key r \<and> get s k = None"
  by (cases "k = key r") (auto simp: get_put_same get_put_other)

lemma get_fold_put_defined:
  "get (fold put rs s) k = None \<longleftrightarrow> k \<notin> key ` set rs \<and> get s k = None"
  by (induction rs arbitrary: s) (auto simp: get_put_defined)

lemma put_twice_same:
  assumes "\<And>a b. merge (merge a b) b = merge a b" and "\<And>b. merge b b = b"
  shows "get (put r (put r s)) k = get (put r s) k"
  using assms by (cases "k = key r") (auto simp: get_put_same get_put_other split: option.splits)

end

text \<open>The tables whose conflict clause replaces every column that is not part of the key.\<close>

locale overwrite_table = upsert_table +
  assumes merge_new: "key old = key r \<Longrightarrow> merge old r = r"
    and get_key: "get s k = Some r \<Longrightarrow> key r = k"
begin

lemma get_put: "get (put r s) (key r) = Some r"
  using get_key merge_new by (auto simp: get_put_same split: option.splits)

lemma last_put_wins: "get (put r2 (put r1 s)) (key r2) = Some r2"
  by (rule get_put)

lemma get_fold_put_last: "get (fold put (rs @ [r]) s) (key r) = Some r"
  by (simp add: get_put)

lemma get_fold_put_unique:
  assumes "r \<in> set rs" and "\<forall>q \<in> set rs. key q = key r \<longrightarrow> q = r"
  shows "get (fold put rs s) (key r) = Some r"
  using assms
proof (induction rs arbitrary: s)
  case Nil
  then show ?case by simp
next
  case (Cons q rs)
  show ?case
  proof (cases "r \<in> set rs")
    case True
    with Cons show ?thesis by simp
  next
    case False
    with Cons.prems have "q = r" and "key r \<notin> key ` set rs" by auto
    then show ?thesis by (simp add: get_fold_put_other get_put)
  qed
qed

lemma replay_put: "get (put r (put r s)) k = get (put r s) k"
  by (cases "k = key r") (auto simp: get_put get_put_other)

end

lemma find_upsert_same:
  assumes "\<And>a b. key a = key b \<Longrightarrow> key (merge a b) = key b"
  shows "first_where (\<lambda>r. key r = key new) (upsert_by key merge new rows) =
    Some (case first_where (\<lambda>r. key r = key new) rows of None \<Rightarrow> new | Some old \<Rightarrow> merge old new)"
  using assms by (induction rows) auto

lemma find_upsert_other:
  assumes "\<And>a b. key a = key b \<Longrightarrow> key (merge a b) = key b" and "k \<noteq> key new"
  shows "first_where (\<lambda>r. key r = k) (upsert_by key merge new rows) = first_where (\<lambda>r. key r = k) rows"
  using assms by (induction rows) auto

lemma map_key_upsert:
  assumes "\<And>a b. key a = key b \<Longrightarrow> key (merge a b) = key b"
  shows "map key (upsert_by key merge new rows) =
    (if key new \<in> key ` set rows then map key rows else map key rows @ [key new])"
  using assms by (induction rows) auto

lemma distinct_upsert:
  assumes "\<And>a b. key a = key b \<Longrightarrow> key (merge a b) = key b"
  shows "distinct (map key rows) \<Longrightarrow> distinct (map key (upsert_by key merge new rows))"
  by (subst map_key_upsert) (auto simp: assms)

lemma update_where_id: "(\<And>r. r \<in> set rows \<Longrightarrow> \<not> P r) \<Longrightarrow> update_where P f rows = rows"
  by (induction rows) auto

lemma distinct_update_one:
  assumes "distinct (map key rows)" and "distinct (map k rows)"
    and "\<And>r s. r \<in> set rows \<Longrightarrow> s \<in> set rows \<Longrightarrow> key r = i \<Longrightarrow> key s \<noteq> i \<Longrightarrow> k (f r) \<noteq> k s"
  shows "distinct (map k (update_where (\<lambda>r. key r = i) f rows))"
  using assms
proof (induction rows)
  case Nil
  then show ?case by simp
next
  case (Cons r rows)
  show ?case
  proof (cases "key r = i")
    case True
    then have "key s \<noteq> i" if "s \<in> set rows" for s
      using Cons.prems(1) that by (metis distinct.simps(2) image_eqI list.simps(9) set_map)
    with Cons.prems True show ?thesis by (auto simp: update_where_id)
  next
    case False
    from Cons have "distinct (map k (update_where (\<lambda>r. key r = i) f rows))" by simp
    moreover have "k r \<notin> k ` set (update_where (\<lambda>r. key r = i) f rows)"
      using Cons.prems False by (auto simp: set_update_where split: if_splits) (metis imageI)
    ultimately show ?thesis using False by simp
  qed
qed

lemma upsert_by_cases:
  assumes "r \<in> set (upsert_by key merge new rows)"
  obtains "r = new" | "r \<in> set rows"
  | old where "old \<in> set rows" and "key old = key new" and "r = merge old new"
  using assms by (induction rows) (auto split: if_splits)

section \<open>The contract of a rollout that can be halted\<close>

text \<open>
  What the properties of the apply queue rely on, whichever loop drains it: a step works on one
  run and touches one vehicle of it at most, a step for a closed run touches nothing, and a
  closed run stays closed.
\<close>

locale halting_rollout =
  fixes step :: "'i \<Rightarrow> 's \<Rightarrow> 's"
    and run_of :: "'i \<Rightarrow> 'r"
    and vin_of :: "'i \<Rightarrow> 'v"
    and closed :: "'s \<Rightarrow> 'r \<Rightarrow> bool"
    and touched :: "'s \<Rightarrow> ('v \<times> 'b) list"
  assumes closed_stays: "closed s r \<Longrightarrow> closed (step i s) r"
    and closed_untouched: "closed s (run_of i) \<Longrightarrow> touched (step i s) = touched s"
    and touches_own: "\<exists>ps. touched (step i s) = touched s @ ps \<and> fst ` set ps \<subseteq> {vin_of i} \<and> length ps \<le> 1"
begin

lemma closed_stays_fold: "closed s r \<Longrightarrow> closed (fold step is s) r"
  by (induction "is" arbitrary: s) (auto intro: closed_stays)

lemma touched_fold:
  "\<exists>ps. touched (fold step is s) = touched s @ ps \<and> fst ` set ps \<subseteq> vin_of ` set is \<and> length ps \<le> length is"
proof (induction "is" arbitrary: s)
  case Nil
  then show ?case by simp
next
  case (Cons i "is")
  obtain p where p: "touched (step i s) = touched s @ p" "fst ` set p \<subseteq> {vin_of i}" "length p \<le> 1"
    using touches_own by blast
  obtain q where q: "touched (fold step is (step i s)) = touched (step i s) @ q" "fst ` set q \<subseteq> vin_of ` set is"
    "length q \<le> length is"
    using Cons.IH by blast
  have "touched (fold step (i # is) s) = touched s @ (p @ q)" "fst ` set (p @ q) \<subseteq> vin_of ` set (i # is)"
    "length (p @ q) \<le> length (i # is)"
    using p q by auto
  then show ?case by blast
qed

lemma closed_run_untouched:
  assumes "closed s r"
  shows "\<exists>ps. touched (fold step is s) = touched s @ ps \<and> fst ` set ps \<subseteq> vin_of ` {i \<in> set is. run_of i \<noteq> r}"
  using assms
proof (induction "is" arbitrary: s)
  case Nil
  then show ?case by simp
next
  case (Cons i "is")
  obtain p where p: "touched (step i s) = touched s @ p" "fst ` set p \<subseteq> {vin_of i}"
    using touches_own by blast
  have none: "p = []" if "run_of i = r" using closed_untouched [of s i] that Cons.prems p(1) by simp
  obtain q where q: "touched (fold step is (step i s)) = touched (step i s) @ q"
    "fst ` set q \<subseteq> vin_of ` {j \<in> set is. run_of j \<noteq> r}"
    using Cons.IH [OF closed_stays [OF Cons.prems]] by blast
  have "touched (fold step (i # is) s) = touched s @ (p @ q)" using p q by simp
  moreover have "fst ` set (p @ q) \<subseteq> vin_of ` {j \<in> set (i # is). run_of j \<noteq> r}"
    using p q none by (cases "run_of i = r") auto
  ultimately show ?case by blast
qed

end

section \<open>Strings\<close>

text \<open>The operations of \<open>String.prototype\<close> the source calls, on the characters it deals with.\<close>

definition starts_with :: "string \<Rightarrow> string \<Rightarrow> bool" where
  "starts_with s p \<longleftrightarrow> take (length p) s = p"

fun str_includes :: "string \<Rightarrow> string \<Rightarrow> bool" where
  "str_includes [] p = (p = [])"
| "str_includes (c # cs) p = (starts_with (c # cs) p \<or> str_includes cs p)"

definition lower_char :: "char \<Rightarrow> char" where
  "lower_char c = (let n = (of_char c :: nat) in if 65 \<le> n \<and> n \<le> 90 then char_of (n + 32) else c)"

definition to_lower :: "string \<Rightarrow> string" where
  "to_lower s = map lower_char s"

definition is_digit :: "char \<Rightarrow> bool" where
  "is_digit c = (let n = (of_char c :: nat) in 48 \<le> n \<and> n \<le> 57)"

definition is_space :: "char \<Rightarrow> bool" where
  "is_space c = (let n = (of_char c :: nat) in n = 32 \<or> (9 \<le> n \<and> n \<le> 13) \<or> n = 160)"

definition trim :: "string \<Rightarrow> string" where
  "trim s = rev (dropWhile is_space (rev (dropWhile is_space s)))"

fun join_with :: "string \<Rightarrow> string list \<Rightarrow> string" where
  "join_with sep [] = []"
| "join_with sep [x] = x"
| "join_with sep (x # y # ys) = x @ sep @ join_with sep (y # ys)"

fun split_on :: "char \<Rightarrow> string \<Rightarrow> string list" where
  "split_on c [] = [[]]"
| "split_on c (x # xs) =
     (if x = c then [] # split_on c xs
      else (case split_on c xs of [] \<Rightarrow> [[x]] | w # ws \<Rightarrow> (x # w) # ws))"

definition digit_char :: "nat \<Rightarrow> char" where
  "digit_char n = char_of (48 + n)"

definition digit_value :: "char \<Rightarrow> nat" where
  "digit_value c = of_char c - 48"

fun nat_text :: "nat \<Rightarrow> string" where
  "nat_text n = (if n < 10 then [digit_char n] else nat_text (n div 10) @ [digit_char (n mod 10)])"

declare nat_text.simps [simp del]

definition digits_value :: "string \<Rightarrow> nat" where
  "digits_value s = foldl (\<lambda>v c. 10 * v + digit_value c) 0 s"

lemma split_on_not_Nil [simp]: "split_on c s \<noteq> []"
  by (induction s) (auto split: list.splits)

lemma digit_value_digit_char [simp]: "n < 10 \<Longrightarrow> digit_value (digit_char n) = n"
  by (simp add: digit_value_def digit_char_def)

lemma is_digit_digit_char [simp]: "n < 10 \<Longrightarrow> is_digit (digit_char n)"
  by (simp add: is_digit_def digit_char_def)

lemma digits_value_snoc [simp]: "digits_value (s @ [c]) = 10 * digits_value s + digit_value c"
  by (simp add: digits_value_def)

lemma digits_value_nat_text: "digits_value (nat_text n) = n"
proof (induction n rule: nat_text.induct)
  case (1 n)
  show ?case
  proof (cases "n < 10")
    case True
    then show ?thesis by (simp add: nat_text.simps [of n] digits_value_def)
  next
    case False
    with 1 show ?thesis by (simp add: nat_text.simps [of n])
  qed
qed

lemma nat_text_digits: "list_all is_digit (nat_text n)"
proof (induction n rule: nat_text.induct)
  case (1 n)
  then show ?case by (cases "n < 10") (simp_all add: nat_text.simps [of n])
qed

lemma split_on_no_sep: "c \<notin> set s \<Longrightarrow> split_on c s = [s]"
  by (induction s) auto

lemma split_on_append: "c \<notin> set s \<Longrightarrow> split_on c (s @ c # t) = s # split_on c t"
  by (induction s) auto

lemma split_on_join:
  assumes "\<forall>w \<in> set ws. c \<notin> set w" and "ws \<noteq> []"
  shows "split_on c (join_with [c] ws) = ws"
  using assms
proof (induction "[c]" ws rule: join_with.induct)
  case (3 x y ys)
  then show ?case by (simp add: split_on_append)
qed (auto simp: split_on_no_sep)

end
