(* ===== verification/JsValue.thy ===== *)
theory JsValue
  imports Complex_Main Prelude "HOL-Library.Word"
begin

unbundle bit_operations_syntax

text \<open>
  The JavaScript values the source handles without a static type: parsed JSON, with the
  property reads, the nullish operator and the truthiness test the code applies to it, and
  the environment every effectful operation of the model reads: the clock, the random source,
  and the digest of the platform.  Numbers are exact rationals; the code only stores, compares
  and classifies them here.  A numeral beyond the range of a double is outside the model.
\<close>

section \<open>Parsed JSON\<close>

datatype json =
    JNull
  | JBool bool
  | JNum rat
  | JStr string
  | JArr "json list"
  | JObj "(string \<times> json) list"

text \<open>
  \<open>undefined\<close> is \<open>None\<close>.  \<open>js_prop v k\<close> is \<open>v[k]\<close> for a \<open>v\<close> that is neither null nor
  undefined; only objects have the properties the code asks for.
\<close>

fun js_prop :: "json \<Rightarrow> string \<Rightarrow> json option" where
  "js_prop (JObj ps) k = map_of ps k"
| "js_prop _ k = None"

fun is_object :: "json \<Rightarrow> bool" where
  "is_object (JObj _) = True"
| "is_object (JArr _) = True"
| "is_object JNull = True"
| "is_object _ = False"

fun truthy :: "json option \<Rightarrow> bool" where
  "truthy None = False"
| "truthy (Some JNull) = False"
| "truthy (Some (JBool b)) = b"
| "truthy (Some (JNum n)) = (n \<noteq> 0)"
| "truthy (Some (JStr s)) = (s \<noteq> [])"
| "truthy (Some (JArr _)) = True"
| "truthy (Some (JObj _)) = True"

definition nullish :: "json option \<Rightarrow> bool" where
  "nullish v = (v = None \<or> v = Some JNull)"

text \<open>The operator \<open>a ?? b\<close>.\<close>

definition coalesce :: "json option \<Rightarrow> json option \<Rightarrow> json option" where
  "coalesce a b = (if nullish a then b else a)"

lemma coalesce_simps [simp]:
  "coalesce None b = b"
  "coalesce (Some JNull) b = b"
  "v \<noteq> JNull \<Longrightarrow> coalesce (Some v) b = Some v"
  by (simp_all add: coalesce_def nullish_def)

text \<open>The readings behind a \<open>typeof v === ..\<close> test; \<open>Array.isArray(v) ? v : []\<close> is \<open>array_items\<close>.\<close>

fun as_string :: "json option \<Rightarrow> string option" where
  "as_string (Some (JStr s)) = Some s"
| "as_string _ = None"

fun as_number :: "json option \<Rightarrow> rat option" where
  "as_number (Some (JNum q)) = Some q"
| "as_number _ = None"

fun as_boolean :: "json option \<Rightarrow> bool option" where
  "as_boolean (Some (JBool b)) = Some b"
| "as_boolean _ = None"

fun array_items :: "json option \<Rightarrow> json list" where
  "array_items (Some (JArr xs)) = xs"
| "array_items _ = []"

section \<open>The environment\<close>

text \<open>
  What the runtime supplies and the source only calls.  Every read of the clock or of the
  random source takes the number of effects that happened before it, so that two reads may
  differ; \<open>rt_sha256\<close> is the digest of \<open>crypto.subtle\<close>, \<open>rt_consent_text\<close> the wording of the
  consent policy, which is data the operations store and hash without reading it;
  \<open>rt_num_text\<close> is \<open>Number.prototype.toString\<close>.
\<close>

record runtime =
  rt_clock :: "nat \<Rightarrow> iso"
  rt_millis :: "nat \<Rightarrow> nat"
  rt_random :: "nat \<Rightarrow> 8 word list"
  rt_sha256 :: "string \<Rightarrow> string"
  rt_consent_text :: string
  rt_num_text :: "rat \<Rightarrow> string"

end
