(* ===== verification/Utf8.thy ===== *)
theory Utf8
  imports Main "HOL-Library.Word"
begin

text \<open>
  \<open>TextEncoder.encode\<close> of the platform, as the source uses it: a JavaScript string is a list of
  16-bit code units, which is read as code points, a surrogate without its partner as U+FFFD,
  and written in UTF-8.  The encoding is injective on texts without such surrogates, and up to
  them on all texts.
\<close>

section \<open>Code points\<close>

type_synonym text16 = "16 word list"

definition high_surrogate :: "16 word \<Rightarrow> bool" where
  "high_surrogate u \<longleftrightarrow> 0xD800 \<le> unat u \<and> unat u < 0xDC00"

definition low_surrogate :: "16 word \<Rightarrow> bool" where
  "low_surrogate u \<longleftrightarrow> 0xDC00 \<le> unat u \<and> unat u < 0xE000"

definition pair_point :: "16 word \<Rightarrow> 16 word \<Rightarrow> nat" where
  "pair_point u v = 0x10000 + (unat u - 0xD800) * 0x400 + (unat v - 0xDC00)"

fun code_points :: "text16 \<Rightarrow> nat list" where
  "code_points [] = []"
| "code_points [u] = [if high_surrogate u \<or> low_surrogate u then 0xFFFD else unat u]"
| "code_points (u # v # us) =
     (if high_surrogate u \<and> low_surrogate v then pair_point u v # code_points us
      else (if high_surrogate u \<or> low_surrogate u then 0xFFFD else unat u) # code_points (v # us))"

text \<open>Every surrogate has its partner.\<close>

fun well_paired :: "text16 \<Rightarrow> bool" where
  "well_paired [] = True"
| "well_paired [u] = (\<not> high_surrogate u \<and> \<not> low_surrogate u)"
| "well_paired (u # v # us) =
     (if high_surrogate u then low_surrogate v \<and> well_paired us
      else \<not> low_surrogate u \<and> well_paired (v # us))"

text \<open>The code units of a text the rest of the model holds as characters.\<close>

definition code_units :: "string \<Rightarrow> text16" where
  "code_units s = map (\<lambda>c. word_of_nat (of_char c)) s"

section \<open>Bytes\<close>

definition utf8_bytes :: "nat \<Rightarrow> nat list" where
  "utf8_bytes c =
     (if c < 0x80 then [c]
      else if c < 0x800 then [0xC0 + c div 64, 0x80 + c mod 64]
      else if c < 0x10000 then [0xE0 + c div 4096, 0x80 + c div 64 mod 64, 0x80 + c mod 64]
      else [0xF0 + c div 262144, 0x80 + c div 4096 mod 64, 0x80 + c div 64 mod 64, 0x80 + c mod 64])"

definition text_encode :: "text16 \<Rightarrow> 8 word list" where
  "text_encode s = map word_of_nat (concat (map utf8_bytes (code_points s)))"

section \<open>Reading back\<close>

lemma unat_16: "unat (u :: 16 word) < 65536"
  by (rule order.strict_trans2 [OF unsigned_less]) simp

lemma code_point_bound: "c \<in> set (code_points s) \<Longrightarrow> c < 0x110000"
proof (induction s rule: code_points.induct)
  case (2 u)
  then show ?case using unat_16 [of u] by (auto split: if_splits)
next
  case (3 u v us)
  then show ?case
    using unat_16 [of u] by (auto simp: pair_point_def high_surrogate_def low_surrogate_def split: if_splits)
qed simp

text \<open>The first code point of a sequence of bytes, and the bytes after it.\<close>

definition first_point :: "nat list \<Rightarrow> nat \<times> nat list" where
  "first_point bs =
     (case bs of
        [] \<Rightarrow> (0, [])
      | b # cs \<Rightarrow>
          if b < 0x80 then (b, cs)
          else if b < 0xE0 then (case cs of x # r \<Rightarrow> ((b - 0xC0) * 64 + (x - 0x80), r) | _ \<Rightarrow> (0, []))
          else if b < 0xF0
          then (case cs of x # y # r \<Rightarrow> ((b - 0xE0) * 4096 + (x - 0x80) * 64 + (y - 0x80), r) | _ \<Rightarrow> (0, []))
          else (case cs of x # y # z # r \<Rightarrow>
                  ((b - 0xF0) * 262144 + (x - 0x80) * 4096 + (y - 0x80) * 64 + (z - 0x80), r) | _ \<Rightarrow> (0, [])))"

lemma split_64:
  "(c :: nat) div 64 * 64 + c mod 64 = c"
  "(c :: nat) div 4096 * 4096 + c div 64 mod 64 * 64 + c mod 64 = c"
  "(c :: nat) div 262144 * 262144 + c div 4096 mod 64 * 4096 + c div 64 mod 64 * 64 + c mod 64 = c"
proof -
  have d: "c div 4096 = c div 64 div 64" "c div 262144 = c div 64 div 64 div 64"
    by (simp_all add: div_mult2_eq [symmetric])
  show "c div 64 * 64 + c mod 64 = c" by simp
  then show "c div 4096 * 4096 + c div 64 mod 64 * 64 + c mod 64 = c"
    using div_mult_mod_eq [of "c div 64" 64] unfolding d by linarith
  then show "c div 262144 * 262144 + c div 4096 mod 64 * 4096 + c div 64 mod 64 * 64 + c mod 64 = c"
    using div_mult_mod_eq [of "c div 64 div 64" 64] unfolding d by linarith
qed

lemma first_point_utf8:
  assumes "c < 0x110000"
  shows "first_point (utf8_bytes c @ bs) = (c, bs)"
proof -
  have bounds: "c < 0x800 \<Longrightarrow> c div 64 < 0x20" "c < 0x10000 \<Longrightarrow> c div 4096 < 0x10" "c div 262144 < 8"
    using assms by (simp_all add: less_mult_imp_div_less)
  consider "c < 0x80" | "\<not> c < 0x80" "c < 0x800" | "\<not> c < 0x800" "c < 0x10000" | "\<not> c < 0x10000" by linarith
  then show ?thesis
  proof cases
    case 1
    then show ?thesis by (simp add: utf8_bytes_def first_point_def)
  next
    case 2
    then have "utf8_bytes c @ bs = (0xC0 + c div 64) # (0x80 + c mod 64) # bs" by (simp add: utf8_bytes_def)
    with bounds(1) 2 show ?thesis by (simp add: first_point_def)
  next
    case 3
    then have "utf8_bytes c @ bs = (0xE0 + c div 4096) # (0x80 + c div 64 mod 64) # (0x80 + c mod 64) # bs"
      by (simp add: utf8_bytes_def)
    with bounds(2) 3 split_64(2) [of c] show ?thesis by (simp add: first_point_def)
  next
    case 4
    then have "utf8_bytes c @ bs = (0xF0 + c div 262144) # (0x80 + c div 4096 mod 64) # (0x80 + c div 64 mod 64)
        # (0x80 + c mod 64) # bs" by (simp add: utf8_bytes_def)
    with split_64(3) [of c] show ?thesis by (simp add: first_point_def)
  qed
qed

lemma utf8_bytes_nonempty: "utf8_bytes c \<noteq> []"
  by (simp add: utf8_bytes_def)

lemma utf8_bytes_byte: "c < 0x110000 \<Longrightarrow> b \<in> set (utf8_bytes c) \<Longrightarrow> b < 256"
  by (auto simp: utf8_bytes_def split: if_splits)

lemma utf8_inj:
  "\<forall>c \<in> set cs \<union> set ds. c < 0x110000 \<Longrightarrow>
     concat (map utf8_bytes cs) = concat (map utf8_bytes ds) \<Longrightarrow> cs = ds"
proof (induction cs arbitrary: ds)
  case Nil
  then show ?case using utf8_bytes_nonempty by (cases ds) auto
next
  case (Cons c cs)
  obtain d ds' where ds: "ds = d # ds'" using Cons.prems(2) utf8_bytes_nonempty [of c] by (cases ds) auto
  have "first_point (utf8_bytes c @ concat (map utf8_bytes cs)) = first_point (utf8_bytes d @ concat (map utf8_bytes ds'))"
    using Cons.prems(2) ds by simp
  then have "c = d \<and> concat (map utf8_bytes cs) = concat (map utf8_bytes ds')"
    using Cons.prems(1) ds by (simp add: first_point_utf8)
  with Cons.IH [of ds'] Cons.prems(1) ds show ?case by simp
qed

lemma text_encode_points: "text_encode s = text_encode t \<longleftrightarrow> code_points s = code_points t"
proof
  assume "text_encode s = text_encode t"
  then have "map (\<lambda>b. unat (word_of_nat b :: 8 word)) (concat (map utf8_bytes (code_points s)))
      = map (\<lambda>b. unat (word_of_nat b :: 8 word)) (concat (map utf8_bytes (code_points t)))"
    unfolding text_encode_def by (metis (no_types, lifting) map_map comp_def map_eq_conv)
  moreover have "map (\<lambda>b. unat (word_of_nat b :: 8 word)) (concat (map utf8_bytes (code_points r)))
      = concat (map utf8_bytes (code_points r))" for r
    by (rule map_idI) (use code_point_bound [of _ r] in \<open>auto simp: unat_of_nat intro!: mod_less utf8_bytes_byte\<close>)
  ultimately have "concat (map utf8_bytes (code_points s)) = concat (map utf8_bytes (code_points t))" by metis
  then show "code_points s = code_points t"
    by (rule utf8_inj [rotated]) (use code_point_bound in blast)
qed (simp add: text_encode_def)

text \<open>The code units of a code point.\<close>

definition point_units :: "nat \<Rightarrow> text16" where
  "point_units c =
     (if c < 0x10000 then [word_of_nat c]
      else [word_of_nat (0xD800 + (c - 0x10000) div 0x400), word_of_nat (0xDC00 + (c - 0x10000) mod 0x400)])"

lemma point_units_single [simp]: "point_units (unat (u :: 16 word)) = [u]"
  using unat_16 [of u] by (simp add: point_units_def)

lemma point_units_pair:
  assumes "high_surrogate u" and "low_surrogate v"
  shows "point_units (pair_point u v) = [u, v]"
proof -
  have "(x * 0x400 + y) div 0x400 = x" "(x * 0x400 + y) mod 0x400 = y" if "y < 0x400" for x y :: nat
    using that by simp_all
  moreover have "unat v - 0xDC00 < 0x400" using assms(2) by (simp add: low_surrogate_def less_diff_conv2)
  ultimately have split: "((unat u - 0xD800) * 0x400 + (unat v - 0xDC00)) div 0x400 = unat u - 0xD800"
    "((unat u - 0xD800) * 0x400 + (unat v - 0xDC00)) mod 0x400 = unat v - 0xDC00" by blast+
  have "(pair_point u v - 0x10000) div 0x400 = unat u - 0xD800" "(pair_point u v - 0x10000) mod 0x400 = unat v - 0xDC00"
    by (simp_all only: pair_point_def add.assoc diff_add_inverse split)
  with assms show ?thesis by (simp add: point_units_def pair_point_def high_surrogate_def low_surrogate_def)
qed

lemma point_units_paired: "well_paired s \<Longrightarrow> concat (map point_units (code_points s)) = s"
  by (induction s rule: well_paired.induct) (auto simp: point_units_pair)

lemma code_points_inj: "well_paired s \<Longrightarrow> well_paired t \<Longrightarrow> code_points s = code_points t \<longleftrightarrow> s = t"
  by (metis point_units_paired)

lemma of_char_less: "of_char c < (256 :: nat)"
  by (metis of_char_mod_256 mod_less_divisor zero_less_numeral)

lemma unat_code_unit_of: "unat (word_of_nat (of_char c) :: 16 word) = of_char c"
proof -
  have "of_char c < (65536 :: nat)" by (rule order.strict_trans2 [OF of_char_less]) simp
  then show ?thesis by (simp add: unat_of_nat)
qed

lemma unat_code_unit: "u \<in> set (code_units s) \<Longrightarrow> unat u < 256"
  using of_char_less by (auto simp: code_units_def unat_code_unit_of)

lemma paired_low: "\<forall>u \<in> set s. unat u < 256 \<Longrightarrow> well_paired s"
  by (induction s rule: well_paired.induct) (auto simp: high_surrogate_def low_surrogate_def)

lemma paired_code_units [simp]: "well_paired (code_units s)"
  using unat_code_unit by (intro paired_low) blast

lemma code_units_inj [simp]: "code_units s = code_units t \<longleftrightarrow> s = t"
proof
  assume "code_units s = code_units t"
  then have "map (unat \<circ> (\<lambda>c. word_of_nat (of_char c) :: 16 word)) s = map (unat \<circ> (\<lambda>c. word_of_nat (of_char c) :: 16 word)) t"
    unfolding code_units_def by (metis map_map)
  then show "s = t" by (simp add: unat_code_unit_of o_def inj_map_eq_map inj_def)
qed simp

end
