(* ===== verification/Store.thy ===== *)
theory Store
  imports JsValue Utf8
begin

text \<open>
  \<open>src/apps/afirmico-tesla/src/store.ts\<close>: the persistence of members, vehicles, consents and
  tokens.  A table of D1 is a list of rows in a field of \<open>store_db\<close>; the later components
  extend this record with their own tables.  Row identifiers are drawn by \<open>newId\<close>, and a
  primary key drawn twice is not modelled.
\<close>

section \<open>Rows\<close>

record member_row =
  m_id :: member_id
  m_toca_status :: string
  m_email :: "string option"
  m_display_name :: "string option"
  m_tesla_sub :: "string option"
  m_tesla_email :: "string option"
  m_mobile :: "string option"
  m_postcode :: "string option"
  m_tier :: string
  m_created_at :: iso
  m_updated_at :: iso

record vehicle_row =
  v_vin :: vin
  v_member :: "member_id option"
  v_display_name :: "string option"
  v_model :: "string option"
  v_first_seen_at :: iso
  v_last_seen_at :: "iso option"

record consent_row =
  c_id :: string
  c_member :: member_id
  c_vin :: "vin option"
  c_scope_granted :: string
  c_policy_version :: string
  c_purposes :: "string list"
  c_granted_at :: iso
  c_revoked_at :: "iso option"
  c_revoke_reason :: "string option"
  c_policy_sha256 :: "string option"
  c_collected_fields :: "field_key list"
  c_recipients :: "string list"
  c_ip_hash :: "string option"
  c_user_agent :: "string option"

record consent_policy_row =
  cp_version :: string
  cp_sha256 :: string
  cp_text :: string
  cp_effective_from :: iso

text \<open>A sealed token is opaque here: its ciphertext, its initialisation vector, its key version.\<close>

type_synonym sealed_token = "string \<times> string \<times> nat"

record oauth_row =
  o_member :: member_id
  o_refresh :: sealed_token
  o_previous :: "(string \<times> string) option"
  o_previous_rotated_at :: "iso option"
  o_expires_at :: "iso option"
  o_scope :: string
  o_tesla_sub :: "string option"
  o_updated_at :: iso
  o_last_refreshed_at :: "iso option"
  o_last_error :: "string option"
  o_revoked_at :: "iso option"

record audit_row =
  a_id :: string
  a_occurred_at :: iso
  a_actor :: "string option"
  a_actor_type :: string
  a_action :: string
  a_subject_type :: "string option"
  a_subject_id :: "string option"
  a_detail :: "json option"

record session_row =
  s_id :: string
  s_member :: member_id
  s_scope :: string
  s_created_at :: iso
  s_expires_at :: iso
  s_user_agent :: "string option"

datatype tier = Event | On_change | Once

record catalog_row =
  fc_key :: field_key
  fc_tier :: tier
  fc_collected :: bool
  fc_min_delta :: "rat option"
  fc_rest_path :: "string option"

text \<open>\<open>telemetry_config_entry\<close>: one field's setting at one scope.\<close>

record entry_row =
  e_scope :: string
  e_field :: field_key
  e_interval :: int
  e_min_delta :: "rat option"
  e_enabled :: bool

datatype config_state = CPending | CActive | CSkipped | CFailed | CRemoved

record telemetry_config_row =
  tc_id :: string
  tc_vin :: vin
  tc_state :: config_state
  tc_skip_reason :: "string option"
  tc_sync_interval :: string
  tc_hostname :: string
  tc_port :: int
  tc_fields_json :: string
  tc_version :: int
  tc_applied_at :: "iso option"
  tc_verified_at :: "iso option"
  tc_last_error :: "string option"
  tc_created_at :: iso

datatype rejection_reason = Unknown_field | Not_collected | Invalid_value | Bad_vin

record rejection_row =
  rj_id :: string
  rj_run :: string
  rj_vin :: "vin option"
  rj_field :: field_key
  rj_reason :: rejection_reason
  rj_observed_at :: "iso option"
  rj_created_at :: iso

record store_db =
  tick :: nat
  members :: "member_row list"
  vehicles :: "vehicle_row list"
  consents :: "consent_row list"
  consent_policies :: "consent_policy_row list"
  oauth_tokens :: "oauth_row list"
  audits :: "audit_row list"
  sessions :: "session_row list"
  catalog :: "catalog_row list"
  entries :: "entry_row list"
  telemetry_configs :: "telemetry_config_row list"
  rejections :: "rejection_row list"

section \<open>Reading the clock, drawing identifiers\<close>

definition now_iso :: "('e) runtime_scheme \<Rightarrow> ('a) store_db_scheme \<Rightarrow> iso \<times> ('a) store_db_scheme" where
  "now_iso e db = (rt_clock e (tick db), db\<lparr>tick := Suc (tick db)\<rparr>)"

definition CROCKFORD :: string where
  "CROCKFORD = ''0123456789ABCDEFGHJKMNPQRSTVWXYZ''"

fun time_part :: "nat \<Rightarrow> nat \<Rightarrow> string \<Rightarrow> string" where
  "time_part 0 remaining acc = acc"
| "time_part (Suc i) remaining acc = time_part i (remaining div 32) (CROCKFORD ! (remaining mod 32) # acc)"

definition newId :: "nat \<Rightarrow> 8 word list \<Rightarrow> string" where
  "newId nowMs random = time_part 10 nowMs [] @ map (\<lambda>b. CROCKFORD ! (unat b mod 32)) random"

definition fresh_id :: "('e) runtime_scheme \<Rightarrow> ('a) store_db_scheme \<Rightarrow> string \<times> ('a) store_db_scheme" where
  "fresh_id e db = (newId (rt_millis e (tick db)) (rt_random e (tick db)), db\<lparr>tick := Suc (tick db)\<rparr>)"

definition hashIp :: "('e) runtime_scheme \<Rightarrow> string option \<Rightarrow> string option" where
  "hashIp e ip = (case ip of None \<Rightarrow> None | Some s \<Rightarrow> if s = [] then None else Some (rt_sha256 e s))"

section \<open>Gates\<close>

definition vehicleExists :: "('a) store_db_scheme \<Rightarrow> vin \<Rightarrow> bool" where
  "vehicleExists db vin = list_ex (\<lambda>v. v_vin v = vin) (vehicles db)"

definition memberMayBeCollected :: "('a) store_db_scheme \<Rightarrow> vin \<Rightarrow> bool" where
  "memberMayBeCollected db vin =
     list_ex (\<lambda>v. v_vin v = vin \<and>
       list_ex (\<lambda>m. v_member v = Some (m_id m) \<and>
         list_ex (\<lambda>c. c_member c = m_id m \<and> c_revoked_at c = None) (consents db))
       (members db)) (vehicles db)"

fun insert_rejections ::
  "('e) runtime_scheme \<Rightarrow> string \<Rightarrow> vin option \<Rightarrow> rejection_reason \<Rightarrow> iso option \<Rightarrow> iso \<Rightarrow>
   field_key list \<Rightarrow> ('a) store_db_scheme \<Rightarrow> ('a) store_db_scheme" where
  "insert_rejections e run vin reason obs created [] db = db"
| "insert_rejections e run vin reason obs created (k # ks) db =
     (let (i, db1) = fresh_id e db
      in insert_rejections e run vin reason obs created ks
           (db1\<lparr>rejections := rejections db1 @
              [\<lparr>rj_id = i, rj_run = run, rj_vin = vin, rj_field = k, rj_reason = reason,
                rj_observed_at = obs, rj_created_at = created\<rparr>]\<rparr>))"

text \<open>\<open>[...new Set(xs)]\<close>: the first occurrence of each element, in order.\<close>

definition js_set :: "'a list \<Rightarrow> 'a list" where
  "js_set xs = rev (remdups (rev xs))"

definition recordRejections ::
  "('e) runtime_scheme \<Rightarrow> string \<Rightarrow> vin option \<Rightarrow> field_key list \<Rightarrow> rejection_reason \<Rightarrow> iso option \<Rightarrow>
   iso \<Rightarrow> ('a) store_db_scheme \<Rightarrow> nat \<times> ('a) store_db_scheme" where
  "recordRejections e run vin keys reason obs created db =
     (let unique = js_set keys
      in if unique = [] then (0, db)
         else (length unique, insert_rejections e run vin reason obs created unique db))"

text \<open>
  The comparison of the shared secret: the encoded bytes are folded with exclusive or into a
  32-bit accumulator over the longer length, an absent byte reading as 0.  The texts are lists of
  16-bit code units.
\<close>

definition byte_at :: "8 word list \<Rightarrow> nat \<Rightarrow> 32 word" where
  "byte_at bs i = (if i < length bs then ucast (bs ! i) else 0)"

definition timingSafeEqual :: "text16 \<Rightarrow> text16 \<Rightarrow> bool" where
  "timingSafeEqual a b =
     (let left = text_encode a;
          right = text_encode b;
          diff0 = word_of_nat (length left) XOR word_of_nat (length right) :: 32 word;
          longest = max (length left) (length right);
          diff = foldl (\<lambda>diff i. diff OR (byte_at left i XOR byte_at right i)) diff0 [0 ..< longest]
      in diff = 0)"

section \<open>Members and vehicles\<close>

record member_identity =
  id_tesla_sub :: "string option"
  id_tesla_email :: "string option"
  id_display_name :: "string option"

definition sql_coalesce :: "'a option \<Rightarrow> 'a option \<Rightarrow> 'a option" where
  "sql_coalesce a b = (case a of None \<Rightarrow> b | Some x \<Rightarrow> Some x)"

definition upsertMember ::
  "('e) runtime_scheme \<Rightarrow> member_identity \<Rightarrow> iso \<Rightarrow> ('a) store_db_scheme \<Rightarrow>
   string + (member_id \<times> ('a) store_db_scheme)" where
  "upsertMember e idn nowIso db =
     (case id_tesla_sub idn of
        None \<Rightarrow> Inl ''a Tesla `sub` claim is required to identify a member''
      | Some sub \<Rightarrow>
          if sub = [] then Inl ''a Tesla `sub` claim is required to identify a member''
          else (case first_where (\<lambda>m. m_tesla_sub m = Some sub) (members db) of
              Some existing \<Rightarrow>
                Inr (m_id existing,
                  db\<lparr>members := update_where (\<lambda>m. m_id m = m_id existing)
                    (\<lambda>m. m\<lparr>m_tesla_email := sql_coalesce (id_tesla_email idn) (m_tesla_email m),
                           m_display_name := sql_coalesce (id_display_name idn) (m_display_name m),
                           m_updated_at := nowIso\<rparr>) (members db)\<rparr>)
            | None \<Rightarrow>
                (let (memberId, db1) = fresh_id e db
                 in Inr (memberId,
                   db1\<lparr>members := members db1 @
                     [\<lparr>m_id = memberId, m_toca_status = ''unknown'', m_email = id_tesla_email idn,
                       m_display_name = id_display_name idn, m_tesla_sub = Some sub,
                       m_tesla_email = id_tesla_email idn, m_mobile = None, m_postcode = None,
                       m_tier = ''toca'', m_created_at = nowIso, m_updated_at = nowIso\<rparr>]\<rparr>))))"

text \<open>The conflict clause of \<open>upsertVehicles\<close> writes the name and the last sighting only.\<close>

definition merge_vehicle :: "vehicle_row \<Rightarrow> vehicle_row \<Rightarrow> vehicle_row" where
  "merge_vehicle old new =
     old\<lparr>v_display_name := sql_coalesce (v_display_name new) (v_display_name old),
         v_last_seen_at := v_last_seen_at new\<rparr>"

definition put_vehicle :: "vehicle_row \<Rightarrow> ('a) store_db_scheme \<Rightarrow> ('a) store_db_scheme" where
  "put_vehicle r db = db\<lparr>vehicles := upsert_by v_vin merge_vehicle r (vehicles db)\<rparr>"

definition vehicle_of :: "('a) store_db_scheme \<Rightarrow> vin \<Rightarrow> vehicle_row option" where
  "vehicle_of db vin = first_where (\<lambda>v. v_vin v = vin) (vehicles db)"

fun upsertVehicles ::
  "member_id \<Rightarrow> (vin \<times> string option) list \<Rightarrow> iso \<Rightarrow> ('a) store_db_scheme \<Rightarrow> ('a) store_db_scheme" where
  "upsertVehicles memberId [] nowIso db = db"
| "upsertVehicles memberId ((vin, name) # vs) nowIso db =
     (if vin = [] then upsertVehicles memberId vs nowIso db
      else upsertVehicles memberId vs nowIso
        (put_vehicle \<lparr>v_vin = vin, v_member = Some memberId, v_display_name = name, v_model = None,
           v_first_seen_at = nowIso, v_last_seen_at = Some nowIso\<rparr> db))"

definition vinsForMember :: "('a) store_db_scheme \<Rightarrow> member_id \<Rightarrow> vin list" where
  "vinsForMember db memberId =
     map v_vin (filter (\<lambda>v. v_member v = Some memberId) (vehicles db))"

section \<open>Consent\<close>

definition CONSENT_POLICY_VERSION :: string where
  "CONSENT_POLICY_VERSION = ''2026-10-03.2''"

definition CONSENTED_FIELDS :: "field_key list" where
  "CONSENTED_FIELDS =
    [''Odometer'', ''MilesSinceReset'', ''SelfDrivingMilesSinceReset'', ''CarType'', ''Version'',
     ''EfficiencyPackage'', ''Trim'', ''AutomaticBlindSpotCamera'', ''SpeedLimitMode'',
     ''SpeedLimitWarning'', ''SentryMode'', ''AutomaticEmergencyBrakingOff'',
     ''BlindSpotCollisionWarningChime'', ''EmergencyLaneDepartureAvoidance'', ''PinToDriveEnabled'']"

definition CONSENT_PURPOSES :: "string list" where
  "CONSENT_PURPOSES = [''insurance'']"

definition recordConsent ::
  "('e) runtime_scheme \<Rightarrow> member_id \<Rightarrow> vin option \<Rightarrow> string \<Rightarrow> string option \<Rightarrow> string option \<Rightarrow> iso \<Rightarrow>
   ('a) store_db_scheme \<Rightarrow> (string \<times> string) \<times> ('a) store_db_scheme" where
  "recordConsent e memberId vin scope ip userAgent nowIso db =
     (let (consentId, db1) = fresh_id e db;
          policySha256 = rt_sha256 e (rt_consent_text e)
      in ((consentId, policySha256),
          db1\<lparr>consents := consents db1 @
            [\<lparr>c_id = consentId, c_member = memberId, c_vin = vin, c_scope_granted = scope,
              c_policy_version = CONSENT_POLICY_VERSION, c_purposes = CONSENT_PURPOSES,
              c_granted_at = nowIso, c_revoked_at = None, c_revoke_reason = None,
              c_policy_sha256 = Some policySha256, c_collected_fields = CONSENTED_FIELDS,
              c_recipients = [], c_ip_hash = hashIp e ip, c_user_agent = userAgent\<rparr>]\<rparr>))"

text \<open>\<open>ON CONFLICT (policy_version) DO NOTHING\<close>.\<close>

definition ensureConsentPolicy ::
  "('e) runtime_scheme \<Rightarrow> iso \<Rightarrow> ('a) store_db_scheme \<Rightarrow> string \<times> ('a) store_db_scheme" where
  "ensureConsentPolicy e nowIso db =
     (let policySha256 = rt_sha256 e (rt_consent_text e)
      in (policySha256,
          db\<lparr>consent_policies := upsert_by cp_version (\<lambda>old new. old)
            \<lparr>cp_version = CONSENT_POLICY_VERSION, cp_sha256 = policySha256,
             cp_text = rt_consent_text e, cp_effective_from = nowIso\<rparr> (consent_policies db)\<rparr>))"

definition activeConsent :: "('a) store_db_scheme \<Rightarrow> member_id \<Rightarrow> consent_row option" where
  "activeConsent db memberId =
     latest_by c_granted_at
       (filter (\<lambda>c. c_member c = memberId \<and> c_revoked_at c = None) (consents db))"

definition revokeConsent ::
  "member_id \<Rightarrow> string \<Rightarrow> iso \<Rightarrow> ('a) store_db_scheme \<Rightarrow> nat \<times> ('a) store_db_scheme" where
  "revokeConsent memberId reason nowIso db =
     (let open_row = (\<lambda>c. c_member c = memberId \<and> c_revoked_at c = None)
      in (count_where open_row (consents db),
          db\<lparr>consents := update_where open_row
            (\<lambda>c. c\<lparr>c_revoked_at := Some nowIso, c_revoke_reason := Some reason\<rparr>) (consents db)\<rparr>))"

section \<open>Tokens, audit, sessions\<close>

text \<open>
  \<open>storeTokens\<close> receives the token already sealed (\<open>sealToken\<close> of \<open>crypto.ts\<close> is AES-GCM of the
  platform): the outgoing token moves to the previous slot.
\<close>

definition storeTokens ::
  "member_id \<Rightarrow> sealed_token \<Rightarrow> string \<Rightarrow> iso \<Rightarrow> string option \<Rightarrow> iso \<Rightarrow>
   ('a) store_db_scheme \<Rightarrow> ('a) store_db_scheme" where
  "storeTokens memberId sealed scope expiresAt teslaSub nowIso db =
     (case first_where (\<lambda>r. o_member r = memberId) (oauth_tokens db) of
        Some existing \<Rightarrow>
          db\<lparr>oauth_tokens := update_where (\<lambda>r. o_member r = memberId)
            (\<lambda>r. r\<lparr>o_previous := Some (fst (o_refresh existing), fst (snd (o_refresh existing))),
                   o_previous_rotated_at := Some nowIso,
                   o_refresh := sealed, o_expires_at := Some expiresAt, o_scope := scope,
                   o_tesla_sub := sql_coalesce teslaSub (o_tesla_sub r),
                   o_updated_at := nowIso, o_last_refreshed_at := Some nowIso,
                   o_last_error := None, o_revoked_at := None\<rparr>) (oauth_tokens db)\<rparr>
      | None \<Rightarrow>
          db\<lparr>oauth_tokens := oauth_tokens db @
            [\<lparr>o_member = memberId, o_refresh = sealed, o_previous = None, o_previous_rotated_at = None,
              o_expires_at = Some expiresAt, o_scope = scope, o_tesla_sub = teslaSub,
              o_updated_at = nowIso, o_last_refreshed_at = Some nowIso, o_last_error = None,
              o_revoked_at = None\<rparr>]\<rparr>)"

definition audit ::
  "('e) runtime_scheme \<Rightarrow> string \<Rightarrow> string option \<Rightarrow> string option \<Rightarrow> string option \<Rightarrow> string option \<Rightarrow>
   json option \<Rightarrow> iso \<Rightarrow> ('a) store_db_scheme \<Rightarrow> ('a) store_db_scheme" where
  "audit e action actor actorType subjectType subjectId detail nowIso db =
     (let (i, db1) = fresh_id e db
      in db1\<lparr>audits := audits db1 @
           [\<lparr>a_id = i, a_occurred_at = nowIso, a_actor = actor,
             a_actor_type = (case actorType of None \<Rightarrow> ''system'' | Some t \<Rightarrow> t),
             a_action = action, a_subject_type = subjectType, a_subject_id = subjectId,
             a_detail = detail\<rparr>]\<rparr>)"

definition createSession ::
  "string \<Rightarrow> member_id \<Rightarrow> string \<Rightarrow> iso \<Rightarrow> string option \<Rightarrow> iso \<Rightarrow>
   ('a) store_db_scheme \<Rightarrow> ('a) store_db_scheme" where
  "createSession sessionId memberId scope expiresAt userAgent nowIso db =
     db\<lparr>sessions := sessions db @
       [\<lparr>s_id = sessionId, s_member = memberId, s_scope = scope, s_created_at = nowIso,
         s_expires_at = expiresAt, s_user_agent = userAgent\<rparr>]\<rparr>"

section \<open>The collected field set and the telemetry configuration\<close>

record collected_field =
  cf_key :: field_key
  cf_tier :: tier
  cf_min_delta :: "rat option"
  cf_interval :: int

text \<open>The inner join of the catalog with the enabled entries of the global scope.\<close>

definition collectedFields :: "('a) store_db_scheme \<Rightarrow> collected_field list" where
  "collectedFields db =
     sort_key cf_key
       (concat (map (\<lambda>c.
          map (\<lambda>en. \<lparr>cf_key = fc_key c, cf_tier = fc_tier c, cf_min_delta = fc_min_delta c,
                     cf_interval = e_interval en\<rparr>)
            (filter (\<lambda>en. e_field en = fc_key c \<and> e_scope en = ''global'' \<and> e_enabled en) (entries db)))
        (filter fc_collected (catalog db))))"

definition DEFAULT_TELEMETRY_HOST :: string where
  "DEFAULT_TELEMETRY_HOST = ''telemetry.afirmi.co''"

definition telemetryTarget :: "('a) store_db_scheme \<Rightarrow> string \<times> int" where
  "telemetryTarget db =
     (case latest_by tc_created_at (filter (\<lambda>r. tc_state r = CActive) (telemetry_configs db)) of
        Some r \<Rightarrow> (tc_hostname r, tc_port r)
      | None \<Rightarrow> (DEFAULT_TELEMETRY_HOST, 443))"

definition merge_telemetry_config ::
  "telemetry_config_row \<Rightarrow> telemetry_config_row \<Rightarrow> telemetry_config_row" where
  "merge_telemetry_config old new =
     old\<lparr>tc_state := tc_state new, tc_skip_reason := tc_skip_reason new,
         tc_applied_at := tc_applied_at new, tc_verified_at := tc_verified_at new,
         tc_last_error := tc_last_error new\<rparr>"

definition upsertTelemetryConfig ::
  "telemetry_config_row \<Rightarrow> ('a) store_db_scheme \<Rightarrow> ('a) store_db_scheme" where
  "upsertTelemetryConfig rec db =
     db\<lparr>telemetry_configs := upsert_by tc_id merge_telemetry_config rec (telemetry_configs db)\<rparr>"

definition telemetry_config_of :: "('a) store_db_scheme \<Rightarrow> string \<Rightarrow> telemetry_config_row option" where
  "telemetry_config_of db i = first_where (\<lambda>r. tc_id r = i) (telemetry_configs db)"

definition markConfigRemoved ::
  "vin \<Rightarrow> iso \<Rightarrow> ('a) store_db_scheme \<Rightarrow> nat \<times> ('a) store_db_scheme" where
  "markConfigRemoved vin nowIso db =
     (let live = (\<lambda>r. tc_vin r = vin \<and> tc_state r \<in> {CActive, CPending, CFailed, CSkipped})
      in (count_where live (telemetry_configs db),
          db\<lparr>telemetry_configs := update_where live
            (\<lambda>r. r\<lparr>tc_state := CRemoved, tc_verified_at := Some nowIso\<rparr>) (telemetry_configs db)\<rparr>))"

section \<open>The keyed tables of this component\<close>

lemma merge_vehicle_vin [simp]: "v_vin (merge_vehicle old new) = v_vin old"
  by (simp add: merge_vehicle_def)

lemma merge_vehicle_member [simp]: "v_member (merge_vehicle old new) = v_member old"
  by (simp add: merge_vehicle_def)

lemma merge_telemetry_config_id [simp]: "tc_id (merge_telemetry_config old new) = tc_id old"
  by (simp add: merge_telemetry_config_def)

interpretation vehicle_table: upsert_table put_vehicle vehicle_of v_vin merge_vehicle
  by unfold_locales
    (simp_all add: put_vehicle_def vehicle_of_def find_upsert_same find_upsert_other)

interpretation telemetry_config_table:
  upsert_table upsertTelemetryConfig telemetry_config_of tc_id merge_telemetry_config
  by unfold_locales
    (simp_all add: upsertTelemetryConfig_def telemetry_config_of_def find_upsert_same find_upsert_other)

lemma upsertVehicles_owner:
  "vehicle_of db vin = Some v \<Longrightarrow>
   \<exists>v'. vehicle_of (upsertVehicles memberId vs nowIso db) vin = Some v' \<and> v_member v' = v_member v
     \<and> v_first_seen_at v' = v_first_seen_at v"
proof (induction memberId vs nowIso db arbitrary: v rule: upsertVehicles.induct)
  case (1 memberId nowIso db)
  then show ?case by simp
next
  case (2 memberId x name vs nowIso db)
  let ?r = "\<lparr>v_vin = x, v_member = Some memberId, v_display_name = name, v_model = None,
     v_first_seen_at = nowIso, v_last_seen_at = Some nowIso\<rparr>"
  have "\<exists>w. vehicle_of (put_vehicle ?r db) vin = Some w \<and> v_member w = v_member v
     \<and> v_first_seen_at w = v_first_seen_at v"
    using "2.prems" vehicle_table.get_put_same [of ?r db] vehicle_table.get_put_other [of vin ?r db]
    by (cases "vin = x") (auto simp: merge_vehicle_def)
  with "2.IH" "2.prems" show ?case by fastforce
qed

section \<open>The shared secret\<close>

lemma foldl_OR_zero:
  fixes d :: "32 word"
  shows "foldl (\<lambda>d i. d OR f i) d xs = 0 \<longleftrightarrow> d = 0 \<and> (\<forall>i \<in> set xs. f i = 0)"
proof (induction xs arbitrary: d)
  case Nil
  then show ?case by simp
next
  case (Cons x xs)
  have "d OR f x = 0 \<longleftrightarrow> d = 0 \<and> f x = 0" by (auto simp: or_eq_0_iff)
  with Cons show ?case by auto
qed

lemma ucast_32_inj: "(ucast (x :: 8 word) :: 32 word) = ucast y \<longleftrightarrow> x = y"
proof
  assume "(ucast x :: 32 word) = ucast y"
  then have "(ucast (ucast x :: 32 word) :: 8 word) = ucast (ucast y :: 32 word)" by simp
  then show "x = y" by (simp add: ucast_up_ucast_id is_up)
qed simp

lemma xor_zero_iff: "(x :: 32 word) XOR y = 0 \<longleftrightarrow> x = y"
  by (metis xor.right_neutral xor_self_eq bit.xor_left_self)

section \<open>Identifiers\<close>

lemma time_part_acc: "time_part i r acc = time_part i r [] @ acc"
proof (induction i arbitrary: r acc)
  case 0
  then show ?case by simp
next
  case (Suc i)
  from Suc [of "r div 32" "CROCKFORD ! (r mod 32) # acc"]
    Suc [of "r div 32" "[CROCKFORD ! (r mod 32)]"]
  show ?case by simp
qed

lemma append_less_same: "p @ (x::string) < p @ y \<longleftrightarrow> x < y"
  by (induction p) simp_all

lemma CROCKFORD_ascending: "sorted_wrt (<) CROCKFORD"
  by (simp add: CROCKFORD_def less_char_def)

lemma CROCKFORD_nth_less: "i < j \<Longrightarrow> j < 32 \<Longrightarrow> CROCKFORD ! i < CROCKFORD ! j"
  by (rule sorted_wrt_nth_less [OF CROCKFORD_ascending]) (simp_all add: CROCKFORD_def)

lemma time_part_less:
  "r < s \<Longrightarrow> s < 32 ^ i \<Longrightarrow> time_part i r [] @ x < time_part i s [] @ y"
proof (induction i arbitrary: r s x y)
  case 0
  then show ?case by simp
next
  case (Suc i)
  let ?c = "\<lambda>n. CROCKFORD ! (n mod 32)"
  have unfold: "time_part (Suc i) n [] @ z = time_part i (n div 32) [] @ (?c n # z)" for n z
    by (simp add: time_part_acc [of i "n div 32" "[?c n]"])
  from Suc.prems have bound: "s div 32 < 32 ^ i" by (simp add: less_mult_imp_div_less mult.commute)
  show ?case
  proof (cases "r div 32 < s div 32")
    case True
    show ?thesis unfolding unfold by (rule Suc.IH [OF True bound])
  next
    case False
    with Suc.prems(1) have eq: "r div 32 = s div 32" by (meson div_le_mono le_antisym less_imp_le not_le)
    with Suc.prems(1) have "r mod 32 < s mod 32"
      by (metis div_mult_mod_eq nat_add_left_cancel_less)
    then have "?c r < ?c s" by (rule CROCKFORD_nth_less) simp
    then show ?thesis unfolding unfold eq append_less_same by simp
  qed
qed

section \<open>Consent history\<close>

text \<open>What one consent row may become: it is closed once, and a closed row never changes.\<close>

definition consent_evolves :: "consent_row \<Rightarrow> consent_row \<Rightarrow> bool" where
  "consent_evolves c c' \<longleftrightarrow>
     c' = c \<or> (c_revoked_at c = None \<and>
       (\<exists>t why. c' = c\<lparr>c_revoked_at := Some t, c_revoke_reason := Some why\<rparr>))"

lemma consent_evolves_refl [simp]: "consent_evolves c c"
  by (simp add: consent_evolves_def)

lemma consent_evolves_trans:
  "consent_evolves a b \<Longrightarrow> consent_evolves b c \<Longrightarrow> consent_evolves a c"
  unfolding consent_evolves_def by auto

datatype consent_event =
    Grant member_id "vin option" string "string option" "string option" iso
  | Revoke member_id string iso

fun consent_step ::
  "('e) runtime_scheme \<Rightarrow> consent_event \<Rightarrow> ('a) store_db_scheme \<Rightarrow> ('a) store_db_scheme" where
  "consent_step e (Grant mem vin scope ip ua now) db = snd (recordConsent e mem vin scope ip ua now db)"
| "consent_step e (Revoke mem reason now) db = snd (revokeConsent mem reason now db)"

definition consent_history_extends :: "consent_row list \<Rightarrow> consent_row list \<Rightarrow> bool" where
  "consent_history_extends cs cs' \<longleftrightarrow>
     length cs \<le> length cs' \<and> (\<forall>i < length cs. consent_evolves (cs ! i) (cs' ! i))"

lemma consent_history_trans:
  "consent_history_extends a b \<Longrightarrow> consent_history_extends b c \<Longrightarrow> consent_history_extends a c"
  unfolding consent_history_extends_def by (meson consent_evolves_trans le_trans less_le_trans)

lemma consents_recordConsent:
  "\<exists>c. consents (snd (recordConsent e mem vin scope ip ua now db)) = consents db @ [c]
     \<and> c_member c = mem \<and> c_revoked_at c = None \<and> c_granted_at c = now"
  by (simp add: recordConsent_def fresh_id_def Let_def)

lemma consent_step_extends:
  "consent_history_extends (consents db) (consents (consent_step e ev db))"
proof (cases ev)
  case (Grant mem vin scope ip ua now)
  with consents_recordConsent [of e mem vin scope ip ua now db] show ?thesis
    by (auto simp: consent_history_extends_def nth_append)
next
  case (Revoke mem reason now)
  then show ?thesis
    by (auto simp: consent_history_extends_def revokeConsent_def update_where_def Let_def
        consent_evolves_def)
qed

lemma memberMayBeCollected_iff:
  "memberMayBeCollected db vin \<longleftrightarrow>
     (\<exists>v \<in> set (vehicles db). v_vin v = vin \<and>
       (\<exists>m \<in> set (members db). v_member v = Some (m_id m) \<and>
         (\<exists>c \<in> set (consents db). c_member c = m_id m \<and> c_revoked_at c = None)))"
  by (simp add: memberMayBeCollected_def list_ex_iff)

lemma open_consent_after_revoke:
  "(\<exists>c \<in> set (consents (snd (revokeConsent mem reason now db))).
      c_member c = mem' \<and> c_revoked_at c = None) \<longleftrightarrow>
   mem' \<noteq> mem \<and> (\<exists>c \<in> set (consents db). c_member c = mem' \<and> c_revoked_at c = None)"
  by (auto simp: revokeConsent_def Let_def set_update_where)

lemma tables_revokeConsent [frame_simps]:
  "vehicles (snd (revokeConsent mem reason now db)) = vehicles db"
  "members (snd (revokeConsent mem reason now db)) = members db"
  by (simp_all add: revokeConsent_def Let_def)

section \<open>Members\<close>

definition distinct_subs :: "('a) store_db_scheme \<Rightarrow> bool" where
  "distinct_subs db \<longleftrightarrow> distinct (map m_tesla_sub (filter (\<lambda>m. m_tesla_sub m \<noteq> None) (members db)))"

lemma update_where_member_subs:
  assumes "\<And>m. m_tesla_sub (f m) = m_tesla_sub m"
  shows "map m_tesla_sub (filter (\<lambda>m. m_tesla_sub m \<noteq> None) (update_where P f ms)) =
    map m_tesla_sub (filter (\<lambda>m. m_tesla_sub m \<noteq> None) ms)"
  using assms by (induction ms) auto

section \<open>Properties\<close>

text \<open>C17: for texts whose encoding fits the 32-bit accumulator the constant-time comparison
  decides whether their UTF-8 encodings are equal, which is whether they have the same code
  points, a surrogate without its partner reading as U+FFFD; so it decides equality of texts in
  which every surrogate has its partner, and of these only.\<close>

theorem timingSafeEqual_correct:
  assumes "length (text_encode a) < 2 ^ 32" and "length (text_encode b) < 2 ^ 32"
  shows "(timingSafeEqual a b \<longleftrightarrow> code_points a = code_points b) \<and>
    (well_paired a \<and> well_paired b \<longrightarrow> (timingSafeEqual a b \<longleftrightarrow> a = b))"
proof -
  let ?l = "text_encode a" and ?r = "text_encode b"
  have len: "word_of_nat (length ?l) = (word_of_nat (length ?r) :: 32 word) \<longleftrightarrow> length ?l = length ?r"
    using assms by (simp add: word_of_nat_eq_iff take_bit_nat_eq_self)
  have bytes: "length ?l = length ?r \<Longrightarrow> (\<forall>i < length ?l. byte_at ?l i = byte_at ?r i) \<longleftrightarrow> ?l = ?r"
    by (auto simp: byte_at_def list_eq_iff_nth_eq ucast_32_inj)
  have "timingSafeEqual a b \<longleftrightarrow> ?l = ?r"
    unfolding timingSafeEqual_def Let_def foldl_OR_zero xor_zero_iff len using bytes by auto
  then show ?thesis using code_points_inj [of a b] by (auto simp: text_encode_points)
qed

theorem timingSafeEqual_correct_witness:
  "timingSafeEqual (code_units ''s3cret'') (code_units ''s3cret'') \<and>
   \<not> timingSafeEqual (code_units ''s3cret'') (code_units ''s3cre'') \<and> timingSafeEqual [0xD800] [0xDC01]"
proof -
  have "length (text_encode (code_units ''s3cret'')) = 6" "length (text_encode (code_units ''s3cre'')) = 5"
    "length (text_encode [0xD800]) = 3" "length (text_encode [0xDC01]) = 3"
    by (simp_all add: text_encode_def code_units_def high_surrogate_def low_surrogate_def utf8_bytes_def)
  then show ?thesis
    using timingSafeEqual_correct [of "code_units ''s3cret''" "code_units ''s3cret''"]
      timingSafeEqual_correct [of "code_units ''s3cret''" "code_units ''s3cre''"]
      timingSafeEqual_correct [of "[0xD800]" "[0xDC01]"]
      code_points_inj [of "code_units ''s3cret''" "code_units ''s3cre''"]
    by (simp add: high_surrogate_def low_surrogate_def)
qed

text \<open>Identifiers sort by the millisecond they were drawn in, whatever random bytes follow, as
  long as the clock fits the 50 bits of the time part.\<close>

theorem newId_sortable:
  assumes "m < n" and "n < 32 ^ 10"
  shows "newId m bs < newId n cs"
  unfolding newId_def by (rule time_part_less [OF assms])

theorem newId_sortable_witness:
  "newId 1760000000000 [255] < newId 1760000000001 [0]"
  by (rule newId_sortable) simp_all

text \<open>Revoking a member's consent takes exactly that member's vehicles out of collection: the
  ingest gate afterwards is the gate over the vehicles of the other members.\<close>

theorem revokeConsent_stops_collection:
  "memberMayBeCollected (snd (revokeConsent mem reason now db)) vin \<longleftrightarrow>
   memberMayBeCollected (db\<lparr>vehicles := filter (\<lambda>v. v_member v \<noteq> Some mem) (vehicles db)\<rparr>) vin"
  by (fastforce simp: memberMayBeCollected_iff open_consent_after_revoke frame_simps)

text \<open>Whatever grants and revocations follow, the consent history is append-only: no row is
  removed or reordered, a row is closed at most once, and a closed row never changes again.\<close>

theorem consent_history_append_only:
  "consent_history_extends (consents db) (consents (fold (consent_step e) evs db))"
proof (induction evs arbitrary: db)
  case Nil
  then show ?case by (simp add: consent_history_extends_def)
next
  case (Cons ev evs)
  from consent_history_trans [OF consent_step_extends Cons.IH [of "consent_step e ev db"]]
  show ?case by simp
qed

text \<open>A reconnect with a known Tesla subject returns the member it belongs to and leaves the
  verified membership status, the contact details and the set of subjects as they were.\<close>

theorem upsertMember_reconnect:
  assumes "sub \<noteq> []" and "id_tesla_sub idn = Some sub"
    and "first_where (\<lambda>m. m_tesla_sub m = Some sub) (members db) = Some known"
  shows "\<exists>db'. upsertMember e idn now db = Inr (m_id known, db') \<and>
    map (\<lambda>m. (m_id m, m_toca_status m, m_tesla_sub m, m_mobile m, m_postcode m)) (members db') =
    map (\<lambda>m. (m_id m, m_toca_status m, m_tesla_sub m, m_mobile m, m_postcode m)) (members db)"
  using assms by (simp add: upsertMember_def map_update_where)

definition sample_member :: member_row where
  "sample_member = \<lparr>m_id = ''M1'', m_toca_status = ''verified_toca'', m_email = None,
     m_display_name = None, m_tesla_sub = Some ''sub-1'', m_tesla_email = None, m_mobile = None,
     m_postcode = None, m_tier = ''toca'', m_created_at = ''t0'', m_updated_at = ''t0''\<rparr>"

definition sample_vehicle :: vehicle_row where
  "sample_vehicle = \<lparr>v_vin = ''V1'', v_member = Some ''M1'', v_display_name = None, v_model = None,
     v_first_seen_at = ''t0'', v_last_seen_at = None\<rparr>"

definition sample_store :: store_db where
  "sample_store = \<lparr>tick = 0, members = [sample_member], vehicles = [sample_vehicle], consents = [],
     consent_policies = [], oauth_tokens = [], audits = [], sessions = [], catalog = [],
     entries = [], telemetry_configs = [], rejections = []\<rparr>"

definition sample_runtime :: runtime where
  "sample_runtime = \<lparr>rt_clock = (\<lambda>n. ''2026-10-0'' @ nat_text (n mod 9 + 1)), rt_millis = (\<lambda>n. 1760000000000 + n),
     rt_random = (\<lambda>_. replicate 16 0), rt_sha256 = (\<lambda>s. ''h'' @ s), rt_consent_text = ''text'',
     rt_num_text = (\<lambda>q. nat_text (nat \<lfloor>q\<rfloor>))\<rparr>"

definition sample_identity :: member_identity where
  "sample_identity = \<lparr>id_tesla_sub = Some ''sub-1'', id_tesla_email = Some ''a@b'', id_display_name = None\<rparr>"

theorem upsertMember_reconnect_witness:
  "\<exists>db'. upsertMember sample_runtime sample_identity ''t1'' sample_store = Inr (m_id sample_member, db') \<and>
    map (\<lambda>m. (m_id m, m_toca_status m, m_tesla_sub m, m_mobile m, m_postcode m)) (members db') =
    map (\<lambda>m. (m_id m, m_toca_status m, m_tesla_sub m, m_mobile m, m_postcode m)) (members sample_store)"
  by (rule upsertMember_reconnect [where sub = "''sub-1''"])
    (simp_all add: sample_identity_def sample_store_def sample_member_def)

text \<open>Registering the vehicles Tesla returned never moves a known vehicle to another member,
  whoever connects and however often the vehicle is listed.\<close>

theorem upsertVehicles_keeps_owner:
  assumes "vehicle_of db vin = Some v"
  shows "map_option v_member (vehicle_of (upsertVehicles memberId vs now db) vin) = Some (v_member v)"
  using upsertVehicles_owner [OF assms, of memberId vs now] by auto

theorem upsertVehicles_keeps_owner_witness:
  "map_option v_member (vehicle_of (upsertVehicles ''M2'' [(''V1'', None), (''V1'', Some ''car'')] ''t1''
     sample_store) ''V1'') = Some (v_member sample_vehicle)"
  by (rule upsertVehicles_keeps_owner) (simp add: vehicle_of_def sample_store_def sample_vehicle_def)

text \<open>Storing a rotated refresh token keeps the outgoing one in the previous slot, so a member
  always has the last two sealed tokens, and clears an earlier revocation or error.\<close>

theorem storeTokens_rotates:
  assumes "first_where (\<lambda>r. o_member r = mem) (oauth_tokens db) = Some old"
  shows "\<exists>r. first_where (\<lambda>r. o_member r = mem)
      (oauth_tokens (storeTokens mem sealed scope expires sub now db)) = Some r
    \<and> o_refresh r = sealed
    \<and> o_previous r = Some (fst (o_refresh old), fst (snd (o_refresh old)))
    \<and> o_last_error r = None \<and> o_revoked_at r = None"
  using assms by (simp add: storeTokens_def find_update_where_same)

definition sample_token :: oauth_row where
  "sample_token = \<lparr>o_member = ''M1'', o_refresh = (''ct0'', ''iv0'', 1), o_previous = None,
     o_previous_rotated_at = None, o_expires_at = None, o_scope = ''s'', o_tesla_sub = None,
     o_updated_at = ''t0'', o_last_refreshed_at = None, o_last_error = None, o_revoked_at = Some ''t0''\<rparr>"

theorem storeTokens_rotates_witness:
  "\<exists>r. first_where (\<lambda>r. o_member r = ''M1'')
      (oauth_tokens (storeTokens ''M1'' (''ct1'', ''iv1'', 1) ''s'' ''t9'' None ''t1''
        (sample_store\<lparr>oauth_tokens := [sample_token]\<rparr>))) = Some r
    \<and> o_refresh r = (''ct1'', ''iv1'', 1)
    \<and> o_previous r = Some (fst (o_refresh sample_token), fst (snd (o_refresh sample_token)))
    \<and> o_last_error r = None \<and> o_revoked_at r = None"
  by (rule storeTokens_rotates) (simp add: sample_token_def)

end
