(* ===== verification/ConfigScope.thy ===== *)
theory ConfigScope
  imports Store
begin

text \<open>
  \<open>config-scope.ts\<close> and \<open>config-groups.ts\<close>: the effective telemetry configuration of a vehicle
  (vehicle over group over global, field by field) and the owner-curated groups it draws on.
  The tables carry the constraints of \<open>migrations/0016_config_scopes.sql\<close>: a statement that
  violates one throws, and deleting a group deletes its members, its scope and the entries of
  that scope.
\<close>

section \<open>Rows\<close>

record group_row =
  g_id :: string
  g_name :: string
  g_description :: "string option"
  g_created_at :: iso
  g_updated_at :: iso

record group_member_row =
  gm_group :: string
  gm_vin :: vin
  gm_added_at :: iso

datatype scope_kind = Scope_global | Scope_group | Scope_vehicle

record scope_row =
  sc_id :: string
  sc_kind :: scope_kind
  sc_group :: "string option"
  sc_vin :: "vin option"

record config_db = store_db +
  groups :: "group_row list"
  group_members :: "group_member_row list"
  scopes :: "scope_row list"

section \<open>Groups\<close>

definition createVehicleGroup ::
  "string \<Rightarrow> string \<Rightarrow> string option \<Rightarrow> iso \<Rightarrow> ('a) config_db_scheme \<Rightarrow>
   string + (group_row \<times> ('a) config_db_scheme)" where
  "createVehicleGroup group_id name description nowIso db =
     (if list_ex (\<lambda>g. g_id g = group_id \<or> g_name g = name) (groups db)
      then Inl ''UNIQUE constraint failed''
      else (let g = \<lparr>g_id = group_id, g_name = name, g_description = description,
                     g_created_at = nowIso, g_updated_at = nowIso\<rparr>
            in Inr (g, db\<lparr>groups := groups db @ [g]\<rparr>)))"

definition getVehicleGroup :: "('a) config_db_scheme \<Rightarrow> string \<Rightarrow> group_row option" where
  "getVehicleGroup db group_id = first_where (\<lambda>g. g_id g = group_id) (groups db)"

text \<open>\<open>ORDER BY k DESC\<close>, equal keys in insertion order.\<close>

definition order_desc :: "('r \<Rightarrow> 'k::linorder) \<Rightarrow> 'r list \<Rightarrow> 'r list" where
  "order_desc k rows = rev (sort_key k (rev rows))"

definition listVehicleGroups :: "('a) config_db_scheme \<Rightarrow> group_row list" where
  "listVehicleGroups db = order_desc g_created_at (groups db)"

definition updateVehicleGroup ::
  "string \<Rightarrow> string option \<Rightarrow> string option \<Rightarrow> iso \<Rightarrow> ('a) config_db_scheme \<Rightarrow>
   string + (nat \<times> ('a) config_db_scheme)" where
  "updateVehicleGroup group_id name description nowIso db =
     (if name = None \<and> description = None then Inr (0, db)
      else if (\<exists>n. name = Some n \<and> list_ex (\<lambda>g. g_id g = group_id) (groups db) \<and>
                 list_ex (\<lambda>g. g_id g \<noteq> group_id \<and> g_name g = n) (groups db))
      then Inl ''UNIQUE constraint failed''
      else Inr (count_where (\<lambda>g. g_id g = group_id) (groups db),
             db\<lparr>groups := update_where (\<lambda>g. g_id g = group_id)
               (\<lambda>g. g\<lparr>g_name := (case name of None \<Rightarrow> g_name g | Some n \<Rightarrow> n),
                      g_description := (case description of None \<Rightarrow> g_description g | Some d \<Rightarrow> Some d),
                      g_updated_at := nowIso\<rparr>) (groups db)\<rparr>))"

text \<open>
  The delete cascades to the members, the scopes and their entries.  The export schedules name
  groups too, in a column that does not cascade (\<open>scheduled\<close> are the groups they name): the delete
  of a group that one of them names fails.
\<close>

definition deleteVehicleGroup ::
  "string list \<Rightarrow> string \<Rightarrow> ('a) config_db_scheme \<Rightarrow> string + nat \<times> ('a) config_db_scheme" where
  "deleteVehicleGroup scheduled group_id db =
     (if list_ex (\<lambda>g. g_id g = group_id) (groups db) \<and> group_id \<in> set scheduled
      then Inl ''FOREIGN KEY constraint failed''
      else
        let dropped = map sc_id (filter (\<lambda>s. sc_group s = Some group_id) (scopes db))
        in Inr (count_where (\<lambda>g. g_id g = group_id) (groups db),
            db\<lparr>groups := delete_where (\<lambda>g. g_id g = group_id) (groups db),
               group_members := delete_where (\<lambda>m. gm_group m = group_id) (group_members db),
               scopes := delete_where (\<lambda>s. sc_group s = Some group_id) (scopes db),
               entries := delete_where (\<lambda>en. e_scope en \<in> set dropped) (entries db)\<rparr>))"

definition member_key :: "group_member_row \<Rightarrow> string \<times> vin" where
  "member_key m = (gm_group m, gm_vin m)"

definition put_group_member ::
  "group_member_row \<Rightarrow> ('a) config_db_scheme \<Rightarrow> ('a) config_db_scheme" where
  "put_group_member m db =
     db\<lparr>group_members := upsert_by member_key
         (\<lambda>old new. old\<lparr>gm_added_at := gm_added_at new\<rparr>) m (group_members db)\<rparr>"

definition group_member_of ::
  "('a) config_db_scheme \<Rightarrow> string \<times> vin \<Rightarrow> group_member_row option" where
  "group_member_of db k = first_where (\<lambda>m. member_key m = k) (group_members db)"

definition addVehicleToGroup ::
  "string \<Rightarrow> vin \<Rightarrow> iso \<Rightarrow> ('a) config_db_scheme \<Rightarrow>
   string + (group_member_row \<times> ('a) config_db_scheme)" where
  "addVehicleToGroup group_id vin nowIso db =
     (if getVehicleGroup db group_id = None \<or> \<not> vehicleExists db vin
      then Inl ''FOREIGN KEY constraint failed''
      else (let m = \<lparr>gm_group = group_id, gm_vin = vin, gm_added_at = nowIso\<rparr>
            in Inr (m, put_group_member m db)))"

definition removeVehicleFromGroup ::
  "string \<Rightarrow> vin \<Rightarrow> ('a) config_db_scheme \<Rightarrow> nat \<times> ('a) config_db_scheme" where
  "removeVehicleFromGroup group_id vin db =
     (let P = (\<lambda>m. gm_group m = group_id \<and> gm_vin m = vin)
      in (count_where P (group_members db),
          db\<lparr>group_members := delete_where P (group_members db)\<rparr>))"

definition listGroupMembers :: "('a) config_db_scheme \<Rightarrow> string \<Rightarrow> group_member_row list" where
  "listGroupMembers db group_id =
     order_desc gm_added_at (filter (\<lambda>m. gm_group m = group_id) (group_members db))"

definition getGroupsForVehicle :: "('a) config_db_scheme \<Rightarrow> vin \<Rightarrow> group_row list" where
  "getGroupsForVehicle db vin =
     concat (map (\<lambda>g. map (\<lambda>_. g)
        (filter (\<lambda>m. gm_group m = g_id g \<and> gm_vin m = vin) (group_members db))) (groups db))"

section \<open>Resolution\<close>

record scope_entry =
  se_interval :: int
  se_min_delta :: "rat option"
  se_enabled :: "bool option"

type_synonym scope_entries = "field_key \<rightharpoonup> scope_entry"

record resolved_field =
  rf_key :: field_key
  rf_enabled :: bool
  rf_interval :: int
  rf_min_delta :: "rat option"
  rf_source :: scope_kind
  rf_source_scope :: string

record resolved_config =
  rc_vin :: vin
  rc_fields :: "resolved_field list"
  rc_unresolved :: "field_key list"

text \<open>The body of the loop over the collected fields.\<close>

definition resolve_field ::
  "scope_entries \<Rightarrow> scope_entries \<Rightarrow> scope_entries \<Rightarrow> field_key \<Rightarrow> resolved_field option" where
  "resolve_field globalEntries groupEntries vehicleEntries field_key =
     (let (entry, source, source_scope_id) =
        (if vehicleEntries field_key \<noteq> None
           then (vehicleEntries field_key, Scope_vehicle, ''vehicle'')
         else if groupEntries field_key \<noteq> None
           then (groupEntries field_key, Scope_group, ''group'')
         else (globalEntries field_key, Scope_global, ''global''))
      in case entry of
           None \<Rightarrow> None
         | Some en \<Rightarrow>
             Some \<lparr>rf_key = field_key, rf_enabled = (se_enabled en \<noteq> Some False),
                   rf_interval = se_interval en, rf_min_delta = se_min_delta en,
                   rf_source = source, rf_source_scope = source_scope_id\<rparr>)"

fun resolve_loop ::
  "scope_entries \<Rightarrow> scope_entries \<Rightarrow> scope_entries \<Rightarrow> field_key list \<Rightarrow>
   resolved_field list \<Rightarrow> field_key list \<Rightarrow> resolved_field list \<times> field_key list" where
  "resolve_loop g grp veh [] done_fields unresolved = (done_fields, unresolved)"
| "resolve_loop g grp veh (k # ks) done_fields unresolved =
     (case resolve_field g grp veh k of
        None \<Rightarrow> resolve_loop g grp veh ks done_fields (unresolved @ [k])
      | Some f \<Rightarrow> resolve_loop g grp veh ks (done_fields @ [f]) unresolved)"

definition resolveConfig ::
  "scope_entries \<Rightarrow> scope_entries \<Rightarrow> scope_entries \<Rightarrow> field_key list \<Rightarrow> vin \<Rightarrow> resolved_config" where
  "resolveConfig globalEntries groupEntries vehicleEntries collected vin =
     (let (done_fields, unresolved) =
        resolve_loop globalEntries groupEntries vehicleEntries collected [] []
      in \<lparr>rc_vin = vin, rc_fields = done_fields, rc_unresolved = unresolved\<rparr>)"

section \<open>Lemmas on resolution\<close>

text \<open>The abstract reading: the three scopes are maps, and the more specific one overrides.\<close>

definition effective_entry ::
  "scope_entries \<Rightarrow> scope_entries \<Rightarrow> scope_entries \<Rightarrow> field_key \<Rightarrow> scope_entry option" where
  "effective_entry g grp veh = g ++ grp ++ veh"

lemma resolve_field_None:
  "resolve_field g grp veh k = None \<longleftrightarrow> effective_entry g grp veh k = None"
  by (auto simp: resolve_field_def effective_entry_def map_add_def split: option.splits)

lemma resolve_field_Some:
  "resolve_field g grp veh k = Some f \<Longrightarrow>
   rf_key f = k \<and>
   (\<exists>en. effective_entry g grp veh k = Some en \<and> rf_interval f = se_interval en \<and>
      rf_min_delta f = se_min_delta en \<and> (rf_enabled f \<longleftrightarrow> se_enabled en \<noteq> Some False))"
  by (auto simp: resolve_field_def effective_entry_def map_add_def split: option.splits if_splits)

lemma resolve_field_view:
  assumes "resolve_field g grp veh k = Some f"
  shows "(rf_key f, rf_interval f, rf_min_delta f, rf_enabled f) =
    (case effective_entry g grp veh k of
       Some en \<Rightarrow> (k, se_interval en, se_min_delta en, se_enabled en \<noteq> Some False))"
  using resolve_field_Some [OF assms] by auto

lemma resolve_field_source:
  "resolve_field g grp veh k = Some f \<Longrightarrow>
   rf_source f = (if k \<in> dom veh then Scope_vehicle else if k \<in> dom grp then Scope_group else Scope_global)"
  by (auto simp: resolve_field_def split: option.splits if_splits)

lemma resolve_loop_eq:
  "resolve_loop g grp veh ks fs us =
     (fs @ map the (filter (\<lambda>x. x \<noteq> None) (map (resolve_field g grp veh) ks)),
      us @ filter (\<lambda>k. resolve_field g grp veh k = None) ks)"
  by (induction ks arbitrary: fs us) (auto split: option.splits)

lemma rc_vin_resolveConfig [simp]: "rc_vin (resolveConfig g grp veh ks vin) = vin"
  by (simp add: resolveConfig_def resolve_loop_eq)

lemma rc_unresolved_resolveConfig:
  "rc_unresolved (resolveConfig g grp veh ks vin) = filter (\<lambda>k. effective_entry g grp veh k = None) ks"
  by (simp add: resolveConfig_def resolve_loop_eq resolve_field_None)

lemma rc_fields_resolveConfig:
  "rc_fields (resolveConfig g grp veh ks vin) =
   map the (filter (\<lambda>x. x \<noteq> None) (map (resolve_field g grp veh) ks))"
  by (simp add: resolveConfig_def resolve_loop_eq)

lemma resolved_field_in:
  "f \<in> set (rc_fields (resolveConfig g grp veh ks vin)) \<Longrightarrow>
   rf_key f \<in> set ks \<and> resolve_field g grp veh (rf_key f) = Some f"
  by (auto simp: rc_fields_resolveConfig) (metis resolve_field_Some)+

lemma resolved_keys:
  "map rf_key (rc_fields (resolveConfig g grp veh ks vin)) =
   filter (\<lambda>k. effective_entry g grp veh k \<noteq> None) ks"
proof -
  have "map rf_key (map the (filter (\<lambda>x. x \<noteq> None) (map (resolve_field g grp veh) ks))) =
      filter (\<lambda>k. effective_entry g grp veh k \<noteq> None) ks"
    by (induction ks) (auto simp: resolve_field_None [symmetric] dest: resolve_field_Some)
  then show ?thesis by (simp add: rc_fields_resolveConfig)
qed

section \<open>Referential integrity of the group tables\<close>

definition groups_consistent :: "('a) config_db_scheme \<Rightarrow> bool" where
  "groups_consistent db \<longleftrightarrow>
     distinct (map g_id (groups db)) \<and> distinct (map g_name (groups db)) \<and>
     distinct (map member_key (group_members db)) \<and>
     (\<forall>m \<in> set (group_members db). gm_group m \<in> g_id ` set (groups db) \<and> vehicleExists db (gm_vin m)) \<and>
     (\<forall>s \<in> set (scopes db). \<forall>i. sc_group s = Some i \<longrightarrow> i \<in> g_id ` set (groups db)) \<and>
     (\<forall>en \<in> set (entries db). e_scope en \<in> sc_id ` set (scopes db)) \<and>
     distinct (map sc_id (scopes db))"

lemma member_key_added_at [simp]: "member_key (m\<lparr>gm_added_at := t\<rparr>) = member_key m"
  by (simp add: member_key_def)

interpretation group_member_table:
  upsert_table put_group_member group_member_of member_key "\<lambda>old new. old\<lparr>gm_added_at := gm_added_at new\<rparr>"
  by unfold_locales
    (simp_all add: put_group_member_def group_member_of_def find_upsert_same find_upsert_other)

lemma getVehicleGroup_Some:
  "getVehicleGroup db i \<noteq> None \<longleftrightarrow> i \<in> g_id ` set (groups db)"
  by (auto simp: getVehicleGroup_def find_None_set)

lemma groups_consistent_delete:
  assumes "groups_consistent db" and "deleteVehicleGroup scheduled i db = Inr (n, db')"
  shows "groups_consistent db'"
proof -
  have scope_kept: "sc_group s \<noteq> Some i"
    if "s \<in> set (scopes db)" "sc_id s \<notin> sc_id ` {s \<in> set (scopes db). sc_group s = Some i}" for s
    using that by auto
  have db': "db' = db\<lparr>groups := delete_where (\<lambda>g. g_id g = i) (groups db),
      group_members := delete_where (\<lambda>m. gm_group m = i) (group_members db),
      scopes := delete_where (\<lambda>s. sc_group s = Some i) (scopes db),
      entries := delete_where (\<lambda>en. e_scope en \<in> set (map sc_id (filter (\<lambda>s. sc_group s = Some i) (scopes db)))) (entries db)\<rparr>"
    using assms(2) by (simp add: deleteVehicleGroup_def Let_def split: if_splits)
  show ?thesis
    using assms(1) scope_kept
    unfolding groups_consistent_def db' delete_where_def vehicleExists_def
    by (auto simp: distinct_map_filter image_iff) (metis+)?
qed

lemma groups_consistent_add:
  assumes "groups_consistent db" and "addVehicleToGroup i vin now db = Inr (m, db')"
  shows "groups_consistent db'"
proof -
  let ?m = "\<lparr>gm_group = i, gm_vin = vin, gm_added_at = now\<rparr>"
  from assms(2) have db': "db' = put_group_member ?m db"
    and known: "i \<in> g_id ` set (groups db)" "vehicleExists db vin"
    using getVehicleGroup_Some [of db i] by (auto simp: addVehicleToGroup_def Let_def split: if_splits)
  have "distinct (map member_key (group_members db'))"
    using assms(1) by (simp add: db' put_group_member_def groups_consistent_def distinct_upsert)
  moreover have "gm_group r \<in> g_id ` set (groups db) \<and> vehicleExists db (gm_vin r)"
    if "r \<in> set (group_members db')" for r
    using that [unfolded db' put_group_member_def, simplified]
    by (rule upsert_by_cases) (use assms(1) known in \<open>auto simp: groups_consistent_def\<close>)
  ultimately show ?thesis
    using assms(1) by (simp add: groups_consistent_def db' put_group_member_def vehicleExists_def)
qed

lemma groups_consistent_remove:
  "groups_consistent db \<Longrightarrow> groups_consistent (snd (removeVehicleFromGroup i vin db))"
  by (auto simp: groups_consistent_def removeVehicleFromGroup_def Let_def delete_where_def
      vehicleExists_def distinct_map_filter)

lemma groups_consistent_create:
  "groups_consistent db \<Longrightarrow> createVehicleGroup i name descr now db = Inr (g, db') \<Longrightarrow> groups_consistent db'"
  by (auto simp: groups_consistent_def createVehicleGroup_def Let_def list_ex_iff vehicleExists_def
      split: if_splits)

lemma groups_consistent_update:
  assumes "groups_consistent db" and "updateVehicleGroup i name descr now db = Inr (n, db')"
  shows "groups_consistent db'"
proof (cases "name = None \<and> descr = None")
  case True
  with assms show ?thesis by (simp add: updateVehicleGroup_def)
next
  case False
  let ?f = "\<lambda>g. g\<lparr>g_name := (case name of None \<Rightarrow> g_name g | Some n \<Rightarrow> n),
     g_description := (case descr of None \<Rightarrow> g_description g | Some d \<Rightarrow> Some d), g_updated_at := now\<rparr>"
  let ?gs = "update_where (\<lambda>g. g_id g = i) ?f (groups db)"
  from False assms(2) have db': "db' = db\<lparr>groups := ?gs\<rparr>"
    and free: "\<And>m. name = Some m \<Longrightarrow> list_ex (\<lambda>g. g_id g = i) (groups db) \<Longrightarrow>
       \<not> list_ex (\<lambda>g. g_id g \<noteq> i \<and> g_name g = m) (groups db)"
    by (auto simp: updateVehicleGroup_def split: if_splits)
  have ids: "map g_id ?gs = map g_id (groups db)" by (rule map_update_where) simp
  then have id_set: "g_id ` set ?gs = g_id ` set (groups db)" by (metis set_map)
  have "distinct (map g_name ?gs)"
  proof (rule distinct_update_one)
    show "distinct (map g_id (groups db))" "distinct (map g_name (groups db))"
      using assms(1) by (simp_all add: groups_consistent_def)
    fix r s
    assume rs: "r \<in> set (groups db)" "s \<in> set (groups db)" "g_id r = i" "g_id s \<noteq> i"
    have "g_name r \<noteq> g_name s"
      using rs assms(1) by (auto simp: groups_consistent_def distinct_map inj_on_def)
    with rs free show "g_name (?f r) \<noteq> g_name s"
      by (cases name) (auto simp: list_ex_iff)
  qed
  with assms(1) show ?thesis by (simp add: groups_consistent_def db' ids id_set vehicleExists_def)
qed

section \<open>What an operator can do to the groups\<close>

text \<open>An operation that throws changes nothing.\<close>

inductive group_step :: "('a) config_db_scheme \<Rightarrow> ('a) config_db_scheme \<Rightarrow> bool" where
  create: "createVehicleGroup i name descr now db = Inr (g, db') \<Longrightarrow> group_step db db'"
| update: "updateVehicleGroup i name' descr now db = Inr (n, db') \<Longrightarrow> group_step db db'"
| delete: "deleteVehicleGroup scheduled i db = Inr (n, db') \<Longrightarrow> group_step db db'"
| add: "addVehicleToGroup i vin now db = Inr (m, db') \<Longrightarrow> group_step db db'"
| remove: "removeVehicleFromGroup i vin db = (n, db') \<Longrightarrow> group_step db db'"

text \<open>
  Names and ids stay unique, there is one membership per group and vehicle, and no membership,
  scope or scope entry is left pointing at a deleted group.
\<close>

lemma group_step_consistent: "group_step db db' \<Longrightarrow> groups_consistent db \<Longrightarrow> groups_consistent db'"
proof (induction rule: group_step.induct)
  case (delete scheduled i db n db')
  then show ?case using groups_consistent_delete by blast
next
  case (remove i vin db n db')
  then show ?case using groups_consistent_remove [of db i vin] by simp
qed (auto intro: groups_consistent_create groups_consistent_update groups_consistent_add)

lemma group_steps_consistent: "group_step\<^sup>*\<^sup>* db db' \<Longrightarrow> groups_consistent db \<Longrightarrow> groups_consistent db'"
  by (induction rule: rtranclp_induct) (auto intro: group_step_consistent)

definition sample_config_db :: config_db where
  "sample_config_db = store_db.extend sample_store \<lparr>groups = [], group_members = [], scopes = []\<rparr>"

section \<open>Properties\<close>

text \<open>C16: resolution refines the map override of the three scopes: every collected field is
  either resolved, in catalog order, with the value, the delta and the switch of its effective
  entry, or reported as unresolved, and it is unresolved exactly when no scope has an entry.\<close>

theorem resolveConfig_refines_override:
  "map (\<lambda>f. (rf_key f, rf_interval f, rf_min_delta f, rf_enabled f))
      (rc_fields (resolveConfig g grp veh collected vin)) =
     map (\<lambda>k. case effective_entry g grp veh k of
            Some en \<Rightarrow> (k, se_interval en, se_min_delta en, se_enabled en \<noteq> Some False))
       (filter (\<lambda>k. effective_entry g grp veh k \<noteq> None) collected)
   \<and> rc_unresolved (resolveConfig g grp veh collected vin) =
       filter (\<lambda>k. effective_entry g grp veh k = None) collected"
proof
  have "map (\<lambda>f. (rf_key f, rf_interval f, rf_min_delta f, rf_enabled f))
      (map the (filter (\<lambda>x. x \<noteq> None) (map (resolve_field g grp veh) ks))) =
     map (\<lambda>k. case effective_entry g grp veh k of
            Some en \<Rightarrow> (k, se_interval en, se_min_delta en, se_enabled en \<noteq> Some False))
       (filter (\<lambda>k. effective_entry g grp veh k \<noteq> None) ks)" for ks
    by (induction ks) (auto simp: resolve_field_None [symmetric] resolve_field_view)
  then show "map (\<lambda>f. (rf_key f, rf_interval f, rf_min_delta f, rf_enabled f))
      (rc_fields (resolveConfig g grp veh collected vin)) =
     map (\<lambda>k. case effective_entry g grp veh k of
            Some en \<Rightarrow> (k, se_interval en, se_min_delta en, se_enabled en \<noteq> Some False))
       (filter (\<lambda>k. effective_entry g grp veh k \<noteq> None) collected)"
    by (simp add: rc_fields_resolveConfig)
  show "rc_unresolved (resolveConfig g grp veh collected vin) =
       filter (\<lambda>k. effective_entry g grp veh k = None) collected"
    by (rule rc_unresolved_resolveConfig)
qed

text \<open>The provenance shown for a field is the most specific scope that has an entry for it.\<close>

theorem resolveConfig_provenance:
  assumes "f \<in> set (rc_fields (resolveConfig g grp veh collected vin))"
  shows "rf_source f =
    (if rf_key f \<in> dom veh then Scope_vehicle else if rf_key f \<in> dom grp then Scope_group else Scope_global)"
  using resolved_field_in [OF assms] resolve_field_source by blast

definition sample_entry :: scope_entry where
  "sample_entry = \<lparr>se_interval = 3600, se_min_delta = None, se_enabled = Some True\<rparr>"

theorem resolveConfig_provenance_witness:
  "rf_source \<lparr>rf_key = ''Odometer'', rf_enabled = True, rf_interval = 3600, rf_min_delta = None,
      rf_source = Scope_vehicle, rf_source_scope = ''vehicle''\<rparr> = Scope_vehicle"
proof -
  let ?f = "\<lparr>rf_key = ''Odometer'', rf_enabled = True, rf_interval = 3600, rf_min_delta = None,
      rf_source = Scope_vehicle, rf_source_scope = ''vehicle''\<rparr>"
  let ?g = "[''Odometer'' \<mapsto> sample_entry]"
  have "?f \<in> set (rc_fields (resolveConfig ?g Map.empty ?g [''Odometer''] ''V1''))"
    by (simp add: resolveConfig_def resolve_field_def sample_entry_def)
  from resolveConfig_provenance [OF this] show ?thesis by simp
qed

end
