(* ===== verification/JsNumber.thy ===== *)
theory JsNumber
  imports JsValue
begin

text \<open>
  The numeric conversions of JavaScript the source relies on: \<open>Number\<close> of a text or of a parsed
  value, truncation and the remainder.  A number is an exact rational and \<open>NaN\<close> is \<open>None\<close>;
  the text \<open>Infinity\<close> reads as \<open>NaN\<close> too, since the code only builds dates from these numbers
  and either makes the date invalid.
\<close>

definition js_trunc :: "rat \<Rightarrow> int" where
  "js_trunc q = (if 0 \<le> q then \<lfloor>q\<rfloor> else \<lceil>q\<rceil>)"

definition js_rem :: "rat \<Rightarrow> rat \<Rightarrow> rat" where
  "js_rem a b = a - b * of_int (js_trunc (a / b))"

section \<open>Numerals\<close>

definition digits_of :: "string \<Rightarrow> nat option" where
  "digits_of s = (if list_all is_digit s then Some (digits_value s) else None)"

text \<open>Digits with at most one point, at least one digit in all.\<close>

definition mantissa :: "string \<Rightarrow> rat option" where
  "mantissa s =
     (case split_on (CHR ''.'') s of
        [a] \<Rightarrow> if a = [] then None else map_option of_nat (digits_of a)
      | [a, b] \<Rightarrow>
          if a = [] \<and> b = [] then None
          else (case (digits_of a, digits_of b) of
              (Some i, Some f) \<Rightarrow> Some (of_nat i + of_nat f / 10 ^ length b)
            | _ \<Rightarrow> None)
      | _ \<Rightarrow> None)"

definition signed :: "(string \<Rightarrow> rat option) \<Rightarrow> string \<Rightarrow> rat option" where
  "signed f s =
     (case s of
        [] \<Rightarrow> f s
      | c # r \<Rightarrow> if c = CHR ''-'' then map_option uminus (f r) else if c = CHR ''+'' then f r else f s)"

definition exponent :: "string \<Rightarrow> rat option" where
  "exponent s =
     (case s of
        [] \<Rightarrow> None
      | c # r \<Rightarrow>
          if c = CHR ''-'' then (if r = [] then None else map_option (\<lambda>n. 1 / 10 ^ n) (digits_of r))
          else if c = CHR ''+'' then (if r = [] then None else map_option (\<lambda>n. 10 ^ n) (digits_of r))
          else map_option (\<lambda>n. 10 ^ n) (digits_of s))"

definition decimal :: "string \<Rightarrow> rat option" where
  "decimal s =
     (case split_on (CHR ''e'') (to_lower s) of
        [m] \<Rightarrow> mantissa m
      | [m, x] \<Rightarrow> (case (mantissa m, exponent x) of (Some a, Some b) \<Rightarrow> Some (a * b) | _ \<Rightarrow> None)
      | _ \<Rightarrow> None)"

text \<open>The integers written with the prefixes \<open>0x\<close>, \<open>0o\<close> and \<open>0b\<close>.\<close>

definition radix_digit :: "char \<Rightarrow> nat option" where
  "radix_digit c =
     (let n = (of_char (lower_char c) :: nat)
      in if is_digit c then Some (digit_value c) else if 97 \<le> n \<and> n \<le> 102 then Some (n - 87) else None)"

fun radix_value :: "nat \<Rightarrow> string \<Rightarrow> nat \<Rightarrow> nat option" where
  "radix_value b [] v = Some v"
| "radix_value b (c # cs) v =
     (case radix_digit c of None \<Rightarrow> None | Some d \<Rightarrow> if d < b then radix_value b cs (b * v + d) else None)"

definition prefixed :: "string \<Rightarrow> rat option option" where
  "prefixed s =
     (case to_lower (take 2 s) of
        p \<Rightarrow> if p = ''0x'' \<or> p = ''0o'' \<or> p = ''0b''
          then Some (if drop 2 s = [] then None
                     else map_option of_nat
                       (radix_value (if p = ''0x'' then 16 else if p = ''0o'' then 8 else 2) (drop 2 s) 0))
          else None)"

definition js_number :: "string \<Rightarrow> rat option" where
  "js_number text =
     (let s = trim text
      in if s = [] then Some 0
         else (case prefixed s of Some r \<Rightarrow> r | None \<Rightarrow> signed decimal s))"

text \<open>
  \<open>Number(v)\<close> of a parsed value.  An array is converted through its text, which is empty for
  the empty array and that of its element for an array of one; a longer array has a comma in its
  text and an object is \<open>[object Object]\<close>, neither of them a numeral.  The text of a boolean
  is no numeral either.
\<close>

fun js_to_number :: "json \<Rightarrow> rat option" where
  "js_to_number JNull = Some 0"
| "js_to_number (JBool b) = Some (if b then 1 else 0)"
| "js_to_number (JNum q) = Some q"
| "js_to_number (JStr s) = js_number s"
| "js_to_number (JArr []) = Some 0"
| "js_to_number (JArr [v]) = (case v of JBool _ \<Rightarrow> None | _ \<Rightarrow> js_to_number v)"
| "js_to_number (JArr (_ # _ # _)) = None"
| "js_to_number (JObj _) = None"

section \<open>Two-digit numerals\<close>

lemma js_trunc_of_nat [simp]: "js_trunc (of_nat n) = int n"
  by (simp add: js_trunc_def)

lemma js_trunc_of_int [simp]: "js_trunc (of_int i) = i"
  by (simp add: js_trunc_def)

end
