(* ===== verification/Telemetry.thy ===== *)
theory Telemetry
  imports ConfigScope JsNumber
begin

text \<open>
  \<open>telemetry.ts\<close>: what the Worker does with a telemetry payload once it is parsed.  The rows of
  the fact and snapshot tables are written under the constraints of \<open>migrations/0001\<close>: the
  foreign keys, the CHECK that exactly the column of the value's kind is filled, the unique
  index per batch and the two guard triggers.  A D1 batch is all or nothing.
\<close>

section \<open>Values\<close>

datatype value_kind = KReal | KInt | KText | KBool | KJson | KInvalid

record classified =
  cv_kind :: value_kind
  cv_real :: "rat option"
  cv_int :: "int option"
  cv_text :: "string option"
  cv_bool :: "int option"
  cv_json :: "json option"

definition none_of :: "value_kind \<Rightarrow> classified" where
  "none_of k = \<lparr>cv_kind = k, cv_real = None, cv_int = None, cv_text = None, cv_bool = None, cv_json = None\<rparr>"

definition classifyValue :: "json option \<Rightarrow> classified" where
  "classifyValue value =
     (case value of
        None \<Rightarrow> none_of KInvalid
      | Some v \<Rightarrow>
          if \<not> truthy (Some v) \<or> js_prop v ''invalid'' = Some (JBool True) then none_of KInvalid
          else (case as_number (js_prop v ''doubleValue'') of
              Some q \<Rightarrow> (none_of KReal)\<lparr>cv_real := Some q\<rparr>
            | None \<Rightarrow> (case as_number (js_prop v ''intValue'') of
                Some q \<Rightarrow> (none_of KInt)\<lparr>cv_int := Some (js_trunc q)\<rparr>
              | None \<Rightarrow> (case as_string (js_prop v ''stringValue'') of
                  Some s \<Rightarrow> (none_of KText)\<lparr>cv_text := Some s\<rparr>
                | None \<Rightarrow> (case as_boolean (js_prop v ''booleanValue'') of
                    Some b \<Rightarrow> (none_of KBool)\<lparr>cv_bool := Some (if b then 1 else 0)\<rparr>
                  | None \<Rightarrow> (case js_prop v ''locationValue'' of
                      Some l \<Rightarrow> (none_of KJson)\<lparr>cv_json := Some l\<rparr>
                    | None \<Rightarrow> none_of KInvalid))))))"

section \<open>Payloads\<close>

text \<open>A datum keeps its untyped value; \<open>createdAt\<close> is the string the type declares.\<close>

record telemetry_datum =
  td_key :: field_key
  td_value :: "json option"
  td_created_at :: "iso option"

text \<open>
  A \<open>createdAt\<close> is a text or missing, as the interface \<open>TelemetryDatum\<close> declares; a number, a boolean
  or an object in its place, which the code would hand on to the database, is outside the model.
\<close>

definition datum_of :: "json \<Rightarrow> telemetry_datum option" where
  "datum_of d =
     (case js_prop d ''key'' of
        Some (JStr k) \<Rightarrow> Some \<lparr>td_key = k, td_value = js_prop d ''value'',
                               td_created_at = as_string (js_prop d ''createdAt'')\<rparr>
      | _ \<Rightarrow> None)"

fun datums_of :: "json list \<Rightarrow> telemetry_datum list" where
  "datums_of [] = []"
| "datums_of (d # ds) =
     (case datum_of d of None \<Rightarrow> datums_of ds | Some x \<Rightarrow> x # datums_of ds)"

fun extract_envelopes :: "json list \<Rightarrow> (vin option \<times> telemetry_datum) list" where
  "extract_envelopes [] = []"
| "extract_envelopes (envelope # rest) =
     (if truthy (Some envelope) \<and> is_object envelope
      then map (\<lambda>d. (as_string (js_prop envelope ''vin''), d)) (datums_of (array_items (js_prop envelope ''data'')))
             @ extract_envelopes rest
      else extract_envelopes rest)"

definition extractDatums :: "json \<Rightarrow> (vin option \<times> telemetry_datum) list" where
  "extractDatums body = extract_envelopes (case body of JArr xs \<Rightarrow> xs | _ \<Rightarrow> [body])"

section \<open>Tiers\<close>

definition catalog_meta :: "('a) store_db_scheme \<Rightarrow> field_key \<Rightarrow> (tier \<times> bool) option" where
  "catalog_meta db k =
     map_option (\<lambda>c. (fc_tier c, fc_collected c)) (first_where (\<lambda>c. fc_key c = k) (catalog db))"

text \<open>\<open>WHERE field_key IN (..)\<close> and the loop that stores its rows.\<close>

definition query_chunk ::
  "('a) store_db_scheme \<Rightarrow> field_key list \<Rightarrow> (field_key \<rightharpoonup> tier \<times> bool) \<Rightarrow> (field_key \<rightharpoonup> tier \<times> bool)" where
  "query_chunk db chunk m =
     fold (\<lambda>c m. m(fc_key c \<mapsto> (fc_tier c, fc_collected c)))
       (filter (\<lambda>c. fc_key c \<in> set chunk) (catalog db)) m"

function resolve_chunks ::
  "('a) store_db_scheme \<Rightarrow> field_key list \<Rightarrow> nat \<Rightarrow> (field_key \<rightharpoonup> tier \<times> bool) \<Rightarrow> (field_key \<rightharpoonup> tier \<times> bool)" where
  "resolve_chunks db unique i m =
     (if i < length unique
      then resolve_chunks db unique (i + 80) (query_chunk db (take 80 (drop i unique)) m)
      else m)"
  by pat_completeness auto
termination
  by (relation "measure (\<lambda>(db, unique, i, m). length unique - i)") auto

declare resolve_chunks.simps [simp del]

definition resolveTiers :: "('a) store_db_scheme \<Rightarrow> field_key list \<Rightarrow> (field_key \<rightharpoonup> tier \<times> bool)" where
  "resolveTiers db fieldKeys = resolve_chunks db (js_set fieldKeys) 0 Map.empty"

section \<open>Normalisation\<close>

record normalised_datum =
  nd_key :: field_key
  nd_observed_at :: iso
  nd_value :: classified
  nd_tier :: tier

record normalised =
  nm_datums :: "normalised_datum list"
  nm_skipped_unknown :: nat
  nm_skipped_uncollected :: nat
  nm_invalid_values :: nat

fun normalise_loop ::
  "(field_key \<rightharpoonup> tier \<times> bool) \<Rightarrow> iso \<Rightarrow> (vin option \<times> telemetry_datum) list \<Rightarrow> normalised \<Rightarrow> normalised" where
  "normalise_loop tiers receivedAt [] r = r"
| "normalise_loop tiers receivedAt ((_, datum) # rest) r =
     (case tiers (td_key datum) of
        None \<Rightarrow> normalise_loop tiers receivedAt rest (r\<lparr>nm_skipped_unknown := Suc (nm_skipped_unknown r)\<rparr>)
      | Some (tier, collected) \<Rightarrow>
          if \<not> collected
          then normalise_loop tiers receivedAt rest (r\<lparr>nm_skipped_uncollected := Suc (nm_skipped_uncollected r)\<rparr>)
          else (let value = classifyValue (td_value datum)
                in normalise_loop tiers receivedAt rest
                     (r\<lparr>nm_invalid_values := (if cv_kind value = KInvalid then Suc (nm_invalid_values r)
                                              else nm_invalid_values r),
                        nm_datums := nm_datums r @
                          [\<lparr>nd_key = td_key datum,
                            nd_observed_at = (case td_created_at datum of None \<Rightarrow> receivedAt | Some t \<Rightarrow> t),
                            nd_value = value, nd_tier = tier\<rparr>]\<rparr>)))"

definition normalise ::
  "(vin option \<times> telemetry_datum) list \<Rightarrow> (field_key \<rightharpoonup> tier \<times> bool) \<Rightarrow> iso \<Rightarrow> normalised" where
  "normalise datums tiers receivedAt =
     normalise_loop tiers receivedAt datums
       \<lparr>nm_datums = [], nm_skipped_unknown = 0, nm_skipped_uncollected = 0, nm_invalid_values = 0\<rparr>"

section \<open>Payload shapes\<close>

datatype payload_type = P_full | P_odometer_heartbeat | P_trip_counters | P_unknown

definition ASSIST_SETTINGS :: "field_key list" where
  "ASSIST_SETTINGS =
    [''SentryMode'', ''SpeedLimitMode'', ''SpeedLimitWarning'', ''PinToDriveEnabled'',
     ''AutomaticBlindSpotCamera'', ''AutomaticEmergencyBrakingOff'',
     ''BlindSpotCollisionWarningChime'', ''EmergencyLaneDepartureAvoidance'']"

definition classifyPayload :: "field_key list \<Rightarrow> payload_type" where
  "classifyPayload fieldKeys =
     (let keys = js_set fieldKeys;
          hasAssistSetting = list_ex (\<lambda>k. k \<in> set ASSIST_SETTINGS) keys
      in if hasAssistSetting then P_full
         else (let collectedKeys = filter (\<lambda>k. k \<in> set ([''Odometer'', ''MilesSinceReset'',
                                     ''SelfDrivingMilesSinceReset''] @ ASSIST_SETTINGS)) keys
               in if length collectedKeys = 1 \<and> ''Odometer'' \<in> set keys then P_odometer_heartbeat
                  else if length collectedKeys \<le> 2 \<and>
                     list_all (\<lambda>k. k = ''MilesSinceReset'' \<or> k = ''SelfDrivingMilesSinceReset'') collectedKeys
                  then P_trip_counters
                  else P_unknown))"

section \<open>Tables\<close>

datatype transport = T_telemetry | T_poll

record fact_row =
  f_id :: string
  f_vin :: vin
  f_field :: field_key
  f_observed_at :: iso
  f_received_at :: iso
  f_value :: classified
  f_tier :: tier
  f_batch :: string
  f_is_resend :: bool
  f_source :: transport
  f_payload :: payload_type

record snapshot_row =
  sn_vin :: vin
  sn_field :: field_key
  sn_text :: string
  sn_kind :: value_kind
  sn_observed_at :: iso

record batch_row =
  b_id :: string
  b_vin :: "vin option"
  b_received_at :: iso
  b_payload_bytes :: nat
  b_r2_key :: string
  b_sha256 :: string
  b_datum_count :: nat
  b_content_type :: string
  b_run :: "string option"
  b_processed_at :: "iso option"

record counter_row =
  sg_id :: string
  sg_vin :: "vin option"
  sg_period_start :: string
  sg_signals :: nat
  sg_data_requests :: nat
  sg_updated_at :: iso

datatype run_status = R_running | R_complete | R_partial | R_failed

record ingest_run_row =
  ir_id :: string
  ir_cadence :: string
  ir_started_at :: iso
  ir_finished_at :: "iso option"
  ir_status :: run_status
  ir_attempted :: nat
  ir_succeeded :: nat
  ir_failed :: nat
  ir_errors :: "(string \<times> string) list"
  ir_cost :: rat
  ir_updated_at :: iso

record telemetry_db = config_db +
  facts :: "fact_row list"
  snapshots :: "snapshot_row list"
  snapshot_history :: "snapshot_row list"
  batches :: "batch_row list"
  signal_counters :: "counter_row list"
  ingest_runs :: "ingest_run_row list"

section \<open>Persistence\<close>

text \<open>
  The key of the deduplication map joins the field and the instant with a NUL, which neither
  contains; the pair stands for it.
\<close>

definition dedupe_key :: "normalised_datum \<Rightarrow> field_key \<times> iso" where
  "dedupe_key d = (nd_key d, nd_observed_at d)"

definition is_invalid :: "normalised_datum \<Rightarrow> bool" where
  "is_invalid d \<longleftrightarrow> cv_kind (nd_value d) = KInvalid"

definition dedupe_step ::
  "((field_key \<times> iso) \<times> normalised_datum) list \<Rightarrow> normalised_datum \<Rightarrow> ((field_key \<times> iso) \<times> normalised_datum) list" where
  "dedupe_step m datum =
     (case map_of m (dedupe_key datum) of
        Some existing \<Rightarrow>
          if \<not> is_invalid existing \<and> is_invalid datum then m
          else AList.update (dedupe_key datum) datum m
      | None \<Rightarrow> AList.update (dedupe_key datum) datum m)"

definition dedupe :: "normalised_datum list \<Rightarrow> normalised_datum list" where
  "dedupe datums = map snd (foldl dedupe_step [] datums)"

definition int_text :: "int \<Rightarrow> string" where
  "int_text i = (if i < 0 then CHR ''-'' # nat_text (nat (- i)) else nat_text (nat i))"

text \<open>\<open>datum.valueText ?? String(datum.valueInt ?? datum.valueReal ?? datum.valueBool ?? '')\<close>.\<close>

definition snapshot_text :: "('e) runtime_scheme \<Rightarrow> classified \<Rightarrow> string" where
  "snapshot_text e v =
     (case cv_text v of Some t \<Rightarrow> t
      | None \<Rightarrow> (case cv_int v of Some i \<Rightarrow> int_text i
        | None \<Rightarrow> (case cv_real v of Some q \<Rightarrow> rt_num_text e q
          | None \<Rightarrow> (case cv_bool v of Some b \<Rightarrow> int_text b | None \<Rightarrow> []))))"

text \<open>The CHECK of the fact table: exactly the column of the kind is filled.\<close>

definition columns_ok :: "classified \<Rightarrow> bool" where
  "columns_ok v \<longleftrightarrow>
     (cv_real v \<noteq> None \<longleftrightarrow> cv_kind v = KReal) \<and> (cv_int v \<noteq> None \<longleftrightarrow> cv_kind v = KInt) \<and>
     (cv_text v \<noteq> None \<longleftrightarrow> cv_kind v = KText) \<and> (cv_bool v \<noteq> None \<longleftrightarrow> cv_kind v = KBool) \<and>
     (cv_json v \<noteq> None \<longleftrightarrow> cv_kind v = KJson) \<and> cv_bool v \<in> {None, Some 0, Some 1}"

definition fact_identity :: "fact_row \<Rightarrow> vin \<times> field_key \<times> iso \<times> string" where
  "fact_identity f = (f_vin f, f_field f, f_observed_at f, f_batch f)"

definition fact_allowed :: "('a) telemetry_db_scheme \<Rightarrow> fact_row \<Rightarrow> bool" where
  "fact_allowed db f \<longleftrightarrow>
     vehicleExists db (f_vin f) \<and>
     (case catalog_meta db (f_field f) of None \<Rightarrow> False | Some (_, collected) \<Rightarrow> collected) \<and>
     list_ex (\<lambda>b. b_id b = f_batch f) (batches db) \<and>
     columns_ok (f_value f) \<and> f_tier f \<noteq> Once \<and>
     \<not> list_ex (\<lambda>g. fact_identity g = fact_identity f) (facts db)"

fun insert_facts :: "fact_row list \<Rightarrow> ('a) telemetry_db_scheme \<Rightarrow> ('a) telemetry_db_scheme option" where
  "insert_facts [] db = Some db"
| "insert_facts (f # fs) db =
     (if fact_allowed db f then insert_facts fs (db\<lparr>facts := facts db @ [f]\<rparr>) else None)"

definition snapshot_key :: "snapshot_row \<Rightarrow> vin \<times> field_key" where
  "snapshot_key r = (sn_vin r, sn_field r)"

definition put_snapshot :: "snapshot_row \<Rightarrow> ('a) telemetry_db_scheme \<Rightarrow> ('a) telemetry_db_scheme" where
  "put_snapshot r db = db\<lparr>snapshots := upsert_by snapshot_key (\<lambda>old new. new) r (snapshots db)\<rparr>"

definition snapshot_of :: "('a) telemetry_db_scheme \<Rightarrow> vin \<times> field_key \<Rightarrow> snapshot_row option" where
  "snapshot_of db k = first_where (\<lambda>r. snapshot_key r = k) (snapshots db)"

definition snapshot_allowed :: "('a) telemetry_db_scheme \<Rightarrow> snapshot_row \<Rightarrow> bool" where
  "snapshot_allowed db r \<longleftrightarrow>
     vehicleExists db (sn_vin r) \<and> map_option fst (catalog_meta db (sn_field r)) = Some Once \<and> sn_kind r \<noteq> KInvalid"

fun insert_snapshots ::
  "snapshot_row list \<Rightarrow> ('a) telemetry_db_scheme \<Rightarrow> ('a) telemetry_db_scheme option" where
  "insert_snapshots [] db = Some db"
| "insert_snapshots (r # rs) db =
     (if snapshot_allowed db r then insert_snapshots rs (put_snapshot r db) else None)"

text \<open>\<open>INSERT OR IGNORE\<close> on the primary key of the history.\<close>

fun insert_history :: "snapshot_row list \<Rightarrow> ('a) telemetry_db_scheme \<Rightarrow> ('a) telemetry_db_scheme" where
  "insert_history [] db = db"
| "insert_history (r # rs) db =
     insert_history rs
       (if list_ex (\<lambda>h. snapshot_key h = snapshot_key r \<and> sn_observed_at h = sn_observed_at r) (snapshot_history db)
        then db else db\<lparr>snapshot_history := snapshot_history db @ [r]\<rparr>)"

definition snapshot_row_of :: "('e) runtime_scheme \<Rightarrow> vin \<Rightarrow> normalised_datum \<Rightarrow> snapshot_row" where
  "snapshot_row_of e vin datum =
     \<lparr>sn_vin = vin, sn_field = nd_key datum, sn_text = snapshot_text e (nd_value datum),
      sn_kind = (if is_invalid datum then KText else cv_kind (nd_value datum)),
      sn_observed_at = nd_observed_at datum\<rparr>"

fun fact_rows_of ::
  "('e) runtime_scheme \<Rightarrow> vin \<Rightarrow> iso \<Rightarrow> string \<Rightarrow> bool \<Rightarrow> transport \<Rightarrow> payload_type \<Rightarrow>
   normalised_datum list \<Rightarrow> ('a) telemetry_db_scheme \<Rightarrow> fact_row list \<times> ('a) telemetry_db_scheme" where
  "fact_rows_of e vin received batch resend source payload [] db = ([], db)"
| "fact_rows_of e vin received batch resend source payload (d # ds) db =
     (if nd_tier d = Once then fact_rows_of e vin received batch resend source payload ds db
      else (let (i, db1) = fresh_id e db;
                (rest, db2) = fact_rows_of e vin received batch resend source payload ds db1
            in (\<lparr>f_id = i, f_vin = vin, f_field = nd_key d, f_observed_at = nd_observed_at d,
                 f_received_at = received, f_value = nd_value d, f_tier = nd_tier d, f_batch = batch,
                 f_is_resend = resend, f_source = source, f_payload = payload\<rparr> # rest, db2)))"

record persist_counts =
  pc_facts :: nat
  pc_snapshots :: nat
  pc_history :: nat

text \<open>
  Three batches in turn: a refused fact leaves nothing behind, and the throw then skips the
  snapshots; a refused snapshot leaves the facts.
\<close>

definition persistDatums ::
  "('e) runtime_scheme \<Rightarrow> string \<Rightarrow> vin option \<Rightarrow> normalised_datum list \<Rightarrow> iso \<Rightarrow> bool \<Rightarrow> transport \<Rightarrow>
   ('a) telemetry_db_scheme \<Rightarrow> (string + persist_counts) \<times> ('a) telemetry_db_scheme" where
  "persistDatums e batchId vin datums receivedAt isResend source db =
     (case vin of
        None \<Rightarrow> (Inl ''payload carried no VIN'', db)
      | Some v \<Rightarrow>
          if v = [] then (Inl ''payload carried no VIN'', db)
          else (let deduped = dedupe datums;
                    payloadType = classifyPayload (map nd_key deduped);
                    (rows, db1) = fact_rows_of e v receivedAt batchId isResend source payloadType deduped db;
                    once = filter (\<lambda>d. nd_tier d = Once) deduped;
                    snaps = map (snapshot_row_of e v) once
                in case insert_facts rows db1 of
                     None \<Rightarrow> (Inl ''D1_ERROR'', db1)
                   | Some db2 \<Rightarrow>
                       (case insert_snapshots snaps db2 of
                          None \<Rightarrow> (Inl ''D1_ERROR'', db2)
                        | Some db3 \<Rightarrow>
                            (Inr \<lparr>pc_facts = length rows, pc_snapshots = length snaps,
                                  pc_history = length snaps\<rparr>, insert_history snaps db3))))"

section \<open>Signals, cost and the run log\<close>

definition SIGNALS_PER_DOLLAR :: nat where
  "SIGNALS_PER_DOLLAR = 150000"

definition signalsForPayload :: "nat \<Rightarrow> nat" where
  "signalsForPayload datumCount = datumCount"

definition counter_key :: "counter_row \<Rightarrow> vin option \<times> string" where
  "counter_key r = (sg_vin r, sg_period_start r)"

text \<open>The two conflict clauses on the counter; a NULL vehicle conflicts with no row.\<close>

definition add_counter :: "counter_row \<Rightarrow> counter_row \<Rightarrow> counter_row" where
  "add_counter old new =
     old\<lparr>sg_signals := sg_signals old + sg_signals new,
         sg_data_requests := sg_data_requests old + sg_data_requests new,
         sg_updated_at := sg_updated_at new\<rparr>"

definition put_counter :: "counter_row \<Rightarrow> ('a) telemetry_db_scheme \<Rightarrow> ('a) telemetry_db_scheme" where
  "put_counter r db =
     db\<lparr>signal_counters := (if sg_vin r = None then signal_counters db @ [r]
                            else upsert_by counter_key add_counter r (signal_counters db))\<rparr>"

definition recordSignals ::
  "('e) runtime_scheme \<Rightarrow> vin option \<Rightarrow> nat \<Rightarrow> iso \<Rightarrow> ('a) telemetry_db_scheme \<Rightarrow> ('a) telemetry_db_scheme" where
  "recordSignals e vin datumCount nowIso db =
     (let (i, db1) = fresh_id e db
      in put_counter \<lparr>sg_id = i, sg_vin = vin, sg_period_start = take 10 nowIso, sg_signals = datumCount,
           sg_data_requests = 0, sg_updated_at = nowIso\<rparr> db1)"

text \<open>\<open>SUM(signals)\<close> over the rows whose day starts with the month.\<close>

definition costReport :: "('a) telemetry_db_scheme \<Rightarrow> string \<Rightarrow> vin option \<Rightarrow> nat \<times> rat" where
  "costReport db month vin =
     (let selected = filter (\<lambda>r. starts_with (sg_period_start r) month \<and>
            (case vin of None \<Rightarrow> True | Some v \<Rightarrow> v = [] \<or> sg_vin r = Some v)) (signal_counters db);
          signals = sum_list (map sg_signals selected)
      in (signals, of_nat signals / of_nat SIGNALS_PER_DOLLAR))"

definition startIngestRun ::
  "('e) runtime_scheme \<Rightarrow> string \<Rightarrow> iso \<Rightarrow> ('a) telemetry_db_scheme \<Rightarrow> string \<times> ('a) telemetry_db_scheme" where
  "startIngestRun e cadence nowIso db =
     (let (runId, db1) = fresh_id e db
      in (runId, db1\<lparr>ingest_runs := ingest_runs db1 @
            [\<lparr>ir_id = runId, ir_cadence = cadence, ir_started_at = nowIso, ir_finished_at = None,
              ir_status = R_running, ir_attempted = 0, ir_succeeded = 0, ir_failed = 0,
              ir_errors = [], ir_cost = 0, ir_updated_at = nowIso\<rparr>]\<rparr>))"

definition finishIngestRun ::
  "string \<Rightarrow> iso \<Rightarrow> nat \<Rightarrow> nat \<Rightarrow> nat \<Rightarrow> (string \<times> string) list \<Rightarrow> rat \<Rightarrow>
   ('a) telemetry_db_scheme \<Rightarrow> ('a) telemetry_db_scheme" where
  "finishIngestRun runId nowIso attempted succeeded failed errors cost db =
     (let status = (if failed = 0 then R_complete else if 0 < succeeded then R_partial else R_failed)
      in db\<lparr>ingest_runs := update_where (\<lambda>r. ir_id r = runId)
           (\<lambda>r. r\<lparr>ir_finished_at := Some nowIso, ir_status := status, ir_attempted := attempted,
                  ir_succeeded := succeeded, ir_failed := failed, ir_errors := errors,
                  ir_cost := cost, ir_updated_at := nowIso\<rparr>) (ingest_runs db)\<rparr>)"

section \<open>Lemmas on values and normalisation\<close>

lemma columns_ok_classifyValue: "columns_ok (classifyValue v)"
  by (simp add: classifyValue_def columns_ok_def none_of_def split: option.split)

lemma normalise_loop_datums:
  "\<exists>new. nm_datums (normalise_loop tiers rcv ds r) = nm_datums r @ new \<and>
     (\<forall>d \<in> set new. columns_ok (nd_value d) \<and> tiers (nd_key d) = Some (nd_tier d, True))"
proof (induction tiers rcv ds r rule: normalise_loop.induct)
  case (1 tiers rcv r)
  then show ?case by simp
next
  case (2 tiers rcv u datum rest r)
  show ?case
  proof (cases "tiers (td_key datum)")
    case None
    with 2(1) show ?thesis by simp
  next
    case (Some p)
    then obtain t c where p: "tiers (td_key datum) = Some (t, c)" by (cases p) auto
    show ?thesis
    proof (cases c)
      case False
      with p 2(2) show ?thesis by auto
    next
      case True
      with p 2(3) [OF p [unfolded True] refl] show ?thesis
        by (auto simp: Let_def columns_ok_classifyValue)
    qed
  qed
qed

lemma normalise_datums:
  "d \<in> set (nm_datums (normalise ds tiers rcv)) \<Longrightarrow>
   columns_ok (nd_value d) \<and> tiers (nd_key d) = Some (nd_tier d, True)"
  using normalise_loop_datums [of tiers rcv ds "\<lparr>nm_datums = [], nm_skipped_unknown = 0,
     nm_skipped_uncollected = 0, nm_invalid_values = 0\<rparr>"]
  by (auto simp: normalise_def)

lemma normalise_loop_counts:
  "length (nm_datums (normalise_loop tiers rcv ds r)) + nm_skipped_unknown (normalise_loop tiers rcv ds r)
     + nm_skipped_uncollected (normalise_loop tiers rcv ds r) =
   length (nm_datums r) + nm_skipped_unknown r + nm_skipped_uncollected r + length ds"
  by (induction tiers rcv ds r rule: normalise_loop.induct) (auto simp: Let_def split: option.split)

section \<open>Lemmas on tier resolution\<close>

lemma set_js_set [simp]: "set (js_set xs) = set xs"
  by (simp add: js_set_def)

lemma distinct_js_set [simp]: "distinct (js_set xs)"
  by (simp add: js_set_def)

lemma query_rows_apply:
  assumes "distinct (map fc_key rows)"
  shows "fold (\<lambda>c m. m(fc_key c \<mapsto> g c)) (filter (\<lambda>c. fc_key c \<in> S) rows) m k =
    (if k \<in> S then (case first_where (\<lambda>c. fc_key c = k) rows of Some c \<Rightarrow> Some (g c) | None \<Rightarrow> m k) else m k)"
  using assms
proof (induction rows arbitrary: m)
  case Nil
  then show ?case by simp
next
  case (Cons c rows)
  have "fc_key c \<notin> fc_key ` set rows" using Cons.prems by simp
  then have "\<forall>d \<in> set rows. fc_key d \<noteq> fc_key c" by (metis imageI)
  then have "first_where (\<lambda>d. fc_key d = fc_key c) rows = None"
    by (simp add: find_None_set)
  with Cons show ?case by (auto split: option.split)
qed

lemma query_chunk_apply:
  assumes "distinct (map fc_key (catalog db))"
  shows "query_chunk db chunk m k =
    (if k \<in> set chunk then (case catalog_meta db k of Some x \<Rightarrow> Some x | None \<Rightarrow> m k) else m k)"
  unfolding query_chunk_def query_rows_apply [OF assms] catalog_meta_def
  by (auto split: option.split)

lemma resolve_chunks_apply:
  assumes "distinct (map fc_key (catalog db))"
  shows "resolve_chunks db unique i m k =
    (if k \<in> set (drop i unique)
     then (case catalog_meta db k of Some x \<Rightarrow> Some x | None \<Rightarrow> m k) else m k)"
  using assms
proof (induction db unique i m rule: resolve_chunks.induct)
  case (1 db unique i m)
  show ?case
  proof (cases "i < length unique")
    case True
    have "drop i unique = take 80 (drop i unique) @ drop (i + 80) unique"
      by (metis append_take_drop_id drop_drop add.commute)
    then have "set (drop i unique) = set (take 80 (drop i unique)) \<union> set (drop (i + 80) unique)"
      by (metis set_append)
    then have mem: "k \<in> set (drop i unique) \<longleftrightarrow>
        k \<in> set (take 80 (drop i unique)) \<or> k \<in> set (drop (i + 80) unique)" by blast
    show ?thesis
      unfolding resolve_chunks.simps [of db unique i m] if_P [OF True]
        1(1) [OF True 1(2)] query_chunk_apply [OF 1(2)] mem
      by (simp split: option.split)
  next
    case False
    then show ?thesis by (simp add: resolve_chunks.simps [of db unique i m])
  qed
qed

lemma resolveTiers_apply:
  assumes "distinct (map fc_key (catalog db))"
  shows "resolveTiers db ks k = (if k \<in> set ks then catalog_meta db k else None)"
  by (simp add: resolveTiers_def resolve_chunks_apply [OF assms] split: option.split)

lemma normalise_resolved:
  assumes "distinct (map fc_key (catalog db))"
    and "d \<in> set (nm_datums (normalise ds (resolveTiers db ks) rcv))"
  shows "columns_ok (nd_value d) \<and> catalog_meta db (nd_key d) = Some (nd_tier d, True)"
  using normalise_datums [OF assms(2)] by (simp add: resolveTiers_apply [OF assms(1)] split: if_splits)

section \<open>Lemmas on deduplication\<close>

text \<open>The reading that must survive among those of one field and instant.\<close>

definition winning_reading :: "normalised_datum list \<Rightarrow> normalised_datum option" where
  "winning_reading ds =
     (let valid = filter (\<lambda>d. \<not> is_invalid d) ds
      in if valid \<noteq> [] then Some (last valid) else if ds \<noteq> [] then Some (last ds) else None)"

lemma winning_reading_Nil [simp]: "winning_reading [] = None"
  by (simp add: winning_reading_def)

lemma winning_reading_snoc:
  "winning_reading (ds @ [d]) =
     (case winning_reading ds of
        Some w \<Rightarrow> if \<not> is_invalid w \<and> is_invalid d then Some w else Some d
      | None \<Rightarrow> Some d)"
proof (cases "filter (\<lambda>d. \<not> is_invalid d) ds = []")
  case True
  then have all: "winning_reading ds = (if ds = [] then None else Some (last ds))"
    by (simp add: winning_reading_def)
  have "is_invalid (last ds)" if "ds \<noteq> []"
    using True last_in_set [OF that] by (simp add: filter_empty_conv)
  with True show ?thesis unfolding all by (simp add: winning_reading_def)
next
  case False
  then have "\<not> is_invalid (last (filter (\<lambda>d. \<not> is_invalid d) ds))"
    using last_in_set [OF False] by auto
  with False show ?thesis by (auto simp: winning_reading_def)
qed

lemma dedupe_map_of:
  "map_of (foldl dedupe_step [] ds) k = winning_reading (filter (\<lambda>d. dedupe_key d = k) ds)"
proof (induction ds rule: rev_induct)
  case Nil
  then show ?case by simp
next
  case (snoc d ds)
  let ?m = "foldl dedupe_step [] ds"
  have "map_of (dedupe_step ?m d) k =
     (if dedupe_key d = k
      then (case map_of ?m k of
              Some w \<Rightarrow> if \<not> is_invalid w \<and> is_invalid d then Some w else Some d
            | None \<Rightarrow> Some d)
      else map_of ?m k)"
    by (auto simp: dedupe_step_def update_conv' split: option.split)
  with snoc show ?case by (simp add: winning_reading_snoc)
qed

lemma dedupe_step_cases: "dedupe_step m d = m \<or> dedupe_step m d = AList.update (dedupe_key d) d m"
  by (simp add: dedupe_step_def split: option.split)

lemma set_alist_update: "set (AList.update k v m) \<subseteq> insert (k, v) (set m)"
  by (induction m) auto

lemma dedupe_step_invariant:
  assumes "distinct (map fst m)" and "\<forall>(k, x) \<in> set m. dedupe_key x = k \<and> x \<in> S"
  shows "distinct (map fst (dedupe_step m d))"
    and "\<forall>(k, x) \<in> set (dedupe_step m d). dedupe_key x = k \<and> x \<in> insert d S"
proof -
  show "distinct (map fst (dedupe_step m d))"
    using dedupe_step_cases [of m d] assms(1) by (auto simp: distinct_update)
  have "set (dedupe_step m d) \<subseteq> insert (dedupe_key d, d) (set m)"
    using dedupe_step_cases [of m d] set_alist_update [of "dedupe_key d" d m] by auto
  with assms(2) show "\<forall>(k, x) \<in> set (dedupe_step m d). dedupe_key x = k \<and> x \<in> insert d S"
    by (force split: prod.splits)
qed

lemma dedupe_invariant:
  "distinct (map fst (foldl dedupe_step [] ds)) \<and>
   (\<forall>(k, d) \<in> set (foldl dedupe_step [] ds). dedupe_key d = k \<and> d \<in> set ds)"
proof (induction ds rule: rev_induct)
  case Nil
  then show ?case by simp
next
  case (snoc d ds)
  then show ?case
    using dedupe_step_invariant [of "foldl dedupe_step [] ds" "set ds" d] by simp
qed

lemma dedupe_keys_distinct: "distinct (map dedupe_key (dedupe ds))"
proof -
  have "map dedupe_key (dedupe ds) = map fst (foldl dedupe_step [] ds)"
    using dedupe_invariant [of ds] by (auto simp: dedupe_def)
  then show ?thesis using dedupe_invariant [of ds] by simp
qed

lemma dedupe_subset: "set (dedupe ds) \<subseteq> set ds"
  using dedupe_invariant [of ds] by (auto simp: dedupe_def)

lemma dedupe_iff:
  "d \<in> set (dedupe ds) \<longleftrightarrow> winning_reading (filter (\<lambda>x. dedupe_key x = dedupe_key d) ds) = Some d"
proof -
  have "d \<in> set (dedupe ds) \<longleftrightarrow> (dedupe_key d, d) \<in> set (foldl dedupe_step [] ds)"
    using dedupe_invariant [of ds] by (force simp: dedupe_def)
  also have "\<dots> \<longleftrightarrow> map_of (foldl dedupe_step [] ds) (dedupe_key d) = Some d"
    using dedupe_invariant [of ds] by (metis map_of_eq_Some_iff)
  finally show ?thesis by (simp add: dedupe_map_of)
qed

section \<open>Lemmas on the three batches\<close>

interpretation snapshot_table: overwrite_table put_snapshot snapshot_of snapshot_key "\<lambda>old new. new"
  by unfold_locales
    (auto simp: put_snapshot_def snapshot_of_def find_upsert_same find_upsert_other
      split: option.split dest: find_SomeD)

definition fact_content :: "fact_row \<Rightarrow> field_key \<times> iso \<times> classified \<times> tier" where
  "fact_content f = (f_field f, f_observed_at f, f_value f, f_tier f)"

definition datum_content :: "normalised_datum \<Rightarrow> field_key \<times> iso \<times> classified \<times> tier" where
  "datum_content d = (nd_key d, nd_observed_at d, nd_value d, nd_tier d)"

lemma fact_rows_of_content:
  "map fact_content (fst (fact_rows_of e v rcv b rs src pt ds db)) =
     map datum_content (filter (\<lambda>d. nd_tier d \<noteq> Once) ds)"
  by (induction ds arbitrary: db)
    (auto simp: Let_def fact_content_def datum_content_def case_prod_beta)

lemma fact_rows_of_owner:
  "\<forall>f \<in> set (fst (fact_rows_of e v rcv b rs src pt ds db)).
     f_vin f = v \<and> f_batch f = b \<and> f_received_at f = rcv \<and> f_source f = src \<and> f_is_resend f = rs \<and> f_payload f = pt"
  by (induction ds arbitrary: db) (simp_all add: Let_def case_prod_beta)

lemma fact_rows_of_db:
  "\<exists>t. snd (fact_rows_of e v rcv b rs src pt ds db) = db\<lparr>tick := t\<rparr>"
proof (induction ds arbitrary: db)
  case Nil
  then show ?case by (metis fact_rows_of.simps(1) snd_conv store_db.surjective store_db.update_convs(1))
next
  case (Cons d ds)
  from Cons [of db] Cons [of "db\<lparr>tick := Suc (tick db)\<rparr>"] show ?case
    by (auto simp: Let_def fresh_id_def split: prod.split)
qed

lemma insert_facts_Some:
  "insert_facts fs db = Some db' \<Longrightarrow> db' = db\<lparr>facts := facts db @ fs\<rparr>"
proof (induction fs arbitrary: db)
  case (Cons f fs)
  then have "insert_facts fs (db\<lparr>facts := facts db @ [f]\<rparr>) = Some db'" by (simp split: if_splits)
  from Cons.IH [OF this] show ?case by simp
qed simp

lemma insert_facts_ok:
  assumes "\<And>f. f \<in> set fs \<Longrightarrow> vehicleExists db (f_vin f) \<and> (\<exists>t. catalog_meta db (f_field f) = Some (t, True)) \<and>
      list_ex (\<lambda>b. b_id b = f_batch f) (batches db) \<and> columns_ok (f_value f) \<and> f_tier f \<noteq> Once"
    and "distinct (map fact_identity (facts db @ fs))"
  shows "insert_facts fs db = Some (db\<lparr>facts := facts db @ fs\<rparr>)"
  using assms
proof (induction fs arbitrary: db)
  case Nil
  then show ?case by simp
next
  case (Cons f fs)
  have "fact_identity f \<notin> fact_identity ` set (facts db)"
    using Cons.prems(2) by auto
  then have "\<not> list_ex (\<lambda>g. fact_identity g = fact_identity f) (facts db)"
    by (auto simp: list_ex_iff image_iff)
  with Cons.prems(1) [of f] have "fact_allowed db f"
    by (auto simp: fact_allowed_def)
  moreover have "insert_facts fs (db\<lparr>facts := facts db @ [f]\<rparr>) =
      Some (db\<lparr>facts := facts db @ [f]\<rparr>\<lparr>facts := facts (db\<lparr>facts := facts db @ [f]\<rparr>) @ fs\<rparr>)"
    by (rule Cons.IH) (use Cons.prems in \<open>auto simp: catalog_meta_def vehicleExists_def\<close>)
  ultimately show ?case by simp
qed

lemma put_snapshot_frame [simp]:
  "facts (put_snapshot r db) = facts db"
  "snapshot_allowed (put_snapshot r db) = snapshot_allowed db"
  by (simp_all add: fun_eq_iff put_snapshot_def snapshot_allowed_def catalog_meta_def vehicleExists_def)

lemma insert_snapshots_eq:
  "insert_snapshots rs db = (if list_all (snapshot_allowed db) rs then Some (fold put_snapshot rs db) else None)"
  by (induction rs arbitrary: db) auto

lemma fold_put_snapshot_frame [simp]: "facts (fold put_snapshot rs db) = facts db"
  by (induction rs arbitrary: db) auto

lemma insert_history_frame [simp]:
  "facts (insert_history rs db) = facts db" "snapshots (insert_history rs db) = snapshots db"
  by (induction rs arbitrary: db) auto

lemma insert_history_snapshot_of [simp]: "snapshot_of (insert_history rs db) = snapshot_of db"
  by (simp add: snapshot_of_def fun_eq_iff)

lemma persistDatums_Inr:
  assumes "persistDatums e b (Some v) ds rcv rs src db = (Inr counts, db')"
  shows "\<exists>db1 rows db3. fact_rows_of e v rcv b rs src (classifyPayload (map nd_key (dedupe ds))) (dedupe ds) db = (rows, db1) \<and>
     insert_facts rows db1 = Some (db1\<lparr>facts := facts db1 @ rows\<rparr>) \<and>
     db3 = fold put_snapshot (map (snapshot_row_of e v) (filter (\<lambda>d. nd_tier d = Once) (dedupe ds)))
       (db1\<lparr>facts := facts db1 @ rows\<rparr>) \<and>
     db' = insert_history (map (snapshot_row_of e v) (filter (\<lambda>d. nd_tier d = Once) (dedupe ds))) db3"
  using assms
  by (auto simp: persistDatums_def Let_def insert_snapshots_eq split: if_splits prod.splits option.splits
      dest: insert_facts_Some)

lemma sum_signals_upsert:
  assumes "\<And>x y. counter_key x = counter_key y \<Longrightarrow> P x = P y"
  shows "sum_list (map sg_signals (filter P (upsert_by counter_key add_counter r rows))) =
    sum_list (map sg_signals (filter P rows)) + (if P r then sg_signals r else 0)"
proof (induction rows)
  case Nil
  then show ?case by simp
next
  case (Cons x rows)
  have "P (add_counter x r) = P x" by (rule assms) (simp add: counter_key_def add_counter_def)
  moreover have "P x = P r" if "counter_key x = counter_key r" using assms that by blast
  ultimately show ?case using Cons by (auto simp: add_counter_def)
qed

lemma persist_normalised:
  assumes cat: "distinct (map fc_key (catalog db))" and veh: "vehicleExists db v" and "v \<noteq> []"
    and bat: "list_ex (\<lambda>x. b_id x = b) (batches db)" and fresh: "list_all (\<lambda>f. f_batch f \<noteq> b) (facts db)"
    and dist: "distinct (map fact_identity (facts db))"
    and nd: "nds = nm_datums (normalise ds (resolveTiers db ks) rcv)"
  shows "\<exists>counts db' new. persistDatums e b (Some v) nds rcv rs src db = (Inr counts, db') \<and>
     facts db' = facts db @ new \<and>
     map fact_content new = map datum_content (filter (\<lambda>d. nd_tier d \<noteq> Once) (dedupe nds)) \<and>
     list_all (\<lambda>f. f_vin f = v \<and> f_batch f = b) new \<and> distinct (map fact_identity (facts db'))"
proof -
  obtain rows db1 where R: "fact_rows_of e v rcv b rs src (classifyPayload (map nd_key (dedupe nds))) (dedupe nds) db = (rows, db1)"
    by fastforce
  then obtain t where db1: "db1 = db\<lparr>tick := t\<rparr>"
    using fact_rows_of_db [of e v rcv b rs src "classifyPayload (map nd_key (dedupe nds))" "dedupe nds" db] by auto
  have own: "\<forall>f \<in> set rows. f_vin f = v \<and> f_batch f = b"
    using fact_rows_of_owner [of e v rcv b rs src "classifyPayload (map nd_key (dedupe nds))" "dedupe nds" db] R by auto
  have content: "map fact_content rows = map datum_content (filter (\<lambda>d. nd_tier d \<noteq> Once) (dedupe nds))"
    using fact_rows_of_content [of e v rcv b rs src "classifyPayload (map nd_key (dedupe nds))" "dedupe nds" db] R by simp
  have typed: "\<forall>d \<in> set nds. columns_ok (nd_value d) \<and> catalog_meta db (nd_key d) = Some (nd_tier d, True)"
    unfolding nd using normalise_resolved [OF cat] by blast
  have ok: "vehicleExists db1 (f_vin f) \<and> (\<exists>t. catalog_meta db1 (f_field f) = Some (t, True)) \<and>
      list_ex (\<lambda>b. b_id b = f_batch f) (batches db1) \<and> columns_ok (f_value f) \<and> f_tier f \<noteq> Once"
    if "f \<in> set rows" for f
  proof -
    have "fact_content f \<in> set (map fact_content rows)" using that by simp
    then obtain d where "d \<in> set (dedupe nds)" "nd_tier d \<noteq> Once" "fact_content f = datum_content d"
      unfolding content by auto
    with typed dedupe_subset [of nds] own that veh bat show ?thesis
      by (auto simp: db1 fact_content_def datum_content_def vehicleExists_def catalog_meta_def)
  qed
  have "map dedupe_key (filter (\<lambda>d. nd_tier d \<noteq> Once) (dedupe nds)) = map (\<lambda>f. (f_field f, f_observed_at f)) rows"
    using arg_cong [OF content, of "map (\<lambda>(k, t, x, y). (k, t))"]
    by (simp add: fact_content_def datum_content_def dedupe_key_def comp_def)
  then have "distinct (map (\<lambda>f. (f_field f, f_observed_at f)) rows)"
    by (metis dedupe_keys_distinct distinct_map_filter)
  then have "distinct (map fact_identity rows)"
    by (simp add: distinct_map inj_on_def fact_identity_def)
  with own fresh dist have dist1: "distinct (map fact_identity (facts db @ rows))"
    by (fastforce simp: fact_identity_def list_all_iff)
  then have F: "insert_facts rows db1 = Some (db1\<lparr>facts := facts db1 @ rows\<rparr>)"
    by (intro insert_facts_ok ok) (simp_all add: db1)
  have S: "list_all (snapshot_allowed (db1\<lparr>facts := facts db1 @ rows\<rparr>))
      (map (snapshot_row_of e v) (filter (\<lambda>d. nd_tier d = Once) (dedupe nds)))"
    using typed dedupe_subset [of nds] veh
    by (fastforce simp: db1 list_all_iff snapshot_allowed_def snapshot_row_of_def catalog_meta_def vehicleExists_def is_invalid_def)
  from R F S content own dist1 \<open>v \<noteq> []\<close> show ?thesis
    by (simp add: persistDatums_def insert_snapshots_eq db1 list_all_iff Let_def)
qed

section \<open>Properties\<close>

text \<open>C28: normalisation against the resolved catalog: every datum that is kept fills exactly
  the column of its kind, is collected, and carries the tier the catalog gives its field; and
  every datum of the payload is either kept or counted as unknown or uncollected.\<close>

theorem normalise_typed:
  assumes "distinct (map fc_key (catalog db))"
  shows "list_all (\<lambda>d. columns_ok (nd_value d) \<and> catalog_meta db (nd_key d) = Some (nd_tier d, True))
      (nm_datums (normalise ds (resolveTiers db ks) rcv)) \<and>
    length (nm_datums (normalise ds (resolveTiers db ks) rcv))
      + nm_skipped_unknown (normalise ds (resolveTiers db ks) rcv)
      + nm_skipped_uncollected (normalise ds (resolveTiers db ks) rcv) = length ds"
proof
  show "list_all (\<lambda>d. columns_ok (nd_value d) \<and> catalog_meta db (nd_key d) = Some (nd_tier d, True))
      (nm_datums (normalise ds (resolveTiers db ks) rcv))"
    using normalise_resolved [OF assms] by (auto simp: list_all_iff)
  show "length (nm_datums (normalise ds (resolveTiers db ks) rcv))
      + nm_skipped_unknown (normalise ds (resolveTiers db ks) rcv)
      + nm_skipped_uncollected (normalise ds (resolveTiers db ks) rcv) = length ds"
    by (simp add: normalise_def normalise_loop_counts)
qed

text \<open>C14: deduplication of one payload: for every field and instant exactly one reading is
  kept; it is the last valid one, or the last one when none is valid, so an invalid marker
  never replaces a valid reading.\<close>

theorem dedupe_keeps_best:
  "distinct (map dedupe_key (dedupe ds)) \<and>
   (\<forall>d. d \<in> set (dedupe ds) \<longleftrightarrow> winning_reading (filter (\<lambda>x. dedupe_key x = dedupe_key d) ds) = Some d)"
  by (simp add: dedupe_keys_distinct dedupe_iff)

text \<open>C13: a normalised payload of a known vehicle in a fresh batch is always accepted: no
  constraint of the fact table or of the snapshot table is violated, the rows appended to the
  fact table are the deduplicated readings whose tier is not \<open>once\<close>, in order, under this
  vehicle and batch, and the identities of the fact table stay unique.\<close>

theorem persist_normalised_total:
  assumes cat: "distinct (map fc_key (catalog db))" and veh: "vehicleExists db v" and "v \<noteq> []"
    and bat: "list_ex (\<lambda>x. b_id x = b) (batches db)" and fresh: "list_all (\<lambda>f. f_batch f \<noteq> b) (facts db)"
    and dist: "distinct (map fact_identity (facts db))"
    and nd: "nds = nm_datums (normalise ds (resolveTiers db ks) rcv)"
  shows "\<exists>counts db' new. persistDatums e b (Some v) nds rcv rs src db = (Inr counts, db') \<and>
     facts db' = facts db @ new \<and>
     map fact_content new = map datum_content (filter (\<lambda>d. nd_tier d \<noteq> Once) (dedupe nds)) \<and>
     list_all (\<lambda>f. f_vin f = v \<and> f_batch f = b) new \<and> distinct (map fact_identity (facts db'))"
  using assms by (rule persist_normalised)

text \<open>A reading of the \<open>once\<close> tier goes to the snapshot of the vehicle and never to the
  fact table: after a write that succeeds the snapshot of its field is that reading, when the
  payload holds one reading of the field.\<close>

theorem persistDatums_snapshot:
  assumes P: "persistDatums e b (Some v) ds rcv rs src db = (Inr counts, db')"
    and d: "d \<in> set (dedupe ds)" "nd_tier d = Once"
    and one: "\<forall>x \<in> set (dedupe ds). nd_key x = nd_key d \<longrightarrow> x = d"
  shows "snapshot_of db' (v, nd_key d) = Some (snapshot_row_of e v d)"
proof -
  let ?rows = "map (snapshot_row_of e v) (filter (\<lambda>d. nd_tier d = Once) (dedupe ds))"
  have k: "snapshot_key (snapshot_row_of e v x) = (v, nd_key x)" for x
    by (simp add: snapshot_key_def snapshot_row_of_def)
  obtain db2 where "db' = insert_history ?rows (fold put_snapshot ?rows db2)"
    using persistDatums_Inr [OF P] by auto
  moreover have "snapshot_of (fold put_snapshot ?rows db2) (snapshot_key (snapshot_row_of e v d)) = Some (snapshot_row_of e v d)"
    by (rule snapshot_table.get_fold_put_unique) (use d one k in auto)
  ultimately show ?thesis by (simp add: k)
qed

text \<open>Signal accounting: recording the signals of a payload raises the monthly report of
  every selection that includes the vehicle and the day by exactly that number, whether the
  counter of the day existed or not, and changes no other report.\<close>

theorem recordSignals_cost:
  "fst (costReport (recordSignals e vin n now db) month sel) = fst (costReport db month sel) +
     (if starts_with (take 10 now) month \<and> (case sel of None \<Rightarrow> True | Some v \<Rightarrow> v = [] \<or> vin = Some v)
      then n else 0)"
proof -
  let ?P = "\<lambda>r. starts_with (sg_period_start r) month \<and>
      (case sel of None \<Rightarrow> True | Some v \<Rightarrow> v = [] \<or> sg_vin r = Some v)"
  have P: "\<And>x y. counter_key x = counter_key y \<Longrightarrow> ?P x = ?P y"
    by (auto simp: counter_key_def split: option.split)
  show ?thesis
    unfolding costReport_def recordSignals_def put_counter_def fresh_id_def Let_def case_prod_conv
    using sum_signals_upsert [of ?P, OF P] by (cases sel; cases vin; auto)
qed

section \<open>Concrete runs\<close>

definition sample_catalog :: "catalog_row list" where
  "sample_catalog =
     [\<lparr>fc_key = ''Odometer'', fc_tier = On_change, fc_collected = True, fc_min_delta = Some 1, fc_rest_path = None\<rparr>,
      \<lparr>fc_key = ''CarType'', fc_tier = Once, fc_collected = True, fc_min_delta = None, fc_rest_path = None\<rparr>]"

definition sample_batch :: batch_row where
  "sample_batch = \<lparr>b_id = ''B'', b_vin = Some ''V1'', b_received_at = ''t0'', b_payload_bytes = 1, b_r2_key = ''k'',
     b_sha256 = ''h'', b_datum_count = 2, b_content_type = ''c'', b_run = None, b_processed_at = None\<rparr>"

definition sample_telemetry_db :: telemetry_db where
  "sample_telemetry_db = config_db.extend (sample_config_db\<lparr>catalog := sample_catalog\<rparr>)
     \<lparr>facts = [], snapshots = [], snapshot_history = [], batches = [sample_batch], signal_counters = [], ingest_runs = []\<rparr>"

definition sample_payload :: "(vin option \<times> telemetry_datum) list" where
  "sample_payload =
     [(Some ''V1'', \<lparr>td_key = ''Odometer'', td_value = Some (JObj [(''doubleValue'', JNum 42)]), td_created_at = Some ''t1''\<rparr>),
      (Some ''V1'', \<lparr>td_key = ''Odometer'', td_value = Some (JObj [(''invalid'', JBool True)]), td_created_at = Some ''t1''\<rparr>),
      (Some ''V1'', \<lparr>td_key = ''CarType'', td_value = Some (JObj [(''stringValue'', JStr ''model3'')]), td_created_at = None\<rparr>)]"

lemmas sample_telemetry_simps = sample_telemetry_db_def sample_batch_def sample_catalog_def sample_config_db_def
  sample_store_def sample_vehicle_def store_db.extend_def config_db.extend_def

theorem normalise_typed_witness:
  "list_all (\<lambda>d. columns_ok (nd_value d) \<and> catalog_meta sample_telemetry_db (nd_key d) = Some (nd_tier d, True))
      (nm_datums (normalise sample_payload (resolveTiers sample_telemetry_db [''Odometer'']) ''t9'')) \<and>
    length (nm_datums (normalise sample_payload (resolveTiers sample_telemetry_db [''Odometer'']) ''t9''))
      + nm_skipped_unknown (normalise sample_payload (resolveTiers sample_telemetry_db [''Odometer'']) ''t9'')
      + nm_skipped_uncollected (normalise sample_payload (resolveTiers sample_telemetry_db [''Odometer'']) ''t9'')
    = length sample_payload"
  by (rule normalise_typed) (simp add: sample_telemetry_simps)

theorem persist_normalised_total_witness:
  "\<exists>counts db' new. persistDatums sample_runtime ''B'' (Some ''V1'')
       (nm_datums (normalise sample_payload (resolveTiers sample_telemetry_db [''Odometer'', ''CarType'']) ''t9''))
       ''t9'' False T_telemetry sample_telemetry_db = (Inr counts, db') \<and>
     facts db' = facts sample_telemetry_db @ new \<and>
     map fact_content new = map datum_content (filter (\<lambda>d. nd_tier d \<noteq> Once)
       (dedupe (nm_datums (normalise sample_payload (resolveTiers sample_telemetry_db [''Odometer'', ''CarType'']) ''t9'')))) \<and>
     list_all (\<lambda>f. f_vin f = ''V1'' \<and> f_batch f = ''B'') new \<and> distinct (map fact_identity (facts db'))"
  by (rule persist_normalised_total [OF _ _ _ _ _ _ refl])
    (simp_all add: sample_telemetry_simps vehicleExists_def)

definition sample_once :: normalised_datum where
  "sample_once = \<lparr>nd_key = ''CarType'', nd_observed_at = ''t9'',
     nd_value = (none_of KText)\<lparr>cv_text := Some ''model3''\<rparr>, nd_tier = Once\<rparr>"

theorem persistDatums_snapshot_witness:
  "snapshot_of (snd (persistDatums sample_runtime ''B'' (Some ''V1'') [sample_once] ''t9'' False T_telemetry
      sample_telemetry_db)) (''V1'', nd_key sample_once) =
    Some (snapshot_row_of sample_runtime ''V1'' sample_once)"
proof -
  have once: "dedupe [sample_once] = [sample_once]" "nd_tier sample_once = Once"
    by (simp_all add: dedupe_def dedupe_step_def sample_once_def)
  have "list_all (snapshot_allowed sample_telemetry_db) [snapshot_row_of sample_runtime ''V1'' sample_once]"
    by (auto simp: snapshot_allowed_def snapshot_row_of_def sample_once_def sample_telemetry_simps vehicleExists_def
      catalog_meta_def is_invalid_def none_of_def)
  then obtain counts db' where P: "persistDatums sample_runtime ''B'' (Some ''V1'') [sample_once] ''t9'' False T_telemetry
      sample_telemetry_db = (Inr counts, db')"
    by (simp add: persistDatums_def once Let_def insert_snapshots_eq)
  show ?thesis
    unfolding P snd_conv by (rule persistDatums_snapshot [OF P]) (simp_all add: once)
qed

end
