(* ===== verification/Network.thy ===== *)
theory Network
  imports Store
begin

text \<open>
  The services the Worker calls over the network, as oracles of the environment: what a request
  returns is a function of the number of effects that happened before it and of the request, so
  that the same request may be answered differently later.  A reply is \<open>Inl\<close> the message of a
  transport error or \<open>Inr\<close> the status and the body, with the body's parse, if it has one.
\<close>

record http_reply =
  hr_status :: nat
  hr_text :: string
  hr_json :: "json option"

type_synonym reply = "string + http_reply"

definition reply_ok :: "http_reply \<Rightarrow> bool" where
  "reply_ok r \<longleftrightarrow> 200 \<le> hr_status r \<and> hr_status r < 300"

text \<open>
  The vehicle-command signer, the Fleet API, the token endpoint, and the cipher that seals the
  stored tokens; \<open>nw_random36\<close> is \<open>Math.random().toString(36).slice(2, 9)\<close>, \<open>nw_datetime\<close> is
  SQLite's \<open>datetime('now')\<close> and \<open>nw_iso_of_ms\<close> is \<open>new Date(ms).toISOString()\<close>.
\<close>

record network = runtime +
  nw_signer_post :: "nat \<Rightarrow> string \<Rightarrow> json \<Rightarrow> reply"
  nw_signer_get :: "nat \<Rightarrow> string \<Rightarrow> vin \<Rightarrow> reply"
  nw_fleet_get :: "nat \<Rightarrow> string \<Rightarrow> vin \<Rightarrow> reply"
  nw_token :: "nat \<Rightarrow> string \<Rightarrow> reply"
  nw_has_client :: bool
  nw_open_token :: "sealed_token \<Rightarrow> string option"
  nw_seal_token :: "nat \<Rightarrow> string \<Rightarrow> sealed_token option"
  nw_random36 :: "nat \<Rightarrow> string"
  nw_datetime :: "nat \<Rightarrow> iso"
  nw_iso_of_ms :: "rat \<Rightarrow> iso"

text \<open>One effect happened.\<close>

definition next_tick :: "('a) store_db_scheme \<Rightarrow> ('a) store_db_scheme" where
  "next_tick db = db\<lparr>tick := Suc (tick db)\<rparr>"

text \<open>\<open>String(v)\<close>; an array is the comma-separated text of its items.\<close>

fun js_string :: "('e) runtime_scheme \<Rightarrow> json \<Rightarrow> string" where
  "js_string e JNull = ''null''"
| "js_string e (JBool b) = (if b then ''true'' else ''false'')"
| "js_string e (JNum q) = rt_num_text e q"
| "js_string e (JStr s) = s"
| "js_string e (JArr xs) =
     join_with '','' (map (\<lambda>x. if x = JNull then [] else js_string e x) xs)"
| "js_string e (JObj ps) = ''[object Object]''"

end
