(* ===== verification/KeyPairing.thy ===== *)
theory KeyPairing
  imports Telemetry Network
begin

text \<open>
  \<open>key-pairing.ts\<close>: the poll that decides whether a vehicle holds the virtual key, the member
  access token it is made with, and the reconciliation of the key table and of the telemetry
  configuration table with what Tesla reports.
\<close>

section \<open>Rows\<close>

datatype key_state = Paired | Unpaired | Unpaired_by_owner

record key_row =
  k_vin :: vin
  k_state :: key_state
  k_paired_at :: "iso option"
  k_last_error :: "string option"
  k_updated_at :: iso

record key_db = telemetry_db +
  vehicle_keys :: "key_row list"

datatype polled_state = PS_paired | PS_pending | PS_unknown | PS_failed

record key_pairing_result =
  kp_vin :: vin
  kp_new_state :: polled_state
  kp_key_paired :: bool
  kp_synced :: bool
  kp_unpaired_by_owner :: bool
  kp_has_config :: bool
  kp_config_hostname :: "json option"
  kp_config_port :: "rat option"
  kp_error :: "string option"

section \<open>The poll\<close>

definition failed_poll :: "vin \<Rightarrow> string \<Rightarrow> key_pairing_result" where
  "failed_poll vin err =
     \<lparr>kp_vin = vin, kp_new_state = PS_failed, kp_key_paired = False, kp_synced = False,
      kp_unpaired_by_owner = False, kp_has_config = False, kp_config_hostname = None,
      kp_config_port = None, kp_error = Some err\<rparr>"

text \<open>\<open>v?.k\<close> for a \<open>v\<close> that may be missing or null.\<close>

definition opt_prop :: "json option \<Rightarrow> string \<Rightarrow> json option" where
  "opt_prop v k = (case v of None \<Rightarrow> None | Some j \<Rightarrow> js_prop j k)"

definition read_poll :: "vin \<Rightarrow> json \<Rightarrow> key_pairing_result" where
  "read_poll vin body =
     (if body = JNull then failed_poll vin ''transport:Cannot read properties of null (reading 'response')''
      else (let response = js_prop body ''response'';
                keyPaired = (opt_prop response ''key_paired'' = Some (JBool True));
                synced = (opt_prop response ''synced'' = Some (JBool True));
                config = opt_prop response ''config'';
                hasConfig = truthy config
            in \<lparr>kp_vin = vin,
                kp_new_state = (if keyPaired then PS_paired else if synced then PS_pending else PS_unknown),
                kp_key_paired = keyPaired, kp_synced = synced,
                kp_unpaired_by_owner = (\<not> keyPaired \<and> hasConfig), kp_has_config = hasConfig,
                kp_config_hostname = coalesce (opt_prop config ''hostname'') None,
                kp_config_port = as_number (opt_prop config ''port''), kp_error = None\<rparr>))"

definition pollKeyPairing ::
  "('e) network_scheme \<Rightarrow> vin \<Rightarrow> string \<Rightarrow> ('a) store_db_scheme \<Rightarrow> key_pairing_result \<times> ('a) store_db_scheme" where
  "pollKeyPairing e vin accessToken db =
     (case nw_fleet_get e (tick db) accessToken vin of
        Inl msg \<Rightarrow> failed_poll vin (''transport:'' @ msg)
      | Inr res \<Rightarrow>
          if \<not> reply_ok res then failed_poll vin (''http_'' @ nat_text (hr_status res))
          else read_poll vin (case hr_json res of None \<Rightarrow> JObj [] | Some j \<Rightarrow> j), next_tick db)"

section \<open>The member's access token\<close>

text \<open>
  \<open>body.expires_in * 1000\<close>: the product converts its operand as \<open>Number\<close> does, and one that
  is not a number makes the date throw.
\<close>

definition expires_ms :: "json option \<Rightarrow> rat option" where
  "expires_ms v = map_option (\<lambda>q. q * 1000) (Option.bind v js_to_number)"

definition store_refreshed ::
  "('e) network_scheme \<Rightarrow> member_id \<Rightarrow> sealed_token \<Rightarrow> iso \<Rightarrow> ('a) store_db_scheme \<Rightarrow> ('a) store_db_scheme" where
  "store_refreshed e memberId sealed expiresAt db =
     next_tick (db\<lparr>oauth_tokens := update_where (\<lambda>r. o_member r = memberId)
       (\<lambda>r. r\<lparr>o_refresh := sealed, o_expires_at := Some expiresAt, o_updated_at := nw_datetime e (tick db)\<rparr>)
       (oauth_tokens db)\<rparr>)"

definition refreshAccessToken ::
  "('e) network_scheme \<Rightarrow> member_id \<Rightarrow> string \<Rightarrow> ('a) store_db_scheme \<Rightarrow> string option \<times> ('a) store_db_scheme" where
  "refreshAccessToken e memberId refreshToken db =
     (if \<not> nw_has_client e then (None, db)
      else (let db1 = next_tick db in
        case nw_token e (tick db) refreshToken of
          Inl _ \<Rightarrow> (None, db1)
        | Inr res \<Rightarrow>
            (case hr_json res of
               None \<Rightarrow> (None, db1)
             | Some body \<Rightarrow>
                 if \<not> reply_ok res \<or> body = JNull then (None, db1)
                 else (let newRefresh = (case as_string (js_prop body ''refresh_token'') of
                                           None \<Rightarrow> refreshToken | Some t \<Rightarrow> t)
                   in case expires_ms (js_prop body ''expires_in'') of
                        None \<Rightarrow> (None, db1)
                      | Some ms \<Rightarrow>
                          (case nw_seal_token e (tick db1) newRefresh of
                             None \<Rightarrow> (None, next_tick db1)
                           | Some sealed \<Rightarrow>
                               (as_string (js_prop body ''access_token''),
                                store_refreshed e memberId sealed
                                  (nw_iso_of_ms e (of_nat (rt_millis e (tick db1)) + ms)) (next_tick db1)))))))"

definition getMemberAccessToken ::
  "('e) network_scheme \<Rightarrow> member_id option \<Rightarrow> ('a) store_db_scheme \<Rightarrow> string option \<times> ('a) store_db_scheme" where
  "getMemberAccessToken e memberId db =
     (case memberId of
        None \<Rightarrow> (None, db)
      | Some m \<Rightarrow>
          (case latest_by o_updated_at (filter (\<lambda>r. o_member r = m) (oauth_tokens db)) of
             None \<Rightarrow> (None, db)
           | Some row \<Rightarrow>
               (case nw_open_token e (o_refresh row) of
                  None \<Rightarrow> (None, db)
                | Some refreshToken \<Rightarrow> refreshAccessToken e m refreshToken db)))"

text \<open>\<open>!token\<close> of the callers.\<close>

definition no_token :: "string option \<Rightarrow> bool" where
  "no_token t \<longleftrightarrow> t = None \<or> t = Some []"

section \<open>Reconciliation\<close>

datatype config_verification = Verify | Demote string

definition decideConfigVerification ::
  "telemetry_config_row option \<Rightarrow> key_pairing_result \<Rightarrow> config_verification option" where
  "decideConfigVerification row tesla =
     (case row of
        None \<Rightarrow> None
      | Some r \<Rightarrow>
          if tc_state r \<noteq> CActive \<and> tc_state r \<noteq> CPending then None
          else if kp_has_config tesla \<and> kp_config_hostname tesla = Some (JStr (tc_hostname r))
          then (case tc_verified_at r of
                  Some t \<Rightarrow> if t = [] then Some Verify else None
                | None \<Rightarrow> Some Verify)
          else Some (Demote (if \<not> kp_key_paired tesla then ''key_not_paired''
                             else if \<not> kp_has_config tesla then ''config_absent_at_tesla''
                             else ''config_hostname_mismatch'')))"

definition is_live :: "config_state \<Rightarrow> bool" where
  "is_live s \<longleftrightarrow> s = CActive \<or> s = CPending"

definition reconcileTelemetryConfig ::
  "('e) runtime_scheme \<Rightarrow> vin \<Rightarrow> key_pairing_result \<Rightarrow> ('a) store_db_scheme \<Rightarrow>
   (config_state \<times> string) option \<times> ('a) store_db_scheme" where
  "reconcileTelemetryConfig e vin polling db =
     (case latest_by tc_created_at (filter (\<lambda>r. tc_vin r = vin \<and> is_live (tc_state r)) (telemetry_configs db)) of
        None \<Rightarrow> (None, db)
      | Some row \<Rightarrow>
          (let (nowIso, db1) = now_iso e db in
           case decideConfigVerification (Some row) polling of
             None \<Rightarrow> (None, db1)
           | Some Verify \<Rightarrow>
               (None, db1\<lparr>telemetry_configs := update_where (\<lambda>r. tc_vin r = vin \<and> tc_state r = tc_state row)
                  (\<lambda>r. r\<lparr>tc_verified_at := Some nowIso\<rparr>) (telemetry_configs db1)\<rparr>)
           | Some (Demote reason) \<Rightarrow>
               (Some (tc_state row, reason),
                db1\<lparr>telemetry_configs := update_where (\<lambda>r. tc_vin r = vin \<and> is_live (tc_state r))
                  (\<lambda>r. r\<lparr>tc_state := CFailed, tc_last_error := Some reason, tc_verified_at := Some nowIso\<rparr>)
                  (telemetry_configs db1)\<rparr>)))"

definition resolveKeyState :: "bool \<Rightarrow> bool \<Rightarrow> key_state \<times> string option" where
  "resolveKeyState keyPaired unpairedByOwner =
     (if keyPaired then (Paired, None)
      else if unpairedByOwner then (Unpaired_by_owner, Some ''key_removed_by_owner'')
      else (Unpaired, Some ''key_not_paired_at_tesla''))"

text \<open>The conflict clause: the first \<open>paired_at\<close> is kept while the key stays paired.\<close>

definition merge_key :: "key_row \<Rightarrow> key_row \<Rightarrow> key_row" where
  "merge_key old new =
     old\<lparr>k_state := k_state new,
         k_paired_at := (if k_state new = Paired
                         then (case k_paired_at old of None \<Rightarrow> k_paired_at new | Some t \<Rightarrow> Some t) else None),
         k_last_error := k_last_error new, k_updated_at := k_updated_at new\<rparr>"

definition put_key :: "key_row \<Rightarrow> ('a) key_db_scheme \<Rightarrow> ('a) key_db_scheme" where
  "put_key r db = db\<lparr>vehicle_keys := upsert_by k_vin merge_key r (vehicle_keys db)\<rparr>"

definition key_of :: "('a) key_db_scheme \<Rightarrow> vin \<Rightarrow> key_row option" where
  "key_of db vin = first_where (\<lambda>r. k_vin r = vin) (vehicle_keys db)"

definition reconcileKeyState ::
  "('e) network_scheme \<Rightarrow> vin \<Rightarrow> bool \<Rightarrow> bool \<Rightarrow> ('a) key_db_scheme \<Rightarrow> key_state \<times> ('a) key_db_scheme" where
  "reconcileKeyState e vin keyPaired unpairedByOwner db =
     (let (nextState, lastError) = resolveKeyState keyPaired unpairedByOwner;
          t = nw_datetime e (tick db)
      in (nextState, next_tick (put_key \<lparr>k_vin = vin, k_state = nextState,
            k_paired_at = (if nextState = Paired then Some t else None),
            k_last_error = lastError, k_updated_at = t\<rparr> db)))"

section \<open>The dashboard check and the cron job\<close>

text \<open>
  The dashboard answers with the vehicle, its name and model, and its key state: here the row and
  the state.  \<open>v LEFT JOIN vk .. ORDER BY v.first_seen_at\<close> gives every vehicle
  with its recorded state.
\<close>

definition keyed_vehicles :: "('a) key_db_scheme \<Rightarrow> (vehicle_row \<times> key_state option) list" where
  "keyed_vehicles db =
     map (\<lambda>v. (v, map_option k_state (key_of db (v_vin v)))) (sort_key v_first_seen_at (vehicles db))"

fun check_vehicles ::
  "('e) network_scheme \<Rightarrow> string \<Rightarrow> (vehicle_row \<times> key_state option) list \<Rightarrow> ('a) key_db_scheme \<Rightarrow>
   (vehicle_row \<times> key_state) list \<times> ('a) key_db_scheme" where
  "check_vehicles e accessToken [] db = ([], db)"
| "check_vehicles e accessToken ((v, _) # rest) db =
     (let (polling, db1) = pollKeyPairing e (v_vin v) accessToken db;
          (actual, db2) = reconcileKeyState e (v_vin v) (kp_key_paired polling) (kp_unpaired_by_owner polling) db1;
          (results, db3) = check_vehicles e accessToken rest db2
      in ((v, actual) # results, db3))"

definition checkAndUpdateKeyPairing ::
  "('e) network_scheme \<Rightarrow> member_id \<Rightarrow> ('a) key_db_scheme \<Rightarrow>
   (vehicle_row \<times> key_state) list \<times> ('a) key_db_scheme" where
  "checkAndUpdateKeyPairing e memberId db =
     (let owned = filter (\<lambda>(v, _). v_member v = Some memberId) (keyed_vehicles db)
      in if owned = [] then ([], db)
         else (let (accessToken, db1) = getMemberAccessToken e (Some memberId) db
               in if no_token accessToken
                  then (map (\<lambda>(v, k). (v, case k of None \<Rightarrow> Unpaired | Some s \<Rightarrow> s)) owned, db1)
                  else check_vehicles e (the accessToken) owned db1))"

record poll_report =
  pr_checked :: nat
  pr_paired :: nat
  pr_unpaired :: nat
  pr_failed :: nat
  pr_errors :: "string list"

definition empty_poll_report :: poll_report where
  "empty_poll_report = \<lparr>pr_checked = 0, pr_paired = 0, pr_unpaired = 0, pr_failed = 0, pr_errors = []\<rparr>"

text \<open>\<open>byMember\<close>: the vehicles of each member, members in the order they are first seen.\<close>

definition group_by_member ::
  "(vehicle_row \<times> key_state option) list \<Rightarrow> (member_id option \<times> vehicle_row list) list" where
  "group_by_member vs =
     foldl (\<lambda>m (v, _). AList.update (v_member v)
       ((case map_of m (v_member v) of None \<Rightarrow> [] | Some arr \<Rightarrow> arr) @ [v]) m) [] vs"

fun cron_vehicles ::
  "('e) network_scheme \<Rightarrow> string \<Rightarrow> vehicle_row list \<Rightarrow> poll_report \<Rightarrow> ('a) key_db_scheme \<Rightarrow>
   poll_report \<times> ('a) key_db_scheme" where
  "cron_vehicles e accessToken [] rep db = (rep, db)"
| "cron_vehicles e accessToken (v # rest) rep db =
     (let (polling, db1) = pollKeyPairing e (v_vin v) accessToken db;
          rep1 = rep\<lparr>pr_checked := Suc (pr_checked rep)\<rparr>
      in case kp_error polling of
           Some err \<Rightarrow>
             cron_vehicles e accessToken rest
               (rep1\<lparr>pr_failed := Suc (pr_failed rep1), pr_errors := pr_errors rep1 @ [v_vin v @ '': '' @ err]\<rparr>) db1
         | None \<Rightarrow>
             (let (actual, db2) = reconcileKeyState e (v_vin v) (kp_key_paired polling) (kp_unpaired_by_owner polling) db1;
                  rep2 = (if actual = Paired then rep1\<lparr>pr_paired := Suc (pr_paired rep1)\<rparr>
                          else rep1\<lparr>pr_unpaired := Suc (pr_unpaired rep1)\<rparr>);
                  (_, db3) = reconcileTelemetryConfig e (v_vin v) polling db2
              in cron_vehicles e accessToken rest rep2 db3))"

fun cron_members ::
  "('e) network_scheme \<Rightarrow> (member_id option \<times> vehicle_row list) list \<Rightarrow> poll_report \<Rightarrow> ('a) key_db_scheme \<Rightarrow>
   poll_report \<times> ('a) key_db_scheme" where
  "cron_members e [] rep db = (rep, db)"
| "cron_members e ((memberId, vs) # rest) rep db =
     (let (accessToken, db1) = getMemberAccessToken e memberId db
      in if no_token accessToken
         then cron_members e rest
                (rep\<lparr>pr_errors := pr_errors rep @ [''No access token for member '' @
                       (case memberId of None \<Rightarrow> ''null'' | Some m \<Rightarrow> m)],
                     pr_failed := pr_failed rep + length vs\<rparr>) db1
         else (let (rep1, db2) = cron_vehicles e (the accessToken) vs rep db1
               in cron_members e rest rep1 db2))"

definition cronPollAllKeyPairing ::
  "('e) network_scheme \<Rightarrow> ('a) key_db_scheme \<Rightarrow> poll_report \<times> ('a) key_db_scheme" where
  "cronPollAllKeyPairing e db =
     (if vehicles db = [] then (empty_poll_report, db)
      else cron_members e (group_by_member (keyed_vehicles db)) empty_poll_report db)"

section \<open>Lemmas\<close>

lemma merge_key_vin [simp]: "k_vin (merge_key old new) = k_vin old"
  by (simp add: merge_key_def)

interpretation key_table: upsert_table put_key key_of k_vin merge_key
  by unfold_locales
    (simp_all add: put_key_def key_of_def find_upsert_same find_upsert_other split: option.split)

lemma key_of_next_tick [simp]: "key_of (next_tick db) = key_of db"
  by (simp add: fun_eq_iff key_of_def next_tick_def)

lemma vehicles_reconcileKeyState [frame_simps]:
  "vehicles (snd (reconcileKeyState e v p u db)) = vehicles db"
  by (simp add: reconcileKeyState_def put_key_def next_tick_def Let_def split: prod.split)

lemma sum_lengths_update:
  "sum_list (map (length \<circ> snd) (AList.update k ((case map_of m k of None \<Rightarrow> [] | Some arr \<Rightarrow> arr) @ [v]) m)) =
   Suc (sum_list (map (length \<circ> snd) m))"
  by (induction m) auto

lemma group_by_member_total:
  "sum_list (map (length \<circ> snd) (group_by_member vs)) = length vs"
proof -
  have "sum_list (map (length \<circ> snd) (foldl (\<lambda>m (v, _). AList.update (v_member v)
       ((case map_of m (v_member v) of None \<Rightarrow> [] | Some arr \<Rightarrow> arr) @ [v]) m) m0 vs)) =
     sum_list (map (length \<circ> snd) m0) + length vs" for m0
  proof (induction vs arbitrary: m0)
    case Nil
    then show ?case by simp
  next
    case (Cons x vs)
    then show ?case by (cases x) (simp only: foldl.simps case_prod_conv sum_lengths_update list.size)
  qed
  then show ?thesis by (simp add: group_by_member_def)
qed

definition outcomes_counted :: "poll_report \<Rightarrow> nat" where
  "outcomes_counted r = pr_paired r + pr_unpaired r + pr_failed r"

lemma cron_vehicles_counted:
  "outcomes_counted (fst (cron_vehicles e t vs rep db)) = outcomes_counted rep + length vs"
  by (induction vs arbitrary: rep db)
    (simp_all add: Let_def outcomes_counted_def case_prod_beta split: option.split)

lemma cron_members_counted:
  "outcomes_counted (fst (cron_members e gs rep db)) =
     outcomes_counted rep + sum_list (map (length \<circ> snd) gs)"
proof (induction gs arbitrary: rep db)
  case Nil
  then show ?case by simp
next
  case (Cons g gs)
  then show ?case
    by (cases g) (simp add: Let_def case_prod_beta cron_vehicles_counted, simp add: outcomes_counted_def)
qed

lemma reconcileKeyState_row:
  "\<exists>r. key_of (snd (reconcileKeyState e v paired byOwner db)) v = Some r \<and>
     (k_state r, k_last_error r) = resolveKeyState paired byOwner \<and>
     (k_paired_at r = None \<longleftrightarrow> k_state r \<noteq> Paired)"
proof -
  obtain s err where s: "resolveKeyState paired byOwner = (s, err)" by fastforce
  let ?r = "\<lparr>k_vin = v, k_state = s, k_paired_at = (if s = Paired then Some (nw_datetime e (tick db)) else None),
     k_last_error = err, k_updated_at = nw_datetime e (tick db)\<rparr>"
  have "key_of (snd (reconcileKeyState e v paired byOwner db)) = key_of (put_key ?r db)"
    by (simp add: reconcileKeyState_def s Let_def)
  with key_table.get_put_same [of ?r db] show ?thesis
    using s by (auto simp: merge_key_def split: option.split)
qed

lemma reconcileKeyState_fst: "fst (reconcileKeyState e v paired byOwner db) = fst (resolveKeyState paired byOwner)"
  by (simp add: reconcileKeyState_def Let_def split: prod.split)

lemma reconcileKeyState_other:
  "w \<noteq> v \<Longrightarrow> key_of (snd (reconcileKeyState e v paired byOwner db)) w = key_of db w"
  by (simp add: reconcileKeyState_def Let_def key_table.get_put_other split: prod.split)

section \<open>Properties\<close>

text \<open>The record of the virtual key follows Tesla's answer in both directions: whatever was
  recorded before, the state of the polled vehicle is the one \<open>resolveKeyState\<close> gives, a pairing
  date is kept exactly while the key is paired, and no other vehicle's record changes.\<close>

theorem reconcileKeyState_both_directions:
  "(\<exists>r. key_of (snd (reconcileKeyState e v paired byOwner db)) v = Some r \<and>
     k_state r = fst (reconcileKeyState e v paired byOwner db) \<and>
     (k_state r, k_last_error r) = resolveKeyState paired byOwner \<and>
     (k_paired_at r = None \<longleftrightarrow> k_state r \<noteq> Paired)) \<and>
   (key_of (snd (reconcileKeyState e v paired byOwner db)))(v := None) = (key_of db)(v := None)"
  using reconcileKeyState_row [of e v paired byOwner db]
  by (auto simp: reconcileKeyState_fst reconcileKeyState_other fun_eq_iff) (metis fst_conv)+

text \<open>The reconciliation of the telemetry configurations never promotes a row: each row
  keeps its state or, being live, becomes failed, and a row that stays live gets a new
  verification date only if Tesla holds a configuration that points at the row's own host.\<close>

theorem reconcileTelemetryConfig_never_promotes:
  "list_all2 (\<lambda>old new.
      (tc_state new = tc_state old \<or> (is_live (tc_state old) \<and> tc_vin old = v \<and> tc_state new = CFailed)) \<and>
      (tc_verified_at new = tc_verified_at old \<or> tc_state new = CFailed \<or>
        (kp_has_config p \<and> (\<exists>row \<in> set (telemetry_configs db). tc_vin row = v \<and>
           tc_state row = tc_state old \<and> kp_config_hostname p = Some (JStr (tc_hostname row))))))
     (telemetry_configs db) (telemetry_configs (snd (reconcileTelemetryConfig e v p db)))"
proof (cases "latest_by tc_created_at (filter (\<lambda>r. tc_vin r = v \<and> is_live (tc_state r)) (telemetry_configs db))")
  case None
  then show ?thesis by (simp add: reconcileTelemetryConfig_def list_all2_refl)
next
  case (Some row)
  then have row: "row \<in> set (telemetry_configs db)" "tc_vin row = v" "is_live (tc_state row)"
    using latest_by_SomeD [OF Some] by auto
  show ?thesis
  proof (cases "decideConfigVerification (Some row) p")
    case None
    with Some show ?thesis
      by (simp add: reconcileTelemetryConfig_def now_iso_def list_all2_refl)
  next
    case D: (Some d)
    show ?thesis
    proof (cases d)
      case Verify
      with D have "kp_has_config p" "kp_config_hostname p = Some (JStr (tc_hostname row))"
        by (auto simp: decideConfigVerification_def split: if_splits)
      with Some D Verify row show ?thesis
        by (auto simp: reconcileTelemetryConfig_def now_iso_def update_where_def list.rel_map intro!: list.rel_refl_strong)
    next
      case (Demote reason)
      with Some D row show ?thesis
        by (auto simp: reconcileTelemetryConfig_def now_iso_def update_where_def list.rel_map intro!: list.rel_refl_strong)
    qed
  qed
qed

text \<open>The cron poll covers the whole fleet on every run, whatever the members' tokens and
  the network do: the paired, the unpaired and the failed vehicles it reports add up to the
  vehicles of the table.\<close>

theorem cronPoll_covers_fleet:
  "pr_paired (fst (cronPollAllKeyPairing e db)) + pr_unpaired (fst (cronPollAllKeyPairing e db))
     + pr_failed (fst (cronPollAllKeyPairing e db)) = length (vehicles db)"
  using cron_members_counted [of e "group_by_member (keyed_vehicles db)" empty_poll_report db]
  by (simp add: cronPollAllKeyPairing_def group_by_member_total keyed_vehicles_def)
    (simp add: outcomes_counted_def empty_poll_report_def)

text \<open>On the dashboard path a poll that fails at the network records the vehicle as unpaired,
  although nothing was learnt about its key.\<close>

theorem dashboard_poll_failure_unpairs:
  assumes "nw_fleet_get e (tick db) t (v_vin v) = Inl msg"
  shows "fst (check_vehicles e t [(v, k)] db) = [(v, Unpaired)] \<and>
    map_option k_state (key_of (snd (check_vehicles e t [(v, k)] db)) (v_vin v)) = Some Unpaired"
proof -
  have P: "pollKeyPairing e (v_vin v) t db = (failed_poll (v_vin v) (''transport:'' @ msg), next_tick db)"
    using assms by (simp add: pollKeyPairing_def)
  have "fst (reconcileKeyState e (v_vin v) False False (next_tick db)) = Unpaired"
    by (simp add: reconcileKeyState_fst resolveKeyState_def)
  with reconcileKeyState_row [of e "v_vin v" False False "next_tick db"] show ?thesis
    by (auto simp: P failed_poll_def resolveKeyState_def case_prod_beta)
qed

section \<open>Concrete runs\<close>

definition sample_token_reply :: json where
  "sample_token_reply = JObj [(''access_token'', JStr ''at''), (''refresh_token'', JStr ''rt''), (''expires_in'', JNum 3600)]"

definition sample_status_reply :: json where
  "sample_status_reply = JObj [(''response'', JObj [(''synced'', JBool True), (''config'', JObj [(''port'', JNum 443)])])]"

definition sample_network :: network where
  "sample_network = runtime.extend sample_runtime
     \<lparr>nw_signer_post = (\<lambda>n t body. Inr \<lparr>hr_status = 200, hr_text = [], hr_json = None\<rparr>),
      nw_signer_get = (\<lambda>n t v. Inr \<lparr>hr_status = 200, hr_text = ''{}'', hr_json = Some sample_status_reply\<rparr>),
      nw_fleet_get = (\<lambda>n t v. Inl ''timeout''),
      nw_token = (\<lambda>n t. Inr \<lparr>hr_status = 200, hr_text = ''{}'', hr_json = Some sample_token_reply\<rparr>),
      nw_has_client = True, nw_open_token = (\<lambda>s. Some (fst s)),
      nw_seal_token = (\<lambda>n t. Some (t, ''iv'', 1)), nw_random36 = (\<lambda>n. nat_text n),
      nw_datetime = (\<lambda>n. nat_text n), nw_iso_of_ms = (\<lambda>q. ''t'')\<rparr>"

definition sample_key_db :: key_db where
  "sample_key_db = telemetry_db.extend (sample_telemetry_db\<lparr>oauth_tokens := [sample_token]\<rparr>)
     \<lparr>vehicle_keys = [\<lparr>k_vin = ''V1'', k_state = Paired, k_paired_at = Some ''t0'', k_last_error = None, k_updated_at = ''t0''\<rparr>]\<rparr>"

theorem dashboard_poll_failure_unpairs_witness:
  "fst (check_vehicles sample_network ''at'' [(sample_vehicle, Some Paired)] sample_key_db) = [(sample_vehicle, Unpaired)] \<and>
    map_option k_state (key_of (snd (check_vehicles sample_network ''at'' [(sample_vehicle, Some Paired)] sample_key_db))
      (v_vin sample_vehicle)) = Some Unpaired"
  by (rule dashboard_poll_failure_unpairs [where msg = "''timeout''"])
    (simp add: sample_network_def runtime.extend_def sample_runtime_def)

end
