(* ===== verification/ConfigApply.thy ===== *)
theory ConfigApply
  imports KeyPairing
begin

text \<open>
  \<open>config-apply.ts\<close>: sending a resolved configuration to one vehicle through the signer, the
  evidence that the vehicle adopted it, and the synchronous sweep with its canary.  The tables
  of the apply runs and of the apply queue (\<open>migrations/0016\<close>, \<open>0023\<close>, \<open>0024\<close>) are declared here for
  the queue components as well.  \<open>posts\<close> is no table: it is the record of the requests the signer
  received, so that the properties can say which vehicles were touched.
\<close>

section \<open>Rows\<close>

datatype apply_outcome = O_applied | O_verified | O_skipped | O_failed | O_halted | O_pending

text \<open>\<open>ApplyVehicleResult\<close>.\<close>

record apply_result =
  ar_vin :: vin
  ar_outcome :: apply_outcome
  ar_skip_reason :: "string option"
  ar_error_detail :: "string option"
  ar_has_config :: bool
  ar_synced :: bool
  ar_observed_after :: bool

datatype run_state = RS_running | RS_canary | RS_canary_failed | RS_rolling | RS_completed | RS_failed | RS_halted

record run_row =
  run_id :: string
  run_scope_kind :: scope_kind
  run_operator :: "string option"
  run_state :: run_state
  run_canary_vin :: "vin option"
  run_canary_state :: "string option"
  run_started_at :: iso
  run_finished_at :: "iso option"
  run_created_at :: "iso option"

record outcome_row =
  oc_run :: string
  oc_result :: apply_result
  oc_applied_at :: iso

text \<open>What the column \<open>config_json\<close> may hold, as \<open>JSON.parse\<close> and the test for a falsy text see it.\<close>

datatype config_cell = EmptyText | BadText | NullText | ConfigText resolved_config

datatype queue_state = Q_pending | Q_in_progress | Q_done | Q_failed | Q_halted

record queue_row =
  q_id :: nat
  q_run :: string
  q_vin :: vin
  q_position :: nat
  q_config :: config_cell
  q_state :: queue_state
  q_attempts :: nat
  q_last_error :: "string option"
  q_enqueued_at :: iso
  q_started_at :: "iso option"
  q_finished_at :: "iso option"

text \<open>\<open>ApplyQueueMessage\<close>, the message published per vehicle.\<close>

record apply_message =
  am_run :: string
  am_vin :: vin
  am_position :: nat
  am_scope :: scope_kind

record dead_letter_row =
  dl_run :: string
  dl_vin :: vin
  dl_attempts :: nat
  dl_error :: string
  dl_message :: apply_message
  dl_dead_at :: iso

record apply_db = key_db +
  runs :: "run_row list"
  outcomes :: "outcome_row list"
  apply_queue :: "queue_row list"
  next_queue_id :: nat
  dead_letters :: "dead_letter_row list"
  messages_sent :: "apply_message list"
  dlq_sent :: "apply_message list"
  posts :: "(vin \<times> json) list"

section \<open>Eligibility of the canary\<close>

fun isCanaryEligible :: "vin \<Rightarrow> field_key list \<Rightarrow> (field_key \<rightharpoonup> 'v) \<Rightarrow> bool \<times> string option" where
  "isCanaryEligible nominatedVin [] vehicleEntries = (True, None)"
| "isCanaryEligible nominatedVin (fieldKey # rest) vehicleEntries =
     (if vehicleEntries fieldKey \<noteq> None
      then (False, Some (''Vehicle '' @ nominatedVin @ '' carries an override for field '' @ fieldKey))
      else isCanaryEligible nominatedVin rest vehicleEntries)"

definition isCanaryEligibleDb :: "('a) config_db_scheme \<Rightarrow> vin \<Rightarrow> field_key list \<Rightarrow> bool \<times> string option" where
  "isCanaryEligibleDb db nominatedVin changeFields =
     (if changeFields = [] then (True, None)
      else (case first_where (\<lambda>s. sc_kind s = Scope_vehicle \<and> sc_vin s = Some nominatedVin) (scopes db) of
              None \<Rightarrow> (True, None)
            | Some scopeRow \<Rightarrow>
                (let overridden = map e_field (filter (\<lambda>en. e_scope en = sc_id scopeRow \<and> e_field en \<in> set changeFields) (entries db))
                 in if overridden \<noteq> []
                    then (False, Some (''Vehicle '' @ nominatedVin @ '' carries an override for field(s): '' @ join_with '', '' overridden))
                    else (True, None))))"

definition verifyCanaryConditions :: "bool \<Rightarrow> bool \<Rightarrow> bool \<Rightarrow> bool \<Rightarrow> bool \<times> string option" where
  "verifyCanaryConditions postSucceeded hasConfig synced telemetryObservedAfterwards =
     (if \<not> postSucceeded then (False, Some ''POST to signer did not succeed'')
      else if \<not> hasConfig then (False, Some ''Vehicle does not hold a configuration (has_config: false)'')
      else if \<not> synced then (False, Some ''Vehicle has not adopted the target config (synced: false)'')
      else if \<not> telemetryObservedAfterwards
      then (False, Some ''New telemetry observation not received after config apply'')
      else (True, None))"

section \<open>One vehicle\<close>

definition apply_skip_reason :: "json option \<Rightarrow> string option" where
  "apply_skip_reason reason =
     (case as_string reason of
        None \<Rightarrow> None
      | Some s \<Rightarrow>
          (let r = to_lower s in
           if str_includes r ''no_member'' then Some ''no_member_access_token''
           else if str_includes r ''not_found'' \<or> str_includes r ''404'' then Some ''vin_not_in_fleet''
           else if str_includes r ''unauthorized'' \<or> str_includes r ''401'' \<or> str_includes r ''403''
           then Some ''unauthorized''
           else if str_includes r ''already_active'' \<or> str_includes r ''duplicate'' then Some ''already_active''
           else if str_includes r ''invalid_config'' then Some ''invalid_config''
           else None))"

definition field_setting :: "resolved_field \<Rightarrow> json" where
  "field_setting f =
     JObj ((''interval_seconds'', JNum (of_int (rf_interval f))) #
       (case rf_min_delta f of
          None \<Rightarrow> []
        | Some d \<Rightarrow> if 0 < d then [(''minimum_delta'', JNum d)] else []))"

definition fields_record :: "resolved_field list \<Rightarrow> (string \<times> json) list" where
  "fields_record fs = foldl (\<lambda>m f. AList.update (rf_key f) (field_setting f) m) [] fs"

definition request_body :: "vin \<Rightarrow> resolved_config \<Rightarrow> string \<times> int \<Rightarrow> string \<Rightarrow> json" where
  "request_body vin resolved target ca =
     JObj [(''vins'', JArr [JStr vin]),
           (''config'', JObj [(''hostname'', JStr (fst target)), (''port'', JNum (of_int (snd target))),
              (''ca'', JStr ca), (''fields'', JObj (fields_record (rc_fields resolved)))])]"

definition plain_result :: "vin \<Rightarrow> apply_outcome \<Rightarrow> string option \<Rightarrow> string option \<Rightarrow> apply_result" where
  "plain_result vin outcome skip err =
     \<lparr>ar_vin = vin, ar_outcome = outcome, ar_skip_reason = skip, ar_error_detail = err,
      ar_has_config = False, ar_synced = False, ar_observed_after = False\<rparr>"

definition skip_entry_for :: "vin \<Rightarrow> json \<Rightarrow> bool" where
  "skip_entry_for vin s \<longleftrightarrow>
     truthy (Some s) \<and> (js_prop s ''vin'' = Some (JStr vin) \<or> js_prop s ''VIN'' = Some (JStr vin))"

definition read_apply_reply :: "('e) runtime_scheme \<Rightarrow> vin \<Rightarrow> reply \<Rightarrow> apply_result" where
  "read_apply_reply e vin rep =
     (case rep of
        Inl msg \<Rightarrow> plain_result vin O_failed None (Some (''transport:'' @ msg))
      | Inr res \<Rightarrow>
          (let body = (if hr_text res = [] then JObj []
                       else (case hr_json res of None \<Rightarrow> JObj [] | Some j \<Rightarrow> j))
           in if body = JNull
              then plain_result vin O_failed None
                     (Some ''transport:Cannot read properties of null (reading 'skipped_vehicles')'')
              else (case first_where (skip_entry_for vin) (array_items (js_prop body ''skipped_vehicles'')) of
                  Some mine \<Rightarrow>
                    (let reason = coalesce (js_prop mine ''reason'')
                                    (coalesce (js_prop mine ''skip_reason'') (js_prop mine ''error''))
                     in plain_result vin O_skipped
                          (Some (case apply_skip_reason reason of
                                   Some m \<Rightarrow> m
                                 | None \<Rightarrow> (if nullish reason then ''unknown'' else js_string e (the reason)))) None)
                | None \<Rightarrow>
                    if \<not> reply_ok res
                    then plain_result vin O_failed None (Some (''http_'' @ nat_text (hr_status res) @ '':'' @ hr_text res))
                    else (plain_result vin O_applied None None)\<lparr>ar_has_config := True, ar_synced := True\<rparr>)))"

definition applyVehicleConfig ::
  "('e) network_scheme \<Rightarrow> vin \<Rightarrow> resolved_config \<Rightarrow> string \<Rightarrow> string \<times> int \<Rightarrow> string \<Rightarrow>
   ('a) apply_db_scheme \<Rightarrow> apply_result \<times> ('a) apply_db_scheme" where
  "applyVehicleConfig e vin resolved memberToken target ca db =
     (let requestBody = request_body vin resolved target ca
      in (read_apply_reply e vin (nw_signer_post e (tick db) memberToken requestBody),
          next_tick (db\<lparr>posts := posts db @ [(vin, requestBody)]\<rparr>)))"

section \<open>Evidence of adoption\<close>

definition checkTelemetryObservedAfter :: "('a) telemetry_db_scheme \<Rightarrow> vin \<Rightarrow> iso \<Rightarrow> bool" where
  "checkTelemetryObservedAfter db vin afterIso =
     list_ex (\<lambda>f. f_vin f = vin \<and> afterIso < f_observed_at f) (facts db)"

definition read_config_status :: "reply \<Rightarrow> (bool \<times> bool) option" where
  "read_config_status rep =
     (case rep of
        Inl _ \<Rightarrow> None
      | Inr res \<Rightarrow>
          if \<not> reply_ok res then None
          else (let body = (case hr_json res of None \<Rightarrow> JObj [] | Some j \<Rightarrow> j)
                in if body = JNull then None
                   else (let response = coalesce (js_prop body ''response'') (Some (JObj []))
                         in Some (\<not> nullish (opt_prop response ''config''),
                                  opt_prop response ''synced'' = Some (JBool True)))))"

definition getVehicleConfigStatus ::
  "('e) network_scheme \<Rightarrow> string \<Rightarrow> vin \<Rightarrow> ('a) store_db_scheme \<Rightarrow> (bool \<times> bool) option \<times> ('a) store_db_scheme" where
  "getVehicleConfigStatus e memberToken vin db =
     (read_config_status (nw_signer_get e (tick db) memberToken vin), next_tick db)"

definition put_outcome :: "outcome_row \<Rightarrow> ('a) apply_db_scheme \<Rightarrow> ('a) apply_db_scheme" where
  "put_outcome r db =
     db\<lparr>outcomes := upsert_by (\<lambda>r. (oc_run r, ar_vin (oc_result r))) (\<lambda>old new. new) r (outcomes db)\<rparr>"

definition outcome_of :: "('a) apply_db_scheme \<Rightarrow> string \<times> vin \<Rightarrow> outcome_row option" where
  "outcome_of db k = first_where (\<lambda>r. (oc_run r, ar_vin (oc_result r)) = k) (outcomes db)"

definition recordOutcome ::
  "('e) runtime_scheme \<Rightarrow> string \<Rightarrow> apply_result \<Rightarrow> ('a) apply_db_scheme \<Rightarrow> ('a) apply_db_scheme" where
  "recordOutcome e runId result db =
     (let (nowIso, db1) = now_iso e db
      in put_outcome \<lparr>oc_run = runId, oc_result = result, oc_applied_at = nowIso\<rparr> db1)"

text \<open>\<open>MIN(applied_at)\<close> over every outcome of the vehicle.\<close>

definition first_applied_at :: "('a) apply_db_scheme \<Rightarrow> vin \<Rightarrow> iso option" where
  "first_applied_at db vin =
     (case map oc_applied_at (filter (\<lambda>r. ar_vin (oc_result r) = vin) (outcomes db)) of
        [] \<Rightarrow> None
      | t # ts \<Rightarrow> Some (foldl min t ts))"

definition verifyAdoption ::
  "('e) network_scheme \<Rightarrow> vin \<Rightarrow> string \<Rightarrow> iso \<Rightarrow> ('a) apply_db_scheme \<Rightarrow>
   (bool \<times> string option) \<times> ('a) apply_db_scheme" where
  "verifyAdoption e vin memberToken afterIso db =
     (let (status, db1) = getVehicleConfigStatus e memberToken vin db;
          hasConfig = (case status of None \<Rightarrow> False | Some s \<Rightarrow> fst s);
          synced = (case status of None \<Rightarrow> False | Some s \<Rightarrow> snd s);
          telemetryObserved =
            (checkTelemetryObservedAfter db1 vin afterIso \<or>
             (case first_applied_at db1 vin of
                None \<Rightarrow> False
              | Some t \<Rightarrow> t \<noteq> [] \<and> checkTelemetryObservedAfter db1 vin t))
      in (verifyCanaryConditions True hasConfig synced telemetryObserved, db1))"

section \<open>The sweep\<close>

definition new_run_id :: "('e) network_scheme \<Rightarrow> ('a) store_db_scheme \<Rightarrow> string \<times> ('a) store_db_scheme" where
  "new_run_id e db =
     (''apply_'' @ nat_text (rt_millis e (tick db)) @ ''_'' @ nw_random36 e (tick db), next_tick db)"

definition insert_run ::
  "string \<Rightarrow> scope_kind \<Rightarrow> string \<Rightarrow> vin option \<Rightarrow> iso \<Rightarrow> ('a) apply_db_scheme \<Rightarrow> ('a) apply_db_scheme" where
  "insert_run runId scopeKind operator canaryVin nowIso db =
     db\<lparr>runs := runs db @ [\<lparr>run_id = runId, run_scope_kind = scopeKind, run_operator = Some operator,
          run_state = RS_running, run_canary_vin = canaryVin, run_canary_state = None,
          run_started_at = nowIso, run_finished_at = None, run_created_at = Some nowIso\<rparr>]\<rparr>"

text \<open>
  The body of the vehicle-scope loop, and of the rollout after the canary: the two loops of the
  source are the same.  The result object is pushed before it is updated, so that the list of
  outcomes holds its last value.
\<close>

definition sweep_vehicle ::
  "('e) network_scheme \<Rightarrow> string \<Rightarrow> iso \<Rightarrow> (vin \<rightharpoonup> resolved_config) \<Rightarrow> string \<Rightarrow> string \<times> int \<Rightarrow> string \<Rightarrow>
   vin \<Rightarrow> ('a) apply_db_scheme \<Rightarrow> apply_result \<times> ('a) apply_db_scheme" where
  "sweep_vehicle e runId nowIso resolvedPerVin memberToken target ca vin db =
     (case resolvedPerVin vin of
        None \<Rightarrow>
          (let result = plain_result vin O_failed None (Some ''no_resolved_config'')
           in (result, recordOutcome e runId result db))
      | Some resolved \<Rightarrow>
          (let (result, db1) = applyVehicleConfig e vin resolved memberToken target ca db;
               db2 = recordOutcome e runId result db1
           in if ar_outcome result = O_applied
              then (let (verified, db3) = verifyAdoption e vin memberToken nowIso db2;
                        result1 = (if fst verified then result\<lparr>ar_outcome := O_verified\<rparr>
                                   else result\<lparr>ar_outcome := O_failed, ar_error_detail := snd verified\<rparr>)
                    in (result1, recordOutcome e runId result1 db3))
              else (result, db2)))"

fun sweep_vehicles ::
  "('e) network_scheme \<Rightarrow> string \<Rightarrow> iso \<Rightarrow> (vin \<rightharpoonup> resolved_config) \<Rightarrow> string \<Rightarrow> string \<times> int \<Rightarrow> string \<Rightarrow>
   vin list \<Rightarrow> ('a) apply_db_scheme \<Rightarrow> apply_result list \<times> ('a) apply_db_scheme" where
  "sweep_vehicles e runId nowIso resolvedPerVin memberToken target ca [] db = ([], db)"
| "sweep_vehicles e runId nowIso resolvedPerVin memberToken target ca (vin # vins) db =
     (let (result, db1) = sweep_vehicle e runId nowIso resolvedPerVin memberToken target ca vin db;
          (results, db2) = sweep_vehicles e runId nowIso resolvedPerVin memberToken target ca vins db1
      in (result # results, db2))"

text \<open>The three-condition verification of an applied canary.\<close>

definition verify_canary ::
  "('e) network_scheme \<Rightarrow> string \<Rightarrow> vin \<Rightarrow> iso \<Rightarrow> apply_result \<Rightarrow> ('a) telemetry_db_scheme \<Rightarrow>
   (apply_result \<times> bool) \<times> ('a) telemetry_db_scheme" where
  "verify_canary e memberToken canaryVin nowIso result db =
     (let (status, db1) = getVehicleConfigStatus e memberToken canaryVin db;
          hasConfig = (case status of None \<Rightarrow> False | Some s \<Rightarrow> fst s);
          synced = (case status of None \<Rightarrow> False | Some s \<Rightarrow> snd s);
          observed = checkTelemetryObservedAfter db1 canaryVin nowIso;
          verification = verifyCanaryConditions True hasConfig synced observed;
          result1 = result\<lparr>ar_has_config := hasConfig, ar_synced := synced, ar_observed_after := observed\<rparr>
      in if \<not> fst verification
         then ((result1\<lparr>ar_outcome := O_failed, ar_error_detail :=
                  Some (''canary_verification_failed: '' @
                    (case snd verification of None \<Rightarrow> ''undefined'' | Some r \<Rightarrow> r))\<rparr>, True), db1)
         else ((result1\<lparr>ar_outcome := O_verified\<rparr>, False), db1))"

text \<open>The canary: its result, and whether it failed.\<close>

definition sweep_canary ::
  "('e) network_scheme \<Rightarrow> string \<Rightarrow> iso \<Rightarrow> (vin \<rightharpoonup> resolved_config) \<Rightarrow> string \<Rightarrow> string \<times> int \<Rightarrow> string \<Rightarrow>
   vin \<Rightarrow> ('a) apply_db_scheme \<Rightarrow> (apply_result \<times> bool) \<times> ('a) apply_db_scheme" where
  "sweep_canary e runId nowIso resolvedPerVin memberToken target ca canaryVin db =
     (case resolvedPerVin canaryVin of
        None \<Rightarrow>
          (let result = plain_result canaryVin O_failed None (Some ''no_resolved_config'')
           in ((result, True), recordOutcome e runId result db))
      | Some firstResolved \<Rightarrow>
          (let changeFields = map rf_key (filter (\<lambda>f. rf_source f \<noteq> Scope_global) (rc_fields firstResolved));
               (eligible, reason) = isCanaryEligibleDb db canaryVin changeFields
           in if \<not> eligible
              then (let result = plain_result canaryVin O_failed None
                          (Some (''canary_ineligible: '' @ (case reason of None \<Rightarrow> ''undefined'' | Some r \<Rightarrow> r)))
                    in ((result, True), recordOutcome e runId result db))
              else (let (result, db1) = applyVehicleConfig e canaryVin firstResolved memberToken target ca db;
                        db2 = recordOutcome e runId result db1
                    in if ar_outcome result = O_applied
                       then (let ((result1, canaryFailed), db3) = verify_canary e memberToken canaryVin nowIso result db2
                             in ((result1, canaryFailed), recordOutcome e runId result1 db3))
                       else ((result, True), db2))))"

fun halt_vehicles ::
  "('e) runtime_scheme \<Rightarrow> string \<Rightarrow> vin list \<Rightarrow> ('a) apply_db_scheme \<Rightarrow> apply_result list \<times> ('a) apply_db_scheme" where
  "halt_vehicles e runId [] db = ([], db)"
| "halt_vehicles e runId (vin # vins) db =
     (let result = plain_result vin O_halted None (Some ''canary_failed_rollback'');
          (results, db1) = halt_vehicles e runId vins (recordOutcome e runId result db)
      in (result # results, db1))"

definition finish_run ::
  "('e) runtime_scheme \<Rightarrow> string \<Rightarrow> run_state \<Rightarrow> ('a) apply_db_scheme \<Rightarrow> ('a) apply_db_scheme" where
  "finish_run e runId finalStatus db =
     (let (nowIso, db1) = now_iso e db
      in db1\<lparr>runs := update_where (\<lambda>r. run_id r = runId)
           (\<lambda>r. r\<lparr>run_state := finalStatus, run_finished_at := Some nowIso\<rparr>) (runs db1)\<rparr>)"

record sweep_result =
  sw_run :: string
  sw_outcomes :: "apply_result list"
  sw_canary_vin :: "vin option"
  sw_canary_failed :: bool

definition runApplySweep ::
  "('e) network_scheme \<Rightarrow> scope_kind \<Rightarrow> vin list \<Rightarrow> (vin \<rightharpoonup> resolved_config) \<Rightarrow> string \<Rightarrow> string \<Rightarrow>
   string \<times> int \<Rightarrow> string \<Rightarrow> ('a) apply_db_scheme \<Rightarrow> sweep_result \<times> ('a) apply_db_scheme" where
  "runApplySweep e changeScope targetVins resolvedPerVin operator memberToken target ca db =
     (let (runId, db1) = new_run_id e db;
          (nowIso, db2) = now_iso e db1;
          canaryVin = (if changeScope = Scope_vehicle then None
                       else (case targetVins of [] \<Rightarrow> None | v # _ \<Rightarrow> Some v));
          db3 = insert_run runId changeScope operator canaryVin nowIso db2
      in if changeScope = Scope_vehicle
         then (let (results, db4) = sweep_vehicles e runId nowIso resolvedPerVin memberToken target ca targetVins db3
               in (\<lparr>sw_run = runId, sw_outcomes = results, sw_canary_vin = None, sw_canary_failed = False\<rparr>,
                   finish_run e runId RS_completed db4))
         else (case targetVins of
                 [] \<Rightarrow> (\<lparr>sw_run = runId, sw_outcomes = [], sw_canary_vin = None, sw_canary_failed = False\<rparr>, db3)
               | canary # remaining \<Rightarrow>
                   (let ((result, canaryFailed), db4) =
                          sweep_canary e runId nowIso resolvedPerVin memberToken target ca canary db3;
                        (results, db5) =
                          (if canaryFailed then halt_vehicles e runId remaining db4
                           else sweep_vehicles e runId nowIso resolvedPerVin memberToken target ca remaining db4)
                    in (\<lparr>sw_run = runId, sw_outcomes = result # results, sw_canary_vin = Some canary,
                         sw_canary_failed = canaryFailed\<rparr>,
                        finish_run e runId (if canaryFailed then RS_canary_failed else RS_completed) db5))))"

section \<open>Lemmas\<close>

abbreviation outcome_key :: "outcome_row \<Rightarrow> string \<times> vin" where
  "outcome_key r \<equiv> (oc_run r, ar_vin (oc_result r))"

interpretation outcome_table: overwrite_table put_outcome outcome_of outcome_key "\<lambda>old new. new"
proof
  fix r s :: outcome_row and db :: "('a) apply_db_scheme" and k
  show "outcome_of (put_outcome r db) (outcome_key r) =
      Some (case outcome_of db (outcome_key r) of None \<Rightarrow> r | Some old \<Rightarrow> r)"
    using find_upsert_same [of outcome_key "\<lambda>old new. new" r "outcomes db"]
    by (simp add: outcome_of_def put_outcome_def)
  show "outcome_of (put_outcome r db) k = outcome_of db k" if "k \<noteq> outcome_key r"
    using find_upsert_other [of outcome_key "\<lambda>old new. new" k r "outcomes db"] that
    by (simp add: outcome_of_def put_outcome_def)
  show "outcome_key r = k" if "outcome_of db k = Some r"
    using that by (auto simp: outcome_of_def dest: find_SomeD)
qed simp_all

lemma posts_recordOutcome [simp]: "posts (recordOutcome e runId r db) = posts db"
  by (simp add: recordOutcome_def put_outcome_def now_iso_def)

lemma facts_recordOutcome [simp]: "facts (recordOutcome e runId r db) = facts db"
  by (simp add: recordOutcome_def put_outcome_def now_iso_def)

lemma runs_recordOutcome [simp]: "runs (recordOutcome e runId r db) = runs db"
  by (simp add: recordOutcome_def put_outcome_def now_iso_def)

lemma next_tick_frame [simp]:
  "posts (next_tick (db :: ('a) apply_db_scheme)) = posts db" "facts (next_tick (db :: ('a) apply_db_scheme)) = facts db"
  "runs (next_tick (db :: ('a) apply_db_scheme)) = runs db" "outcome_of (next_tick db) = outcome_of db"
  by (simp_all add: next_tick_def outcome_of_def fun_eq_iff)

lemma verifyAdoption_db [simp]: "snd (verifyAdoption e v t a db) = next_tick db"
  by (simp add: verifyAdoption_def getVehicleConfigStatus_def Let_def)

lemma posts_apply [simp]:
  "posts (snd (applyVehicleConfig e v rc t target ca db)) = posts db @ [(v, request_body v rc target ca)]"
  "facts (snd (applyVehicleConfig e v rc t target ca db)) = facts db"
  "runs (snd (applyVehicleConfig e v rc t target ca db)) = runs db"
  "outcome_of (snd (applyVehicleConfig e v rc t target ca db)) = outcome_of db"
  by (simp_all add: applyVehicleConfig_def next_tick_def outcome_of_def fun_eq_iff Let_def)

lemma read_apply_reply_vin [simp]: "ar_vin (read_apply_reply e v rep) = v"
  by (simp add: read_apply_reply_def plain_result_def Let_def split: sum.split option.split)

lemma ar_vin_apply [simp]: "ar_vin (fst (applyVehicleConfig e v rc t target ca db)) = v"
  by (simp add: applyVehicleConfig_def Let_def)

lemma plain_result_simps [simp]:
  "ar_vin (plain_result v oc sk er) = v" "ar_outcome (plain_result v oc sk er) = oc"
  by (simp_all add: plain_result_def)

definition recorded :: "('a) apply_db_scheme \<Rightarrow> string \<Rightarrow> vin \<Rightarrow> apply_result option" where
  "recorded db runId v = map_option oc_result (outcome_of db (runId, v))"

lemma recorded_recordOutcome:
  "recorded (recordOutcome e r res db) r' v = (if r' = r \<and> v = ar_vin res then Some res else recorded db r' v)"
proof -
  have "outcome_of (db\<lparr>tick := t\<rparr>) = outcome_of db" for t by (simp add: outcome_of_def fun_eq_iff)
  then show ?thesis
    using outcome_table.get_put [of "\<lparr>oc_run = r, oc_result = res, oc_applied_at = rt_clock e (tick db)\<rparr>" "db\<lparr>tick := Suc (tick db)\<rparr>"]
      outcome_table.get_put_other [of "(r', v)" "\<lparr>oc_run = r, oc_result = res, oc_applied_at = rt_clock e (tick db)\<rparr>" "db\<lparr>tick := Suc (tick db)\<rparr>"]
    by (auto simp: recorded_def recordOutcome_def now_iso_def)
qed

lemma recorded_frame [simp]:
  "recorded (next_tick db) = recorded db"
  "recorded (snd (applyVehicleConfig e v rc t target ca db)) = recorded db"
  "recorded (finish_run e r st db) = recorded db"
  "recorded (insert_run r k op c n db) = recorded db"
  by (simp_all add: recorded_def fun_eq_iff finish_run_def now_iso_def outcome_of_def insert_run_def)

lemma sweep_vehicle_effect:
  assumes "sweep_vehicle e r now rpv t target ca v db = (res, db')"
  shows "ar_vin res = v" and "recorded db' r' w = (if r' = r \<and> w = v then Some res else recorded db r' w)"
    and "facts db' = facts db" and "runs db' = runs db"
    and "posts db' = posts db @ (case rpv v of None \<Rightarrow> [] | Some rc \<Rightarrow> [(v, request_body v rc target ca)])"
proof -
  show "ar_vin res = v" "recorded db' r' w = (if r' = r \<and> w = v then Some res else recorded db r' w)"
    "facts db' = facts db" "runs db' = runs db"
    "posts db' = posts db @ (case rpv v of None \<Rightarrow> [] | Some rc \<Rightarrow> [(v, request_body v rc target ca)])"
    using assms by (auto simp: sweep_vehicle_def Let_def case_prod_beta recorded_recordOutcome split: option.splits if_splits)
qed

lemma sweep_vehicles_effect:
  assumes "sweep_vehicles e r now rpv t target ca vs db = (rs, db')"
  shows "map ar_vin rs = vs \<and> facts db' = facts db \<and> runs db' = runs db \<and>
    (\<exists>ps. posts db' = posts db @ ps \<and> fst ` set ps \<subseteq> set vs) \<and>
    (\<forall>r' w. r' \<noteq> r \<or> w \<notin> set vs \<longrightarrow> recorded db' r' w = recorded db r' w) \<and>
    (distinct vs \<longrightarrow> (\<forall>res \<in> set rs. recorded db' r (ar_vin res) = Some res))"
  using assms
proof (induction vs arbitrary: rs db db')
  case Nil
  then show ?case by simp
next
  case (Cons v vs)
  obtain res db1 where A: "sweep_vehicle e r now rpv t target ca v db = (res, db1)" by fastforce
  obtain rs' db2 where B: "sweep_vehicles e r now rpv t target ca vs db1 = (rs', db2)" by fastforce
  from Cons.prems A B have eq: "rs = res # rs'" "db' = db2" by auto
  note IH = Cons.IH [OF B] and one = sweep_vehicle_effect [OF A]
  from IH obtain ps where ps: "posts db2 = posts db1 @ ps" "fst ` set ps \<subseteq> set vs" by blast
  let ?x = "case rpv v of None \<Rightarrow> [] | Some rc \<Rightarrow> [(v, request_body v rc target ca)]"
  have "posts db2 = posts db @ (?x @ ps)" and "fst ` set (?x @ ps) \<subseteq> set (v # vs)"
    using ps one(5) by (auto split: option.splits)
  then have "\<exists>ps. posts db2 = posts db @ ps \<and> fst ` set ps \<subseteq> set (v # vs)" by blast
  then show ?case using IH one eq by auto
qed

lemma halt_vehicles_effect:
  assumes "halt_vehicles e r vs db = (rs, db')"
  shows "rs = map (\<lambda>v. plain_result v O_halted None (Some ''canary_failed_rollback'')) vs \<and> posts db' = posts db \<and>
    runs db' = runs db \<and>
    (\<forall>r' w. r' \<noteq> r \<or> w \<notin> set vs \<longrightarrow> recorded db' r' w = recorded db r' w) \<and>
    (\<forall>res \<in> set rs. recorded db' r (ar_vin res) = Some res)"
  using assms
proof (induction vs arbitrary: rs db db')
  case Nil
  then show ?case by simp
next
  case (Cons v vs)
  let ?res = "plain_result v O_halted None (Some ''canary_failed_rollback'')"
  obtain rs' db2 where B: "halt_vehicles e r vs (recordOutcome e r ?res db) = (rs', db2)" by fastforce
  from Cons.prems B have eq: "rs = ?res # rs'" "db' = db2" by (auto simp: Let_def)
  note IH = Cons.IH [OF B]
  have "recorded db2 r v = Some ?res"
    using IH by (cases "v \<in> set vs") (auto simp: recorded_recordOutcome)
  then show ?case using IH eq by (auto simp: recorded_recordOutcome)
qed

lemma verify_canary_effect:
  assumes "verify_canary e t v now result db = ((res, failed), db')"
  shows "db' = next_tick db" and "ar_vin res = ar_vin result"
    and "\<not> failed \<Longrightarrow> ar_outcome res = O_verified \<and> checkTelemetryObservedAfter db v now \<and>
      (\<exists>n. read_config_status (nw_signer_get e n t v) = Some (True, True))"
proof -
  obtain st where st: "getVehicleConfigStatus e t v db = (st, next_tick db)"
    by (simp add: getVehicleConfigStatus_def)
  show "db' = next_tick db" "ar_vin res = ar_vin result"
    using assms by (auto simp: verify_canary_def st Let_def split: if_splits)
  assume "\<not> failed"
  have "read_config_status (nw_signer_get e (tick db) t v) = st"
    using st by (simp add: getVehicleConfigStatus_def)
  with assms \<open>\<not> failed\<close> show "ar_outcome res = O_verified \<and> checkTelemetryObservedAfter db v now \<and>
      (\<exists>n. read_config_status (nw_signer_get e n t v) = Some (True, True))"
    by (cases st) (auto simp: verify_canary_def st Let_def verifyCanaryConditions_def checkTelemetryObservedAfter_def
      next_tick_def split: if_splits)
qed

lemma sweep_canary_cases:
  assumes "sweep_canary e r now rpv t target ca v db = ((res, failed), db')"
  obtains (refused) "failed" "ar_vin res = v" "db' = recordOutcome e r res db"
  | (posted) rc db1 where "rpv v = Some rc" "applyVehicleConfig e v rc t target ca db = (res, db1)" "failed"
      "db' = recordOutcome e r res db1"
  | (checked) rc result db1 where "rpv v = Some rc" "applyVehicleConfig e v rc t target ca db = (result, db1)"
      "verify_canary e t v now result (recordOutcome e r result db1) = ((res, failed), next_tick (recordOutcome e r result db1))"
      "db' = recordOutcome e r res (next_tick (recordOutcome e r result db1))" "ar_outcome result = O_applied"
proof (cases "rpv v")
  case None
  with assms refused show ?thesis by (auto simp: sweep_canary_def Let_def)
next
  case (Some rc)
  obtain ok reason where E: "isCanaryEligibleDb db v (map rf_key (filter (\<lambda>f. rf_source f \<noteq> Scope_global) (rc_fields rc))) = (ok, reason)"
    by fastforce
  obtain result db1 where A: "applyVehicleConfig e v rc t target ca db = (result, db1)" by fastforce
  obtain res1 failed1 db3 where V: "verify_canary e t v now result (recordOutcome e r result db1) = ((res1, failed1), db3)"
    by (metis surj_pair)
  note db3 = verify_canary_effect(1) [OF V]
  show ?thesis
  proof (cases "ok \<and> ar_outcome result = O_applied")
    case True
    with assms Some E A V have "res = res1" "failed = failed1" "db' = recordOutcome e r res1 db3"
      by (auto simp: sweep_canary_def Let_def)
    with Some A V db3 conjunct2 [OF True] show ?thesis by (intro checked) simp_all
  next
    case False
    show ?thesis
    proof (cases ok)
      case True
      with False assms Some E A have "res = result" "failed" "db' = recordOutcome e r result db1"
        by (auto simp: sweep_canary_def Let_def)
      with Some A show ?thesis by (intro posted) simp_all
    next
      case False
      with assms Some E show ?thesis by (intro refused) (auto simp: sweep_canary_def Let_def)
    qed
  qed
qed

lemma sweep_canary_effect:
  assumes "sweep_canary e r now rpv t target ca v db = ((res, failed), db')"
  shows "ar_vin res = v" and "runs db' = runs db"
    and "recorded db' r' w = (if r' = r \<and> w = v then Some res else recorded db r' w)"
    and "posts db' = posts db \<or> (\<exists>rc. rpv v = Some rc \<and> posts db' = posts db @ [(v, request_body v rc target ca)])"
proof -
  have "ar_vin res = v \<and> runs db' = runs db \<and>
    recorded db' r' w = (if r' = r \<and> w = v then Some res else recorded db r' w) \<and>
    (posts db' = posts db \<or> (\<exists>rc. rpv v = Some rc \<and> posts db' = posts db @ [(v, request_body v rc target ca)]))"
    using assms
  proof (cases rule: sweep_canary_cases)
    case refused
    then show ?thesis by (simp add: recorded_recordOutcome)
  next
    case (posted rc db1)
    then show ?thesis
      using posts_apply [of e v rc t target ca db] ar_vin_apply [of e v rc t target ca db] recorded_frame(2) [of e v rc t target ca db]
      by (simp add: recorded_recordOutcome)
  next
    case (checked rc result db1)
    then show ?thesis
      using posts_apply [of e v rc t target ca db] ar_vin_apply [of e v rc t target ca db] recorded_frame(2) [of e v rc t target ca db]
        verify_canary_effect(2) [OF checked(3)]
      by (simp add: recorded_recordOutcome)
  qed
  then show "ar_vin res = v" "runs db' = runs db"
    "recorded db' r' w = (if r' = r \<and> w = v then Some res else recorded db r' w)"
    "posts db' = posts db \<or> (\<exists>rc. rpv v = Some rc \<and> posts db' = posts db @ [(v, request_body v rc target ca)])"
    by blast+
qed

text \<open>
  What must hold of the world, whatever the code does, for a canary to have proved nothing: the
  signer refuses every request, or no status read of the vehicle reports a configuration that is
  present and synced, or no telemetry of the vehicle is stored.
\<close>

definition refused_reply :: "reply \<Rightarrow> bool" where
  "refused_reply rep = (case rep of Inl _ \<Rightarrow> True | Inr res \<Rightarrow> \<not> reply_ok res)"

definition canary_unproven :: "('e) network_scheme \<Rightarrow> vin \<Rightarrow> ('a) telemetry_db_scheme \<Rightarrow> bool" where
  "canary_unproven e vin db \<longleftrightarrow>
     (\<forall>n token body. refused_reply (nw_signer_post e n token body)) \<or>
     (\<forall>n token. read_config_status (nw_signer_get e n token vin) \<noteq> Some (True, True)) \<or>
     (\<forall>f \<in> set (facts db). f_vin f \<noteq> vin)"

lemma refused_post: "refused_reply rep \<Longrightarrow> ar_outcome (read_apply_reply e v rep) \<noteq> O_applied"
  by (auto simp: refused_reply_def read_apply_reply_def Let_def split: sum.splits option.splits)

lemma unproven_evidence:
  assumes "canary_unproven e v db" and "ar_outcome (fst (applyVehicleConfig e v rc t target ca db0)) = O_applied"
    and "\<forall>n. a n = read_config_status (nw_signer_get e n t' v)"
  shows "(\<forall>n. a n \<noteq> Some (True, True)) \<or> \<not> checkTelemetryObservedAfter db v after"
proof -
  have "\<not> (\<forall>n token body. refused_reply (nw_signer_post e n token body))"
    using assms(2) refused_post unfolding applyVehicleConfig_def Let_def fst_conv by blast
  with assms(1) consider "\<forall>n token. read_config_status (nw_signer_get e n token v) \<noteq> Some (True, True)" | "\<forall>f \<in> set (facts db). f_vin f \<noteq> v"
    unfolding canary_unproven_def by blast
  then show ?thesis
  proof cases
    case 1
    with assms(3) show ?thesis by simp
  next
    case 2
    then show ?thesis by (auto simp: checkTelemetryObservedAfter_def list_ex_iff)
  qed
qed

lemma sweep_canary_unproven:
  assumes "sweep_canary e r now rpv t target ca v db = ((res, failed), db')" and "canary_unproven e v db"
  shows "failed"
  using assms(1)
proof (cases rule: sweep_canary_cases)
  case (checked rc result db1)
  show ?thesis
  proof (rule ccontr)
    assume "\<not> failed"
    then have "checkTelemetryObservedAfter (recordOutcome e r result db1) v now"
      "\<exists>n. read_config_status (nw_signer_get e n t v) = Some (True, True)"
      using verify_canary_effect(3) [OF checked(3)] by blast+
    moreover have "facts (recordOutcome e r result db1) = facts db"
      using posts_apply(2) [of e v rc t target ca db] checked(2) by simp
    ultimately show False
      using unproven_evidence [OF assms(2), of rc t target ca db "\<lambda>n. read_config_status (nw_signer_get e n t v)" t now] checked(2,5)
      by (simp add: checkTelemetryObservedAfter_def)
  qed
qed simp_all

lemma finish_run_frame [simp]:
  "posts (finish_run e r st db) = posts db" "facts (finish_run e r st db) = facts db"
  by (simp_all add: finish_run_def now_iso_def)

lemma finish_run_state:
  assumes "r \<in> set (runs db)" and "run_id r = i"
  shows "\<exists>q \<in> set (runs (finish_run e i st db)). run_id q = i \<and> run_state q = st"
proof -
  have "r\<lparr>run_state := st, run_finished_at := Some (rt_clock e (tick db))\<rparr> \<in> set (runs (finish_run e i st db))"
    using assms by (auto simp: finish_run_def now_iso_def set_update_where intro!: image_eqI [of _ _ r])
  with assms(2) show ?thesis by (intro bexI) auto
qed

text \<open>The state in which the sweep meets its first vehicle.\<close>

definition sweep_start ::
  "('e) network_scheme \<Rightarrow> scope_kind \<Rightarrow> vin option \<Rightarrow> string \<Rightarrow> ('a) apply_db_scheme \<Rightarrow> ('a) apply_db_scheme" where
  "sweep_start e sc canary operator db =
     insert_run (fst (new_run_id e db)) sc operator canary (fst (now_iso e (next_tick db))) (snd (now_iso e (next_tick db)))"

lemma sweep_start_frame [simp]:
  "posts (sweep_start e sc c op db) = posts db" "facts (sweep_start e sc c op db) = facts db"
  "recorded (sweep_start e sc c op db) = recorded db"
  "\<exists>r \<in> set (runs (sweep_start e sc c op db)). run_id r = fst (new_run_id e db)"
  by (simp_all add: sweep_start_def insert_run_def now_iso_def next_tick_def recorded_def outcome_of_def fun_eq_iff)

lemma new_run_id_db: "new_run_id e db = (fst (new_run_id e db), next_tick db)"
  by (simp add: new_run_id_def)

lemma runApplySweep_vehicle:
  assumes "runApplySweep e Scope_vehicle vs rpv op t target ca db = (res, db')"
  shows "\<exists>rs db4. sweep_vehicles e (sw_run res) (fst (now_iso e (next_tick db))) rpv t target ca vs
      (sweep_start e Scope_vehicle None op db) = (rs, db4) \<and> sw_outcomes res = rs \<and>
      db' = finish_run e (sw_run res) RS_completed db4"
proof -
  obtain i where i: "new_run_id e db = (i, next_tick db)" using new_run_id_db by blast
  obtain n db2 where n: "now_iso e (next_tick db) = (n, db2)" by fastforce
  obtain rs db4 where S: "sweep_vehicles e i n rpv t target ca vs (insert_run i Scope_vehicle op None n db2) = (rs, db4)"
    by fastforce
  from assms S show ?thesis by (auto simp: runApplySweep_def sweep_start_def i n)
qed

lemma runApplySweep_canary:
  assumes "runApplySweep e sc (c # rest) rpv op t target ca db = (res, db')" and "sc \<noteq> Scope_vehicle"
  shows "\<exists>r db4 rs db5. sweep_canary e (sw_run res) (fst (now_iso e (next_tick db))) rpv t target ca c
       (sweep_start e sc (Some c) op db) = ((r, sw_canary_failed res), db4) \<and>
     (if sw_canary_failed res then halt_vehicles e (sw_run res) rest db4
      else sweep_vehicles e (sw_run res) (fst (now_iso e (next_tick db))) rpv t target ca rest db4) = (rs, db5) \<and>
     sw_outcomes res = r # rs \<and> sw_run res = fst (new_run_id e db) \<and>
     db' = finish_run e (sw_run res) (if sw_canary_failed res then RS_canary_failed else RS_completed) db5"
proof -
  obtain i where i: "new_run_id e db = (i, next_tick db)" using new_run_id_db by blast
  obtain n db2 where n: "now_iso e (next_tick db) = (n, db2)" by fastforce
  obtain r failed db4 where C: "sweep_canary e i n rpv t target ca c (insert_run i sc op (Some c) n db2) = ((r, failed), db4)"
    by (metis surj_pair)
  obtain rs db5 where S: "(if failed then halt_vehicles e i rest db4 else sweep_vehicles e i n rpv t target ca rest db4) = (rs, db5)"
    by fastforce
  have "(res, db') = (\<lparr>sw_run = i, sw_outcomes = r # rs, sw_canary_vin = Some c, sw_canary_failed = failed\<rparr>,
      finish_run e i (if failed then RS_canary_failed else RS_completed) db5)"
    using assms C S by (simp add: runApplySweep_def i n)
  then have eqs: "sw_outcomes res = r # rs" "sw_run res = i" "sw_canary_failed res = failed"
    "db' = finish_run e i (if failed then RS_canary_failed else RS_completed) db5" by auto
  show ?thesis
    by (rule exI [of _ r], rule exI [of _ db4], rule exI [of _ rs], rule exI [of _ db5])
      (use C S i n eqs in \<open>simp add: sweep_start_def split: if_splits\<close>)
qed

lemma failed_canary_effect:
  assumes run: "runApplySweep e sc (c # rest) rpv op t target ca db = (res, db')" and "sc \<noteq> Scope_vehicle"
    and failed: "sw_canary_failed res"
  shows "(posts db' = posts db \<or> (\<exists>rc. rpv c = Some rc \<and> posts db' = posts db @ [(c, request_body c rc target ca)])) \<and>
    tl (sw_outcomes res) = map (\<lambda>v. plain_result v O_halted None (Some ''canary_failed_rollback'')) rest \<and>
    (\<forall>v \<in> set rest. recorded db' (sw_run res) v = Some (plain_result v O_halted None (Some ''canary_failed_rollback''))) \<and>
    (\<exists>r \<in> set (runs db'). run_id r = sw_run res \<and> run_state r = RS_canary_failed)"
proof -
  from runApplySweep_canary [OF run \<open>sc \<noteq> Scope_vehicle\<close>] obtain r db4 rs db5 where
    C: "sweep_canary e (sw_run res) (fst (now_iso e (next_tick db))) rpv t target ca c
       (sweep_start e sc (Some c) op db) = ((r, True), db4)"
    and H: "halt_vehicles e (sw_run res) rest db4 = (rs, db5)"
    and res: "sw_outcomes res = r # rs" "sw_run res = fst (new_run_id e db)"
      "db' = finish_run e (sw_run res) RS_canary_failed db5"
    unfolding eqTrueI [OF failed] if_True by blast
  note H = halt_vehicles_effect [OF H]
  have "\<exists>r \<in> set (runs db5). run_id r = sw_run res"
    using H sweep_canary_effect(2) [OF C] res by (simp add: sweep_start_frame(4))
  then have "\<exists>r \<in> set (runs db'). run_id r = sw_run res \<and> run_state r = RS_canary_failed"
    using finish_run_state res by metis
  with H res sweep_canary_effect(4) [OF C] show ?thesis by auto
qed

section \<open>Properties\<close>

text \<open>C4: a failed canary touches no other vehicle: in a global or group sweep whose canary fails,
  the signer received at most the canary's request, every other target is reported and recorded
  as halted, and the run ends as \<open>canary_failed\<close>.\<close>

theorem canary_failure_halts_sweep:
  assumes run: "runApplySweep e sc (c # rest) rpv op t target ca db = (res, db')" and "sc \<noteq> Scope_vehicle"
    and failed: "sw_canary_failed res"
  shows "(posts db' = posts db \<or> (\<exists>rc. rpv c = Some rc \<and> posts db' = posts db @ [(c, request_body c rc target ca)])) \<and>
    tl (sw_outcomes res) = map (\<lambda>v. plain_result v O_halted None (Some ''canary_failed_rollback'')) rest \<and>
    (\<forall>v \<in> set rest. recorded db' (sw_run res) v = Some (plain_result v O_halted None (Some ''canary_failed_rollback''))) \<and>
    (\<exists>r \<in> set (runs db'). run_id r = sw_run res \<and> run_state r = RS_canary_failed)"
  by (rule failed_canary_effect [OF assms])

text \<open>C27: no rollout without evidence: in a global or group sweep whose canary cannot prove
  anything, because the signer refuses every request, or no read of the canary's status reports a
  synced configuration, or no telemetry of it is stored, the canary is found to have failed, and no target beside the
  canary is sent a request, before or after the verification; the others are recorded as halted
  and the run ends as \<open>canary_failed\<close>.\<close>

theorem rollout_needs_evidence:
  assumes run: "runApplySweep e sc (c # rest) rpv op t target ca db = (res, db')" and "sc \<noteq> Scope_vehicle"
    and "canary_unproven e c db"
  shows "sw_canary_failed res \<and>
    (posts db' = posts db \<or> (\<exists>rc. rpv c = Some rc \<and> posts db' = posts db @ [(c, request_body c rc target ca)])) \<and>
    (\<forall>v \<in> set rest. recorded db' (sw_run res) v = Some (plain_result v O_halted None (Some ''canary_failed_rollback''))) \<and>
    (\<exists>r \<in> set (runs db'). run_id r = sw_run res \<and> run_state r = RS_canary_failed)"
proof -
  have "canary_unproven e c (sweep_start e sc (Some c) op db)" using assms(3) by (simp add: canary_unproven_def)
  with runApplySweep_canary [OF assms(1,2)] have "sw_canary_failed res" using sweep_canary_unproven by metis
  with failed_canary_effect [OF assms(1,2)] show ?thesis by blast
qed

lemma sweep_records_outcomes:
  assumes run: "runApplySweep e sc vs rpv op t target ca db = (res, db')" and "distinct vs"
  shows "map ar_vin (sw_outcomes res) = vs \<and>
    (\<forall>r \<in> set (sw_outcomes res). recorded db' (sw_run res) (ar_vin r) = Some r)"
proof (cases "sc = Scope_vehicle")
  case True
  with runApplySweep_vehicle run sweep_vehicles_effect \<open>distinct vs\<close> show ?thesis
    by (metis recorded_frame(3))
next
  case False
  show ?thesis
  proof (cases vs)
    case Nil
    with run False show ?thesis by (auto simp: runApplySweep_def Let_def case_prod_beta)
  next
    case (Cons c rest)
    from runApplySweep_canary [OF run [unfolded Cons] False] obtain r db4 rs db5 where
      C: "sweep_canary e (sw_run res) (fst (now_iso e (next_tick db))) rpv t target ca c
         (sweep_start e sc (Some c) op db) = ((r, sw_canary_failed res), db4)"
      and S: "(if sw_canary_failed res then halt_vehicles e (sw_run res) rest db4
         else sweep_vehicles e (sw_run res) (fst (now_iso e (next_tick db))) rpv t target ca rest db4) = (rs, db5)"
      and res: "sw_outcomes res = r # rs"
        "db' = finish_run e (sw_run res) (if sw_canary_failed res then RS_canary_failed else RS_completed) db5"
      by blast
    have dist: "c \<notin> set rest" "distinct rest" using \<open>distinct vs\<close> Cons by auto
    have "map ar_vin rs = rest \<and> (\<forall>w. w \<notin> set rest \<longrightarrow> recorded db5 (sw_run res) w = recorded db4 (sw_run res) w) \<and>
        (\<forall>q \<in> set rs. recorded db5 (sw_run res) (ar_vin q) = Some q)"
      using S halt_vehicles_effect [of e "sw_run res" rest db4 rs db5] sweep_vehicles_effect [of e "sw_run res" _ rpv t target ca rest db4 rs db5] dist(2)
      by (auto simp: comp_def split: if_splits)
    with sweep_canary_effect(1,3) [OF C] dist(1) res Cons show ?thesis by simp
  qed
qed

text \<open>The sweep reports its targets in order, one result each, and what the outcome table
  holds for the run after the sweep is the reported result, although the row of an applied
  vehicle is written before and again after its verification.\<close>

theorem sweep_reports_what_it_records:
  assumes "runApplySweep e sc vs rpv op t target ca db = (res, db')" and "distinct vs"
  shows "map ar_vin (sw_outcomes res) = vs \<and>
    list_all (\<lambda>r. recorded db' (sw_run res) (ar_vin r) = Some r) (sw_outcomes res)"
  using sweep_records_outcomes [OF assms] by (simp add: list_all_iff)

text \<open>A field that the resolution switched off is sent to the vehicle all the same: the request
  holds an entry for every resolved field, whatever its \<open>enabled\<close> flag.\<close>

theorem disabled_fields_are_sent:
  assumes "f \<in> set (rc_fields resolved)" and "distinct (map rf_key (rc_fields resolved))" and "\<not> rf_enabled f"
  shows "\<exists>cfg fs. js_prop (request_body v resolved target ca) ''config'' = Some cfg \<and>
    js_prop cfg ''fields'' = Some (JObj fs) \<and> map_of fs (rf_key f) = Some (field_setting f)"
proof -
  have "map_of (foldl (\<lambda>m f. AList.update (rf_key f) (field_setting f) m) m0 fs) (rf_key f) = Some (field_setting f)"
    if "f \<in> set fs" "distinct (map rf_key fs)" for fs m0
    using that
  proof (induction fs arbitrary: m0)
    case (Cons x fs)
    have frame: "map_of (foldl (\<lambda>m f. AList.update (rf_key f) (field_setting f) m) m1 fs) k = map_of m1 k"
      if "k \<notin> rf_key ` set fs" for k m1 and fs :: "resolved_field list"
      using that by (induction fs arbitrary: m1) (auto simp: update_conv')
    show ?case
    proof (cases "f = x")
      case True
      with Cons.prems frame [of "rf_key x" fs] show ?thesis by (simp add: update_conv')
    next
      case False
      with Cons show ?thesis by simp
    qed
  qed simp
  with assms show ?thesis by (simp add: request_body_def fields_record_def)
qed

section \<open>Concrete runs\<close>

definition sample_fact :: fact_row where
  "sample_fact = \<lparr>f_id = ''F'', f_vin = ''V1'', f_field = ''Odometer'', f_observed_at = ''2027-01-01'',
     f_received_at = ''2027-01-01'', f_value = none_of KInvalid, f_tier = On_change, f_batch = ''B'', f_is_resend = False,
     f_source = T_telemetry, f_payload = P_unknown\<rparr>"

definition sample_apply_db :: apply_db where
  "sample_apply_db = key_db.extend (sample_key_db\<lparr>facts := [sample_fact]\<rparr>)
     \<lparr>runs = [], outcomes = [], apply_queue = [], next_queue_id = 1, dead_letters = [], messages_sent = [],
      dlq_sent = [], posts = []\<rparr>"

definition sample_resolved :: resolved_config where
  "sample_resolved = \<lparr>rc_vin = ''V1'', rc_fields = [\<lparr>rf_key = ''Odometer'', rf_enabled = False, rf_interval = 3600,
     rf_min_delta = Some 1, rf_source = Scope_global, rf_source_scope = ''global''\<rparr>], rc_unresolved = []\<rparr>"

lemmas sample_apply_simps = sample_apply_db_def sample_key_db_def sample_telemetry_db_def sample_config_db_def
  sample_store_def store_db.extend_def config_db.extend_def telemetry_db.extend_def key_db.extend_def

definition sample_failed_sweep :: "sweep_result \<times> apply_db" where
  "sample_failed_sweep = runApplySweep sample_network Scope_global [''V1'', ''V2''] (\<lambda>v. None) ''op'' ''at''
     (''host'', 443) ''ca'' sample_apply_db"

theorem canary_failure_halts_sweep_witness:
  "sw_canary_failed (fst sample_failed_sweep) \<and> tl (sw_outcomes (fst sample_failed_sweep)) =
     [plain_result ''V2'' O_halted None (Some ''canary_failed_rollback'')]"
proof -
  have failed: "sw_canary_failed (fst sample_failed_sweep)"
    by (simp add: sample_failed_sweep_def runApplySweep_def Let_def sweep_canary_def case_prod_beta)
  from canary_failure_halts_sweep [of sample_network Scope_global "''V1''" "[''V2'']" "\<lambda>v. None" "''op''" "''at''"
    "(''host'', 443)" "''ca''" sample_apply_db "fst sample_failed_sweep" "snd sample_failed_sweep"] failed
  show ?thesis by (simp add: sample_failed_sweep_def)
qed

definition sample_refusing_network :: network where
  "sample_refusing_network = sample_network\<lparr>nw_signer_post := (\<lambda>n t body. Inl ''refused'')\<rparr>"

definition sample_refused_sweep :: "sweep_result \<times> apply_db" where
  "sample_refused_sweep = runApplySweep sample_refusing_network Scope_global [''V1'', ''V2''] (\<lambda>v. Some sample_resolved)
     ''op'' ''at'' (''host'', 443) ''ca'' sample_apply_db"

theorem rollout_needs_evidence_witness:
  "sw_canary_failed (fst sample_refused_sweep) \<and> length (posts (snd sample_refused_sweep)) \<le> 1 \<and>
   recorded (snd sample_refused_sweep) (sw_run (fst sample_refused_sweep)) ''V2''
     = Some (plain_result ''V2'' O_halted None (Some ''canary_failed_rollback''))"
proof -
  have "canary_unproven sample_refusing_network ''V1'' sample_apply_db"
    by (simp add: canary_unproven_def sample_refusing_network_def refused_reply_def)
  moreover have "posts sample_apply_db = []" by (simp add: sample_apply_simps)
  ultimately show ?thesis
    using rollout_needs_evidence [of sample_refusing_network Scope_global "''V1''" "[''V2'']" "\<lambda>v. Some sample_resolved" "''op''" "''at''"
      "(''host'', 443)" "''ca''" sample_apply_db "fst sample_refused_sweep" "snd sample_refused_sweep"]
    by (auto simp: sample_refused_sweep_def)
qed

theorem sweep_reports_what_it_records_witness:
  "map ar_vin (sw_outcomes (fst sample_failed_sweep)) = [''V1'', ''V2''] \<and>
   list_all (\<lambda>r. recorded (snd sample_failed_sweep) (sw_run (fst sample_failed_sweep)) (ar_vin r) = Some r)
     (sw_outcomes (fst sample_failed_sweep))"
  by (rule sweep_reports_what_it_records [where e = sample_network and sc = Scope_global and rpv = "\<lambda>v. None"
    and op = "''op''" and t = "''at''" and target = "(''host'', 443)" and ca = "''ca''" and db = sample_apply_db])
    (simp_all add: sample_failed_sweep_def)

theorem disabled_fields_are_sent_witness:
  "\<exists>cfg fs. js_prop (request_body ''V1'' sample_resolved (''host'', 443) ''ca'') ''config'' = Some cfg \<and>
    js_prop cfg ''fields'' = Some (JObj fs) \<and>
    map_of fs (rf_key (hd (rc_fields sample_resolved))) = Some (field_setting (hd (rc_fields sample_resolved)))"
  by (rule disabled_fields_are_sent) (simp_all add: sample_resolved_def)

end
