(* ===== verification/ApplyQueue.thy ===== *)
theory ApplyQueue
  imports ConfigApply
begin

text \<open>
  \<open>apply-enqueue.ts\<close> and \<open>apply-processor.ts\<close>: an apply run as queue rows, drained by the cron job in
  bounded batches.  The canary is the row at position 0 whose vehicle the run names.  The queue's
  \<open>send\<close> is taken to accept every message.
\<close>

section \<open>Enqueueing\<close>

definition enqueueApplyRun ::
  "('e) network_scheme \<Rightarrow> scope_kind \<Rightarrow> string \<Rightarrow> vin option \<Rightarrow> ('a) apply_db_scheme \<Rightarrow> string \<times> ('a) apply_db_scheme" where
  "enqueueApplyRun e scopeKind operator canaryVin db =
     (let (runId, db1) = new_run_id e db;
          (nowIso, db2) = now_iso e db1
      in (runId, insert_run runId scopeKind operator canaryVin nowIso db2))"

definition insert_queue_row ::
  "string \<Rightarrow> vin \<Rightarrow> nat \<Rightarrow> config_cell \<Rightarrow> iso \<Rightarrow> ('a) apply_db_scheme \<Rightarrow> ('a) apply_db_scheme" where
  "insert_queue_row runId vin position cell nowIso db =
     db\<lparr>apply_queue := apply_queue db @
          [\<lparr>q_id = next_queue_id db, q_run = runId, q_vin = vin, q_position = position, q_config = cell,
            q_state = Q_pending, q_attempts = 0, q_last_error = None, q_enqueued_at = nowIso,
            q_started_at = None, q_finished_at = None\<rparr>],
        next_queue_id := Suc (next_queue_id db)\<rparr>"

text \<open>A target without a resolution is bound as NULL, which the column refuses; the loop then throws.\<close>

fun enqueue_targets ::
  "string \<Rightarrow> iso \<Rightarrow> nat \<Rightarrow> vin list \<Rightarrow> (vin \<rightharpoonup> resolved_config) \<Rightarrow> ('a) apply_db_scheme \<Rightarrow>
   string option \<times> ('a) apply_db_scheme" where
  "enqueue_targets runId nowIso i [] resolvedPerVin db = (None, db)"
| "enqueue_targets runId nowIso i (vin # vins) resolvedPerVin db =
     (case resolvedPerVin vin of
        None \<Rightarrow> (Some ''NOT NULL constraint failed: config_apply_queue.config_json'', db)
      | Some resolved \<Rightarrow>
          enqueue_targets runId nowIso (Suc i) vins resolvedPerVin
            (insert_queue_row runId vin i (ConfigText resolved) nowIso db))"

definition enqueueApplyTargets ::
  "('e) runtime_scheme \<Rightarrow> string \<Rightarrow> vin list \<Rightarrow> (vin \<rightharpoonup> resolved_config) \<Rightarrow> ('a) apply_db_scheme \<Rightarrow>
   (string + nat) \<times> ('a) apply_db_scheme" where
  "enqueueApplyTargets e runId targetVins resolvedPerVin db =
     (let (nowIso, db1) = now_iso e db
      in case enqueue_targets runId nowIso 0 targetVins resolvedPerVin db1 of
           (Some err, db2) \<Rightarrow> (Inl err, db2)
         | (None, db2) \<Rightarrow> (Inr (length targetVins), db2))"

fun enqueue_resolved ::
  "string \<Rightarrow> iso \<Rightarrow> nat \<Rightarrow> vin list \<Rightarrow> (vin \<rightharpoonup> resolved_config) \<Rightarrow> ('a) apply_db_scheme \<Rightarrow> ('a) apply_db_scheme" where
  "enqueue_resolved runId nowIso i [] resolvedPerVin db = db"
| "enqueue_resolved runId nowIso i (vin # vins) resolvedPerVin db =
     enqueue_resolved runId nowIso (Suc i) vins resolvedPerVin
       (case resolvedPerVin vin of
          None \<Rightarrow> db
        | Some resolved \<Rightarrow> insert_queue_row runId vin i (ConfigText resolved) nowIso db)"

definition canary_of :: "scope_kind \<Rightarrow> vin list \<Rightarrow> vin option" where
  "canary_of changeScope targetVins =
     (if changeScope = Scope_vehicle then None
      else (case targetVins of [] \<Rightarrow> None | v # _ \<Rightarrow> Some v))"

definition enqueueApplySweep ::
  "('e) network_scheme \<Rightarrow> scope_kind \<Rightarrow> vin list \<Rightarrow> (vin \<rightharpoonup> resolved_config) \<Rightarrow> string \<Rightarrow>
   ('a) apply_db_scheme \<Rightarrow> (string \<times> nat) \<times> ('a) apply_db_scheme" where
  "enqueueApplySweep e changeScope targetVins resolvedPerVin operator db =
     (let (runId, db1) = new_run_id e db;
          (nowIso, db2) = now_iso e db1;
          db3 = insert_run runId changeScope operator (canary_of changeScope targetVins) nowIso db2
      in ((runId, length targetVins), enqueue_resolved runId nowIso 0 targetVins resolvedPerVin db3))"

definition publish_messages :: "string \<Rightarrow> scope_kind \<Rightarrow> vin list \<Rightarrow> ('a) apply_db_scheme \<Rightarrow> ('a) apply_db_scheme" where
  "publish_messages runId scopeKind targetVins db =
     db\<lparr>messages_sent := messages_sent db @
          map (\<lambda>(i, vin). \<lparr>am_run = runId, am_vin = vin, am_position = i, am_scope = scopeKind\<rparr>)
            (List.enumerate 0 targetVins)\<rparr>"

definition enqueueApplySweepDistributed ::
  "('e) network_scheme \<Rightarrow> scope_kind \<Rightarrow> vin list \<Rightarrow> (vin \<rightharpoonup> resolved_config) \<Rightarrow> string \<Rightarrow>
   ('a) apply_db_scheme \<Rightarrow> (string + string \<times> nat) \<times> ('a) apply_db_scheme" where
  "enqueueApplySweepDistributed e changeScope targetVins resolvedPerVin operator db =
     (let (runId, db1) = enqueueApplyRun e changeScope operator (canary_of changeScope targetVins) db
      in case enqueueApplyTargets e runId targetVins resolvedPerVin db1 of
           (Inl err, db2) \<Rightarrow> (Inl err, db2)
         | (Inr _, db2) \<Rightarrow>
             (Inr (runId, length targetVins), publish_messages runId changeScope targetVins db2))"

section \<open>The processor\<close>

definition MAX_BATCH_SIZE :: nat where
  "MAX_BATCH_SIZE = 50"

definition run_row_of :: "('a) apply_db_scheme \<Rightarrow> string \<Rightarrow> run_row option" where
  "run_row_of db runId = first_where (\<lambda>r. run_id r = runId) (runs db)"

definition set_queue ::
  "(queue_row \<Rightarrow> bool) \<Rightarrow> (queue_row \<Rightarrow> queue_row) \<Rightarrow> ('a) apply_db_scheme \<Rightarrow> ('a) apply_db_scheme" where
  "set_queue P f db = db\<lparr>apply_queue := update_where P f (apply_queue db)\<rparr>"

definition set_run ::
  "string \<Rightarrow> (run_row \<Rightarrow> run_row) \<Rightarrow> ('a) apply_db_scheme \<Rightarrow> ('a) apply_db_scheme" where
  "set_run runId f db = db\<lparr>runs := update_where (\<lambda>r. run_id r = runId) f (runs db)\<rparr>"

definition failQueueItem ::
  "('e) runtime_scheme \<Rightarrow> nat \<Rightarrow> string \<Rightarrow> ('a) apply_db_scheme \<Rightarrow> ('a) apply_db_scheme" where
  "failQueueItem e queueId err db =
     (let (nowIso, db1) = now_iso e db
      in set_queue (\<lambda>r. q_id r = queueId)
           (\<lambda>r. r\<lparr>q_state := Q_failed, q_last_error := Some err, q_finished_at := Some nowIso\<rparr>) db1)"

definition completeQueueItem ::
  "('e) runtime_scheme \<Rightarrow> nat \<Rightarrow> ('a) apply_db_scheme \<Rightarrow> ('a) apply_db_scheme" where
  "completeQueueItem e queueId db =
     (let (nowIso, db1) = now_iso e db
      in set_queue (\<lambda>r. q_id r = queueId) (\<lambda>r. r\<lparr>q_state := Q_done, q_finished_at := Some nowIso\<rparr>) db1)"

definition haltRun ::
  "('e) runtime_scheme \<Rightarrow> string \<Rightarrow> string \<Rightarrow> ('a) apply_db_scheme \<Rightarrow> ('a) apply_db_scheme" where
  "haltRun e runId reason db =
     (let (nowIso, db1) = now_iso e db
      in set_run runId (\<lambda>r. r\<lparr>run_state := RS_halted, run_canary_state := Some reason, run_finished_at := Some nowIso\<rparr>) db1)"

definition open_rollout :: "string \<Rightarrow> vin \<Rightarrow> ('a) apply_db_scheme \<Rightarrow> ('a) apply_db_scheme" where
  "open_rollout runId vin db =
     set_run runId (\<lambda>r. r\<lparr>run_state := RS_rolling, run_canary_vin := Some vin, run_canary_state := Some ''verified''\<rparr>) db"

definition outcome_text :: "apply_outcome \<Rightarrow> string" where
  "outcome_text oc =
     (case oc of O_applied \<Rightarrow> ''applied'' | O_verified \<Rightarrow> ''verified'' | O_skipped \<Rightarrow> ''skipped''
      | O_failed \<Rightarrow> ''failed'' | O_halted \<Rightarrow> ''halted'' | O_pending \<Rightarrow> ''pending'')"

definition failure_text :: "apply_result \<Rightarrow> string" where
  "failure_text result =
     (case ar_error_detail result of Some t \<Rightarrow> t | None \<Rightarrow> outcome_text (ar_outcome result))"

definition reason_text :: "string option \<Rightarrow> string" where
  "reason_text r = (case r of None \<Rightarrow> ''undefined'' | Some t \<Rightarrow> t)"

text \<open>The canary after its request: true when the run was halted.\<close>

definition process_canary ::
  "('e) network_scheme \<Rightarrow> nat \<Rightarrow> string \<Rightarrow> vin \<Rightarrow> string \<Rightarrow> iso \<Rightarrow> apply_result \<Rightarrow> ('a) apply_db_scheme \<Rightarrow>
   bool \<times> ('a) apply_db_scheme" where
  "process_canary e queueId runId vin memberToken startIso result db =
     (if ar_outcome result \<noteq> O_applied
      then (True, failQueueItem e queueId (''canary_post_failed: '' @ failure_text result)
             (haltRun e runId (''canary '' @ vin @ '' POST failed: '' @ failure_text result) db))
      else (let (verified, db1) = verifyAdoption e vin memberToken startIso db
            in if \<not> fst verified
               then (True, failQueueItem e queueId (''canary_verification_failed: '' @ reason_text (snd verified))
                      (haltRun e runId (''canary '' @ vin @ '' verification failed: '' @ reason_text (snd verified)) db1))
               else (False, completeQueueItem e queueId
                      (open_rollout runId vin (recordOutcome e runId (result\<lparr>ar_outcome := O_verified\<rparr>) db1)))))"

text \<open>A rollout vehicle after its request.\<close>

definition process_rollout ::
  "('e) network_scheme \<Rightarrow> nat \<Rightarrow> string \<Rightarrow> vin \<Rightarrow> string \<Rightarrow> iso \<Rightarrow> apply_result \<Rightarrow> ('a) apply_db_scheme \<Rightarrow>
   ('a) apply_db_scheme" where
  "process_rollout e queueId runId vin memberToken startIso result db =
     completeQueueItem e queueId
       (if ar_outcome result = O_applied
        then (let (verified, db1) = verifyAdoption e vin memberToken startIso db
              in recordOutcome e runId
                   (if fst verified then result\<lparr>ar_outcome := O_verified\<rparr>
                    else result\<lparr>ar_outcome := O_failed, ar_error_detail := snd verified\<rparr>) db1)
        else db)"

text \<open>\<open>Inl\<close> is a throw; the flag tells whether the run was halted.\<close>

definition processOneVehicle ::
  "('e) network_scheme \<Rightarrow> string \<times> int \<Rightarrow> string \<Rightarrow> queue_row \<Rightarrow> run_row \<Rightarrow> ('a) apply_db_scheme \<Rightarrow>
   (string + bool) \<times> ('a) apply_db_scheme" where
  "processOneVehicle e target ca item runRow db =
     (let (startIso, db1) = now_iso e db in
      if q_config item = EmptyText \<or> q_config item = BadText
      then (Inr False, failQueueItem e (q_id item) ''config_json_parse_failed'' db1)
      else (case vehicle_of db1 (q_vin item) of
          None \<Rightarrow> (Inr False, failQueueItem e (q_id item) (''no_member_for_vin:'' @ q_vin item) db1)
        | Some memberRow \<Rightarrow>
            (let (memberToken, db2) = getMemberAccessToken e (v_member memberRow) db1 in
             if no_token memberToken
             then (Inr False, failQueueItem e (q_id item) (''no_member_access_token:'' @ q_vin item) db2)
             else (case q_config item of
                 ConfigText resolved \<Rightarrow>
                   (let isCanary = (q_position item = 0 \<and> run_canary_vin runRow = Some (q_vin item));
                        (result, db3) = applyVehicleConfig e (q_vin item) resolved (the memberToken) target ca db2;
                        db4 = recordOutcome e (q_run item) result db3
                    in if isCanary
                       then (let (halted, db5) = process_canary e (q_id item) (q_run item) (q_vin item)
                                   (the memberToken) startIso result db4
                             in (Inr halted, db5))
                       else (Inr False, process_rollout e (q_id item) (q_run item) (q_vin item)
                               (the memberToken) startIso result db4))
               | _ \<Rightarrow> (Inl ''Cannot read properties of null (reading 'fields')'', db2)))))"

definition run_closed_row :: "run_row option \<Rightarrow> bool" where
  "run_closed_row r = (case r of None \<Rightarrow> True | Some row \<Rightarrow> run_state row = RS_halted \<or> run_state row = RS_canary_failed)"

text \<open>One turn of the loop: the two counters are \<open>processed\<close> and \<open>haltedRuns\<close>.\<close>

definition process_item ::
  "('e) network_scheme \<Rightarrow> string \<times> int \<Rightarrow> string \<Rightarrow> queue_row \<Rightarrow> (nat \<times> nat) \<times> ('a) apply_db_scheme \<Rightarrow>
   (nat \<times> nat) \<times> ('a) apply_db_scheme" where
  "process_item e target ca item s =
     (let ((processed, haltedRuns), db) = s;
          runRow = run_row_of db (q_run item)
      in if run_closed_row runRow
         then (let (nowIso, db1) = now_iso e db
               in ((processed, Suc haltedRuns), set_queue (\<lambda>r. q_id r = q_id item)
                    (\<lambda>r. r\<lparr>q_state := Q_halted, q_finished_at := Some nowIso\<rparr>) db1))
         else (let (startIso, db1) = now_iso e db;
                   db2 = set_queue (\<lambda>r. q_id r = q_id item)
                     (\<lambda>r. r\<lparr>q_state := Q_in_progress, q_attempts := Suc (q_attempts r), q_started_at := Some startIso\<rparr>) db1
               in case processOneVehicle e target ca item (the runRow) db2 of
                    (Inl err, db3) \<Rightarrow>
                      ((Suc processed, haltedRuns), failQueueItem e (q_id item) (''processing_error:'' @ err) db3)
                  | (Inr halted, db3) \<Rightarrow>
                      ((Suc processed, if halted then Suc haltedRuns else haltedRuns), db3)))"

definition unfinished_rows :: "('a) apply_db_scheme \<Rightarrow> string \<Rightarrow> nat" where
  "unfinished_rows db runId =
     count_where (\<lambda>r. q_run r = runId \<and> (q_state r = Q_pending \<or> q_state r = Q_in_progress)) (apply_queue db)"

text \<open>The closing loop; it counts the runs it completes.\<close>

fun finalize_runs ::
  "('e) runtime_scheme \<Rightarrow> string list \<Rightarrow> ('a) apply_db_scheme \<Rightarrow> nat \<times> ('a) apply_db_scheme" where
  "finalize_runs e [] db = (0, db)"
| "finalize_runs e (runId # rest) db =
     (if unfinished_rows db runId = 0 \<and>
         (case run_row_of db runId of None \<Rightarrow> False | Some r \<Rightarrow> run_state r = RS_rolling)
      then (let (nowIso, db1) = now_iso e db;
                (n, db2) = finalize_runs e rest
                  (set_run runId (\<lambda>r. r\<lparr>run_state := RS_completed, run_finished_at := Some nowIso\<rparr>) db1)
            in (Suc n, db2))
      else finalize_runs e rest db)"

definition pending_batch :: "('a) apply_db_scheme \<Rightarrow> queue_row list" where
  "pending_batch db =
     take MAX_BATCH_SIZE (sort_key q_run (sort_key q_position (filter (\<lambda>r. q_state r = Q_pending) (apply_queue db))))"

record process_report =
  pp_processed :: nat
  pp_halted :: nat
  pp_completed :: nat

definition processApplyQueue ::
  "('e) network_scheme \<Rightarrow> string \<times> int \<Rightarrow> string \<Rightarrow> ('a) apply_db_scheme \<Rightarrow> process_report \<times> ('a) apply_db_scheme" where
  "processApplyQueue e target ca db =
     (let pending = pending_batch db;
          ((processed, haltedRuns), db1) = fold (process_item e target ca) pending ((0, 0), db);
          (completed, db2) = finalize_runs e (js_set (map q_run pending)) db1
      in (\<lparr>pp_processed = processed, pp_halted = haltedRuns, pp_completed = completed\<rparr>, db2))"

section \<open>Frames\<close>

lemma now_iso_db [simp]: "snd (now_iso e db) = next_tick db"
  by (simp add: now_iso_def next_tick_def)

lemma queue_next_tick [simp]:
  "apply_queue (next_tick db) = apply_queue db" "run_row_of (next_tick db) = run_row_of db"
  by (simp_all add: next_tick_def run_row_of_def fun_eq_iff)

lemma queue_recordOutcome [simp]:
  "apply_queue (recordOutcome e r res db) = apply_queue db" "run_row_of (recordOutcome e r res db) = run_row_of db"
  by (simp_all add: recordOutcome_def put_outcome_def now_iso_def run_row_of_def fun_eq_iff)

lemma queue_applyVehicleConfig [simp]:
  "apply_queue (snd (applyVehicleConfig e v rc t target ca db)) = apply_queue db"
  "run_row_of (snd (applyVehicleConfig e v rc t target ca db)) = run_row_of db"
  by (simp_all add: applyVehicleConfig_def next_tick_def run_row_of_def fun_eq_iff Let_def)

lemma set_queue_frame [simp]:
  "posts (set_queue P f db) = posts db" "runs (set_queue P f db) = runs db"
  "run_row_of (set_queue P f db) = run_row_of db"
  by (simp_all add: set_queue_def run_row_of_def fun_eq_iff)

lemma apply_queue_insert_run [simp]: "apply_queue (insert_run i sc op c now db) = apply_queue db"
  by (simp add: insert_run_def)

lemma set_run_frame [simp]:
  "posts (set_run r f db) = posts db" "apply_queue (set_run r f db) = apply_queue db"
  by (simp_all add: set_run_def)

lemma vehicles_frame [simp]:
  "vehicles (next_tick db) = vehicles db" "vehicles (set_queue P f d) = vehicles d" "vehicles (failQueueItem e q err d) = vehicles d"
  by (simp_all add: next_tick_def set_queue_def failQueueItem_def case_prod_beta)

lemma run_row_of_set_run:
  assumes "\<And>x. run_id (f x) = run_id x"
  shows "run_row_of (set_run r f db) i = (if i = r then map_option f (run_row_of db r) else run_row_of db i)"
proof (cases "i = r")
  case True
  then show ?thesis
    using find_update_where_same [of "\<lambda>x. run_id x = r" f "\<lambda>x. run_id x = r" "runs db"] assms
    by (simp add: run_row_of_def set_run_def)
next
  case False
  then show ?thesis
    using find_update_where_other [of "\<lambda>x. run_id x = i" f "\<lambda>x. run_id x = r" "runs db"] assms
    by (simp add: run_row_of_def set_run_def)
qed

lemma failQueueItem_frame [simp]:
  "posts (failQueueItem e q err db) = posts db" "runs (failQueueItem e q err db) = runs db"
  "run_row_of (failQueueItem e q err db) = run_row_of db"
  by (simp_all add: failQueueItem_def case_prod_beta)

lemma completeQueueItem_frame [simp]:
  "posts (completeQueueItem e q db) = posts db" "runs (completeQueueItem e q db) = runs db"
  "run_row_of (completeQueueItem e q db) = run_row_of db"
  by (simp_all add: completeQueueItem_def case_prod_beta)

lemma haltRun_frame [simp]:
  "posts (haltRun e r reason db) = posts db" "apply_queue (haltRun e r reason db) = apply_queue db"
  by (simp_all add: haltRun_def case_prod_beta)

lemma run_row_of_haltRun:
  "run_row_of (haltRun e r reason db) i =
     (if i = r then map_option (\<lambda>x. x\<lparr>run_state := RS_halted, run_canary_state := Some reason,
        run_finished_at := Some (rt_clock e (tick db))\<rparr>) (run_row_of db r) else run_row_of db i)"
  by (simp add: haltRun_def case_prod_beta run_row_of_set_run now_iso_def next_tick_def [symmetric])

lemma open_rollout_frame [simp]:
  "posts (open_rollout r v db) = posts db" "apply_queue (open_rollout r v db) = apply_queue db"
  by (simp_all add: open_rollout_def)

lemma run_row_of_open_rollout_other: "i \<noteq> r \<Longrightarrow> run_row_of (open_rollout r v db) i = run_row_of db i"
  by (simp add: open_rollout_def run_row_of_set_run)

text \<open>Minting a token changes the token table and the clock only.\<close>

definition token_only :: "('a) store_db_scheme \<Rightarrow> ('a) store_db_scheme \<Rightarrow> bool" where
  "token_only db db' = (\<exists>ts n. db' = db\<lparr>oauth_tokens := ts, tick := n\<rparr>)"

lemma token_only_refl: "token_only db db"
  unfolding token_only_def by (rule exI [of _ "oauth_tokens db"], rule exI [of _ "tick db"]) simp

lemma token_onlyI: "token_only db (db\<lparr>oauth_tokens := ts, tick := n\<rparr>)"
  unfolding token_only_def by blast

lemma token_only_next_tick:
  assumes "token_only db db'"
  shows "token_only db (next_tick db')"
proof -
  obtain ts n where "db' = db\<lparr>oauth_tokens := ts, tick := n\<rparr>" using assms unfolding token_only_def by blast
  then show ?thesis using token_onlyI [where db = db and ts = ts and n = "Suc n"] by (simp add: next_tick_def)
qed

lemma token_only_store_refreshed:
  assumes "token_only db db'"
  shows "token_only db (store_refreshed e m s t db')"
proof -
  obtain ts n where db': "db' = db\<lparr>oauth_tokens := ts, tick := n\<rparr>" using assms unfolding token_only_def by blast
  show ?thesis
    unfolding store_refreshed_def db'
    using token_onlyI [where db = db and n = "Suc n" and ts = "update_where (\<lambda>r. o_member r = m) (\<lambda>r. r\<lparr>o_refresh := s, o_expires_at := Some t,
      o_updated_at := nw_datetime e n\<rparr>) ts"] by (simp add: next_tick_def)
qed

lemma refreshAccessToken_db: "token_only db (snd (refreshAccessToken e m t db))"
  by (simp add: refreshAccessToken_def Let_def token_only_refl token_only_next_tick token_only_store_refreshed
    split: option.split sum.split)

lemma getMemberAccessToken_db: "token_only db (snd (getMemberAccessToken e m db))"
  by (simp add: getMemberAccessToken_def refreshAccessToken_db token_only_refl split: option.split)

lemma token_only_frame:
  fixes db :: "('a) apply_db_scheme"
  assumes "token_only db db'"
  shows "posts db' = posts db" "runs db' = runs db" "apply_queue db' = apply_queue db"
    "run_row_of db' = run_row_of db" "dead_letters db' = dead_letters db" "facts db' = facts db"
    "vehicles db' = vehicles db" "outcomes db' = outcomes db"
  using assms by (auto simp: token_only_def run_row_of_def fun_eq_iff)

lemmas token_frame [simp] = token_only_frame [OF getMemberAccessToken_db]

section \<open>One item of the queue\<close>

text \<open>The rows of one queue item reach a final state; every other row is left alone.\<close>

definition settles :: "nat \<Rightarrow> queue_row list \<Rightarrow> queue_row list \<Rightarrow> bool" where
  "settles i old new \<longleftrightarrow>
     (\<exists>f. (\<forall>r. q_id (f r) = q_id r \<and> q_run (f r) = q_run r \<and> q_vin (f r) = q_vin r \<and>
            q_state (f r) \<in> {Q_done, Q_failed, Q_halted}) \<and>
        new = update_where (\<lambda>r. q_id r = i) f old)"

lemma settles_failQueueItem: "settles i (apply_queue db) (apply_queue (failQueueItem e i err db))"
  unfolding settles_def failQueueItem_def case_prod_beta now_iso_db set_queue_def
  by (rule exI [of _ "\<lambda>r. r\<lparr>q_state := Q_failed, q_last_error := Some err, q_finished_at := Some (fst (now_iso e db))\<rparr>"]) simp

lemma settles_completeQueueItem: "settles i (apply_queue db) (apply_queue (completeQueueItem e i db))"
  unfolding settles_def completeQueueItem_def case_prod_beta now_iso_db set_queue_def
  by (rule exI [of _ "\<lambda>r. r\<lparr>q_state := Q_done, q_finished_at := Some (fst (now_iso e db))\<rparr>"]) simp

lemma settles_after_mark:
  assumes "settles i (update_where (\<lambda>r. q_id r = i) g old) new"
    and "\<And>r. q_id (g r) = q_id r \<and> q_run (g r) = q_run r \<and> q_vin (g r) = q_vin r"
  shows "settles i old new"
proof -
  obtain f where f: "\<forall>r. q_id (f r) = q_id r \<and> q_run (f r) = q_run r \<and> q_vin (f r) = q_vin r \<and>
      q_state (f r) \<in> {Q_done, Q_failed, Q_halted}"
    and new: "new = update_where (\<lambda>r. q_id r = i) f (update_where (\<lambda>r. q_id r = i) g old)"
    using assms(1) by (auto simp: settles_def)
  have "new = update_where (\<lambda>r. q_id r = i) (f \<circ> g) old"
    using assms(2) by (simp add: new update_where_def)
  with f assms(2) show ?thesis
    unfolding settles_def by (intro exI [of _ "f \<circ> g"]) simp
qed

lemma process_canary_effect:
  assumes "process_canary e i r v t start res db = (halted, db')"
  shows "posts db' = posts db" and "settles i (apply_queue db) (apply_queue db')"
    and "j \<noteq> r \<Longrightarrow> run_row_of db' j = run_row_of db j"
    and "halted \<Longrightarrow> run_closed_row (run_row_of db' r)"
  using assms
    settles_failQueueItem [of i "haltRun e r reason db" for reason] settles_failQueueItem [of i "haltRun e r reason (next_tick db)" for reason]
    settles_completeQueueItem [of i "open_rollout r v (recordOutcome e r res' (next_tick db))" for res']
  by (auto simp: process_canary_def case_prod_beta Let_def run_row_of_haltRun run_row_of_open_rollout_other run_closed_row_def
      split: if_splits option.split)

lemma process_rollout_effect [simp]:
  "posts (process_rollout e i r v t start res db) = posts db"
  "run_row_of (process_rollout e i r v t start res db) = run_row_of db"
  by (simp_all add: process_rollout_def case_prod_beta Let_def)

lemma settles_process_rollout: "settles i (apply_queue db) (apply_queue (process_rollout e i r v t start res db))"
  using settles_completeQueueItem [of i "if ar_outcome res = O_applied
        then (let (verified, db1) = verifyAdoption e v t start db
              in recordOutcome e r
                   (if fst verified then res\<lparr>ar_outcome := O_verified\<rparr>
                    else res\<lparr>ar_outcome := O_failed, ar_error_detail := snd verified\<rparr>) db1)
        else db" e]
  by (simp add: process_rollout_def case_prod_beta Let_def split: if_splits)

lemma processOneVehicle_cases:
  assumes "processOneVehicle e target ca item row db = (res, db')"
  obtains (refused) err db1 where "res = Inr False" "db' = failQueueItem e (q_id item) err db1"
      "posts db1 = posts db" "runs db1 = runs db" "apply_queue db1 = apply_queue db" "vehicles db1 = vehicles db"
  | (thrown) err where "res = Inl err" "posts db' = posts db" "runs db' = runs db" "apply_queue db' = apply_queue db"
      "vehicles db' = vehicles db"
  | (canary) t start resolved result db1 db2 halted where "q_position item = 0" "run_canary_vin row = Some (q_vin item)"
      "posts db1 = posts db" "runs db1 = runs db" "apply_queue db1 = apply_queue db"
      "applyVehicleConfig e (q_vin item) resolved t target ca db1 = (result, db2)" "res = Inr halted"
      "process_canary e (q_id item) (q_run item) (q_vin item) t start result (recordOutcome e (q_run item) result db2) = (halted, db')"
      "facts db1 = facts db"
  | (rollout) t start resolved result db1 db2 where "\<not> (q_position item = 0 \<and> run_canary_vin row = Some (q_vin item))"
      "posts db1 = posts db" "runs db1 = runs db" "apply_queue db1 = apply_queue db"
      "applyVehicleConfig e (q_vin item) resolved t target ca db1 = (result, db2)" "res = Inr False"
      "db' = process_rollout e (q_id item) (q_run item) (q_vin item) t start result (recordOutcome e (q_run item) result db2)"
proof -
  obtain start where n: "now_iso e db = (start, next_tick db)" by (simp add: now_iso_def next_tick_def)
  show ?thesis
  proof (cases "q_config item = EmptyText \<or> q_config item = BadText")
    case True
    with assms n have "res = Inr False"
      "db' = failQueueItem e (q_id item) ''config_json_parse_failed'' (next_tick db)"
      by (auto simp: processOneVehicle_def)
    from refused [OF this] show ?thesis by simp
  next
    case parsed: False
    show ?thesis
    proof (cases "vehicle_of (next_tick db) (q_vin item)")
      case None
      with assms n parsed have "res = Inr False"
        "db' = failQueueItem e (q_id item) (''no_member_for_vin:'' @ q_vin item) (next_tick db)"
        by (auto simp: processOneVehicle_def)
      from refused [OF this] show ?thesis by simp
    next
      case (Some memberRow)
      obtain tok db2 where T: "getMemberAccessToken e (v_member memberRow) (next_tick db) = (tok, db2)" by fastforce
      have db2: "posts db2 = posts db" "runs db2 = runs db" "apply_queue db2 = apply_queue db" "vehicles db2 = vehicles db"
        "facts db2 = facts db"
        using token_frame [of e "v_member memberRow" "next_tick db"] T by simp_all
      show ?thesis
      proof (cases "no_token tok")
        case True
        with assms n parsed Some T have "res = Inr False"
          "db' = failQueueItem e (q_id item) (''no_member_access_token:'' @ q_vin item) db2"
          by (auto simp: processOneVehicle_def)
        from refused [OF this db2(1-4)] show ?thesis .
      next
        case False
        show ?thesis
        proof (cases "q_config item")
          case (ConfigText resolved)
          obtain result db3 where A: "applyVehicleConfig e (q_vin item) resolved (the tok) target ca db2 = (result, db3)" by fastforce
          obtain halted db5 where C: "process_canary e (q_id item) (q_run item) (q_vin item) (the tok) start result
             (recordOutcome e (q_run item) result db3) = (halted, db5)" by fastforce
          show ?thesis
          proof (cases "q_position item = 0 \<and> run_canary_vin row = Some (q_vin item)")
            case True
            with assms n Some T False ConfigText A C have "res = Inr halted" "db' = db5"
              by (simp_all add: processOneVehicle_def)
            with True C show ?thesis by (intro canary [OF _ _ db2(1-3) A _ _ db2(5)]) auto
          next
            case nc: False
            with assms n Some T False ConfigText A have "(res, db') = (Inr False, process_rollout e (q_id item) (q_run item)
                (q_vin item) (the tok) start result (recordOutcome e (q_run item) result db3))"
              unfolding processOneVehicle_def by (simp only: config_cell.case config_cell.simps prod.case Let_def option.case if_False HOL.simp_thms)
            with nc db2 A show ?thesis by (intro rollout) auto
          qed
        next
          case NullText
          with assms n Some T False db2 show ?thesis by (intro thrown) (auto simp: processOneVehicle_def)
        qed (use parsed in auto)
      qed
    qed
  qed
qed

lemma processOneVehicle_effect:
  assumes "processOneVehicle e target ca item row db = (res, db')"
  shows "\<exists>ps. posts db' = posts db @ ps \<and> fst ` set ps \<subseteq> {q_vin item} \<and> length ps \<le> 1"
    and "j \<noteq> q_run item \<Longrightarrow> run_row_of db' j = run_row_of db j"
    and "case res of Inl _ \<Rightarrow> apply_queue db' = apply_queue db | Inr _ \<Rightarrow> settles (q_id item) (apply_queue db) (apply_queue db')"
    and "res = Inr True \<Longrightarrow> run_closed_row (run_row_of db' (q_run item))"
proof -
  have row_of: "run_row_of db1 = run_row_of db" if "runs db1 = runs db" for db1
    using that by (simp add: run_row_of_def fun_eq_iff)
  have "(\<exists>ps. posts db' = posts db @ ps \<and> fst ` set ps \<subseteq> {q_vin item} \<and> length ps \<le> 1) \<and>
    (j \<noteq> q_run item \<longrightarrow> run_row_of db' j = run_row_of db j) \<and>
    (case res of Inl _ \<Rightarrow> apply_queue db' = apply_queue db | Inr _ \<Rightarrow> settles (q_id item) (apply_queue db) (apply_queue db')) \<and>
    (res = Inr True \<longrightarrow> run_closed_row (run_row_of db' (q_run item)))"
    using assms
  proof (cases rule: processOneVehicle_cases)
    case (refused err db1)
    then show ?thesis using settles_failQueueItem [of "q_id item" db1 e err] row_of [of db1] by auto
  next
    case (thrown err)
    then show ?thesis using row_of [of db'] by auto
  next
    case (canary t start resolved result db1 db2 halted)
    note eff = process_canary_effect [OF canary(8)]
    show ?thesis
      using eff canary posts_apply [of e "q_vin item" resolved t target ca db1]
        queue_applyVehicleConfig [of e "q_vin item" resolved t target ca db1] row_of [of db1] by auto
  next
    case (rollout t start resolved result db1 db2)
    show ?thesis
      using rollout posts_apply [of e "q_vin item" resolved t target ca db1]
        queue_applyVehicleConfig [of e "q_vin item" resolved t target ca db1] row_of [of db1]
        settles_process_rollout [of "q_id item" "recordOutcome e (q_run item) result db2" e "q_run item" "q_vin item" t start result]
      by auto
  qed
  then show "\<exists>ps. posts db' = posts db @ ps \<and> fst ` set ps \<subseteq> {q_vin item} \<and> length ps \<le> 1"
    "j \<noteq> q_run item \<Longrightarrow> run_row_of db' j = run_row_of db j"
    "case res of Inl _ \<Rightarrow> apply_queue db' = apply_queue db | Inr _ \<Rightarrow> settles (q_id item) (apply_queue db) (apply_queue db')"
    "res = Inr True \<Longrightarrow> run_closed_row (run_row_of db' (q_run item))" by blast+
qed

lemma process_item_cases:
  obtains (closed) n where "run_closed_row (run_row_of db (q_run item))"
      "snd (process_item e target ca item (c, db)) = set_queue (\<lambda>r. q_id r = q_id item)
         (\<lambda>r. r\<lparr>q_state := Q_halted, q_finished_at := Some n\<rparr>) (next_tick db)"
  | (processed) row n res db3 where "run_row_of db (q_run item) = Some row" "\<not> run_closed_row (run_row_of db (q_run item))"
      "processOneVehicle e target ca item row (set_queue (\<lambda>r. q_id r = q_id item)
         (\<lambda>r. r\<lparr>q_state := Q_in_progress, q_attempts := Suc (q_attempts r), q_started_at := Some n\<rparr>) (next_tick db)) = (res, db3)"
      "snd (process_item e target ca item (c, db)) =
         (case res of Inl err \<Rightarrow> failQueueItem e (q_id item) (''processing_error:'' @ err) db3 | Inr _ \<Rightarrow> db3)"
proof (cases "run_closed_row (run_row_of db (q_run item))")
  case True
  with closed show ?thesis by (simp add: process_item_def case_prod_beta Let_def)
next
  case False
  then obtain row where row: "run_row_of db (q_run item) = Some row" by (auto simp: run_closed_row_def split: option.splits)
  let ?db2 = "set_queue (\<lambda>r. q_id r = q_id item) (\<lambda>r. r\<lparr>q_state := Q_in_progress, q_attempts := Suc (q_attempts r),
     q_started_at := Some (fst (now_iso e db))\<rparr>) (next_tick db)"
  obtain res db3 where P: "processOneVehicle e target ca item row ?db2 = (res, db3)" by fastforce
  have "snd (process_item e target ca item (c, db)) =
      (case res of Inl err \<Rightarrow> failQueueItem e (q_id item) (''processing_error:'' @ err) db3 | Inr _ \<Rightarrow> db3)"
    using False row P by (simp add: process_item_def case_prod_beta Let_def split: sum.split)
  with row False P show ?thesis by (rule processed)
qed

lemma process_item_effect:
  "\<exists>ps. posts (snd (process_item e target ca item (c, db))) = posts db @ ps \<and> fst ` set ps \<subseteq> {q_vin item} \<and> length ps \<le> 1"
  "j \<noteq> q_run item \<Longrightarrow> run_row_of (snd (process_item e target ca item (c, db))) j = run_row_of db j"
  "run_closed_row (run_row_of db (q_run item)) \<Longrightarrow>
     posts (snd (process_item e target ca item (c, db))) = posts db \<and>
     run_row_of (snd (process_item e target ca item (c, db))) = run_row_of db"
  "settles (q_id item) (apply_queue db) (apply_queue (snd (process_item e target ca item (c, db))))"
proof -
  have "(\<exists>ps. posts (snd (process_item e target ca item (c, db))) = posts db @ ps \<and> fst ` set ps \<subseteq> {q_vin item} \<and> length ps \<le> 1) \<and>
    (j \<noteq> q_run item \<longrightarrow> run_row_of (snd (process_item e target ca item (c, db))) j = run_row_of db j) \<and>
    (run_closed_row (run_row_of db (q_run item)) \<longrightarrow>
       posts (snd (process_item e target ca item (c, db))) = posts db \<and>
       run_row_of (snd (process_item e target ca item (c, db))) = run_row_of db) \<and>
    settles (q_id item) (apply_queue db) (apply_queue (snd (process_item e target ca item (c, db))))"
  proof (cases rule: process_item_cases [where e = e and target = target and ca = ca and item = item and c = c and db = db])
    case (closed n)
    moreover have "settles (q_id item) (apply_queue db) (apply_queue (set_queue (\<lambda>r. q_id r = q_id item)
         (\<lambda>r. r\<lparr>q_state := Q_halted, q_finished_at := Some n\<rparr>) (next_tick db)))"
      unfolding settles_def set_queue_def
      by (rule exI [of _ "\<lambda>r. r\<lparr>q_state := Q_halted, q_finished_at := Some n\<rparr>"]) simp
    ultimately show ?thesis by simp
  next
    case (processed row n res db3)
    note eff = processOneVehicle_effect [OF processed(3)]
    let ?new = "apply_queue (snd (process_item e target ca item (c, db)))"
    let ?mark = "\<lambda>r. r\<lparr>q_state := Q_in_progress, q_attempts := Suc (q_attempts r), q_started_at := Some n\<rparr>"
    have "settles (q_id item) (update_where (\<lambda>r. q_id r = q_id item) ?mark (apply_queue db)) ?new"
      using eff(3) processed(4) settles_failQueueItem [of "q_id item" db3 e]
      by (auto simp: set_queue_def split: sum.splits)
    then have "settles (q_id item) (apply_queue db) ?new" by (rule settles_after_mark) simp
    with processed eff(1,2) show ?thesis by (auto split: sum.split)
  qed
  then show "\<exists>ps. posts (snd (process_item e target ca item (c, db))) = posts db @ ps \<and> fst ` set ps \<subseteq> {q_vin item} \<and> length ps \<le> 1"
    "j \<noteq> q_run item \<Longrightarrow> run_row_of (snd (process_item e target ca item (c, db))) j = run_row_of db j"
    "run_closed_row (run_row_of db (q_run item)) \<Longrightarrow>
       posts (snd (process_item e target ca item (c, db))) = posts db \<and>
       run_row_of (snd (process_item e target ca item (c, db))) = run_row_of db"
    "settles (q_id item) (apply_queue db) (apply_queue (snd (process_item e target ca item (c, db))))" by blast+
qed

interpretation processor: halting_rollout "process_item e target ca" q_run q_vin
    "\<lambda>s r. run_closed_row (run_row_of (snd s) r)" "\<lambda>s. posts (snd s)" for e target ca
proof
  fix s :: "(nat \<times> nat) \<times> ('b) apply_db_scheme" and r i
  show "run_closed_row (run_row_of (snd s) r) \<Longrightarrow> run_closed_row (run_row_of (snd (process_item e target ca i s)) r)"
    using process_item_effect(2) [where e = e and target = target and ca = ca and item = i and c = "fst s" and db = "snd s"]
      process_item_effect(3) [where e = e and target = target and ca = ca and item = i and c = "fst s" and db = "snd s"] by (cases "r = q_run i") auto
  show "run_closed_row (run_row_of (snd s) (q_run i)) \<Longrightarrow> posts (snd (process_item e target ca i s)) = posts (snd s)"
    using process_item_effect(3) [where e = e and target = target and ca = ca and item = i and c = "fst s" and db = "snd s"] by auto
  show "\<exists>ps. posts (snd (process_item e target ca i s)) = posts (snd s) @ ps \<and> fst ` set ps \<subseteq> {q_vin i} \<and> length ps \<le> 1"
    using process_item_effect(1) [where e = e and target = target and ca = ca and item = i and c = "fst s" and db = "snd s"] by simp
qed

section \<open>The whole batch\<close>

lemma finalize_runs_frame [simp]:
  "posts (snd (finalize_runs e rs db)) = posts db" "apply_queue (snd (finalize_runs e rs db)) = apply_queue db"
  by (induction rs arbitrary: db) (simp_all add: case_prod_beta Let_def)

lemma finalize_runs_row:
  "run_row_of (snd (finalize_runs e rs db)) r = run_row_of db r \<or>
   (\<exists>row row'. run_row_of db r = Some row \<and> run_state row = RS_rolling \<and>
      run_row_of (snd (finalize_runs e rs db)) r = Some row' \<and> run_state row' = RS_completed)"
proof (induction rs arbitrary: db)
  case Nil
  then show ?case by simp
next
  case (Cons i rs)
  show ?case
  proof (cases "unfinished_rows db i = 0 \<and> (case run_row_of db i of None \<Rightarrow> False | Some r \<Rightarrow> run_state r = RS_rolling)")
    case False
    then have "finalize_runs e (i # rs) db = finalize_runs e rs db"
      unfolding finalize_runs.simps by (rule if_not_P)
    with Cons show ?thesis by simp
  next
    case True
    let ?f = "\<lambda>r. r\<lparr>run_state := RS_completed, run_finished_at := Some (fst (now_iso e db))\<rparr>"
    have eq: "snd (finalize_runs e (i # rs) db) = snd (finalize_runs e rs (set_run i ?f (next_tick db)))"
      using True by (simp add: case_prod_beta Let_def)
    have row: "run_row_of (set_run i ?f (next_tick db)) r =
        (if r = i then map_option ?f (run_row_of db i) else run_row_of db r)"
      by (simp add: run_row_of_set_run)
    from True Cons.IH [of "set_run i ?f (next_tick db)"] show ?thesis
      unfolding eq row by (auto split: option.splits if_splits)
  qed
qed

lemma processApplyQueue_db:
  "snd (processApplyQueue e target ca db) =
     snd (finalize_runs e (js_set (map q_run (pending_batch db)))
       (snd (fold (process_item e target ca) (pending_batch db) ((0, 0), db))))"
  by (simp add: processApplyQueue_def case_prod_beta Let_def)

lemma pending_batch_pending: "q \<in> set (pending_batch db) \<Longrightarrow> q \<in> set (apply_queue db) \<and> q_state q = Q_pending"
  unfolding pending_batch_def by (drule in_set_takeD) simp

definition settled :: "nat set \<Rightarrow> queue_row list \<Rightarrow> bool" where
  "settled ids rows \<longleftrightarrow> (\<forall>q \<in> set rows. q_id q \<in> ids \<longrightarrow> q_state q \<in> {Q_done, Q_failed, Q_halted})"

lemma settles_settled: "settles i old new \<Longrightarrow> settled S old \<Longrightarrow> settled (insert i S) new"
proof -
  assume "settles i old new" and S: "settled S old"
  then obtain f where f: "\<And>r. q_id (f r) = q_id r" "\<And>r. q_state (f r) \<in> {Q_done, Q_failed, Q_halted}"
    and new: "new = update_where (\<lambda>r. q_id r = i) f old"
    unfolding settles_def by blast
  show ?thesis
    unfolding settled_def new set_update_where
  proof (intro ballI impI)
    fix q assume q: "q \<in> (\<lambda>r. if q_id r = i then f r else r) ` set old" and id: "q_id q \<in> insert i S"
    then obtain r where r: "r \<in> set old" "q = (if q_id r = i then f r else r)" by blast
    show "q_state q \<in> {Q_done, Q_failed, Q_halted}"
    proof (cases "q_id r = i")
      case True
      with r f show ?thesis by simp
    next
      case False
      with r id S show ?thesis by (simp add: settled_def)
    qed
  qed
qed

lemma settles_others: "settles i old new \<Longrightarrow> filter (\<lambda>q. q_id q \<noteq> i) new = filter (\<lambda>q. q_id q \<noteq> i) old"
proof -
  assume "settles i old new"
  then obtain f where "\<And>r. q_id (f r) = q_id r" "new = update_where (\<lambda>r. q_id r = i) f old"
    unfolding settles_def by blast
  then show ?thesis by (induction old arbitrary: new) auto
qed

lemma fold_process_settled:
  "settled S (apply_queue (snd s)) \<Longrightarrow>
     settled (S \<union> q_id ` set is) (apply_queue (snd (fold (process_item e target ca) is s)))"
proof (induction "is" arbitrary: s S)
  case (Cons i "is")
  obtain c db where s: "s = (c, db)" by fastforce
  have "settled (insert (q_id i) S) (apply_queue (snd (process_item e target ca i s)))"
    using settles_settled [OF process_item_effect(4)] Cons.prems unfolding s by simp
  from Cons.IH [OF this] show ?case by simp
qed simp

lemma fold_process_others:
  "filter (\<lambda>q. q_id q \<notin> q_id ` set is) (apply_queue (snd (fold (process_item e target ca) is s))) =
   filter (\<lambda>q. q_id q \<notin> q_id ` set is) (apply_queue (snd s))"
proof (induction "is" arbitrary: s)
  case (Cons i "is")
  obtain c db where s: "s = (c, db)" by fastforce
  have one: "filter (\<lambda>q. q_id q \<noteq> q_id i) (apply_queue (snd (process_item e target ca i s))) =
      filter (\<lambda>q. q_id q \<noteq> q_id i) (apply_queue (snd s))"
    using settles_others [OF process_item_effect(4)] unfolding s by simp
  have split: "filter (\<lambda>q. q_id q \<notin> q_id ` set (i # is)) rows =
      filter (\<lambda>q. q_id q \<noteq> q_id i) (filter (\<lambda>q. q_id q \<notin> q_id ` set is) rows)" for rows
    by (auto intro: filter_cong)
  have swap: "filter (\<lambda>q. q_id q \<notin> q_id ` set (i # is)) rows =
      filter (\<lambda>q. q_id q \<notin> q_id ` set is) (filter (\<lambda>q. q_id q \<noteq> q_id i) rows)" for rows
    by (auto intro: filter_cong)
  show ?case
    unfolding fold_Cons comp_apply split Cons.IH
    unfolding split [symmetric] unfolding swap one ..
qed simp

lemma process_item_plain_run:
  assumes "run_row_of db r = Some row" and "run_canary_vin row = None"
  shows "run_row_of (snd (process_item e target ca item (c, db))) r = Some row"
proof (cases "r = q_run item")
  case False
  with assms(1) show ?thesis by (simp add: process_item_effect(2))
next
  case True
  show ?thesis
  proof (cases rule: process_item_cases [where e = e and target = target and ca = ca and item = item and c = c and db = db])
    case (closed n)
    with assms show ?thesis by simp
  next
    case (processed row' n res db3)
    have row': "row' = row" using processed(1) True assms(1) by simp
    have same: "run_row_of d = run_row_of db" if "runs d = runs db" for d
      using that by (simp add: run_row_of_def fun_eq_iff)
    have "run_row_of db3 = run_row_of db"
      using processed(3)
    proof (cases rule: processOneVehicle_cases)
      case (rollout t start resolved result db1 db2)
      then show ?thesis
        using queue_applyVehicleConfig [of e "q_vin item" resolved t target ca db1] same by simp
    qed (use same assms(2) row' in auto)
    with processed(4) assms(1) show ?thesis by (simp split: sum.split)
  qed
qed

lemma fold_plain_run:
  assumes "run_row_of (snd s) r = Some row" and "run_canary_vin row = None"
  shows "run_row_of (snd (fold (process_item e target ca) is s)) r = Some row"
  using assms(1)
proof (induction "is" arbitrary: s)
  case (Cons i "is")
  then have "run_row_of (snd (process_item e target ca i s)) r = Some row"
    using process_item_plain_run [OF _ assms(2), of "snd s" r e target ca i "fst s"] by simp
  from Cons.IH [OF this] show ?case by simp
qed simp

lemma fold_closed_row:
  assumes "run_closed_row (run_row_of (snd s) r)"
  shows "run_row_of (snd (fold (process_item e target ca) is s)) r = run_row_of (snd s) r"
  using assms
proof (induction "is" arbitrary: s)
  case (Cons i "is")
  have "run_row_of (snd (process_item e target ca i s)) r = run_row_of (snd s) r"
    using process_item_effect(2) [where e = e and target = target and ca = ca and item = i and c = "fst s" and db = "snd s"]
      process_item_effect(3) [where e = e and target = target and ca = ca and item = i and c = "fst s" and db = "snd s"] Cons.prems
    by (cases "r = q_run i") auto
  with Cons show ?case by simp
qed simp

text \<open>A canary's request: what becomes of the run when it proved nothing, and when it was not sent.\<close>

lemma process_canary_unproven:
  assumes "process_canary e i r v t start res db = (halted, db')" and "run_row_of db r = Some row"
    and "ar_outcome res = O_applied \<Longrightarrow>
      (\<forall>n. read_config_status (nw_signer_get e n t v) \<noteq> Some (True, True)) \<or> (\<forall>after. \<not> checkTelemetryObservedAfter db v after)"
  shows "\<exists>row'. run_row_of db' r = Some row' \<and> run_state row' = RS_halted"
proof (cases "ar_outcome res = O_applied")
  case False
  with assms show ?thesis by (auto simp: process_canary_def run_row_of_haltRun)
next
  case True
  have "checkTelemetryObservedAfter (next_tick db) v = checkTelemetryObservedAfter db v"
    by (simp add: checkTelemetryObservedAfter_def fun_eq_iff)
  with assms(3) [OF True] have "\<not> fst (fst (verifyAdoption e v t start db))"
    by (auto simp: verifyAdoption_def getVehicleConfigStatus_def verifyCanaryConditions_def Let_def split: option.splits)
  with True assms(1,2) show ?thesis
    by (auto simp: process_canary_def case_prod_beta run_row_of_haltRun)
qed

lemma process_item_unproven:
  assumes "run_row_of db (q_run item) = Some row" and "\<not> run_closed_row (Some row)" and "q_position item = 0"
    and "run_canary_vin row = Some (q_vin item)"
    and sent: "posts (snd (process_item e target ca item (c, db))) \<noteq> posts db" and "canary_unproven e (q_vin item) db"
  shows "\<exists>row'. run_row_of (snd (process_item e target ca item (c, db))) (q_run item) = Some row' \<and> run_state row' = RS_halted"
proof (cases rule: process_item_cases [where e = e and target = target and ca = ca and item = item and c = c and db = db])
  case (closed n)
  with assms(1,2) show ?thesis by simp
next
  case (processed row0 n res db3)
  have row0: "row0 = row" using processed(1) assms(1) by simp
  have same: "run_row_of d = run_row_of db" if "runs d = runs db" for d
    using that by (simp add: run_row_of_def fun_eq_iff)
  show ?thesis
    using processed(3)
  proof (cases rule: processOneVehicle_cases)
    case (canary t start resolved result db1 db2 halted)
    have "facts db1 = facts db" using canary(9) by (simp add: set_queue_def)
    moreover have "facts (recordOutcome e (q_run item) result db2) = facts db1"
      using posts_apply(2) [of e "q_vin item" resolved t target ca db1] canary(6) by simp
    ultimately have facts: "checkTelemetryObservedAfter (recordOutcome e (q_run item) result db2) v after = checkTelemetryObservedAfter db v after"
      for v after by (simp add: checkTelemetryObservedAfter_def)
    have "run_row_of (recordOutcome e (q_run item) result db2) (q_run item) = Some row"
      using queue_applyVehicleConfig(2) [of e "q_vin item" resolved t target ca db1] canary(4,6) same [of db1] assms(1) by simp
    from process_canary_unproven [OF canary(8) this]
    have "\<exists>row'. run_row_of db3 (q_run item) = Some row' \<and> run_state row' = RS_halted"
      using unproven_evidence [OF assms(6), of resolved t target ca db1 "\<lambda>n. read_config_status (nw_signer_get e n t (q_vin item))" t] canary(6)
      unfolding facts by (metis fst_conv)
    with processed(4) canary(7) show ?thesis by simp
  qed (use processed(4) sent assms(3,4) row0 in auto)
qed

lemma process_item_unsent:
  assumes "run_row_of db (q_run item) = Some row" and "\<not> run_closed_row (Some row)"
    and unsent: "posts (snd (process_item e target ca item (c, db))) = posts db"
  shows "run_row_of (snd (process_item e target ca item (c, db))) = run_row_of db"
    and "vehicles (snd (process_item e target ca item (c, db))) = vehicles db"
proof -
  let ?db' = "snd (process_item e target ca item (c, db))"
  have "run_row_of ?db' = run_row_of db \<and> vehicles ?db' = vehicles db"
  proof (cases rule: process_item_cases [where e = e and target = target and ca = ca and item = item and c = c and db = db])
    case (closed n)
    with assms(1,2) show ?thesis by simp
  next
    case (processed row0 n res db3)
    have same: "run_row_of d = run_row_of db" if "runs d = runs db" for d
      using that by (simp add: run_row_of_def fun_eq_iff)
    show ?thesis
      using processed(3)
    proof (cases rule: processOneVehicle_cases)
      case (refused err db1)
      with processed(4) same [of db1] show ?thesis by simp
    next
      case (thrown err)
      with processed(4) same [of db3] show ?thesis by simp
    next
      case (canary t start resolved result db1 db2 halted)
      then have "posts db3 = posts db @ [(q_vin item, request_body (q_vin item) resolved target ca)]"
        using process_canary_effect(1) [OF canary(8)] posts_apply(1) [of e "q_vin item" resolved t target ca db1] by simp
      with unsent processed(4) canary(7) show ?thesis by simp
    next
      case (rollout t start resolved result db1 db2)
      then have "posts db3 = posts db @ [(q_vin item, request_body (q_vin item) resolved target ca)]"
        using posts_apply(1) [of e "q_vin item" resolved t target ca db1] by simp
      with unsent processed(4) rollout(6) show ?thesis by simp
    qed
  qed
  then show "run_row_of ?db' = run_row_of db" "vehicles ?db' = vehicles db" by simp_all
qed

section \<open>Properties\<close>

text \<open>C12: a halted run is never touched again: while a run is halted, or its canary failed, a cron
  tick sends requests only to vehicles queued by other runs, and leaves the run closed.\<close>

theorem processApplyQueue_closed_run:
  assumes "run_closed_row (run_row_of db r)"
  shows "(\<exists>ps. posts (snd (processApplyQueue e target ca db)) = posts db @ ps \<and>
       fst ` set ps \<subseteq> q_vin ` {q \<in> set (apply_queue db). q_run q \<noteq> r}) \<and>
    run_closed_row (run_row_of (snd (processApplyQueue e target ca db)) r)"
proof -
  let ?s = "((0::nat, 0::nat), db)"
  have closed: "run_closed_row (run_row_of (snd ?s) r)" using assms by simp
  obtain ps where "posts (snd (fold (process_item e target ca) (pending_batch db) ?s)) = posts db @ ps"
    "fst ` set ps \<subseteq> q_vin ` {q \<in> set (pending_batch db). q_run q \<noteq> r}"
    using processor.closed_run_untouched [OF closed, of e target ca "pending_batch db"] by auto
  moreover have "{q \<in> set (pending_batch db). q_run q \<noteq> r} \<subseteq> {q \<in> set (apply_queue db). q_run q \<noteq> r}"
    using pending_batch_pending by blast
  moreover have "run_closed_row (run_row_of (snd (processApplyQueue e target ca db)) r)"
    using processor.closed_stays_fold [OF closed, of e target ca "pending_batch db"]
      finalize_runs_row [of e "js_set (map q_run (pending_batch db))" "snd (fold (process_item e target ca) (pending_batch db) ?s)" r]
    by (auto simp: processApplyQueue_db run_closed_row_def split: option.splits)
  ultimately show ?thesis
    by (simp add: processApplyQueue_db) (meson image_mono subset_trans)
qed

text \<open>C2: a canary that proved nothing halts the rollout within the tick: when a cron tick sends the
  request of a run's canary, and the signer refuses it, or no status read of the canary reports a
  synced configuration, or no telemetry of it is stored, then for the rest of the tick no further
  item of the run is sent a request, and the tick leaves the run halted.\<close>

theorem canary_failure_halts_batch:
  assumes "pending_batch db = before @ canary # rest"
    and s1: "s1 = fold (process_item e target ca) before ((0, 0), db)"
    and s2: "s2 = process_item e target ca canary s1"
    and "run_row_of (snd s1) (q_run canary) = Some row" and "\<not> run_closed_row (Some row)"
    and "q_position canary = 0" and "run_canary_vin row = Some (q_vin canary)"
    and "posts (snd s2) \<noteq> posts (snd s1)" and "canary_unproven e (q_vin canary) (snd s1)"
  shows "\<exists>ps row'. posts (snd (processApplyQueue e target ca db)) = posts (snd s2) @ ps \<and>
     fst ` set ps \<subseteq> q_vin ` {q \<in> set rest. q_run q \<noteq> q_run canary} \<and>
     run_row_of (snd (processApplyQueue e target ca db)) (q_run canary) = Some row' \<and> run_state row' = RS_halted"
proof -
  obtain c db1 where c: "s1 = (c, db1)" by fastforce
  obtain row' where row': "run_row_of (snd s2) (q_run canary) = Some row'" "run_state row' = RS_halted"
    using process_item_unproven [of db1 canary row e target ca c] assms(4-9) by (auto simp: s2 c)
  then have closed: "run_closed_row (run_row_of (snd s2) (q_run canary))" by (simp add: run_closed_row_def)
  have tick: "fold (process_item e target ca) (pending_batch db) ((0, 0), db) = fold (process_item e target ca) rest s2"
    by (simp add: assms(1) s1 s2)
  obtain ps where "posts (snd (fold (process_item e target ca) rest s2)) = posts (snd s2) @ ps"
    "fst ` set ps \<subseteq> q_vin ` {q \<in> set rest. q_run q \<noteq> q_run canary}"
    using processor.closed_run_untouched [OF closed, of e target ca rest] by auto
  moreover have "run_row_of (snd (processApplyQueue e target ca db)) (q_run canary) = Some row'"
    using finalize_runs_row [of e "js_set (map q_run (pending_batch db))" "snd (fold (process_item e target ca) rest s2)" "q_run canary"]
      fold_closed_row [OF closed, of e target ca rest] row' by (auto simp: processApplyQueue_db tick)
  ultimately show ?thesis using row'(2) by (auto simp: processApplyQueue_db tick)
qed

text \<open>C30: A cron tick leaves none of the items it selected behind: each ends as done, failed or
  halted, whatever went wrong with it, every other row of the queue is as it was, and at most
  50 requests were sent.\<close>

theorem processApplyQueue_settles_batch:
  "settled (q_id ` set (pending_batch db)) (apply_queue (snd (processApplyQueue e target ca db))) \<and>
   filter (\<lambda>q. q_id q \<notin> q_id ` set (pending_batch db)) (apply_queue (snd (processApplyQueue e target ca db))) =
     filter (\<lambda>q. q_id q \<notin> q_id ` set (pending_batch db)) (apply_queue db) \<and>
   length (posts (snd (processApplyQueue e target ca db))) \<le> length (posts db) + 50"
proof (intro conjI)
  show "settled (q_id ` set (pending_batch db)) (apply_queue (snd (processApplyQueue e target ca db)))"
    using fold_process_settled [of "{}" "((0, 0), db)" "pending_batch db" e target ca]
    by (simp add: processApplyQueue_db settled_def)
  show "filter (\<lambda>q. q_id q \<notin> q_id ` set (pending_batch db)) (apply_queue (snd (processApplyQueue e target ca db))) =
     filter (\<lambda>q. q_id q \<notin> q_id ` set (pending_batch db)) (apply_queue db)"
    using fold_process_others [of "pending_batch db" e target ca "((0, 0), db)"] by (simp add: processApplyQueue_db)
  have "length (pending_batch db) \<le> 50" by (simp add: pending_batch_def MAX_BATCH_SIZE_def)
  moreover obtain ps where "posts (snd (fold (process_item e target ca) (pending_batch db) ((0, 0), db))) = posts db @ ps"
    "length ps \<le> length (pending_batch db)"
    using processor.touched_fold [of e target ca "pending_batch db" "((0, 0), db)"] by auto
  ultimately show "length (posts (snd (processApplyQueue e target ca db))) \<le> length (posts db) + 50"
    by (simp add: processApplyQueue_db)
qed

text \<open>A run without a canary, which is every vehicle-scope run, never completes on the queue: a
  cron tick leaves its row \<open>running\<close> as it is, even when it finished the run's last item.\<close>

theorem vehicle_run_never_completes:
  assumes "run_row_of db r = Some row" and "run_canary_vin row = None" and "run_state row = RS_running"
  shows "run_row_of (snd (processApplyQueue e target ca db)) r = Some row"
  using fold_plain_run [of "((0, 0), db)" r row e target ca "pending_batch db"] assms
    finalize_runs_row [of e "js_set (map q_run (pending_batch db))"
      "snd (fold (process_item e target ca) (pending_batch db) ((0, 0), db))" r]
  by (auto simp: processApplyQueue_db)

lemma enqueue_resolved_rows:
  "map (\<lambda>q. (q_run q, q_vin q, q_position q, q_config q, q_state q)) (apply_queue (enqueue_resolved runId now i vins rpv db)) =
   map (\<lambda>q. (q_run q, q_vin q, q_position q, q_config q, q_state q)) (apply_queue db) @
   map (\<lambda>(j, v). (runId, v, j, ConfigText (the (rpv v)), Q_pending))
     (filter (\<lambda>(j, v). rpv v \<noteq> None) (List.enumerate i vins))"
  by (induction vins arbitrary: i db) (auto simp: insert_queue_row_def split: option.split)

text \<open>Enqueueing a sweep queues exactly the targets that have a resolved configuration, at their
  rollout position, but it reports the number of all targets; so a canary without a resolved
  configuration leaves the run without a row at position 0, and with no gate.\<close>

theorem enqueueApplySweep_rows:
  assumes "enqueueApplySweep e sc vins rpv op db = ((runId, n), db')"
  shows "n = length vins \<and>
    map (\<lambda>q. (q_run q, q_vin q, q_position q, q_config q, q_state q)) (apply_queue db') =
      map (\<lambda>q. (q_run q, q_vin q, q_position q, q_config q, q_state q)) (apply_queue db) @
      map (\<lambda>(j, v). (runId, v, j, ConfigText (the (rpv v)), Q_pending))
        (filter (\<lambda>(j, v). rpv v \<noteq> None) (List.enumerate 0 vins))"
  using assms
  by (auto simp: enqueueApplySweep_def enqueue_resolved_rows case_prod_beta Let_def new_run_id_def)

lemma enqueue_targets_error:
  "fst (enqueue_targets runId now i vins rpv db) \<noteq> None \<longleftrightarrow> (\<exists>v \<in> set vins. rpv v = None)"
  by (induction vins arbitrary: i db) (auto split: option.split)

lemma enqueue_targets_frame [simp]:
  "messages_sent (snd (enqueue_targets runId now i vins rpv db)) = messages_sent db"
  "runs (snd (enqueue_targets runId now i vins rpv db)) = runs db"
  by (induction vins arbitrary: i db) (simp_all add: insert_queue_row_def split: option.split)

text \<open>The distributed enqueue, which is meant to queue targets without a resolved configuration,
  throws as soon as one target has none: the run it has just recorded stays \<open>running\<close>, and no
  message is published.\<close>

theorem distributed_enqueue_needs_configs:
  assumes "v \<in> set vins" and "rpv v = None"
  shows "\<exists>err db' row. enqueueApplySweepDistributed e sc vins rpv op db = (Inl err, db') \<and>
    messages_sent db' = messages_sent db \<and> runs db' = runs db @ [row] \<and> run_state row = RS_running"
proof -
  obtain i where R: "enqueueApplyRun e sc op (canary_of sc vins) db =
      (i, insert_run i sc op (canary_of sc vins) (fst (now_iso e (next_tick db))) (next_tick (next_tick db)))"
    by (simp add: enqueueApplyRun_def new_run_id_def case_prod_beta)
  let ?db1 = "insert_run i sc op (canary_of sc vins) (fst (now_iso e (next_tick db))) (next_tick (next_tick db))"
  obtain err db2 where T: "enqueue_targets i (fst (now_iso e ?db1)) 0 vins rpv (next_tick ?db1) = (Some err, db2)"
    using enqueue_targets_error [of i "fst (now_iso e ?db1)" 0 vins rpv "next_tick ?db1"] assms
    by (metis not_None_eq prod.collapse)
  have "enqueueApplySweepDistributed e sc vins rpv op db = (Inl err, db2)"
    by (simp add: enqueueApplySweepDistributed_def R enqueueApplyTargets_def case_prod_beta T)
  moreover have "messages_sent db2 = messages_sent db" "\<exists>row. runs db2 = runs db @ [row] \<and> run_state row = RS_running"
    using enqueue_targets_frame [of i "fst (now_iso e ?db1)" 0 vins rpv "next_tick ?db1"]
    unfolding T by (simp_all add: insert_run_def next_tick_def)
  ultimately show ?thesis by blast
qed

section \<open>Concrete runs\<close>

definition sample_run :: run_row where
  "sample_run = \<lparr>run_id = ''R'', run_scope_kind = Scope_global, run_operator = None, run_state = RS_running,
     run_canary_vin = Some ''V0'', run_canary_state = None, run_started_at = ''t0'', run_finished_at = None, run_created_at = None\<rparr>"

definition sample_item :: "nat \<Rightarrow> vin \<Rightarrow> nat \<Rightarrow> config_cell \<Rightarrow> queue_row" where
  "sample_item i v p c = \<lparr>q_id = i, q_run = ''R'', q_vin = v, q_position = p, q_config = c, q_state = Q_pending,
     q_attempts = 0, q_last_error = None, q_enqueued_at = ''t0'', q_started_at = None, q_finished_at = None\<rparr>"

text \<open>The canary \<open>V0\<close> is not in the vehicle table; \<open>V1\<close> is.\<close>

definition sample_queue_db :: apply_db where
  "sample_queue_db = sample_apply_db\<lparr>runs := [sample_run],
     apply_queue := [sample_item 1 ''V0'' 0 (ConfigText sample_resolved), sample_item 2 ''V1'' 1 (ConfigText sample_resolved)]\<rparr>"

text \<open>A token can be minted for the member at any time.\<close>

definition mints_token :: "('e) network_scheme \<Rightarrow> member_id option \<Rightarrow> oauth_row list \<Rightarrow> bool" where
  "mints_token e m tokens \<longleftrightarrow>
     (\<forall>n. \<not> no_token (fst (getMemberAccessToken e m (sample_store\<lparr>oauth_tokens := tokens, tick := n\<rparr>))))"

lemma getMemberAccessToken_cong:
  assumes "oauth_tokens db = oauth_tokens db'" and "tick db = tick db'"
  shows "fst (getMemberAccessToken e m db) = fst (getMemberAccessToken e m db')"
proof -
  have "fst (refreshAccessToken e k t db) = fst (refreshAccessToken e k t db')" for k t
    using assms(2) by (simp add: refreshAccessToken_def Let_def next_tick_def split: option.split sum.split)
  with assms(1) show ?thesis by (simp add: getMemberAccessToken_def split: option.split)
qed

lemma mints_tokenD: "mints_token e m (oauth_tokens db) \<Longrightarrow> \<not> no_token (fst (getMemberAccessToken e m db))"
  using getMemberAccessToken_cong [of db "sample_store\<lparr>oauth_tokens := oauth_tokens db, tick := tick db\<rparr>" e m]
  by (simp add: mints_token_def)

lemma process_item_rollout_posts:
  assumes "run_row_of db (q_run item) = Some row" and "\<not> run_closed_row (Some row)" and "q_position item \<noteq> 0"
    and "vehicle_of db (q_vin item) = Some v" and "q_config item = ConfigText rc"
    and "mints_token e (v_member v) (oauth_tokens db)"
  shows "posts (snd (process_item e target ca item (c, db))) =
    posts db @ [(q_vin item, request_body (q_vin item) rc target ca)]"
proof -
  let ?db2 = "set_queue (\<lambda>r. q_id r = q_id item) (\<lambda>r. r\<lparr>q_state := Q_in_progress, q_attempts := Suc (q_attempts r),
     q_started_at := Some (fst (now_iso e db))\<rparr>) (next_tick db)"
  have v: "vehicle_of (next_tick ?db2) (q_vin item) = Some v"
    using assms(4) by (simp add: vehicle_of_def next_tick_def set_queue_def)
  have t: "\<not> no_token (fst (getMemberAccessToken e (v_member v) (next_tick ?db2)))"
    by (rule mints_tokenD) (use assms(6) in \<open>simp add: next_tick_def set_queue_def\<close>)
  show ?thesis
    using assms(1,2,3,5) t
    by (simp add: process_item_def Let_def case_prod_beta processOneVehicle_def v)
qed

text \<open>C31: a canary that fails before its request is sent does not halt the run: when a cron tick
  starts with the canary of a running run and sends no request for it, because its configuration
  does not parse or is null, its vehicle is unknown or its member's token cannot be minted, the
  run stays \<open>running\<close> and the next item of the run is sent its request in the same tick although
  no canary was ever verified, given that its own configuration, vehicle and token are there.\<close>

theorem early_canary_failure_does_not_halt:
  assumes "pending_batch db = canary # item # rest"
    and "run_row_of db (q_run canary) = Some row" and "run_state row = RS_running"
    and s1: "s1 = process_item e target ca canary ((0, 0), db)" and "posts (snd s1) = posts db"
    and "q_run item = q_run canary" and "q_position item \<noteq> 0" and "q_config item = ConfigText rc"
    and "vehicle_of db (q_vin item) = Some v" and "mints_token e (v_member v) (oauth_tokens (snd s1))"
    and "q_position canary = 0" and "run_canary_vin row = Some (q_vin canary)"
  shows "(\<exists>ps. posts (snd (processApplyQueue e target ca db)) =
        posts db @ (q_vin item, request_body (q_vin item) rc target ca) # ps) \<and>
    run_row_of (snd s1) (q_run canary) = Some row"
proof -
  have open_row: "\<not> run_closed_row (Some row)" using assms(3) by (simp add: run_closed_row_def)
  note canary = process_item_unsent [OF assms(2) open_row assms(5) [unfolded s1]]
  have row: "run_row_of (snd s1) (q_run canary) = Some row" by (simp add: s1 canary(1) assms(2))
  have "vehicle_of (snd s1) (q_vin item) = Some v" using assms(9) by (simp add: s1 vehicle_of_def canary(2))
  then have "posts (snd (process_item e target ca item (fst s1, snd s1))) =
      posts (snd s1) @ [(q_vin item, request_body (q_vin item) rc target ca)]"
    by (intro process_item_rollout_posts [of _ _ row]) (use row assms open_row in simp_all)
  moreover obtain ps where "posts (snd (fold (process_item e target ca) rest (process_item e target ca item s1))) =
      posts (snd (process_item e target ca item s1)) @ ps"
    using processor.touched_fold [of e target ca rest "process_item e target ca item s1"] by auto
  ultimately have "posts (snd (processApplyQueue e target ca db)) =
      posts db @ (q_vin item, request_body (q_vin item) rc target ca) # ps"
    by (simp add: processApplyQueue_db assms(1,5) s1 [symmetric])
  with row show ?thesis by blast
qed

lemma sample_mints: "mints_token sample_network (Some ''M1'') [sample_token]"
  by (simp add: mints_token_def getMemberAccessToken_def refreshAccessToken_def Let_def sample_network_def runtime.extend_def
    sample_token_def sample_token_reply_def expires_ms_def reply_ok_def no_token_def)

lemmas sample_queue_simps = sample_queue_db_def sample_apply_simps sample_run_def sample_item_def sample_vehicle_def
  vehicle_of_def run_row_of_def

lemma two_item_batch: "apply_queue db = [sample_item 1 v 0 c, sample_item 2 w 1 d] \<Longrightarrow>
    pending_batch db = [sample_item 1 v 0 c, sample_item 2 w 1 d]"
  by (simp add: pending_batch_def MAX_BATCH_SIZE_def sample_item_def)

text \<open>The canary \<open>V0\<close> of \<open>sample_queue_db\<close> fails before its request.\<close>

lemma sample_early_failure:
  "posts (snd (process_item sample_network (''host'', 443) ''ca'' (sample_item 1 ''V0'' 0 (ConfigText sample_resolved))
     ((0, 0), sample_queue_db))) = posts sample_queue_db"
  "oauth_tokens (snd (process_item sample_network (''host'', 443) ''ca'' (sample_item 1 ''V0'' 0 (ConfigText sample_resolved))
     ((0, 0), sample_queue_db))) = [sample_token]"
  by (simp_all add: process_item_def case_prod_beta Let_def processOneVehicle_def sample_queue_simps failQueueItem_def
    set_queue_def next_tick_def run_closed_row_def now_iso_def)

theorem early_canary_failure_does_not_halt_witness:
  "\<exists>ps. posts (snd (processApplyQueue sample_network (''host'', 443) ''ca'' sample_queue_db)) =
     (''V1'', request_body ''V1'' sample_resolved (''host'', 443) ''ca'') # ps"
proof -
  have "pending_batch sample_queue_db =
      [sample_item 1 ''V0'' 0 (ConfigText sample_resolved), sample_item 2 ''V1'' 1 (ConfigText sample_resolved)]"
    by (rule two_item_batch) (simp add: sample_queue_db_def)
  moreover have "posts sample_queue_db = []" by (simp add: sample_queue_simps)
  ultimately show ?thesis
    using early_canary_failure_does_not_halt [of sample_queue_db "sample_item 1 ''V0'' 0 (ConfigText sample_resolved)"
      "sample_item 2 ''V1'' 1 (ConfigText sample_resolved)" "[]" sample_run _ sample_network "(''host'', 443)" "''ca''"
      sample_resolved sample_vehicle] sample_mints sample_early_failure
    by (simp add: sample_queue_simps)
qed

definition sample_halted_db :: apply_db where
  "sample_halted_db = sample_queue_db\<lparr>runs := [sample_run\<lparr>run_state := RS_halted\<rparr>]\<rparr>"

theorem processApplyQueue_closed_run_witness:
  "(\<exists>ps. posts (snd (processApplyQueue sample_network (''host'', 443) ''ca'' sample_halted_db)) = posts sample_halted_db @ ps \<and>
       fst ` set ps \<subseteq> q_vin ` {q \<in> set (apply_queue sample_halted_db). q_run q \<noteq> ''R''}) \<and>
    run_closed_row (run_row_of (snd (processApplyQueue sample_network (''host'', 443) ''ca'' sample_halted_db)) ''R'')"
  by (rule processApplyQueue_closed_run) (simp add: sample_halted_db_def sample_queue_simps run_closed_row_def)

definition sample_canary :: queue_row where
  "sample_canary = sample_item 1 ''V1'' 0 (ConfigText sample_resolved)"

definition sample_canary_db :: apply_db where
  "sample_canary_db = sample_apply_db\<lparr>runs := [sample_run\<lparr>run_canary_vin := Some ''V1''\<rparr>],
     apply_queue := [sample_canary, sample_item 2 ''V2'' 1 (ConfigText sample_resolved)]\<rparr>"

lemma sample_refusing_mints: "mints_token sample_refusing_network (Some ''M1'') [sample_token]"
  by (simp add: mints_token_def getMemberAccessToken_def refreshAccessToken_def Let_def sample_refusing_network_def
    sample_network_def runtime.extend_def sample_token_def sample_token_reply_def expires_ms_def reply_ok_def no_token_def)

lemma sample_canary_sent:
  "posts (snd (process_item sample_refusing_network (''host'', 443) ''ca'' sample_canary ((0, 0), sample_canary_db))) =
     [(''V1'', request_body ''V1'' sample_resolved (''host'', 443) ''ca'')]"
proof -
  have mint: "\<not> no_token (fst (getMemberAccessToken sample_refusing_network (Some ''M1'') db))"
    if "oauth_tokens db = [sample_token]" for db :: apply_db
    using mints_tokenD [of sample_refusing_network "Some ''M1''" db] sample_refusing_mints that by simp
  have "ar_outcome (fst (applyVehicleConfig sample_refusing_network v rc t target ca db)) = O_failed" for v rc t target ca and db :: apply_db
    by (simp add: applyVehicleConfig_def Let_def sample_refusing_network_def read_apply_reply_def)
  moreover have "run_row_of sample_canary_db (q_run sample_canary) = Some (sample_run\<lparr>run_canary_vin := Some ''V1''\<rparr>)"
    by (simp add: sample_canary_db_def sample_canary_def sample_queue_simps)
  moreover have "\<not> run_closed_row (Some (sample_run\<lparr>run_canary_vin := Some ''V1''\<rparr>))"
    by (simp add: sample_run_def run_closed_row_def)
  moreover have "vehicle_of (next_tick (set_queue P f (next_tick sample_canary_db))) (q_vin sample_canary) = Some sample_vehicle" for P f
    by (simp add: sample_canary_db_def sample_canary_def sample_queue_simps set_queue_def next_tick_def)
  moreover have "oauth_tokens (next_tick (set_queue P f (next_tick sample_canary_db))) = [sample_token]" for P f
    by (simp add: sample_canary_db_def sample_queue_simps set_queue_def next_tick_def)
  moreover have "q_config sample_canary = ConfigText sample_resolved" "q_position sample_canary = 0" "q_vin sample_canary = ''V1''"
    "v_member sample_vehicle = Some ''M1''" "posts sample_canary_db = []"
    by (simp_all add: sample_canary_def sample_canary_db_def sample_queue_simps)
  ultimately show ?thesis
    using mint by (simp add: process_item_def Let_def case_prod_beta processOneVehicle_def process_canary_def)
qed

theorem canary_failure_halts_batch_witness:
  "\<exists>row'. posts (snd (processApplyQueue sample_refusing_network (''host'', 443) ''ca'' sample_canary_db)) =
      [(''V1'', request_body ''V1'' sample_resolved (''host'', 443) ''ca'')] \<and>
    run_row_of (snd (processApplyQueue sample_refusing_network (''host'', 443) ''ca'' sample_canary_db)) ''R'' = Some row' \<and>
    run_state row' = RS_halted"
proof -
  have "pending_batch sample_canary_db = [] @ sample_canary # [sample_item 2 ''V2'' 1 (ConfigText sample_resolved)]"
    using two_item_batch [of sample_canary_db "''V1''" "ConfigText sample_resolved" "''V2''" "ConfigText sample_resolved"]
    by (simp add: sample_canary_def sample_canary_db_def)
  note T = canary_failure_halts_batch [OF this refl refl, of sample_refusing_network "(''host'', 443)" "''ca''" "sample_run\<lparr>run_canary_vin := Some ''V1''\<rparr>",
      unfolded fold_Nil id_apply snd_conv sample_canary_sent]
  have "canary_unproven sample_refusing_network ''V1'' sample_canary_db"
    by (simp add: canary_unproven_def sample_refusing_network_def refused_reply_def)
  moreover have "posts sample_canary_db = []" "run_row_of sample_canary_db ''R'' = Some (sample_run\<lparr>run_canary_vin := Some ''V1''\<rparr>)"
    "q_run sample_canary = ''R''" "q_position sample_canary = 0" "q_vin sample_canary = ''V1''"
    "q_run (sample_item 2 ''V2'' 1 (ConfigText sample_resolved)) = ''R''"
    by (simp_all add: sample_canary_db_def sample_canary_def sample_queue_simps)
  moreover have "\<not> run_closed_row (Some (sample_run\<lparr>run_canary_vin := Some ''V1''\<rparr>))"
    by (simp add: sample_run_def run_closed_row_def)
  ultimately have "\<exists>ps row'. posts (snd (processApplyQueue sample_refusing_network (''host'', 443) ''ca'' sample_canary_db)) =
      [(''V1'', request_body ''V1'' sample_resolved (''host'', 443) ''ca'')] @ ps \<and>
    fst ` set ps \<subseteq> q_vin ` {q \<in> set [sample_item 2 ''V2'' 1 (ConfigText sample_resolved)]. q_run q \<noteq> q_run sample_canary} \<and>
    run_row_of (snd (processApplyQueue sample_refusing_network (''host'', 443) ''ca'' sample_canary_db)) (q_run sample_canary) = Some row' \<and>
    run_state row' = RS_halted"
    by (intro T) simp_all
  moreover have none: "{q \<in> set [sample_item 2 ''V2'' 1 (ConfigText sample_resolved)]. q_run q \<noteq> q_run sample_canary} = {}"
    by (auto simp: sample_canary_def sample_item_def)
  moreover have "q_run sample_canary = ''R''" by (simp add: sample_canary_def sample_item_def)
  ultimately show ?thesis unfolding none by auto
qed

theorem vehicle_run_never_completes_witness:
  "run_row_of (snd (processApplyQueue sample_network (''host'', 443) ''ca''
      (sample_queue_db\<lparr>runs := [sample_run\<lparr>run_canary_vin := None\<rparr>]\<rparr>))) ''R'' = Some (sample_run\<lparr>run_canary_vin := None\<rparr>)"
  by (rule vehicle_run_never_completes) (simp_all add: sample_queue_simps)

theorem enqueueApplySweep_rows_witness:
  "snd (fst (enqueueApplySweep sample_network Scope_global [''V0'', ''V1''] (\<lambda>v. if v = ''V1'' then Some sample_resolved else None)
      ''op'' sample_apply_db)) = 2 \<and>
   map q_position (apply_queue (snd (enqueueApplySweep sample_network Scope_global [''V0'', ''V1'']
      (\<lambda>v. if v = ''V1'' then Some sample_resolved else None) ''op'' sample_apply_db))) = [1]"
proof -
  let ?r = "enqueueApplySweep sample_network Scope_global [''V0'', ''V1''] (\<lambda>v. if v = ''V1'' then Some sample_resolved else None)
      ''op'' sample_apply_db"
  have "?r = ((fst (fst ?r), snd (fst ?r)), snd ?r)" by simp
  note T = enqueueApplySweep_rows [OF this]
  have "apply_queue sample_apply_db = []" by (simp add: sample_apply_simps)
  with T have "map (\<lambda>q. (q_run q, q_vin q, q_position q, q_config q, q_state q)) (apply_queue (snd ?r)) =
      [(fst (fst ?r), ''V1'', 1, ConfigText sample_resolved, Q_pending)]" and n: "snd (fst ?r) = 2"
    by simp_all
  then have "map q_position (apply_queue (snd ?r)) = [1]" by (auto simp: map_eq_Cons_conv)
  with n show ?thesis by simp
qed

theorem distributed_enqueue_needs_configs_witness:
  "\<exists>err db' row. enqueueApplySweepDistributed sample_network Scope_global [''V1''] (\<lambda>v. None) ''op'' sample_apply_db = (Inl err, db') \<and>
    messages_sent db' = messages_sent sample_apply_db \<and> runs db' = runs sample_apply_db @ [row] \<and> run_state row = RS_running"
  by (rule distributed_enqueue_needs_configs [where v = "''V1''"]) simp_all

end
