(* ===== verification/ApplyConsumer.thy ===== *)
theory ApplyConsumer
  imports ApplyQueue
begin

text \<open>
  \<open>apply-queue-consumer.ts\<close>: the consumer of the two Cloudflare queues.  It works on the same run
  and queue rows as the cron processor, one message per vehicle.  A throw of \<open>processMessage\<close> is
  \<open>Inl\<close> of its message; a throw of the handler makes the platform deliver the rest again.
\<close>

record consumer_env = network +
  ce_dlq_accepts :: "nat \<Rightarrow> bool"
  ce_ca :: string

definition DEAD_LETTER_LIMIT :: nat where
  "DEAD_LETTER_LIMIT = 10000"

definition DLQ_QUEUE_NAME :: string where
  "DLQ_QUEUE_NAME = ''afirmico-tesla-apply-dlq''"

section \<open>The error taxonomy\<close>

definition five_hundred :: "string \<Rightarrow> bool" where
  "five_hundred s = (case s of a # b # c # _ \<Rightarrow> a = CHR ''5'' \<and> is_digit b \<and> is_digit c | _ \<Rightarrow> False)"

text \<open>The pattern \<open>/http[_\s]?5\d\d/\<close> anywhere in the text.\<close>

fun http_5xx :: "string \<Rightarrow> bool" where
  "http_5xx [] = False"
| "http_5xx (c # cs) =
     ((starts_with (c # cs) ''http'' \<and>
       (let r = drop 4 (c # cs)
        in five_hundred r \<or> (r \<noteq> [] \<and> (hd r = CHR ''_'' \<or> is_space (hd r)) \<and> five_hundred (tl r)))) \<or> http_5xx cs)"

definition isTransient :: "string \<Rightarrow> bool" where
  "isTransient err = (let msg = to_lower err in str_includes msg ''transport:'' \<or> http_5xx msg)"

section \<open>Dead letters\<close>

definition insert_dead_letter ::
  "('e) runtime_scheme \<Rightarrow> apply_message \<Rightarrow> nat \<Rightarrow> string \<Rightarrow> ('a) apply_db_scheme \<Rightarrow> ('a) apply_db_scheme" where
  "insert_dead_letter e body attempts errorDetail db =
     (let (nowIso, db1) = now_iso e db
      in db1\<lparr>dead_letters := dead_letters db1 @
           [\<lparr>dl_run = am_run body, dl_vin = am_vin body, dl_attempts = attempts, dl_error = errorDetail,
             dl_message = body, dl_dead_at = nowIso\<rparr>]\<rparr>)"

definition recordDlqMessage ::
  "('e) runtime_scheme \<Rightarrow> apply_message \<Rightarrow> ('a) apply_db_scheme \<Rightarrow> ('a) apply_db_scheme" where
  "recordDlqMessage e body db = insert_dead_letter e body 0 ''dlq_delivered'' db"

definition forward_to_dlq ::
  "('e) consumer_env_scheme \<Rightarrow> apply_message \<Rightarrow> ('a) apply_db_scheme \<Rightarrow> ('a) apply_db_scheme" where
  "forward_to_dlq e body db =
     next_tick (if ce_dlq_accepts e (tick db) then db\<lparr>dlq_sent := dlq_sent db @ [body]\<rparr> else db)"

definition deadLetter ::
  "('e) consumer_env_scheme \<Rightarrow> apply_message \<Rightarrow> nat \<Rightarrow> string \<Rightarrow> ('a) apply_db_scheme \<Rightarrow> ('a) apply_db_scheme" where
  "deadLetter e body attempts errorDetail db =
     (if DEAD_LETTER_LIMIT \<le> length (dead_letters db) then db
      else (let db1 = insert_dead_letter e body attempts errorDetail db;
                db2 = forward_to_dlq e body db1;
                (nowIso, db3) = now_iso e db2
            in set_queue (\<lambda>r. q_run r = am_run body \<and> q_vin r = am_vin body)
                 (\<lambda>r. r\<lparr>q_state := Q_failed, q_last_error := Some errorDetail, q_finished_at := Some nowIso\<rparr>) db3))"

definition markDone :: "('e) runtime_scheme \<Rightarrow> nat \<Rightarrow> ('a) apply_db_scheme \<Rightarrow> ('a) apply_db_scheme" where
  "markDone e queueId db =
     (let (nowIso, db1) = now_iso e db
      in set_queue (\<lambda>r. q_id r = queueId) (\<lambda>r. r\<lparr>q_state := Q_done, q_finished_at := Some nowIso\<rparr>) db1)"

definition markFailed :: "('e) runtime_scheme \<Rightarrow> nat \<Rightarrow> string \<Rightarrow> ('a) apply_db_scheme \<Rightarrow> ('a) apply_db_scheme" where
  "markFailed e queueId err db =
     (let (nowIso, db1) = now_iso e db
      in set_queue (\<lambda>r. q_id r = queueId)
           (\<lambda>r. r\<lparr>q_state := Q_failed, q_last_error := Some err, q_finished_at := Some nowIso\<rparr>) db1)"

definition consumer_haltRun ::
  "('e) runtime_scheme \<Rightarrow> string \<Rightarrow> string \<Rightarrow> ('a) apply_db_scheme \<Rightarrow> ('a) apply_db_scheme" where
  "consumer_haltRun e runId reason db =
     (let (nowIso, db1) = now_iso e db
      in set_run runId (\<lambda>r. r\<lparr>run_state := RS_halted, run_canary_state := Some reason, run_finished_at := Some nowIso\<rparr>) db1)"

section \<open>Resolution at processing time\<close>

definition entry_map :: "entry_row list \<Rightarrow> scope_entries" where
  "entry_map rows =
     fold (\<lambda>r m. m(e_field r \<mapsto> \<lparr>se_interval = e_interval r, se_min_delta = e_min_delta r, se_enabled = Some (e_enabled r)\<rparr>))
       rows Map.empty"

text \<open>
  The query for a group or a vehicle names the column \<open>scope_kind\<close>, which
  \<open>telemetry_config_entry\<close> does not have (\<open>migrations/0016\<close>): it throws.
\<close>

definition loadScopeEntries :: "('a) store_db_scheme \<Rightarrow> scope_kind \<Rightarrow> string \<Rightarrow> string + scope_entries" where
  "loadScopeEntries db scopeKind scopeId =
     (if scopeKind = Scope_global
      then Inr (entry_map (filter (\<lambda>r. e_scope r = ''global'') (entries db)))
      else Inl ''D1_ERROR: no such column: scope_kind'')"

fun load_group_entries ::
  "('a) config_db_scheme \<Rightarrow> group_row list \<Rightarrow> scope_entries \<Rightarrow> string + scope_entries" where
  "load_group_entries db [] m = Inr m"
| "load_group_entries db (g # gs) m =
     (case first_where (\<lambda>s. sc_kind s = Scope_group \<and> sc_group s = Some (g_id g)) (scopes db) of
        None \<Rightarrow> load_group_entries db gs m
      | Some scopeRow \<Rightarrow>
          (case loadScopeEntries db Scope_group (sc_id scopeRow) of
             Inl err \<Rightarrow> Inl err
           | Inr es \<Rightarrow> load_group_entries db gs (m ++ es)))"

definition resolveConfigAtProcessing ::
  "('a) config_db_scheme \<Rightarrow> vin \<Rightarrow> scope_kind \<Rightarrow> string + resolved_config option" where
  "resolveConfigAtProcessing db vin scopeKind =
     (case loadScopeEntries db Scope_global ''global'' of
        Inl err \<Rightarrow> Inl err
      | Inr globalEntries \<Rightarrow>
          (case (if scopeKind = Scope_vehicle then Inr Map.empty
                 else load_group_entries db (getGroupsForVehicle db vin) Map.empty) of
             Inl err \<Rightarrow> Inl err
           | Inr groupEntries \<Rightarrow>
               (case (case first_where (\<lambda>s. sc_kind s = Scope_vehicle \<and> sc_vin s = Some vin) (scopes db) of
                        None \<Rightarrow> Inr Map.empty
                      | Some scopeRow \<Rightarrow> loadScopeEntries db Scope_vehicle (sc_id scopeRow)) of
                  Inl err \<Rightarrow> Inl err
                | Inr vehicleEntries \<Rightarrow>
                    (let resolved = resolveConfig globalEntries groupEntries vehicleEntries (map cf_key (collectedFields db)) vin
                     in Inr (if rc_unresolved resolved \<noteq> [] then None else Some resolved)))))"

section \<open>One message\<close>

text \<open>
  The configuration of the row: \<open>Inl\<close> a throw, \<open>Inr (Inl err)\<close> a permanent failure, else the
  configuration, \<open>None\<close> standing for the JSON text \<open>null\<close>.
\<close>

definition row_config ::
  "('a) config_db_scheme \<Rightarrow> apply_message \<Rightarrow> queue_row \<Rightarrow> string + (string + resolved_config option)" where
  "row_config db body queueRow =
     (case q_config queueRow of
        ConfigText resolved \<Rightarrow> Inr (Inr (Some resolved))
      | NullText \<Rightarrow> Inr (Inr None)
      | BadText \<Rightarrow> Inr (Inl ''config_json_parse_failed'')
      | EmptyText \<Rightarrow>
          (case resolveConfigAtProcessing db (am_vin body) (am_scope body) of
             Inl err \<Rightarrow> Inl err
           | Inr None \<Rightarrow> Inr (Inl (''no_resolved_config:'' @ am_vin body))
           | Inr (Some resolved) \<Rightarrow> Inr (Inr (Some resolved))))"

definition consumer_canary ::
  "('e) network_scheme \<Rightarrow> nat \<Rightarrow> apply_message \<Rightarrow> string \<Rightarrow> iso \<Rightarrow> apply_result \<Rightarrow> ('a) apply_db_scheme \<Rightarrow>
   ('a) apply_db_scheme" where
  "consumer_canary e queueId body memberToken startIso result db =
     (if ar_outcome result \<noteq> O_applied
      then markFailed e queueId (''canary_post_failed: '' @ failure_text result)
             (consumer_haltRun e (am_run body) (''canary '' @ am_vin body @ '' POST failed: '' @ failure_text result) db)
      else (let (verified, db1) = verifyAdoption e (am_vin body) memberToken startIso db
            in if \<not> fst verified
               then markFailed e queueId (''canary_verification_failed: '' @ reason_text (snd verified))
                      (consumer_haltRun e (am_run body)
                        (''canary '' @ am_vin body @ '' verification failed: '' @ reason_text (snd verified)) db1)
               else markDone e queueId
                      (open_rollout (am_run body) (am_vin body)
                        (recordOutcome e (am_run body) (result\<lparr>ar_outcome := O_verified\<rparr>) db1))))"

definition consumer_rollout ::
  "('e) network_scheme \<Rightarrow> nat \<Rightarrow> apply_message \<Rightarrow> string \<Rightarrow> iso \<Rightarrow> apply_result \<Rightarrow> ('a) apply_db_scheme \<Rightarrow>
   ('a) apply_db_scheme" where
  "consumer_rollout e queueId body memberToken startIso result db =
     markDone e queueId
       (if ar_outcome result = O_applied
        then (let (verified, db1) = verifyAdoption e (am_vin body) memberToken startIso db
              in recordOutcome e (am_run body)
                   (if fst verified then result\<lparr>ar_outcome := O_verified\<rparr>
                    else result\<lparr>ar_outcome := O_failed, ar_error_detail := snd verified\<rparr>) db1)
        else db)"

definition is_canary_row :: "queue_row \<Rightarrow> run_row \<Rightarrow> vin \<Rightarrow> bool" where
  "is_canary_row queueRow runRow vin \<longleftrightarrow> q_position queueRow = 0 \<and> run_canary_vin runRow = Some vin"

text \<open>The part of \<open>processMessage\<close> after the row is marked in progress.\<close>

definition process_claimed ::
  "('e) consumer_env_scheme \<Rightarrow> apply_message \<Rightarrow> queue_row \<Rightarrow> bool \<Rightarrow> iso \<Rightarrow> ('a) apply_db_scheme \<Rightarrow>
   (string + unit) \<times> ('a) apply_db_scheme" where
  "process_claimed e body queueRow isCanary startIso db =
     (case row_config db body queueRow of
        Inl err \<Rightarrow> (Inl err, db)
      | Inr (Inl err) \<Rightarrow>
          (Inr (), markFailed e (q_id queueRow) err (deadLetter e body (q_attempts queueRow) err db))
      | Inr (Inr config) \<Rightarrow>
          (case vehicle_of db (am_vin body) of
             None \<Rightarrow>
               (let err = ''no_member_for_vin:'' @ am_vin body
                in (Inr (), markFailed e (q_id queueRow) err (deadLetter e body (q_attempts queueRow) err db)))
           | Some memberRow \<Rightarrow>
               (let (memberToken, db1) = getMemberAccessToken e (v_member memberRow) db in
                if no_token memberToken then (Inl (''no_member_access_token:'' @ am_vin body), db1)
                else (case config of
                    None \<Rightarrow> (Inl ''Cannot read properties of null (reading 'fields')'', db1)
                  | Some resolved \<Rightarrow>
                      (let (result, db2) = applyVehicleConfig e (am_vin body) resolved (the memberToken)
                             (telemetryTarget db1) (ce_ca e) db1;
                           db3 = recordOutcome e (am_run body) result db2
                       in (Inr (),
                           if isCanary
                           then consumer_canary e (q_id queueRow) body (the memberToken) startIso result db3
                           else consumer_rollout e (q_id queueRow) body (the memberToken) startIso result db3))))))"

definition queue_row_for :: "('a) apply_db_scheme \<Rightarrow> apply_message \<Rightarrow> queue_row option" where
  "queue_row_for db body = first_where (\<lambda>r. q_run r = am_run body \<and> q_vin r = am_vin body) (apply_queue db)"

definition processMessage ::
  "('e) consumer_env_scheme \<Rightarrow> apply_message \<Rightarrow> ('a) apply_db_scheme \<Rightarrow> (string + unit) \<times> ('a) apply_db_scheme" where
  "processMessage e body db =
     (case run_row_of db (am_run body) of
        None \<Rightarrow> (Inr (), deadLetter e body 0 (''no_run_row:'' @ am_run body) db)
      | Some runRow \<Rightarrow>
          if run_state runRow = RS_halted \<or> run_state runRow = RS_canary_failed
          then (let (nowIso, db1) = now_iso e db
                in (Inr (), set_queue (\<lambda>r. q_run r = am_run body \<and> q_vin r = am_vin body)
                      (\<lambda>r. r\<lparr>q_state := Q_halted, q_finished_at := Some nowIso\<rparr>) db1))
          else (case queue_row_for db body of
              None \<Rightarrow> (Inr (), deadLetter e body 0 (''no_queue_row:'' @ am_run body @ ''/'' @ am_vin body) db)
            | Some queueRow \<Rightarrow>
                (let isCanary = is_canary_row queueRow runRow (am_vin body) in
                 if \<not> isCanary \<and> run_state runRow \<noteq> RS_rolling then (Inl ''run_not_rolling_yet'', db)
                 else (let (startIso, db1) = now_iso e db;
                           db2 = set_queue (\<lambda>r. q_id r = q_id queueRow)
                             (\<lambda>r. r\<lparr>q_state := Q_in_progress, q_attempts := Suc (q_attempts r), q_started_at := Some startIso\<rparr>) db1
                       in process_claimed e body queueRow isCanary startIso db2))))"

section \<open>The handler\<close>

text \<open>One turn of the loop: whether the handler throws, and the state it leaves.\<close>

definition handle_message ::
  "('e) consumer_env_scheme \<Rightarrow> apply_message \<Rightarrow> ('a) apply_db_scheme \<Rightarrow> string option \<times> ('a) apply_db_scheme" where
  "handle_message e body db =
     (case processMessage e body db of
        (Inr _, db1) \<Rightarrow> (None, db1)
      | (Inl err, db1) \<Rightarrow> if isTransient err then (Some err, db1) else (None, deadLetter e body 0 err db1))"

fun handle_messages ::
  "('e) consumer_env_scheme \<Rightarrow> apply_message list \<Rightarrow> ('a) apply_db_scheme \<Rightarrow> string option \<times> ('a) apply_db_scheme" where
  "handle_messages e [] db = (None, db)"
| "handle_messages e (body # rest) db =
     (case handle_message e body db of
        (Some err, db1) \<Rightarrow> (Some err, db1)
      | (None, db1) \<Rightarrow> handle_messages e rest db1)"

definition queue_handler ::
  "('e) consumer_env_scheme \<Rightarrow> string \<Rightarrow> apply_message list \<Rightarrow> ('a) apply_db_scheme \<Rightarrow> string option \<times> ('a) apply_db_scheme" where
  "queue_handler e queueName messages db =
     (if queueName = DLQ_QUEUE_NAME then (None, fold (recordDlqMessage e) messages db)
      else handle_messages e messages db)"

fun finalizeCompletedRuns ::
  "('e) runtime_scheme \<Rightarrow> string list \<Rightarrow> ('a) apply_db_scheme \<Rightarrow> nat \<times> ('a) apply_db_scheme" where
  "finalizeCompletedRuns e [] db = (0, db)"
| "finalizeCompletedRuns e (runId # rest) db =
     (if unfinished_rows db runId = 0
      then (let (nowIso, db1) = now_iso e db;
                P = (\<lambda>r. run_id r = runId \<and> run_state r = RS_rolling);
                changes = count_where P (runs db1);
                db2 = db1\<lparr>runs := update_where P (\<lambda>r. r\<lparr>run_state := RS_completed, run_finished_at := Some nowIso\<rparr>) (runs db1)\<rparr>;
                (n, db3) = finalizeCompletedRuns e rest db2
            in (if changes = 0 then n else Suc n, db3))
      else finalizeCompletedRuns e rest db)"

section \<open>Frames\<close>

lemma dead_letters_frame [simp]:
  "dead_letters (next_tick db) = dead_letters db" "dead_letters (set_queue P f db) = dead_letters db"
  "dead_letters (set_run r g db) = dead_letters db" "dead_letters (recordOutcome e r res db) = dead_letters db"
  "dead_letters (snd (applyVehicleConfig e v rc t target ca db)) = dead_letters db"
  "dead_letters (open_rollout r v db) = dead_letters db"
  by (simp_all add: next_tick_def set_queue_def set_run_def recordOutcome_def put_outcome_def now_iso_def
    applyVehicleConfig_def Let_def open_rollout_def)

lemma mark_frame [simp]:
  "posts (markDone e q db) = posts db" "posts (markFailed e q err db) = posts db"
  "run_row_of (markDone e q db) = run_row_of db" "run_row_of (markFailed e q err db) = run_row_of db"
  "dead_letters (markDone e q db) = dead_letters db" "dead_letters (markFailed e q err db) = dead_letters db"
  by (simp_all add: markDone_def markFailed_def case_prod_beta)

lemma consumer_haltRun_frame [simp]:
  "posts (consumer_haltRun e r reason db) = posts db"
  "dead_letters (consumer_haltRun e r reason db) = dead_letters db"
  "i \<noteq> r \<Longrightarrow> run_row_of (consumer_haltRun e r reason db) i = run_row_of db i"
  by (simp_all add: consumer_haltRun_def case_prod_beta run_row_of_set_run)

lemma insert_dead_letter_frame [simp]:
  "posts (insert_dead_letter e b a err db) = posts db" "run_row_of (insert_dead_letter e b a err db) = run_row_of db"
  "length (dead_letters (insert_dead_letter e b a err db)) = Suc (length (dead_letters db))"
  by (simp_all add: insert_dead_letter_def now_iso_def run_row_of_def fun_eq_iff)

lemma forward_to_dlq_frame [simp]:
  "posts (forward_to_dlq e b db) = posts db" "run_row_of (forward_to_dlq e b db) = run_row_of db"
  "dead_letters (forward_to_dlq e b db) = dead_letters db"
  by (simp_all add: forward_to_dlq_def next_tick_def run_row_of_def fun_eq_iff)

lemma deadLetter_frame [simp]:
  "posts (deadLetter e b a err db) = posts db" "run_row_of (deadLetter e b a err db) = run_row_of db"
  by (simp_all add: deadLetter_def case_prod_beta Let_def)

lemma deadLetter_bound [simp]:
  "length (dead_letters (deadLetter e b a err db)) \<le> max (length (dead_letters db)) DEAD_LETTER_LIMIT"
  by (simp add: deadLetter_def case_prod_beta Let_def)

lemma consumer_canary_effect [simp]:
  "posts (consumer_canary e q b t start res db) = posts db"
  "dead_letters (consumer_canary e q b t start res db) = dead_letters db"
  "i \<noteq> am_run b \<Longrightarrow> run_row_of (consumer_canary e q b t start res db) i = run_row_of db i"
  by (simp_all add: consumer_canary_def case_prod_beta Let_def run_row_of_open_rollout_other)

lemma consumer_rollout_effect [simp]:
  "posts (consumer_rollout e q b t start res db) = posts db"
  "dead_letters (consumer_rollout e q b t start res db) = dead_letters db"
  "run_row_of (consumer_rollout e q b t start res db) = run_row_of db"
  by (simp_all add: consumer_rollout_def case_prod_beta Let_def)

section \<open>One message\<close>

definition thrown_errors :: "vin \<Rightarrow> string set" where
  "thrown_errors v =
     {''run_not_rolling_yet'', ''D1_ERROR: no such column: scope_kind'', ''no_member_access_token:'' @ v,
      ''Cannot read properties of null (reading 'fields')''}"

lemma load_group_entries_error:
  "load_group_entries db gs m = Inl err \<Longrightarrow> err = ''D1_ERROR: no such column: scope_kind''"
  by (induction gs arbitrary: m) (auto simp: loadScopeEntries_def split: option.splits)

lemma row_config_error: "row_config db body q = Inl err \<Longrightarrow> err = ''D1_ERROR: no such column: scope_kind''"
proof -
  have "resolveConfigAtProcessing db v sk = Inl err \<Longrightarrow> err = ''D1_ERROR: no such column: scope_kind''" for v sk
    by (auto simp: resolveConfigAtProcessing_def loadScopeEntries_def Let_def split: sum.splits option.splits if_splits
      dest: load_group_entries_error)
  then show "row_config db body q = Inl err \<Longrightarrow> err = ''D1_ERROR: no such column: scope_kind''"
    by (auto simp: row_config_def split: config_cell.splits sum.splits option.splits)
qed

text \<open>What a step of the consumer may do to the database, with the outcome of the message.\<close>

definition consumer_step_ok ::
  "apply_message \<Rightarrow> bool \<Rightarrow> string + unit \<Rightarrow> ('a) apply_db_scheme \<Rightarrow> ('a) apply_db_scheme \<Rightarrow> bool" where
  "consumer_step_ok body mayPost res db db' \<longleftrightarrow>
     (\<exists>ps. posts db' = posts db @ ps \<and> fst ` set ps \<subseteq> {am_vin body} \<and> length ps \<le> 1 \<and> (mayPost \<or> ps = [])) \<and>
     (\<forall>j. j \<noteq> am_run body \<longrightarrow> run_row_of db' j = run_row_of db j) \<and>
     (mayPost \<or> run_row_of db' (am_run body) = run_row_of db (am_run body)) \<and>
     length (dead_letters db') \<le> max (length (dead_letters db)) DEAD_LETTER_LIMIT \<and>
     (case res of Inl err \<Rightarrow> err \<in> thrown_errors (am_vin body) | Inr _ \<Rightarrow> True)"

lemma process_claimed_ok:
  assumes "process_claimed e body q isCanary start db = (res, db')"
  shows "consumer_step_ok body True res db db'"
proof (cases "row_config db body q")
  case (Inl err)
  with assms row_config_error [OF Inl] show ?thesis
    by (auto simp: process_claimed_def consumer_step_ok_def thrown_errors_def)
next
  case config: (Inr c)
  show ?thesis
  proof (cases c)
    case (Inl err)
    with assms config show ?thesis by (auto simp: process_claimed_def consumer_step_ok_def)
  next
    case (Inr cfg)
    show ?thesis
    proof (cases "vehicle_of db (am_vin body)")
      case None
      with assms config Inr show ?thesis by (auto simp: process_claimed_def consumer_step_ok_def Let_def)
    next
      case (Some m)
      obtain tok db1 where T: "getMemberAccessToken e (v_member m) db = (tok, db1)" by fastforce
      have db1: "posts db1 = posts db" "run_row_of db1 = run_row_of db" "dead_letters db1 = dead_letters db"
        using token_frame [of e "v_member m" db] T by simp_all
      show ?thesis
      proof (cases "no_token tok")
        case True
        with assms config Inr Some T db1 show ?thesis
          by (auto simp: process_claimed_def consumer_step_ok_def thrown_errors_def)
      next
        case False
        show ?thesis
        proof (cases cfg)
          case None
          with assms config Inr Some T db1 False show ?thesis
            by (auto simp: process_claimed_def consumer_step_ok_def thrown_errors_def)
        next
          case (Some resolved)
          obtain result db2 where A: "applyVehicleConfig e (am_vin body) resolved (the tok) (telemetryTarget db1) (ce_ca e) db1 = (result, db2)"
            by fastforce
          have db2: "posts db2 = posts db @ [(am_vin body, request_body (am_vin body) resolved (telemetryTarget db1) (ce_ca e))]"
            "run_row_of db2 = run_row_of db" "dead_letters db2 = dead_letters db"
            using posts_apply [of e "am_vin body" resolved "the tok" "telemetryTarget db1" "ce_ca e" db1]
              queue_applyVehicleConfig [of e "am_vin body" resolved "the tok" "telemetryTarget db1" "ce_ca e" db1]
              dead_letters_frame(5) [of e "am_vin body" resolved "the tok" "telemetryTarget db1" "ce_ca e" db1] A db1
            by simp_all
          with assms config Inr \<open>vehicle_of db (am_vin body) = Some m\<close> T False Some A show ?thesis
            by (auto simp: process_claimed_def consumer_step_ok_def Let_def split: if_splits)
        qed
      qed
    qed
  qed
qed

text \<open>Whether the message may touch its vehicle: its run is open, and rolling unless it is the canary.\<close>

definition may_apply :: "('a) apply_db_scheme \<Rightarrow> apply_message \<Rightarrow> bool" where
  "may_apply db body =
     (case run_row_of db (am_run body) of
        None \<Rightarrow> False
      | Some row \<Rightarrow>
          \<not> run_closed_row (Some row) \<and>
          (case queue_row_for db body of
             None \<Rightarrow> False
           | Some q \<Rightarrow> run_state row = RS_rolling \<or> is_canary_row q row (am_vin body)))"

lemma processMessage_ok:
  assumes "processMessage e body db = (res, db')"
  shows "consumer_step_ok body (may_apply db body) res db db'"
proof (cases "run_row_of db (am_run body)")
  case None
  with assms show ?thesis by (auto simp: processMessage_def consumer_step_ok_def)
next
  case (Some row)
  show ?thesis
  proof (cases "run_closed_row (Some row)")
    case True
    with assms Some show ?thesis by (auto simp: processMessage_def consumer_step_ok_def run_closed_row_def case_prod_beta)
  next
    case opened: False
    show ?thesis
    proof (cases "queue_row_for db body")
      case None
      with assms Some opened show ?thesis by (auto simp: processMessage_def consumer_step_ok_def run_closed_row_def)
    next
      case q: (Some q)
      show ?thesis
      proof (cases "run_state row = RS_rolling \<or> is_canary_row q row (am_vin body)")
        case False
        with assms Some opened q show ?thesis
          by (auto simp: processMessage_def consumer_step_ok_def run_closed_row_def thrown_errors_def)
      next
        case True
        let ?db2 = "set_queue (\<lambda>r. q_id r = q_id q) (\<lambda>r. r\<lparr>q_state := Q_in_progress, q_attempts := Suc (q_attempts r),
           q_started_at := Some (fst (now_iso e db))\<rparr>) (next_tick db)"
        have "process_claimed e body q (is_canary_row q row (am_vin body)) (fst (now_iso e db)) ?db2 = (res, db')"
          using assms Some opened q True by (auto simp: processMessage_def run_closed_row_def case_prod_beta Let_def)
        note this [THEN process_claimed_ok]
        moreover have "may_apply db body" using Some opened q True by (simp add: may_apply_def)
        ultimately show ?thesis by (simp add: consumer_step_ok_def)
      qed
    qed
  qed
qed

section \<open>The loop\<close>

lemma consumer_step_deadLetter:
  "consumer_step_ok b may res db db' \<Longrightarrow> consumer_step_ok b may (Inr ()) db (deadLetter e b' a err db')"
  unfolding consumer_step_ok_def
  using deadLetter_bound [of e b' a err db'] by (auto simp: max_def split: if_splits)

lemma handle_message_ok:
  "consumer_step_ok b (may_apply db b) (Inr ()) db (snd (handle_message e b db))"
proof -
  obtain res db1 where P: "processMessage e b db = (res, db1)" by fastforce
  have ok: "consumer_step_ok b (may_apply db b) res db db1" by (rule processMessage_ok [OF P])
  then have "consumer_step_ok b (may_apply db b) (Inr ()) db db1" by (simp add: consumer_step_ok_def)
  with P consumer_step_deadLetter [OF ok] show ?thesis
    by (auto simp: handle_message_def split: sum.split)
qed

lemma may_apply_closed: "run_closed_row (run_row_of db (am_run b)) \<Longrightarrow> \<not> may_apply db b"
  by (cases "run_row_of db (am_run b)") (simp_all add: may_apply_def split: option.split)

interpretation consumer: halting_rollout "\<lambda>b db. snd (handle_message e b db)" am_run am_vin
    "\<lambda>db r. run_closed_row (run_row_of db r)" posts for e
proof
  fix db :: "('a) apply_db_scheme" and r b
  note ok = handle_message_ok [of b db e, unfolded consumer_step_ok_def]
  show "run_closed_row (run_row_of db r) \<Longrightarrow> run_closed_row (run_row_of (snd (handle_message e b db)) r)"
    using ok may_apply_closed [of db b] by (cases "r = am_run b") auto
  show "run_closed_row (run_row_of db (am_run b)) \<Longrightarrow> posts (snd (handle_message e b db)) = posts db"
    using ok may_apply_closed [of db b] by auto
  show "\<exists>ps. posts (snd (handle_message e b db)) = posts db @ ps \<and> fst ` set ps \<subseteq> {am_vin b} \<and> length ps \<le> 1"
    using ok by auto
qed

text \<open>A batch works through a prefix of its messages.\<close>

lemma handle_messages_prefix:
  "\<exists>k. snd (handle_messages e ms db) = fold (\<lambda>b db. snd (handle_message e b db)) (take k ms) db"
proof (induction ms arbitrary: db)
  case Nil
  then show ?case by simp
next
  case (Cons m ms)
  obtain r db1 where H: "handle_message e m db = (r, db1)" by fastforce
  show ?case
  proof (cases r)
    case None
    obtain k where "snd (handle_messages e ms db1) = fold (\<lambda>b db. snd (handle_message e b db)) (take k ms) db1"
      using Cons by blast
    with H None show ?thesis by (intro exI [of _ "Suc k"]) simp
  next
    case (Some err)
    with H show ?thesis by (intro exI [of _ "Suc 0"]) simp
  qed
qed

lemma handle_messages_bound:
  "length (dead_letters (snd (handle_messages e ms db))) \<le> max (length (dead_letters db)) DEAD_LETTER_LIMIT"
proof (induction ms arbitrary: db)
  case Nil
  then show ?case by simp
next
  case (Cons m ms)
  have "length (dead_letters (snd (handle_message e m db))) \<le> max (length (dead_letters db)) DEAD_LETTER_LIMIT"
    using handle_message_ok [of m db e] by (simp add: consumer_step_ok_def)
  with Cons [of "snd (handle_message e m db)"] show ?case
    by (cases "handle_message e m db"; cases "fst (handle_message e m db)") auto
qed

section \<open>The taxonomy against the errors that are thrown\<close>

lemma str_includes_append: "str_includes s w \<longleftrightarrow> (\<exists>a b. s = a @ w @ b)"
proof (induction s)
  case Nil
  then show ?case by simp
next
  case (Cons c s)
  have "starts_with (c # s) w \<longleftrightarrow> (\<exists>b. c # s = w @ b)"
    unfolding starts_with_def by (metis append_take_drop_id append_eq_conv_conj)
  with Cons show ?case
    by (auto simp: Cons_eq_append_conv)
qed

lemma http_5xx_includes: "http_5xx s \<Longrightarrow> str_includes s ''http''"
  by (induction s) (auto simp: Let_def)

lemma str_includes_skip: "c \<notin> set p \<Longrightarrow> str_includes (p @ s) (c # w) \<longleftrightarrow> str_includes s (c # w)"
  by (induction p) (auto simp: starts_with_def)

lemma to_lower_append [simp]: "to_lower (a @ b) = to_lower a @ to_lower b"
  by (simp add: to_lower_def)

lemma lower_char_colon: "lower_char c = CHR '':'' \<longleftrightarrow> c = CHR '':''"
proof
  assume "lower_char c = CHR '':''"
  then show "c = CHR '':''"
    by (auto simp: lower_char_def Let_def split: if_splits dest!: arg_cong [of _ _ "of_char :: char \<Rightarrow> nat"])
qed (simp add: lower_char_def)

definition plain_vin :: "vin \<Rightarrow> bool" where
  "plain_vin v \<longleftrightarrow> CHR '':'' \<notin> set v \<and> \<not> str_includes (to_lower v) ''http''"

lemma token_error_not_transient:
  assumes "plain_vin v"
  shows "\<not> isTransient (''no_member_access_token:'' @ v)"
proof -
  have low: "to_lower (''no_member_access_token:'' @ v) = ''no_member_access_token'' @ CHR '':'' # to_lower v"
    by (simp add: to_lower_def lower_char_def)
  have colon: "CHR '':'' \<notin> set (to_lower v)" using assms
    unfolding plain_vin_def to_lower_def set_map by (metis imageE lower_char_colon)
  have "\<not> str_includes (''no_member_access_token'' @ CHR '':'' # to_lower v) ''transport:''"
  proof
    assume "str_includes (''no_member_access_token'' @ CHR '':'' # to_lower v) ''transport:''"
    then obtain a b where "''no_member_access_token'' @ CHR '':'' # to_lower v = (a @ ''transport'') @ CHR '':'' # b"
      unfolding str_includes_append by auto
    then have "''no_member_access_token'' = a @ ''transport''"
      using colon by (subst (asm) append_Cons_eq_iff) auto
    from arg_cong [OF this, of last] show False by simp
  qed
  moreover have "\<not> http_5xx (''no_member_access_token'' @ CHR '':'' # to_lower v)"
    using http_5xx_includes [of "''no_member_access_token:'' @ to_lower v"] assms
      str_includes_skip [of "CHR ''h''" "''no_member_access_token:''" "to_lower v" "''ttp''"]
    by (auto simp: plain_vin_def)
  ultimately show ?thesis unfolding isTransient_def low Let_def by blast
qed

lemma thrown_errors_permanent:
  assumes "plain_vin v" and "err \<in> thrown_errors v"
  shows "\<not> isTransient err"
proof -
  have "\<not> isTransient ''run_not_rolling_yet''" "\<not> isTransient ''D1_ERROR: no such column: scope_kind''"
    "\<not> isTransient ''Cannot read properties of null (reading 'fields')''"
    by (simp_all add: isTransient_def to_lower_def lower_char_def starts_with_def Let_def five_hundred_def)
  with assms token_error_not_transient show ?thesis by (auto simp: thrown_errors_def)
qed

lemma handle_message_never_throws:
  assumes "plain_vin (am_vin b)"
  shows "fst (handle_message e b db) = None"
proof -
  obtain res db1 where P: "processMessage e b db = (res, db1)" by fastforce
  from processMessage_ok [OF P] thrown_errors_permanent [OF assms] P show ?thesis
    by (auto simp: handle_message_def consumer_step_ok_def split: sum.splits)
qed

section \<open>Properties\<close>

text \<open>C1: the canary contract of the consumer: one message touches at most its own vehicle, and only
  if its run is open and the run is rolling or the vehicle is its canary.\<close>

theorem consumer_canary_contract:
  "posts (snd (handle_message e b db)) = posts db \<or>
   (may_apply db b \<and> (\<exists>body. posts (snd (handle_message e b db)) = posts db @ [(am_vin b, body)]))"
proof -
  obtain ps where ps: "posts (snd (handle_message e b db)) = posts db @ ps" "fst ` set ps \<subseteq> {am_vin b}" "length ps \<le> 1"
    "may_apply db b \<or> ps = []"
    using handle_message_ok [of b db e] by (auto simp: consumer_step_ok_def)
  show ?thesis
  proof (cases ps)
    case Nil
    with ps show ?thesis by simp
  next
    case (Cons p qs)
    with ps have "ps = [(am_vin b, snd p)]" by (cases p) auto
    with ps(1,4) show ?thesis by (intro disjI2 conjI exI [of _ "snd p"]) auto
  qed
qed

text \<open>A batch never touches a halted run: whatever the batch holds and wherever it stops, its
  requests go to vehicles of messages of other runs, and the run stays closed.\<close>

theorem consumer_closed_run:
  assumes "run_closed_row (run_row_of db r)"
  shows "(\<exists>ps. posts (snd (handle_messages e ms db)) = posts db @ ps \<and>
      fst ` set ps \<subseteq> am_vin ` {m \<in> set ms. am_run m \<noteq> r}) \<and>
    run_closed_row (run_row_of (snd (handle_messages e ms db)) r)"
proof -
  obtain k where k: "snd (handle_messages e ms db) = fold (\<lambda>b db. snd (handle_message e b db)) (take k ms) db"
    using handle_messages_prefix by blast
  obtain ps where "posts (snd (handle_messages e ms db)) = posts db @ ps"
    "fst ` set ps \<subseteq> am_vin ` {m \<in> set (take k ms). am_run m \<noteq> r}"
    using consumer.closed_run_untouched [OF assms, of e "take k ms"] unfolding k by blast
  moreover have "{m \<in> set (take k ms). am_run m \<noteq> r} \<subseteq> {m \<in> set ms. am_run m \<noteq> r}"
    by (auto dest: in_set_takeD)
  moreover have "run_closed_row (run_row_of (snd (handle_messages e ms db)) r)"
    unfolding k by (rule consumer.closed_stays_fold [OF assms])
  ultimately show ?thesis by (meson image_mono subset_trans)
qed

text \<open>A message that arrives before its run is rolling is not redelivered, as the source intends:
  it is dead-lettered, and its queue row fails for good, before the canary had its turn.\<close>

theorem early_message_is_dead_lettered:
  assumes "run_row_of db (am_run b) = Some row" and "run_state row = RS_running"
    and "queue_row_for db b = Some q" and "\<not> is_canary_row q row (am_vin b)"
    and "length (dead_letters db) < DEAD_LETTER_LIMIT"
  shows "fst (handle_message e b db) = None \<and>
    (\<exists>t. dead_letters (snd (handle_message e b db)) = dead_letters db @
       [\<lparr>dl_run = am_run b, dl_vin = am_vin b, dl_attempts = 0, dl_error = ''run_not_rolling_yet'',
         dl_message = b, dl_dead_at = t\<rparr>]) \<and>
    (\<forall>r \<in> set (apply_queue (snd (handle_message e b db))).
       q_run r = am_run b \<and> q_vin r = am_vin b \<longrightarrow> q_state r = Q_failed)"
proof -
  have "processMessage e b db = (Inl ''run_not_rolling_yet'', db)"
    using assms by (simp add: processMessage_def)
  moreover have "\<not> isTransient ''run_not_rolling_yet''"
    using thrown_errors_permanent [of "''V1''" "''run_not_rolling_yet''"]
    by (simp add: plain_vin_def thrown_errors_def to_lower_def lower_char_def starts_with_def)
  ultimately have "handle_message e b db = (None, deadLetter e b 0 ''run_not_rolling_yet'' db)"
    by (simp add: handle_message_def)
  with assms(5) show ?thesis
    by (auto simp: deadLetter_def Let_def case_prod_beta set_update_where set_queue_def insert_dead_letter_def
      forward_to_dlq_def now_iso_def next_tick_def)
qed

text \<open>The bound on the dead letters holds on the apply queue only: its batches never take the
  table past the limit, but every message of the dead-letter queue is inserted unchecked.\<close>

theorem dead_letter_bound:
  "if qn = DLQ_QUEUE_NAME
   then length (dead_letters (snd (queue_handler e qn ms db))) = length (dead_letters db) + length ms
   else length (dead_letters (snd (queue_handler e qn ms db))) \<le> max (length (dead_letters db)) DEAD_LETTER_LIMIT"
proof -
  have "length (dead_letters (fold (recordDlqMessage e) ms db)) = length (dead_letters db) + length ms"
    by (induction ms arbitrary: db) (simp_all add: recordDlqMessage_def)
  then show ?thesis by (simp add: queue_handler_def handle_messages_bound)
qed

text \<open>Nothing is ever retried: whatever the signer answers, no message makes the handler throw, so
  that the transient class of the taxonomy is empty; the vehicle numbers, which the text of one
  error quotes, hold neither a colon nor the letters \<open>http\<close>.\<close>

theorem consumer_never_retries:
  assumes "list_all (\<lambda>m. plain_vin (am_vin m)) ms"
  shows "fst (queue_handler e qn ms db) = None"
proof -
  have "fst (handle_messages e ms db) = None"
    using assms
  proof (induction ms arbitrary: db)
    case (Cons m ms)
    then show ?case
      using handle_message_never_throws [of m e db] by (cases "handle_message e m db") simp
  qed simp
  then show ?thesis by (simp add: queue_handler_def)
qed

text \<open>Resolution at processing time works for vehicles without an override only: for a vehicle
  whose effective configuration is just the global scope it is the resolution of that scope, and
  for a vehicle with a vehicle scope it throws before reading one entry of it.\<close>

theorem resolution_at_processing:
  assumes "first_where (\<lambda>s. sc_kind s = Scope_vehicle \<and> sc_vin s = Some v) (scopes db) = scope"
    and "getGroupsForVehicle db v = []"
  shows "resolveConfigAtProcessing db v sk =
    (case scope of
       Some _ \<Rightarrow> Inl ''D1_ERROR: no such column: scope_kind''
     | None \<Rightarrow>
         (let r = resolveConfig (entry_map (filter (\<lambda>r. e_scope r = ''global'') (entries db))) Map.empty Map.empty
                    (map cf_key (collectedFields db)) v
          in Inr (if rc_unresolved r \<noteq> [] then None else Some r)))"
  using assms by (auto simp: resolveConfigAtProcessing_def loadScopeEntries_def Let_def split: option.split)

section \<open>Concrete runs\<close>

definition sample_consumer :: consumer_env where
  "sample_consumer = network.extend sample_network \<lparr>ce_dlq_accepts = (\<lambda>n. True), ce_ca = ''ca''\<rparr>"

definition sample_message :: apply_message where
  "sample_message = \<lparr>am_run = ''R'', am_vin = ''V1'', am_position = 1, am_scope = Scope_global\<rparr>"

theorem consumer_closed_run_witness:
  "(\<exists>ps. posts (snd (handle_messages sample_consumer [sample_message] sample_halted_db)) = posts sample_halted_db @ ps \<and>
      fst ` set ps \<subseteq> am_vin ` {m \<in> set [sample_message]. am_run m \<noteq> ''R''}) \<and>
    run_closed_row (run_row_of (snd (handle_messages sample_consumer [sample_message] sample_halted_db)) ''R'')"
  by (rule consumer_closed_run) (simp add: sample_halted_db_def sample_queue_simps run_closed_row_def)

theorem early_message_is_dead_lettered_witness:
  "fst (handle_message sample_consumer sample_message sample_queue_db) = None \<and>
   map dl_error (dead_letters (snd (handle_message sample_consumer sample_message sample_queue_db))) = [''run_not_rolling_yet'']"
proof -
  have "dead_letters sample_queue_db = []" by (simp add: sample_queue_simps)
  moreover have "queue_row_for sample_queue_db sample_message = Some (sample_item 2 ''V1'' 1 (ConfigText sample_resolved))"
    by (simp add: queue_row_for_def sample_queue_db_def sample_message_def sample_item_def)
  ultimately show ?thesis
    using early_message_is_dead_lettered [of sample_queue_db sample_message sample_run
      "sample_item 2 ''V1'' 1 (ConfigText sample_resolved)" sample_consumer]
    by (auto simp: sample_queue_simps sample_message_def is_canary_row_def DEAD_LETTER_LIMIT_def)
qed

theorem consumer_never_retries_witness:
  "fst (queue_handler sample_consumer ''q'' [sample_message] sample_queue_db) = None"
  by (rule consumer_never_retries)
    (simp add: sample_message_def plain_vin_def to_lower_def lower_char_def starts_with_def)

definition sample_override_db :: apply_db where
  "sample_override_db = sample_apply_db\<lparr>scopes := [\<lparr>sc_id = ''S'', sc_kind = Scope_vehicle, sc_group = None, sc_vin = Some ''V1''\<rparr>]\<rparr>"

theorem resolution_at_processing_witness:
  "resolveConfigAtProcessing sample_override_db ''V1'' Scope_vehicle = Inl ''D1_ERROR: no such column: scope_kind''"
  using resolution_at_processing [of "''V1''" sample_override_db
    "Some \<lparr>sc_id = ''S'', sc_kind = Scope_vehicle, sc_group = None, sc_vin = Some ''V1''\<rparr>" Scope_vehicle]
  by (simp add: sample_override_db_def sample_apply_simps getGroupsForVehicle_def)

end
