(* ===== verification/JsDate.thy ===== *)
theory JsDate
  imports Prelude
begin

text \<open>
  The \<open>Date\<close> of JavaScript as far as the source uses it: an instant is its number of
  milliseconds since 1970 in UTC, \<open>Date.UTC\<close> and the UTC getters follow the proleptic Gregorian
  calendar, \<open>toISOString\<close> writes an instant and \<open>Date.parse\<close> reads it back.  \<open>Date.parse\<close> is only
  applied to text that \<open>toISOString\<close> wrote, and every other text is \<open>NaN\<close>, \<open>None\<close>, here.
\<close>

section \<open>The calendar\<close>

definition day_from_year :: "int \<Rightarrow> int" where
  "day_from_year y = 365 * (y - 1970) + (y - 1969) div 4 - (y - 1901) div 100 + (y - 1601) div 400"

definition leap_year :: "int \<Rightarrow> bool" where
  "leap_year y \<longleftrightarrow> y mod 4 = 0 \<and> (y mod 100 \<noteq> 0 \<or> y mod 400 = 0)"

definition year_days :: "int \<Rightarrow> int" where
  "year_days y = (if leap_year y then 366 else 365)"

definition month_starts :: "bool \<Rightarrow> int list" where
  "month_starts leap =
     (if leap then [0, 31, 60, 91, 121, 152, 182, 213, 244, 274, 305, 335]
      else [0, 31, 59, 90, 120, 151, 181, 212, 243, 273, 304, 334])"

text \<open>\<open>YearFromTime\<close>: the mean year gives the year up to one, and the starts of the years decide.\<close>

definition year_of_day :: "int \<Rightarrow> int" where
  "year_of_day n =
     (let y = 1970 + (400 * n) div 146097
      in if n < day_from_year y then y - 1 else if day_from_year (y + 1) \<le> n then y + 1 else y)"

definition month_of_day :: "int \<Rightarrow> int" where
  "month_of_day n =
     (let y = year_of_day n
      in int (length (filter (\<lambda>s. s \<le> n - day_from_year y) (month_starts (leap_year y)))) - 1)"

text \<open>\<open>MakeDay\<close>: a month outside 0 to 11 carries into the year, a day is only added.\<close>

definition make_day :: "int \<Rightarrow> int \<Rightarrow> int \<Rightarrow> int" where
  "make_day y m d =
     (let ym = y + m div 12
      in day_from_year ym + month_starts (leap_year ym) ! nat (m mod 12) + d - 1)"

definition date_of_day :: "int \<Rightarrow> int" where
  "date_of_day n = n - make_day (year_of_day n) (month_of_day n) 1 + 1"

section \<open>Instants\<close>

definition MS_MINUTE :: int where "MS_MINUTE = 60000"
definition MS_HOUR :: int where "MS_HOUR = 3600000"
definition MS_DAY :: int where "MS_DAY = 86400000"

lemmas ms_defs = MS_MINUTE_def MS_HOUR_def MS_DAY_def

definition utc_day :: "int \<Rightarrow> int" where "utc_day t = t div MS_DAY"
definition utc_weekday :: "int \<Rightarrow> int" where "utc_weekday t = (utc_day t + 4) mod 7"
definition utc_year :: "int \<Rightarrow> int" where "utc_year t = year_of_day (utc_day t)"
definition utc_month :: "int \<Rightarrow> int" where "utc_month t = month_of_day (utc_day t)"
definition utc_date :: "int \<Rightarrow> int" where "utc_date t = date_of_day (utc_day t)"

definition make_time :: "int \<Rightarrow> int \<Rightarrow> int \<Rightarrow> int \<Rightarrow> int" where
  "make_time h m s ms = MS_HOUR * h + MS_MINUTE * m + 1000 * s + ms"

text \<open>\<open>TimeClip\<close>: an instant too far from 1970 is no date.\<close>

definition time_clip :: "int \<Rightarrow> int option" where
  "time_clip t = (if \<bar>t\<bar> \<le> 8640000000000000 then Some t else None)"

text \<open>\<open>Date.UTC\<close>; a year from 0 to 99 is of the twentieth century.\<close>

definition date_UTC :: "int \<Rightarrow> int \<Rightarrow> int \<Rightarrow> int \<Rightarrow> int \<Rightarrow> int \<Rightarrow> int \<Rightarrow> int option" where
  "date_UTC y mo d h mi s ms =
     time_clip (MS_DAY * make_day (if 0 \<le> y \<and> y \<le> 99 then 1900 + y else y) mo d + make_time h mi s ms)"

definition set_UTC_hours :: "int \<Rightarrow> int \<Rightarrow> int \<Rightarrow> int option" where
  "set_UTC_hours t h m = time_clip (MS_DAY * utc_day t + make_time h m 0 0)"

definition set_UTC_date :: "int \<Rightarrow> int \<Rightarrow> int option" where
  "set_UTC_date t d =
     time_clip (MS_DAY * make_day (utc_year t) (utc_month t) d + t mod MS_DAY)"

section \<open>Text\<close>

fun pad :: "nat \<Rightarrow> nat \<Rightarrow> string" where
  "pad 0 n = []"
| "pad (Suc k) n = pad k (n div 10) @ [digit_char (n mod 10)]"

definition year_text :: "int \<Rightarrow> string" where
  "year_text y =
     (if 0 \<le> y \<and> y \<le> 9999 then pad 4 (nat y)
      else (if y < 0 then CHR ''-'' else CHR ''+'') # pad 6 (nat \<bar>y\<bar>))"

definition clock_text :: "int \<Rightarrow> string" where
  "clock_text r =
     pad 2 (nat (r div MS_HOUR)) @ '':'' @ pad 2 (nat (r div MS_MINUTE mod 60)) @ '':'' @
     pad 2 (nat (r div 1000 mod 60)) @ ''.'' @ pad 3 (nat (r mod 1000)) @ ''Z''"

definition iso_of_ms :: "int \<Rightarrow> iso" where
  "iso_of_ms t =
     year_text (utc_year t) @ ''-'' @ pad 2 (nat (utc_month t + 1)) @ ''-'' @ pad 2 (nat (utc_date t)) @ ''T'' @
     clock_text (t mod MS_DAY)"

definition num_at :: "string \<Rightarrow> nat \<Rightarrow> nat \<Rightarrow> int" where
  "num_at s i k = int (digits_value (take k (drop i s)))"

definition date_parse :: "iso \<Rightarrow> int option" where
  "date_parse s =
     (let t = MS_DAY * make_day (num_at s 0 4) (num_at s 5 2 - 1) (num_at s 8 2) +
              make_time (num_at s 11 2) (num_at s 14 2) (num_at s 17 2) (num_at s 20 3)
      in if length s = 24 \<and> iso_of_ms t = s then Some t else None)"

section \<open>Lemmas on the calendar\<close>

lemma int_div_succ:
  assumes "(0::int) < k"
  shows "(x + 1) div k = x div k + (if (x + 1) mod k = 0 then 1 else 0)"
proof -
  let ?q = "x div k" and ?r = "x mod k"
  have x: "x + 1 = k * ?q + (?r + 1)" by simp
  have r: "0 \<le> ?r" "?r < k" using assms by simp_all
  have "(x + 1) div k = ?q + (?r + 1) div k" using assms by (subst x) (simp only: div_mult_self4)
  moreover have "(x + 1) mod k = (?r + 1) mod k" by (subst x) (simp only: mod_mult_self4)
  moreover have "(?r + 1) div k = (if (?r + 1) mod k = 0 then 1 else 0)"
  proof (cases "?r + 1 = k")
    case True
    with assms show ?thesis by simp
  next
    case False
    with r have "?r + 1 < k" by simp
    with r show ?thesis by (simp add: div_pos_pos_trivial mod_pos_pos_trivial)
  qed
  ultimately show ?thesis by simp
qed

lemma mod_shift_zero: "k dvd c \<Longrightarrow> ((y::int) - c) mod k = 0 \<longleftrightarrow> y mod k = 0"
  by (simp add: dvd_eq_mod_eq_0 [symmetric] dvd_diff_left_iff)

definition one_if :: "bool \<Rightarrow> int" where
  "one_if p = (if p then 1 else 0)"

lemma leap_count:
  "one_if (y mod 4 = 0) - one_if (y mod 100 = 0) + one_if (y mod 400 = 0) = one_if (leap_year y)"
proof -
  have e: "(400::int) = 4 * 25 * 4" "(100::int) = 4 * 25" by simp_all
  have trans: "y mod (a * b) = 0 \<longrightarrow> y mod a = 0" for a b by (metis dvd_eq_mod_eq_0 dvd_mult_left)
  have "(q \<longrightarrow> p) \<Longrightarrow> (r \<longrightarrow> q) \<Longrightarrow> one_if p - one_if q + one_if r = one_if (p \<and> (\<not> q \<or> r))" for p q r
    by (cases p; cases q; cases r) (simp_all add: one_if_def)
  from this [OF trans trans] show ?thesis unfolding leap_year_def e .
qed

lemma div_next:
  assumes "(0::int) < k" and "k dvd c"
  shows "(y + 1 - (c + 1)) div k = (y - (c + 1)) div k + one_if (y mod k = 0)"
proof -
  have "y - (c + 1) + 1 = y - c" "y + 1 - (c + 1) = y - c" by simp_all
  with int_div_succ [OF assms(1), of "y - (c + 1)"] mod_shift_zero [OF assms(2), of y] show ?thesis
    by (simp only: one_if_def)
qed

lemma day_from_year_succ: "day_from_year (y + 1) = day_from_year y + year_days y"
proof -
  have c: "(1969::int) = 1968 + 1" "(1901::int) = 1900 + 1" "(1601::int) = 1600 + 1" by simp_all
  have 4: "(y + 1 - 1969) div 4 = (y - 1969) div 4 + one_if (y mod 4 = 0)"
    unfolding c by (rule div_next) simp_all
  have 100: "(y + 1 - 1901) div 100 = (y - 1901) div 100 + one_if (y mod 100 = 0)"
    unfolding c by (rule div_next) simp_all
  have 400: "(y + 1 - 1601) div 400 = (y - 1601) div 400 + one_if (y mod 400 = 0)"
    unfolding c by (rule div_next) simp_all
  have d: "year_days y = 365 + one_if (leap_year y)" by (simp add: year_days_def one_if_def)
  have "a' = a + p \<Longrightarrow> b' = b + q \<Longrightarrow> c' = c + r \<Longrightarrow> d = 365 + l \<Longrightarrow> p - q + r = l \<Longrightarrow>
      365 * (y + 1 - 1970) + a' - b' + c' = 365 * (y - 1970) + a - b + c + d" for a a' b b' c c' d l p q r :: int
    by (simp add: algebra_simps)
  from this [OF 4 100 400 d leap_count] show ?thesis unfolding day_from_year_def .
qed

lemma day_from_year_less: "a < b \<Longrightarrow> day_from_year a < day_from_year b"
proof (induction "nat (b - a)" arbitrary: b)
  case 0
  then show ?case by simp
next
  case (Suc k)
  have "day_from_year (b - 1) < day_from_year b"
    using day_from_year_succ [of "b - 1"] by (simp add: year_days_def split: if_splits)
  moreover have "day_from_year a < day_from_year (b - 1)" if "a < b - 1"
    using Suc.hyps(1) [of "b - 1"] Suc.hyps(2) that by simp
  ultimately show ?case using Suc.prems by (cases "a = b - 1") auto
qed

lemma day_from_year_le: "a \<le> b \<Longrightarrow> day_from_year a \<le> day_from_year b"
  using day_from_year_less [of a b] by (cases "a = b") auto

lemma day_from_year_bounds:
  "146097 * (y - 1970) - 506 \<le> 400 * day_from_year y"
  "400 * day_from_year y \<le> 146097 * (y - 1970) + 589"
proof -
  have "k * (x div k) \<le> x" "x - k < k * (x div k)" if "0 < k" for x k :: int
    using that pos_mod_bound [of k x] pos_mod_sign [of k x] minus_mod_eq_mult_div [of x k] by linarith+
  from this [of 4 "y - 1969"] this [of 100 "y - 1901"] this [of 400 "y - 1601"]
  have "4 * ((y - 1969) div 4) \<le> y - 1969" "y - 1972 \<le> 4 * ((y - 1969) div 4)"
    "100 * ((y - 1901) div 100) \<le> y - 1901" "y - 2000 \<le> 100 * ((y - 1901) div 100)"
    "400 * ((y - 1601) div 400) \<le> y - 1601" "y - 2000 \<le> 400 * ((y - 1601) div 400)"
    by simp_all
  then show "146097 * (y - 1970) - 506 \<le> 400 * day_from_year y"
    "400 * day_from_year y \<le> 146097 * (y - 1970) + 589"
    unfolding day_from_year_def by (simp_all add: algebra_simps)
qed

lemma year_of_day: "day_from_year (year_of_day n) \<le> n" "n < day_from_year (year_of_day n + 1)"
proof -
  define q where "q = (400 * n) div 146097"
  have q: "146097 * q \<le> 400 * n" "400 * n < 146097 * (q + 1)"
    using pos_mod_bound [of 146097 "400 * n"] pos_mod_sign [of 146097 "400 * n"] minus_mod_eq_mult_div [of "400 * n" 146097]
    unfolding q_def distrib_left by linarith+
  have lo: "day_from_year (1970 + q - 1) \<le> n" using day_from_year_bounds(2) [of "1970 + q - 1"] q by simp
  have hi: "n < day_from_year (1970 + q + 1 + 1)" using day_from_year_bounds(1) [of "1970 + q + 1 + 1"] q by simp
  show "day_from_year (year_of_day n) \<le> n" "n < day_from_year (year_of_day n + 1)"
    unfolding year_of_day_def Let_def q_def [symmetric] using lo hi by auto
qed

lemma year_of_day_unique:
  assumes "day_from_year y \<le> n" and "n < day_from_year (y + 1)"
  shows "year_of_day n = y"
proof (rule ccontr)
  assume "year_of_day n \<noteq> y"
  then consider "year_of_day n + 1 \<le> y" | "y + 1 \<le> year_of_day n" by linarith
  then show False
  proof cases
    case 1
    from day_from_year_le [OF this] assms year_of_day [of n] show False by linarith
  next
    case 2
    from day_from_year_le [OF this] assms year_of_day [of n] show False by linarith
  qed
qed

lemma year_of_day_mono:
  assumes "a \<le> b"
  shows "year_of_day a \<le> year_of_day b"
proof (rule ccontr)
  assume "\<not> year_of_day a \<le> year_of_day b"
  then have "year_of_day b + 1 \<le> year_of_day a" by linarith
  from day_from_year_le [OF this] assms year_of_day [of a] year_of_day [of b] show False by linarith
qed

lemma day_of_year_range: "0 \<le> n - day_from_year (year_of_day n)" "n - day_from_year (year_of_day n) < year_days (year_of_day n)"
  using year_of_day [of n] by (simp_all add: day_from_year_succ)

section \<open>Lemmas on months\<close>

lemma filter_sorted_takeWhile: "sorted ss \<Longrightarrow> filter (\<lambda>s. s \<le> r) ss = takeWhile (\<lambda>s. s \<le> r) ss"
  for ss :: "int list"
proof (induction ss)
  case (Cons a ss)
  have "filter (\<lambda>s. s \<le> r) ss = []" if "\<not> a \<le> r" using Cons.prems that by (auto simp: filter_empty_conv)
  with Cons show ?case by (cases "a \<le> r") simp_all
qed simp

text \<open>The cut of a sorted list at a bound its first element satisfies.\<close>

lemma sorted_cut:
  fixes ss :: "int list"
  assumes "sorted ss" and "ss \<noteq> []" and "hd ss \<le> r" and k: "k = length (filter (\<lambda>s. s \<le> r) ss)"
  shows "0 < k" and "k \<le> length ss" and "ss ! (k - 1) \<le> r" and "k < length ss \<Longrightarrow> r < ss ! k"
proof -
  have t: "k = length (takeWhile (\<lambda>s. s \<le> r) ss)" using k filter_sorted_takeWhile [OF assms(1)] by simp
  show pos: "0 < k" using assms(2,3) unfolding t by (cases ss) auto
  show "k \<le> length ss" unfolding t by (rule length_takeWhile_le)
  have "takeWhile (\<lambda>s. s \<le> r) ss ! (k - 1) \<in> set (takeWhile (\<lambda>s. s \<le> r) ss)"
    by (rule nth_mem) (use pos t in simp)
  then have "takeWhile (\<lambda>s. s \<le> r) ss ! (k - 1) \<le> r" by (rule set_takeWhileD [THEN conjunct2])
  moreover have "takeWhile (\<lambda>s. s \<le> r) ss ! (k - 1) = ss ! (k - 1)"
    by (rule takeWhile_nth) (use pos t in simp)
  ultimately show "ss ! (k - 1) \<le> r" by (simp only:)
  show "r < ss ! k" if "k < length ss"
    using nth_length_takeWhile [of "\<lambda>s. s \<le> r" ss] that unfolding t by simp
qed

lemma month_starts_facts:
  "sorted (month_starts leap)" "length (month_starts leap) = 12" "hd (month_starts leap) = 0"
  "month_starts leap \<noteq> []" "month_starts leap ! 0 = 0"
  by (cases leap; simp add: month_starts_def)+

lemma month_length: "i < 11 \<Longrightarrow> month_starts leap ! Suc i \<le> month_starts leap ! i + 31"
proof -
  have "list_all (\<lambda>i. month_starts leap ! Suc i \<le> month_starts leap ! i + 31) [0..<11]"
    by (cases leap) (simp_all add: month_starts_def upt_rec)
  then show "i < 11 \<Longrightarrow> ?thesis" by (simp add: list_all_iff)
qed

lemma december: "year_days y = month_starts (leap_year y) ! 11 + 31"
  by (cases "leap_year y") (simp_all add: month_starts_def year_days_def)

lemma month_of_day:
  defines "ms n \<equiv> month_starts (leap_year (year_of_day n))" and "m n \<equiv> nat (month_of_day n)"
  shows "0 \<le> month_of_day n" and "month_of_day n < 12" and "day_from_year (year_of_day n) + ms n ! m n \<le> n"
    and "m n < 11 \<Longrightarrow> n < day_from_year (year_of_day n) + ms n ! Suc (m n)"
proof -
  let ?r = "n - day_from_year (year_of_day n)"
  let ?k = "length (filter (\<lambda>s. s \<le> ?r) (ms n))"
  have 0: "0 \<le> ?r" by (rule day_of_year_range)
  note cut = sorted_cut [OF month_starts_facts(1,4), of "leap_year (year_of_day n)" ?r ?k, folded ms_def,
      unfolded ms_def month_starts_facts(2,3), folded ms_def]
  have c: "0 < ?k" "?k \<le> 12" "ms n ! (?k - 1) \<le> ?r" "?k < 12 \<Longrightarrow> ?r < ms n ! ?k"
    using cut 0 by (simp_all add: ms_def)
  have m: "month_of_day n = int ?k - 1" by (simp add: month_of_day_def Let_def ms_def)
  then have mn: "m n = ?k - 1" using c(1) by (simp add: m_def)
  show "0 \<le> month_of_day n" "month_of_day n < 12" using m c(1,2) by linarith+
  show "day_from_year (year_of_day n) + ms n ! m n \<le> n" using c(3) by (simp add: mn)
  show "n < day_from_year (year_of_day n) + ms n ! Suc (m n)" if "m n < 11"
  proof -
    from that c(1) have "?k < 12" unfolding mn by linarith
    from c(4) [OF this] c(1) show ?thesis unfolding mn by simp
  qed
qed

lemma make_day_month: "0 \<le> m \<Longrightarrow> m < 12 \<Longrightarrow> make_day y m d = day_from_year y + month_starts (leap_year y) ! nat m + d - 1"
  by (simp add: make_day_def Let_def)

lemma make_day_start: "make_day (year_of_day n) (month_of_day n) 1 \<le> n"
  using month_of_day [of n] by (simp add: make_day_month)

lemma make_day_next_year: "make_day y 12 d = day_from_year (y + 1) + d - 1"
  by (simp add: make_day_def Let_def month_starts_facts)

lemma make_day_next_month: "n < make_day (year_of_day n) (month_of_day n + 1) 1"
proof (cases "month_of_day n < 11")
  case True
  with month_of_day [of n] show ?thesis by (simp add: make_day_month nat_add_distrib)
next
  case False
  with month_of_day(2) [of n] have "month_of_day n + 1 = 12" by simp
  with year_of_day(2) [of n] show ?thesis by (simp add: make_day_next_year)
qed

lemma make_day_date [simp]: "make_day (year_of_day n) (month_of_day n) (date_of_day n) = n"
  by (simp add: date_of_day_def make_day_def Let_def)

lemma make_day_add: "make_day y m (d + k) = make_day y m d + k"
  by (simp add: make_day_def Let_def)

lemma date_of_day_range: "1 \<le> date_of_day n" "date_of_day n \<le> 31"
proof -
  let ?y = "year_of_day n" and ?m = "nat (month_of_day n)"
  have start: "make_day ?y (month_of_day n) 1 = day_from_year ?y + month_starts (leap_year ?y) ! ?m"
    using month_of_day(1,2) [of n] by (simp add: make_day_month)
  show "1 \<le> date_of_day n" using make_day_start [of n] by (simp add: date_of_day_def)
  have "n < day_from_year ?y + month_starts (leap_year ?y) ! ?m + 31"
  proof (cases "?m < 11")
    case True
    from month_of_day(4) [OF this] month_length [OF this, of "leap_year ?y"] show ?thesis by linarith
  next
    case False
    with month_of_day(1,2) [of n] have "?m = 11" by simp
    with day_of_year_range(2) [of n] december [of ?y] show ?thesis by simp
  qed
  then show "date_of_day n \<le> 31" unfolding date_of_day_def start by simp
qed

text \<open>A day up to the 28th belongs to its month and year.\<close>

lemma month_starts_mono: "0 \<le> a \<Longrightarrow> a \<le> b \<Longrightarrow> b < 12 \<Longrightarrow> month_starts leap ! nat a \<le> month_starts leap ! nat b"
  by (intro sorted_nth_mono month_starts_facts) (simp_all add: month_starts_facts)

lemma month_at_least_28: "i < 11 \<Longrightarrow> month_starts leap ! i + 28 \<le> month_starts leap ! Suc i"
proof -
  have "list_all (\<lambda>i. month_starts leap ! i + 28 \<le> month_starts leap ! Suc i) [0..<11]"
    by (cases leap) (simp_all add: month_starts_def upt_rec)
  then show "i < 11 \<Longrightarrow> ?thesis" by (simp add: list_all_iff)
qed

lemma make_day_inverse:
  assumes "0 \<le> m" and "m < 12" and "1 \<le> d" and "d \<le> 28"
  shows "year_of_day (make_day y m d) = y" and "month_of_day (make_day y m d) = m"
proof -
  let ?n = "make_day y m d" and ?ms = "month_starts (leap_year y)"
  have n: "?n = day_from_year y + ?ms ! nat m + d - 1" using assms by (simp add: make_day_month)
  have "?ms ! nat 0 \<le> ?ms ! nat m" "?ms ! nat m \<le> ?ms ! nat 11" using assms by (intro month_starts_mono; simp)+
  then show y: "year_of_day ?n = y"
    using assms december [of y] by (intro year_of_day_unique) (simp_all add: n day_from_year_succ month_starts_facts)
  note M = month_of_day [of ?n, unfolded y]
  show "month_of_day ?n = m"
  proof (rule ccontr)
    assume "month_of_day ?n \<noteq> m"
    then consider "month_of_day ?n + 1 \<le> m" | "m + 1 \<le> month_of_day ?n" by linarith
    then show False
    proof cases
      case 1
      then have "?ms ! nat (month_of_day ?n + 1) \<le> ?ms ! nat m" using M assms by (intro month_starts_mono) simp_all
      moreover have "nat (month_of_day ?n) < 11" using 1 assms(2) by linarith
      from M(4) [OF this] have "?n < day_from_year y + ?ms ! nat (month_of_day ?n + 1)"
        using M(1) by (simp add: nat_add_distrib)
      moreover have "day_from_year y + ?ms ! nat m \<le> ?n" using n assms(3) by linarith
      ultimately show False by linarith
    next
      case 2
      then have "?ms ! nat (m + 1) \<le> ?ms ! nat (month_of_day ?n)" using M assms by (intro month_starts_mono) simp_all
      moreover have "?ms ! nat m + 28 \<le> ?ms ! Suc (nat m)" using 2 M(2) assms by (intro month_at_least_28) linarith
      ultimately show False using M(3) assms by (simp add: n nat_add_distrib)
    qed
  qed
qed

lemma year_after_epoch: "0 \<le> n \<Longrightarrow> 1970 \<le> year_of_day n"
  using year_of_day_mono [of 0 n] by (simp add: year_of_day_def day_from_year_def)

section \<open>Lemmas on instants\<close>

text \<open>The instants of the years 0 to 9999, whose text has four digits of year.\<close>

definition four_digit_year :: "int \<Rightarrow> bool" where
  "four_digit_year t \<longleftrightarrow> 0 \<le> utc_year t \<and> utc_year t \<le> 9999"

lemma length_pad [simp]: "length (pad k n) = k"
  by (induction k arbitrary: n) simp_all

lemma digits_value_pad: "n < 10 ^ k \<Longrightarrow> digits_value (pad k n) = n"
proof (induction k arbitrary: n)
  case 0
  then show ?case by (simp add: digits_value_def)
next
  case (Suc k)
  from Suc.prems have "n div 10 < 10 ^ k" by (simp add: less_mult_imp_div_less mult.commute)
  with Suc.IH show ?case by simp
qed

lemma mixed_radix:
  "r = 1000 * s + d \<Longrightarrow> s = 60 * m + c \<Longrightarrow> m = 60 * h + b \<Longrightarrow> make_time h b c d = r"
  unfolding make_time_def ms_defs by (simp add: algebra_simps)

lemma clock_decompose:
  "make_time (r div MS_HOUR) (r div MS_MINUTE mod 60) (r div 1000 mod 60) (r mod 1000) = r"
proof -
  have "r div MS_MINUTE = r div 1000 div 60"
    by (subst zdiv_zmult2_eq [symmetric]) (simp_all add: ms_defs)
  moreover have "r div MS_HOUR = r div MS_MINUTE div 60"
    unfolding ms_defs by (subst zdiv_zmult2_eq [symmetric]) simp_all
  moreover have "x = k * (x div k) + x mod k" for x k :: int by (rule mult_div_mod_eq [symmetric])
  ultimately show ?thesis by (intro mixed_radix [of r "r div 1000" _ "r div MS_MINUTE"]) simp_all
qed

lemma div_range:
  assumes "(0::int) < k" and "0 \<le> r" and "r < k * n"
  shows "0 \<le> r div k" and "r div k < n"
proof -
  have "k * (r div k) \<le> r"
    using pos_mod_sign [OF assms(1), of r] minus_mod_eq_mult_div [of r k] by linarith
  with assms(3) have "k * (r div k) < k * n" by linarith
  with assms(1) show "r div k < n" by simp
  show "0 \<le> r div k" using assms by (simp add: pos_imp_zdiv_nonneg_iff)
qed

lemma day_time: "MS_DAY * utc_day t + t mod MS_DAY = t"
  unfolding utc_day_def by (rule mult_div_mod_eq)

lemma time_of_day_range: "0 \<le> t mod MS_DAY" "t mod MS_DAY < MS_DAY"
  by (simp_all add: ms_defs)

lemma utc_components: "make_day (utc_year t) (utc_month t) (utc_date t) = utc_day t"
  by (simp add: utc_year_def utc_month_def utc_date_def)

lemma utc_ranges: "0 \<le> utc_month t" "utc_month t < 12" "1 \<le> utc_date t" "utc_date t \<le> 31"
  using month_of_day(1,2) date_of_day_range by (simp_all add: utc_month_def utc_date_def)

section \<open>Reading back what was written\<close>

definition iso_fields :: "int \<Rightarrow> int \<Rightarrow> int \<Rightarrow> int \<Rightarrow> int \<Rightarrow> int \<Rightarrow> int \<Rightarrow> string" where
  "iso_fields y mo d h mi sec ms =
     year_text y @ ''-'' @ pad 2 (nat mo) @ ''-'' @ pad 2 (nat d) @ ''T'' @ pad 2 (nat h) @ '':'' @
     pad 2 (nat mi) @ '':'' @ pad 2 (nat sec) @ ''.'' @ pad 3 (nat ms) @ ''Z''"

lemma iso_of_ms_fields:
  "iso_of_ms t = iso_fields (utc_year t) (utc_month t + 1) (utc_date t) (t mod MS_DAY div MS_HOUR)
     (t mod MS_DAY div MS_MINUTE mod 60) (t mod MS_DAY div 1000 mod 60) (t mod MS_DAY mod 1000)"
  unfolding iso_of_ms_def clock_text_def iso_fields_def by simp

lemma num_at_pad:
  "0 \<le> n \<Longrightarrow> n < 10 ^ k \<Longrightarrow> take k (drop i s) = pad k (nat n) \<Longrightarrow> num_at s i k = n"
  by (simp add: num_at_def digits_value_pad nat_less_iff)

lemma iso_fields_read:
  assumes "0 \<le> y" "y \<le> 9999" "0 \<le> mo" "mo < 100" "0 \<le> d" "d < 100" "0 \<le> h" "h < 100"
    and "0 \<le> mi" "mi < 100" "0 \<le> sec" "sec < 100" "0 \<le> ms" "ms < 1000"
  defines "s \<equiv> iso_fields y mo d h mi sec ms"
  shows "length s = 24" "num_at s 0 4 = y" "num_at s 5 2 = mo" "num_at s 8 2 = d" "num_at s 11 2 = h"
    "num_at s 14 2 = mi" "num_at s 17 2 = sec" "num_at s 20 3 = ms"
  unfolding s_def using assms(1-14)
  by (simp_all add: iso_fields_def year_text_def num_at_def digits_value_pad nat_less_iff del: pad.simps)

lemma date_parse_iso:
  assumes "0 \<le> utc_year t" and "utc_year t \<le> 9999"
  shows "date_parse (iso_of_ms t) = Some t"
proof -
  let ?r = "t mod MS_DAY"
  have h: "0 \<le> ?r div MS_HOUR" "?r div MS_HOUR < 24"
    using div_range [of MS_HOUR ?r 24] time_of_day_range [of t] by (simp_all add: ms_defs)
  have m: "0 \<le> x mod k" "0 < k \<Longrightarrow> k \<le> n \<Longrightarrow> x mod k < n" if "0 < k" for x k n :: int
    using that pos_mod_sign [of k x] pos_mod_bound [of k x] by linarith+
  have "length (iso_of_ms t) = 24" "num_at (iso_of_ms t) 0 4 = utc_year t" "num_at (iso_of_ms t) 5 2 = utc_month t + 1"
    "num_at (iso_of_ms t) 8 2 = utc_date t" "num_at (iso_of_ms t) 11 2 = ?r div MS_HOUR"
    "num_at (iso_of_ms t) 14 2 = ?r div MS_MINUTE mod 60" "num_at (iso_of_ms t) 17 2 = ?r div 1000 mod 60"
    "num_at (iso_of_ms t) 20 3 = ?r mod 1000"
    unfolding iso_of_ms_fields
    by (rule iso_fields_read; use assms utc_ranges [of t] h in \<open>(rule m; simp) | linarith\<close>)+
  then show ?thesis
    unfolding date_parse_def Let_def
    by (simp only: add_diff_cancel_right' utc_components clock_decompose day_time simp_thms if_True)
qed

section \<open>The order of instants is the order of their texts\<close>

lemma append_less: "p @ (x::string) < p @ y \<longleftrightarrow> x < y"
  by (induction p) simp_all

lemma digit_char_less: "a < b \<Longrightarrow> b < 10 \<Longrightarrow> digit_char a < digit_char b"
  by (simp add: digit_char_def less_char_def)

lemma pad_less: "a < b \<Longrightarrow> b < 10 ^ k \<Longrightarrow> pad k a @ x < pad k b @ y"
proof (induction k arbitrary: a b x y)
  case 0
  then show ?case by simp
next
  case (Suc k)
  from Suc.prems have bound: "b div 10 < 10 ^ k" by (simp add: less_mult_imp_div_less mult.commute)
  show ?case
  proof (cases "a div 10 < b div 10")
    case True
    with Suc.IH [OF True bound] show ?thesis by simp
  next
    case False
    with Suc.prems(1) have eq: "a div 10 = b div 10" by (meson div_le_mono le_antisym less_imp_le not_le)
    with Suc.prems(1) have "a mod 10 < b mod 10" by (metis div_mult_mod_eq nat_add_left_cancel_less)
    with eq show ?thesis by (simp add: append_less digit_char_less)
  qed
qed

lemma div_mod_less:
  assumes "(0::int) < k" and "a < b"
  shows "a div k < b div k \<or> a div k = b div k \<and> a mod k < b mod k"
proof (cases "a div k = b div k")
  case True
  then have "a mod k < b mod k" using assms(2) by (metis add_less_cancel_left mult_div_mod_eq)
  with True show ?thesis by simp
next
  case False
  moreover have "a div k \<le> b div k" using assms by (simp add: zdiv_mono1)
  ultimately show ?thesis by simp
qed

lemma pad_less_int: "0 \<le> a \<Longrightarrow> a < b \<Longrightarrow> b < 10 ^ k \<Longrightarrow> pad k (nat a) @ x < pad k (nat b) @ y"
  by (rule pad_less) (simp_all add: nat_less_iff)

lemma iso_fields_less:
  assumes "0 \<le> y" "y' \<le> 9999" "0 \<le> mo" "mo' < 100" "0 \<le> d" "d' < 100" "0 \<le> h" "h' < 100"
    and "0 \<le> mi" "mi' < 100" "0 \<le> sec" "sec' < 100" "0 \<le> ms" "ms' < 1000"
    and "y < y' \<or> y = y' \<and> (mo < mo' \<or> mo = mo' \<and> (d < d' \<or> d = d' \<and> (h < h' \<or> h = h' \<and>
      (mi < mi' \<or> mi = mi' \<and> (sec < sec' \<or> sec = sec' \<and> ms < ms')))))"
  shows "iso_fields y mo d h mi sec ms < iso_fields y' mo' d' h' mi' sec' ms'"
proof -
  have Y: "year_text y = pad 4 (nat y)" "year_text y' = pad 4 (nat y')" using assms by (auto simp: year_text_def)
  show ?thesis
    unfolding iso_fields_def Y using assms
    by - (elim disjE conjE; hypsubst?; (simp only: append_less)?; rule pad_less_int; simp)
qed

lemma month_of_day_mono:
  assumes "n < n'" and "year_of_day n = year_of_day n'"
  shows "month_of_day n \<le> month_of_day n'"
proof (rule ccontr)
  assume "\<not> ?thesis"
  then have "month_of_day n' + 1 \<le> month_of_day n" by simp
  moreover have "month_starts leap ! nat a \<le> month_starts leap ! nat b" if "0 \<le> a" "a \<le> b" "b < 12" for a b leap
    using that by (intro sorted_nth_mono month_starts_facts) (simp_all add: month_starts_facts)
  ultimately have "make_day (year_of_day n) (month_of_day n' + 1) 1 \<le> make_day (year_of_day n) (month_of_day n) 1"
    using month_of_day(1,2) [of n] month_of_day(1) [of n'] by (simp add: make_day_month)
  with make_day_next_month [of n'] make_day_start [of n] assms show False by simp
qed

lemma civil_less:
  assumes "n < n'"
  shows "year_of_day n < year_of_day n' \<or> year_of_day n = year_of_day n' \<and>
    (month_of_day n < month_of_day n' \<or> month_of_day n = month_of_day n' \<and> date_of_day n < date_of_day n')"
  using assms year_of_day_mono [of n n'] month_of_day_mono [OF assms]
  by (auto simp: date_of_day_def less_le)

lemma iso_less:
  assumes "t < t'" and "0 \<le> utc_year t" and "utc_year t' \<le> 9999"
  shows "iso_of_ms t < iso_of_ms t'"
proof -
  let ?r = "t mod MS_DAY" and ?r' = "t' mod MS_DAY"
  have pos: "0 < MS_DAY" "0 < MS_HOUR" "0 < MS_MINUTE" by (simp_all add: ms_defs)
  have h: "0 \<le> x mod MS_DAY div MS_HOUR" "x mod MS_DAY div MS_HOUR < 24" for x
    using div_range [of MS_HOUR "x mod MS_DAY" 24] time_of_day_range [of x] by (simp_all add: ms_defs)
  have m: "0 \<le> x mod k" "0 < k \<Longrightarrow> k \<le> n \<Longrightarrow> x mod k < n" if "0 < k" for x k n :: int
    using that pos_mod_sign [of k x] pos_mod_bound [of k x] by linarith+
  have q: "x div 1000 div 60 = x div MS_MINUTE" "x div MS_MINUTE div 60 = x div MS_HOUR" for x
    unfolding ms_defs by (subst zdiv_zmult2_eq [symmetric]; simp)+
  have clock: "?r div MS_HOUR < ?r' div MS_HOUR \<or> ?r div MS_HOUR = ?r' div MS_HOUR \<and>
      (?r div MS_MINUTE mod 60 < ?r' div MS_MINUTE mod 60 \<or> ?r div MS_MINUTE mod 60 = ?r' div MS_MINUTE mod 60 \<and>
       (?r div 1000 mod 60 < ?r' div 1000 mod 60 \<or> ?r div 1000 mod 60 = ?r' div 1000 mod 60 \<and> ?r mod 1000 < ?r' mod 1000))"
    if "?r < ?r'"
  proof -
    have "?r div 1000 < ?r' div 1000 \<or> ?r div 1000 = ?r' div 1000 \<and> ?r mod 1000 < ?r' mod 1000"
      using that by (intro div_mod_less) simp_all
    moreover have "a < b \<Longrightarrow> a div 60 < b div 60 \<or> a div 60 = b div 60 \<and> a mod 60 < b mod 60" for a b :: int
      by (rule div_mod_less) simp_all
    ultimately show ?thesis using q by metis
  qed
  have "utc_day t < utc_day t' \<or> utc_day t = utc_day t' \<and> ?r < ?r'"
    unfolding utc_day_def by (rule div_mod_less [OF pos(1) assms(1)])
  then have "utc_year t < utc_year t' \<or> utc_year t = utc_year t' \<and> (utc_month t + 1 < utc_month t' + 1 \<or>
      utc_month t + 1 = utc_month t' + 1 \<and> (utc_date t < utc_date t' \<or> utc_date t = utc_date t' \<and> ?r < ?r'))"
    using civil_less [of "utc_day t" "utc_day t'"] by (auto simp: utc_year_def utc_month_def utc_date_def)
  then have less: "utc_year t < utc_year t' \<or> utc_year t = utc_year t' \<and> (utc_month t + 1 < utc_month t' + 1 \<or>
      utc_month t + 1 = utc_month t' + 1 \<and> (utc_date t < utc_date t' \<or> utc_date t = utc_date t' \<and>
      (?r div MS_HOUR < ?r' div MS_HOUR \<or> ?r div MS_HOUR = ?r' div MS_HOUR \<and>
      (?r div MS_MINUTE mod 60 < ?r' div MS_MINUTE mod 60 \<or> ?r div MS_MINUTE mod 60 = ?r' div MS_MINUTE mod 60 \<and>
       (?r div 1000 mod 60 < ?r' div 1000 mod 60 \<or> ?r div 1000 mod 60 = ?r' div 1000 mod 60 \<and> ?r mod 1000 < ?r' mod 1000)))))"
    using clock by blast
  show ?thesis
    unfolding iso_of_ms_fields
    by (rule iso_fields_less [OF _ _ _ _ _ _ _ _ _ _ _ _ _ _ less];
      use assms utc_ranges [of t] utc_ranges [of t'] h [of t] h [of t'] in \<open>(rule m; simp) | linarith\<close>)
qed

lemma iso_less_iff:
  assumes "0 \<le> utc_year t" "utc_year t \<le> 9999" "0 \<le> utc_year t'" "utc_year t' \<le> 9999"
  shows "iso_of_ms t < iso_of_ms t' \<longleftrightarrow> t < t'"
  using iso_less [of t t'] iso_less [of t' t] assms by (metis less_asym linorder_neqE)

lemma iso_le_iff:
  assumes "0 \<le> utc_year t" "utc_year t \<le> 9999" "0 \<le> utc_year t'" "utc_year t' \<le> 9999"
  shows "iso_of_ms t \<le> iso_of_ms t' \<longleftrightarrow> t \<le> t'"
  using iso_less_iff [OF assms(3,4,1,2)] by (simp add: not_less [symmetric])

end
