(* ===== verification/Scheduler.thy ===== *)
theory Scheduler
  imports ConfigScope JsNumber JsDate
begin

text \<open>
  \<open>scheduler.ts\<close>: the recurrence rules of export schedules and the operations that keep
  \<open>next_run_at\<close>.  An invalid \<open>Date\<close> is \<open>None\<close>; it compares false with every date, and
  \<open>toISOString\<close> throws on it.  The stored configuration is a text with its parse, if it has one.
\<close>

section \<open>Schedules\<close>

record json_text =
  jt_text :: string
  jt_json :: "json option"

record schedule_row =
  sch_id :: string
  sch_name :: string
  sch_description :: "string option"
  sch_scope :: string
  sch_group :: "string option"
  sch_vin :: "vin option"
  sch_time_range :: string
  sch_format :: string
  sch_recurrence :: string
  sch_config :: "json_text option"
  sch_recipients :: string
  sch_email_template :: "string option"
  sch_enabled :: bool
  sch_created_by :: "string option"
  sch_created_at :: iso
  sch_updated_at :: iso
  sch_next_run_at :: "iso option"
  sch_last_run_at :: "iso option"
  sch_last_run_status :: "string option"

record schedule_db = config_db +
  schedules :: "schedule_row list"

text \<open>The groups the schedules name hold: a group that one of them names cannot be deleted.\<close>

definition scheduled_groups :: "schedule_row list \<Rightarrow> string list" where
  "scheduled_groups rows = List.map_filter sch_group rows"

lemma deleteVehicleGroup_schedules:
  assumes "deleteVehicleGroup (scheduled_groups (schedules db)) i db = Inr (n, db')"
    and "set (scheduled_groups (schedules db)) \<subseteq> g_id ` set (groups db)"
  shows "schedules db' = schedules db \<and> set (scheduled_groups (schedules db')) \<subseteq> g_id ` set (groups db')"
proof (cases "i \<in> g_id ` set (groups db)")
  case True
  then have "list_ex (\<lambda>g. g_id g = i) (groups db)" by (auto simp: list_ex_iff)
  with assms(1) have "i \<notin> set (scheduled_groups (schedules db))"
    and db': "schedules db' = schedules db" "groups db' = filter (\<lambda>g. g_id g \<noteq> i) (groups db)"
    by (auto simp: deleteVehicleGroup_def delete_where_def Let_def split: if_splits)
  moreover have "g_id ` {g \<in> set (groups db). g_id g \<noteq> i} = g_id ` set (groups db) - {i}" by auto
  ultimately show ?thesis using assms(2) by auto
next
  case False
  then have "schedules db' = schedules db" "groups db' = filter (\<lambda>g. g_id g \<noteq> i) (groups db)"
    using assms(1) by (auto simp: deleteVehicleGroup_def delete_where_def Let_def split: if_splits)
  moreover have "filter (\<lambda>g. g_id g \<noteq> i) (groups db) = groups db" using False by (auto simp: filter_id_conv)
  ultimately show ?thesis using assms(2) by simp
qed

definition parseRecurrenceConfig :: "json_text option \<Rightarrow> json" where
  "parseRecurrenceConfig config =
     (case config of
        None \<Rightarrow> JObj []
      | Some t \<Rightarrow> if jt_text t = [] then JObj []
                 else (case jt_json t of None \<Rightarrow> JObj [] | Some j \<Rightarrow> j))"

section \<open>Reading the configuration\<close>

definition TYPE_ERROR :: string where "TYPE_ERROR = ''TypeError''"
definition RANGE_ERROR :: string where "RANGE_ERROR = ''RangeError: Invalid time value''"

text \<open>\<open>config.time_of_day || '00:00'\<close>, then \<open>split(':').map(Number)\<close>; a missing part is \<open>NaN\<close>.\<close>

definition nth_number :: "string list \<Rightarrow> nat \<Rightarrow> rat option" where
  "nth_number ps i = (if i < length ps then js_number (ps ! i) else None)"

definition time_parts :: "json \<Rightarrow> string + (rat option \<times> rat option)" where
  "time_parts config =
     (let v = js_prop config ''time_of_day'';
          t = (if truthy v then v else Some (JStr ''00:00''))
      in case t of
           Some (JStr s) \<Rightarrow> (let ps = split_on (CHR '':'') s in Inr (nth_number ps 0, nth_number ps 1))
         | _ \<Rightarrow> Inl TYPE_ERROR)"

text \<open>\<open>config.weekdays?.[i] ?? d\<close>, then read as a number.\<close>

definition js_index :: "json option \<Rightarrow> nat \<Rightarrow> json option" where
  "js_index v i =
     (case v of
        Some (JArr xs) \<Rightarrow> if i < length xs then Some (xs ! i) else None
      | Some (JStr s) \<Rightarrow> if i < length s then Some (JStr [s ! i]) else None
      | Some (JObj ps) \<Rightarrow> map_of ps (nat_text i)
      | _ \<Rightarrow> None)"

definition weekday_number :: "json \<Rightarrow> nat \<Rightarrow> rat \<Rightarrow> rat option" where
  "weekday_number config i d =
     (case coalesce (js_index (js_prop config ''weekdays'') i) (Some (JNum d)) of
        Some v \<Rightarrow> js_to_number v
      | None \<Rightarrow> None)"

section \<open>The setters of \<open>Date\<close> with numbers that may be \<open>NaN\<close>\<close>

definition js_set_hours :: "int option \<Rightarrow> rat option \<Rightarrow> rat option \<Rightarrow> int option" where
  "js_set_hours t h m =
     (case (t, h, m) of
        (Some t, Some h, Some m) \<Rightarrow> set_UTC_hours t (js_trunc h) (js_trunc m)
      | _ \<Rightarrow> None)"

definition js_set_date :: "int option \<Rightarrow> rat option \<Rightarrow> int option" where
  "js_set_date t d =
     (case (t, d) of (Some t, Some d) \<Rightarrow> set_UTC_date t (js_trunc d) | _ \<Rightarrow> None)"

definition js_date_UTC :: "rat option \<Rightarrow> rat option \<Rightarrow> rat option \<Rightarrow> rat option \<Rightarrow> rat option \<Rightarrow> rat option \<Rightarrow> int option" where
  "js_date_UTC y mo d h mi s =
     (case (y, mo, d, h, mi, s) of
        (Some y, Some mo, Some d, Some h, Some mi, Some s) \<Rightarrow>
          date_UTC (js_trunc y) (js_trunc mo) (js_trunc d) (js_trunc h) (js_trunc mi) (js_trunc s) 0
      | _ \<Rightarrow> None)"

text \<open>\<open>a <= b\<close> on dates.\<close>

definition date_le :: "int option \<Rightarrow> int \<Rightarrow> bool" where
  "date_le a b = (case a of None \<Rightarrow> False | Some t \<Rightarrow> t \<le> b)"

section \<open>The recurrence rules\<close>

definition next_hourly :: "int option \<Rightarrow> int option" where
  "next_hourly nxt = Option.bind nxt (\<lambda>t. time_clip (- ((- t) div MS_HOUR) * MS_HOUR))"

definition next_daily :: "rat option \<times> rat option \<Rightarrow> int \<Rightarrow> int option \<Rightarrow> int option" where
  "next_daily time from_ms nxt =
     (let t = js_set_hours nxt (fst time) (snd time)
      in if date_le t from_ms then js_set_date t (map_option (\<lambda>t. of_int (utc_date t + 1)) t) else t)"

definition next_weekly :: "rat option \<Rightarrow> rat option \<times> rat option \<Rightarrow> int \<Rightarrow> int option \<Rightarrow> int option" where
  "next_weekly weeklyDay time from_ms nxt =
     (case (js_set_hours nxt (fst time) (snd time), weeklyDay) of
        (Some t, Some d) \<Rightarrow>
          (let daysUntil = js_rem (d - of_int (utc_weekday t) + 7) 7
           in js_set_date (Some t)
                (Some (of_int (utc_date t) + (if daysUntil = 0 \<and> t \<le> from_ms then 7 else daysUntil))))
      | _ \<Rightarrow> None)"

definition capped_day :: "rat option \<Rightarrow> rat option" where
  "capped_day d = map_option (\<lambda>d. min d 28) d"

definition next_monthly :: "rat option \<Rightarrow> rat option \<times> rat option \<Rightarrow> int \<Rightarrow> int option \<Rightarrow> int option" where
  "next_monthly day time from_ms nxt =
     (case nxt of
        None \<Rightarrow> None
      | Some n \<Rightarrow>
          (let t = js_date_UTC (Some (of_int (utc_year n))) (Some (of_int (utc_month n))) day (fst time) (snd time) (Some 0)
           in if date_le t from_ms
              then (case t of
                      None \<Rightarrow> None
                    | Some t \<Rightarrow> js_date_UTC (Some (of_int (utc_year t))) (Some (of_int (utc_month t + 1))) day
                        (fst time) (snd time) (Some 0))
              else t))"

definition next_yearly :: "rat option \<Rightarrow> rat option \<Rightarrow> rat option \<times> rat option \<Rightarrow> int \<Rightarrow> int option \<Rightarrow> int option" where
  "next_yearly month day time from_ms nxt =
     (case nxt of
        None \<Rightarrow> None
      | Some n \<Rightarrow>
          (let t = js_date_UTC (Some (of_int (utc_year n))) month day (fst time) (snd time) (Some 0)
           in if date_le t from_ms
              then (case t of
                      None \<Rightarrow> None
                    | Some t \<Rightarrow> js_date_UTC (Some (of_int (utc_year t + 1))) month day (fst time) (snd time) (Some 0))
              else t))"

text \<open>\<open>h || 0\<close> on a number.\<close>

definition or_zero :: "rat option \<Rightarrow> rat option" where
  "or_zero h = (case h of None \<Rightarrow> Some 0 | Some q \<Rightarrow> Some q)"

definition specific_instant :: "string \<Rightarrow> string option \<Rightarrow> int option" where
  "specific_instant datePart timePart =
     (let ds = split_on (CHR ''-'') datePart;
          time = (case timePart of None \<Rightarrow> ''00:00:00'' | Some t \<Rightarrow> if t = [] then ''00:00:00'' else t);
          ts = split_on (CHR '':'') time
      in js_date_UTC (nth_number ds 0) (map_option (\<lambda>m. m - 1) (nth_number ds 1)) (nth_number ds 2)
           (or_zero (nth_number ts 0)) (or_zero (nth_number ts 1)) (or_zero (nth_number ts 2)))"

text \<open>The seven days the search tries; a candidate that is no date matches no weekday.\<close>

fun find_weekday :: "rat option \<times> rat option \<Rightarrow> json list \<Rightarrow> int \<Rightarrow> int option \<Rightarrow> nat list \<Rightarrow> int option" where
  "find_weekday time targets from_ms nxt [] = None"
| "find_weekday time targets from_ms nxt (i # is) =
     (let candidate = js_set_hours (Option.bind nxt (\<lambda>t. time_clip (t + int i * MS_DAY))) (fst time) (snd time)
      in case candidate of
           Some c \<Rightarrow> if JNum (of_int (utc_weekday c)) \<in> set targets \<and> from_ms < c then Some c
                    else find_weekday time targets from_ms nxt is
         | None \<Rightarrow> find_weekday time targets from_ms nxt is)"

definition to_iso_string :: "int option \<Rightarrow> string + iso option" where
  "to_iso_string d = (case d of None \<Rightarrow> Inl RANGE_ERROR | Some t \<Rightarrow> Inr (Some (iso_of_ms t)))"

definition with_time ::
  "json \<Rightarrow> (rat option \<times> rat option \<Rightarrow> string + iso option) \<Rightarrow> string + iso option" where
  "with_time config f = (case time_parts config of Inl err \<Rightarrow> Inl err | Inr time \<Rightarrow> f time)"

definition run_specific_date :: "json \<Rightarrow> int \<Rightarrow> int option \<Rightarrow> string + iso option" where
  "run_specific_date config from_ms nxt =
     (let v = js_prop config ''specific_date''
      in if \<not> truthy v then to_iso_string nxt
         else (case v of
             Some (JStr s) \<Rightarrow>
               (case split_on (CHR ''T'') s of
                  [] \<Rightarrow> to_iso_string nxt
                | datePart # rest \<Rightarrow>
                    if datePart = [] then to_iso_string nxt
                    else (let t = specific_instant datePart (case rest of [] \<Rightarrow> None | p # _ \<Rightarrow> Some p)
                          in if date_le t from_ms then Inr None else to_iso_string t))
           | _ \<Rightarrow> Inl TYPE_ERROR))"

text \<open>\<open>config.weekdays && config.weekdays.length > 0\<close>; only an array can be sorted.\<close>

definition run_specific_weekdays :: "json \<Rightarrow> int \<Rightarrow> int option \<Rightarrow> string + iso option" where
  "run_specific_weekdays config from_ms nxt =
     (case js_prop config ''weekdays'' of
        Some (JArr targets) \<Rightarrow>
          if targets = [] then to_iso_string nxt
          else with_time config (\<lambda>time.
            (case find_weekday time targets from_ms nxt [0..<7] of
               None \<Rightarrow> Inr None
             | Some t \<Rightarrow> to_iso_string (Some t)))
      | Some (JStr s) \<Rightarrow> if s = [] then to_iso_string nxt else Inl TYPE_ERROR
      | Some (JObj ps) \<Rightarrow>
          (case Option.bind (map_of ps ''length'') js_to_number of
             Some q \<Rightarrow> if 0 < q then Inl TYPE_ERROR else to_iso_string nxt
           | None \<Rightarrow> to_iso_string nxt)
      | _ \<Rightarrow> to_iso_string nxt)"

definition computeNextRun :: "schedule_row \<Rightarrow> int \<Rightarrow> string + iso option" where
  "computeNextRun schedule from_ms =
     (let config = parseRecurrenceConfig (sch_config schedule);
          nxt = time_clip (from_ms + 60000);
          rule = sch_recurrence schedule
      in if rule = ''hourly'' then to_iso_string (next_hourly nxt)
         else if rule \<notin> {''daily'', ''weekly'', ''monthly'', ''yearly'', ''specific_date'', ''specific_weekdays''} then Inr None
         else if config = JNull then Inl TYPE_ERROR
         else if rule = ''daily''
         then with_time config (\<lambda>time. to_iso_string (next_daily time from_ms nxt))
         else if rule = ''weekly''
         then with_time config (\<lambda>time. to_iso_string (next_weekly (weekday_number config 0 0) time from_ms nxt))
         else if rule = ''monthly''
         then with_time config (\<lambda>time.
           to_iso_string (next_monthly (capped_day (weekday_number config 0 1)) time from_ms nxt))
         else if rule = ''yearly''
         then with_time config (\<lambda>time.
           to_iso_string (next_yearly (map_option (\<lambda>m. m - 1) (weekday_number config 0 1))
             (capped_day (weekday_number config 1 1)) time from_ms nxt))
         else if rule = ''specific_date'' then run_specific_date config from_ms nxt
         else run_specific_weekdays config from_ms nxt)"

section \<open>The operations on the schedule table\<close>

text \<open>\<open>new Date()\<close> as an instant.\<close>

definition now_ms :: "('e) runtime_scheme \<Rightarrow> ('a) store_db_scheme \<Rightarrow> int \<times> ('a) store_db_scheme" where
  "now_ms e db = (int (rt_millis e (tick db)), db\<lparr>tick := Suc (tick db)\<rparr>)"

definition set_schedule ::
  "string \<Rightarrow> (schedule_row \<Rightarrow> schedule_row) \<Rightarrow> ('a) schedule_db_scheme \<Rightarrow> ('a) schedule_db_scheme" where
  "set_schedule i f db = db\<lparr>schedules := update_where (\<lambda>s. sch_id s = i) f (schedules db)\<rparr>"

fun update_next_runs ::
  "('e) runtime_scheme \<Rightarrow> schedule_row list \<Rightarrow> nat \<Rightarrow> ('a) schedule_db_scheme \<Rightarrow>
   (string + nat) \<times> ('a) schedule_db_scheme" where
  "update_next_runs e [] updated db = (Inr updated, db)"
| "update_next_runs e (s # rest) updated db =
     (let (from_ms, db1) = now_ms e db
      in case computeNextRun s from_ms of
           Inl err \<Rightarrow> (Inl err, db1)
         | Inr None \<Rightarrow> update_next_runs e rest updated db1
         | Inr (Some nextRun) \<Rightarrow>
             (let (nowIso, db2) = now_iso e db1
              in update_next_runs e rest (Suc updated)
                   (set_schedule (sch_id s)
                     (\<lambda>r. r\<lparr>sch_next_run_at := Some nextRun, sch_updated_at := nowIso\<rparr>) db2)))"

definition updateAllNextRunTimes ::
  "('e) runtime_scheme \<Rightarrow> ('a) schedule_db_scheme \<Rightarrow> (string + nat) \<times> ('a) schedule_db_scheme" where
  "updateAllNextRunTimes e db = update_next_runs e (filter sch_enabled (schedules db)) 0 db"

definition getDueSchedules ::
  "('e) runtime_scheme \<Rightarrow> ('a) schedule_db_scheme \<Rightarrow> schedule_row list \<times> ('a) schedule_db_scheme" where
  "getDueSchedules e db =
     (let (now, db1) = now_iso e db
      in (filter (\<lambda>s. sch_enabled s \<and> (case sch_next_run_at s of None \<Rightarrow> False | Some t \<Rightarrow> t \<le> now)) (schedules db1), db1))"

definition updateScheduleAfterRun ::
  "('e) runtime_scheme \<Rightarrow> string \<Rightarrow> string \<Rightarrow> ('a) schedule_db_scheme \<Rightarrow>
   (string + unit) \<times> ('a) schedule_db_scheme" where
  "updateScheduleAfterRun e schedule_id runStatus db =
     (case first_where (\<lambda>s. sch_id s = schedule_id) (schedules db) of
        None \<Rightarrow> (Inr (), db)
      | Some s \<Rightarrow>
          (let (from_ms, db1) = now_ms e db
           in case computeNextRun s from_ms of
                Inl err \<Rightarrow> (Inl err, db1)
              | Inr nextRun \<Rightarrow>
                  (let (lastRun, db2) = now_iso e db1;
                       (updatedAt, db3) = now_iso e db2
                   in (Inr (), set_schedule schedule_id
                        (\<lambda>r. r\<lparr>sch_next_run_at := nextRun, sch_last_run_at := Some lastRun,
                               sch_last_run_status := Some runStatus, sch_updated_at := updatedAt\<rparr>) db3))))"

text \<open>
  The parameters are a row whose columns after \<open>created_by\<close> are not read.  \<open>schedule_id\<close> is the
  primary key of the table, \<open>group_id\<close> and \<open>vin\<close> are foreign keys.
\<close>

definition schedule_allowed :: "('a) schedule_db_scheme \<Rightarrow> schedule_row \<Rightarrow> bool" where
  "schedule_allowed db s \<longleftrightarrow>
     \<not> list_ex (\<lambda>r. sch_id r = sch_id s) (schedules db) \<and>
     (case sch_group s of None \<Rightarrow> True | Some g \<Rightarrow> getVehicleGroup db g \<noteq> None) \<and>
     (case sch_vin s of None \<Rightarrow> True | Some v \<Rightarrow> vehicleExists db v)"

definition createExportSchedule ::
  "('e) runtime_scheme \<Rightarrow> schedule_row \<Rightarrow> ('a) schedule_db_scheme \<Rightarrow> (string + unit) \<times> ('a) schedule_db_scheme" where
  "createExportSchedule e params db =
     (let (now, db1) = now_iso e db;
          tempSchedule = params\<lparr>sch_created_at := now, sch_updated_at := now, sch_next_run_at := None,
            sch_last_run_at := None, sch_last_run_status := None\<rparr>;
          (from_ms, db2) = now_ms e db1
      in case computeNextRun tempSchedule from_ms of
           Inl err \<Rightarrow> (Inl err, db2)
         | Inr nextRun \<Rightarrow>
             if \<not> schedule_allowed db2 params then (Inl ''D1_ERROR'', db2)
             else (Inr (), db2\<lparr>schedules := schedules db2 @ [tempSchedule\<lparr>sch_next_run_at := nextRun\<rparr>]\<rparr>))"

section \<open>Lemmas on the setters\<close>

lemma set_UTC_date_add: "set_UTC_date t (utc_date t + k) = time_clip (t + MS_DAY * k)"
proof -
  have "make_day (utc_year t) (utc_month t) (utc_date t + k) = utc_day t + k"
    by (simp add: make_day_add utc_components)
  then have "MS_DAY * make_day (utc_year t) (utc_month t) (utc_date t + k) + t mod MS_DAY = t + MS_DAY * k"
    using day_time [of t] by (simp add: distrib_left)
  then show ?thesis by (simp only: set_UTC_date_def)
qed

lemma utc_day_split: "0 \<le> T \<Longrightarrow> T < MS_DAY \<Longrightarrow> utc_day (MS_DAY * q + T) = q"
  by (simp add: utc_day_def ms_defs)

lemma mod_day_split: "0 \<le> T \<Longrightarrow> T < MS_DAY \<Longrightarrow> (MS_DAY * q + T) mod MS_DAY = T"
  by (simp add: ms_defs)

text \<open>A time of day in whole minutes, and the occurrence of it on the day of the next minute.\<close>

lemma time_of_day:
  assumes "0 \<le> h" and "h < 24" and "0 \<le> m" and "m < 60"
  shows "0 \<le> make_time h m 0 0" and "make_time h m 0 0 \<le> MS_DAY - MS_MINUTE"
  using assms by (simp_all add: make_time_def ms_defs)

lemma day_anchor:
  assumes T: "0 \<le> T" "T \<le> MS_DAY - MS_MINUTE"
  shows "from_ms < MS_DAY * utc_day (from_ms + 60000) + T + MS_DAY"
    and "MS_DAY * utc_day (from_ms + 60000) + T \<le> from_ms + MS_DAY"
proof -
  have "from_ms + 60000 = MS_DAY * utc_day (from_ms + 60000) + (from_ms + 60000) mod MS_DAY"
    by (simp only: day_time)
  then show "from_ms < MS_DAY * utc_day (from_ms + 60000) + T + MS_DAY"
    "MS_DAY * utc_day (from_ms + 60000) + T \<le> from_ms + MS_DAY"
    using T time_of_day_range [of "from_ms + 60000"] unfolding MS_MINUTE_def by linarith+
qed

lemma time_clip_Some: "time_clip t = Some x \<longleftrightarrow> x = t \<and> \<bar>t\<bar> \<le> 8640000000000000"
  by (auto simp: time_clip_def)

lemma date_le_Some [simp]: "date_le (Some t) b \<longleftrightarrow> t \<le> b"
  by (simp add: date_le_def)

lemma js_rem_week: "0 \<le> a \<Longrightarrow> js_rem (of_int a) 7 = of_int (a mod 7)"
proof -
  assume "0 \<le> a"
  then have "js_trunc (of_int a / 7 :: rat) = a div 7"
    using floor_divide_of_int_eq [of a 7, where ?'a = rat] by (simp add: js_trunc_def)
  then have "js_rem (of_int a) 7 = of_int (a - 7 * (a div 7))" by (simp add: js_rem_def)
  then show ?thesis by (simp only: minus_mult_div_eq_mod)
qed

section \<open>Lemmas on the rules\<close>

definition clock_ok :: "rat option \<times> rat option \<Rightarrow> bool" where
  "clock_ok time =
     (case time of
        (Some h, Some m) \<Rightarrow> 0 \<le> js_trunc h \<and> js_trunc h < 24 \<and> 0 \<le> js_trunc m \<and> js_trunc m < 60
      | _ \<Rightarrow> False)"

definition clock_ms :: "rat option \<times> rat option \<Rightarrow> int" where
  "clock_ms time =
     (case time of (Some h, Some m) \<Rightarrow> make_time (js_trunc h) (js_trunc m) 0 0 | _ \<Rightarrow> 0)"

lemma clock_ok_cases:
  assumes "clock_ok time"
  obtains h m where "time = (Some h, Some m)" and "0 \<le> clock_ms time" and "clock_ms time \<le> MS_DAY - MS_MINUTE"
    and "clock_ms time = make_time (js_trunc h) (js_trunc m) 0 0"
  using assms time_of_day by (auto simp: clock_ok_def clock_ms_def split: prod.splits option.splits)

lemma clock_ms_range: "clock_ok time \<Longrightarrow> 0 \<le> clock_ms time \<and> clock_ms time < MS_DAY"
  by (erule clock_ok_cases) (simp add: ms_defs)

lemma js_set_hours_None [simp]: "js_set_hours None h m = None"
  by (simp add: js_set_hours_def)

lemma js_set_hours_ok:
  assumes "clock_ok time"
  shows "js_set_hours (Some n) (fst time) (snd time) = time_clip (MS_DAY * utc_day n + clock_ms time)"
  using assms by (auto elim!: clock_ok_cases simp: js_set_hours_def set_UTC_hours_def)

text \<open>The search for a weekday fails exactly when every candidate does.\<close>

definition weekday_hit :: "rat option \<times> rat option \<Rightarrow> json list \<Rightarrow> int \<Rightarrow> int option \<Rightarrow> nat \<Rightarrow> int option" where
  "weekday_hit time targets from_ms nxt i =
     (case js_set_hours (Option.bind nxt (\<lambda>t. time_clip (t + int i * MS_DAY))) (fst time) (snd time) of
        None \<Rightarrow> None
      | Some c \<Rightarrow> if JNum (of_int (utc_weekday c)) \<in> set targets \<and> from_ms < c then Some c else None)"

lemma find_weekday_step:
  "find_weekday time targets from_ms nxt (i # is) =
     (case weekday_hit time targets from_ms nxt i of
        Some c \<Rightarrow> Some c | None \<Rightarrow> find_weekday time targets from_ms nxt is)"
  by (simp add: weekday_hit_def Let_def split: option.split)

lemma find_weekday_Some:
  "find_weekday time targets from_ms nxt is = Some t \<Longrightarrow> \<exists>i \<in> set is. weekday_hit time targets from_ms nxt i = Some t"
  by (induction "is") (auto simp: find_weekday_step simp del: find_weekday.simps(2) split: option.splits)

lemma find_weekday_None:
  "(\<And>i. i \<in> set is \<Longrightarrow> weekday_hit time targets from_ms nxt i = None) \<Longrightarrow>
   find_weekday time targets from_ms nxt is = None"
  by (induction "is") (simp_all add: find_weekday_step del: find_weekday.simps(2))

lemma weekday_hit_later: "weekday_hit time targets from_ms nxt i = Some t \<Longrightarrow> from_ms < t"
  by (auto simp: weekday_hit_def split: option.splits if_splits)

lemma next_daily_exact:
  assumes ok: "clock_ok time" and b: "\<bar>from_ms\<bar> \<le> 8000000000000000"
  shows "\<exists>t. next_daily time from_ms (time_clip (from_ms + 60000)) = Some t \<and> from_ms < t \<and>
    t \<le> from_ms + MS_DAY \<and> t mod MS_DAY = clock_ms time"
proof -
  define t0 where "t0 = MS_DAY * utc_day (from_ms + 60000) + clock_ms time"
  obtain h m where time: "time = (Some h, Some m)" and T: "0 \<le> clock_ms time" "clock_ms time \<le> MS_DAY - MS_MINUTE"
    using clock_ok_cases [OF ok] by metis
  note anchor = day_anchor [OF T, of from_ms, folded t0_def]
  have mod0: "(t0 + MS_DAY * k) mod MS_DAY = clock_ms time" for k
    using T mod_day_split [of "clock_ms time" "utc_day (from_ms + 60000) + k"]
    by (simp add: t0_def ms_defs algebra_simps)
  have clip: "time_clip x = Some x" if "from_ms - MS_DAY \<le> x" "x \<le> from_ms + MS_DAY" for x
    using that b by (simp add: time_clip_def ms_defs)
  have "js_set_hours (time_clip (from_ms + 60000)) (fst time) (snd time) = Some t0"
    using clip [of "from_ms + 60000"] clip [of t0] anchor js_set_hours_ok [OF ok] by (simp add: t0_def ms_defs)
  then have N: "next_daily time from_ms (time_clip (from_ms + 60000)) =
      (if t0 \<le> from_ms then set_UTC_date t0 (utc_date t0 + 1) else Some t0)"
    by (simp add: next_daily_def Let_def js_set_date_def del: of_int_add of_int_1 of_int_add)
  show ?thesis
  proof (cases "t0 \<le> from_ms")
    case True
    then have "next_daily time from_ms (time_clip (from_ms + 60000)) = Some (t0 + MS_DAY)"
      using N clip [of "t0 + MS_DAY"] anchor(1) set_UTC_date_add [of t0 1] by (simp add: ms_defs)
    with True anchor mod0 [of 1] show ?thesis by auto
  next
    case False
    with N anchor mod0 [of 0] show ?thesis by auto
  qed
qed

lemma next_weekly_exact:
  assumes ok: "clock_ok time" and b: "\<bar>from_ms\<bar> \<le> 8000000000000000" and d: "0 \<le> d" "d < 7"
  shows "\<exists>t. next_weekly (Some (of_int d)) time from_ms (time_clip (from_ms + 60000)) = Some t \<and> from_ms < t \<and>
    t \<le> from_ms + 7 * MS_DAY \<and> t mod MS_DAY = clock_ms time \<and> utc_weekday t = d"
proof -
  define t0 where "t0 = MS_DAY * utc_day (from_ms + 60000) + clock_ms time"
  obtain h m where time: "time = (Some h, Some m)" and T: "0 \<le> clock_ms time" "clock_ms time \<le> MS_DAY - MS_MINUTE"
    using clock_ok_cases [OF ok] by metis
  have T': "clock_ms time < MS_DAY" using T(2) by (simp add: ms_defs)
  note anchor = day_anchor [OF T, of from_ms, folded t0_def]
  have split: "t0 + MS_DAY * k = MS_DAY * (utc_day (from_ms + 60000) + k) + clock_ms time" for k
    by (simp add: t0_def distrib_left)
  have mod0: "(t0 + MS_DAY * k) mod MS_DAY = clock_ms time" for k
    unfolding split by (rule mod_day_split [OF T(1) T'])
  have day0: "utc_weekday (t0 + MS_DAY * k) = (utc_day (from_ms + 60000) + k + 4) mod 7" for k
    unfolding utc_weekday_def split utc_day_split [OF T(1) T'] by simp
  have clip: "time_clip x = Some x" if "from_ms - MS_DAY \<le> x" "x \<le> from_ms + 8 * MS_DAY" for x
    using that b by (simp add: time_clip_def ms_defs)
  have set_t0: "js_set_hours (time_clip (from_ms + 60000)) (fst time) (snd time) = Some t0"
    using clip [of "from_ms + 60000"] clip [of t0] anchor js_set_hours_ok [OF ok] by (simp add: t0_def ms_defs)
  define k where "k = (d - utc_weekday t0 + 7) mod 7"
  define j where "j = (if k = 0 \<and> t0 \<le> from_ms then 7 else k)"
  have wd: "0 \<le> utc_weekday t0" "utc_weekday t0 < 7" by (simp_all add: utc_weekday_def)
  have k: "0 \<le> k" "k < 7" by (simp_all add: k_def)
  have "js_rem (of_int d - of_int (utc_weekday t0) + 7) 7 = of_int k"
    using js_rem_week [of "d - utc_weekday t0 + 7"] wd d by (simp add: k_def)
  then have "next_weekly (Some (of_int d)) time from_ms (time_clip (from_ms + 60000)) =
      js_set_date (Some t0) (Some (of_int (utc_date t0) + (if k = 0 \<and> t0 \<le> from_ms then 7 else of_int k)))"
    by (simp add: next_weekly_def set_t0 Let_def)
  also have "\<dots> = js_set_date (Some t0) (Some (of_int (utc_date t0 + j)))" by (simp add: j_def)
  also have "\<dots> = time_clip (t0 + MS_DAY * j)"
    by (simp only: js_set_date_def prod.case option.case js_trunc_of_int set_UTC_date_add)
  finally have N: "next_weekly (Some (of_int d)) time from_ms (time_clip (from_ms + 60000)) = time_clip (t0 + MS_DAY * j)" .
  have bounds: "from_ms < t0 + MS_DAY * j" "t0 + MS_DAY * j \<le> from_ms + 7 * MS_DAY"
    using anchor k unfolding j_def by (auto simp: ms_defs)
  have "utc_weekday t0 = (utc_day (from_ms + 60000) + 4) mod 7" using day0 [of 0] by simp
  moreover have "(x + (d - x mod 7 + 7) mod 7) mod 7 = d" for x
    using d by (metis (no_types, opaque_lifting) add.commute add_diff_cancel_right' diff_add_cancel mod_add_eq mod_add_self2 mod_pos_pos_trivial mod_diff_left_eq)
  ultimately have "(utc_day (from_ms + 60000) + 4 + k) mod 7 = d" by (simp add: k_def)
  then have "utc_weekday (t0 + MS_DAY * j) = d"
    using mod_add_self2 [of "utc_day (from_ms + 60000) + 4" 7] by (cases "j = k") (auto simp: day0 j_def add_ac)
  with N bounds mod0 [of j] clip [of "t0 + MS_DAY * j"] show ?thesis by (auto simp: ms_defs)
qed

text \<open>A day of a month that is at most the 28th.\<close>

lemma js_date_UTC_eq:
  assumes "clock_ok time" and "1970 \<le> y"
  shows "js_date_UTC (Some (of_int y)) (Some mo) (Some d) (fst time) (snd time) (Some 0) =
    time_clip (MS_DAY * make_day y (js_trunc mo) (js_trunc d) + clock_ms time)"
  using assms(2) js_trunc_of_int [of 0]
  by (auto intro: clock_ok_cases [OF assms(1)] simp: js_date_UTC_def date_UTC_def)

lemma js_trunc_capped:
  assumes "1 \<le> d"
  shows "1 \<le> js_trunc (min d 28)" and "js_trunc (min d 28) \<le> 28"
proof -
  have "\<lfloor>1 :: rat\<rfloor> \<le> \<lfloor>min d 28\<rfloor>" using assms by (intro floor_mono) simp
  moreover have "\<lfloor>min d 28\<rfloor> \<le> \<lfloor>28 :: rat\<rfloor>" by (intro floor_mono) simp
  ultimately show "1 \<le> js_trunc (min d 28)" "js_trunc (min d 28) \<le> 28"
    using assms by (simp_all add: js_trunc_def)
qed

lemma later_day:
  assumes "utc_day (from_ms + 60000) + 1 \<le> D" and "0 \<le> T"
  shows "from_ms < MS_DAY * D + T"
proof -
  have "MS_DAY * (utc_day (from_ms + 60000) + 1) \<le> MS_DAY * D" using assms(1) by (simp add: ms_defs)
  moreover have "from_ms + 60000 = MS_DAY * utc_day (from_ms + 60000) + (from_ms + 60000) mod MS_DAY"
    by (simp only: day_time)
  ultimately show ?thesis
    using time_of_day_range(2) [of "from_ms + 60000"] assms(2) unfolding distrib_left by linarith
qed

lemma next_monthly_later:
  assumes ok: "clock_ok time" and "0 \<le> from_ms" and d: "1 \<le> d"
    and r: "next_monthly (Some (min d 28)) time from_ms (time_clip (from_ms + 60000)) = Some t"
  shows "from_ms < t"
proof -
  let ?n = "utc_day (from_ms + 60000)" and ?d = "js_trunc (min d 28)"
  let ?y = "year_of_day ?n" and ?m = "month_of_day ?n"
  let ?t0 = "MS_DAY * make_day ?y ?m ?d + clock_ms time"
  from r have clip: "time_clip (from_ms + 60000) = Some (from_ms + 60000)"
    by (auto simp: next_monthly_def time_clip_def split: option.splits if_splits)
  have T: "0 \<le> clock_ms time" "clock_ms time < MS_DAY"
    using clock_ms_range [OF ok] by simp_all
  have y: "1970 \<le> ?y" using assms(2) by (intro year_after_epoch) (simp add: utc_day_def ms_defs pos_imp_zdiv_nonneg_iff)
  note D = js_trunc_capped [OF d]
  have inv: "year_of_day (make_day ?y ?m ?d) = ?y" "month_of_day (make_day ?y ?m ?d) = ?m"
    using make_day_inverse [OF month_of_day(1,2) D] by simp_all
  have u: "utc_year ?t0 = ?y" "utc_month ?t0 = ?m" by (simp_all add: utc_year_def utc_month_def utc_day_split [OF T] inv)
  have first: "js_date_UTC (Some (of_int (utc_year (from_ms + 60000)))) (Some (of_int (utc_month (from_ms + 60000))))
      (Some (min d 28)) (fst time) (snd time) (Some 0) = time_clip ?t0"
    using js_date_UTC_eq [OF ok y] by (simp add: utc_year_def utc_month_def)
  show ?thesis
  proof (cases "from_ms < ?t0")
    case True
    with r first clip show ?thesis
      by (auto simp: next_monthly_def Let_def time_clip_def date_le_def split: if_splits)
  next
    case False
    have "?n < make_day ?y (?m + 1) 1" by (rule make_day_next_month)
    moreover have "make_day ?y (?m + 1) ?d = make_day ?y (?m + 1) 1 + (?d - 1)"
      using make_day_add [of ?y "?m + 1" 1 "?d - 1"] by simp
    ultimately have "?n + 1 \<le> make_day ?y (?m + 1) ?d" using D by linarith
    then have later: "from_ms < MS_DAY * make_day ?y (?m + 1) ?d + clock_ms time"
      using T(1) by (rule later_day)
    have "t = MS_DAY * make_day ?y (?m + 1) ?d + clock_ms time"
      using r first clip False js_date_UTC_eq [OF ok y, of "of_int (?m + 1)" "min d 28"]
      by (auto simp: next_monthly_def Let_def time_clip_def date_le_def u split: if_splits simp del: of_int_add)
    with later show ?thesis by simp
  qed
qed

lemma next_yearly_later:
  assumes ok: "clock_ok time" and "0 \<le> from_ms" and d: "1 \<le> d" and mo: "0 \<le> js_trunc mo" "js_trunc mo < 12"
    and r: "next_yearly (Some mo) (Some (min d 28)) time from_ms (time_clip (from_ms + 60000)) = Some t"
  shows "from_ms < t"
proof -
  let ?n = "utc_day (from_ms + 60000)" and ?d = "js_trunc (min d 28)" and ?m = "js_trunc mo"
  let ?y = "year_of_day ?n"
  let ?t0 = "MS_DAY * make_day ?y ?m ?d + clock_ms time"
  from r have clip: "time_clip (from_ms + 60000) = Some (from_ms + 60000)"
    by (auto simp: next_yearly_def time_clip_def split: option.splits if_splits)
  have T: "0 \<le> clock_ms time" "clock_ms time < MS_DAY"
    using clock_ms_range [OF ok] by simp_all
  have y: "1970 \<le> ?y" using assms(2) by (intro year_after_epoch) (simp add: utc_day_def ms_defs pos_imp_zdiv_nonneg_iff)
  note D = js_trunc_capped [OF d]
  have u: "utc_year ?t0 = ?y"
    using make_day_inverse(1) [OF mo D] by (simp add: utc_year_def utc_day_split [OF T])
  have first: "js_date_UTC (Some (of_int (utc_year (from_ms + 60000)))) (Some mo)
      (Some (min d 28)) (fst time) (snd time) (Some 0) = time_clip ?t0"
    using js_date_UTC_eq [OF ok y] by (simp add: utc_year_def)
  show ?thesis
  proof (cases "from_ms < ?t0")
    case True
    with r first clip show ?thesis
      by (auto simp: next_yearly_def Let_def time_clip_def date_le_def split: if_splits)
  next
    case False
    have "0 \<le> month_starts (leap_year (?y + 1)) ! nat ?m"
      using month_starts_mono [of 0 ?m "leap_year (?y + 1)"] mo by (simp add: month_starts_facts)
    then have "?n + 1 \<le> make_day (?y + 1) ?m ?d"
      using year_of_day(2) [of ?n] D make_day_month [OF mo, of "?y + 1" ?d] by linarith
    then have later: "from_ms < MS_DAY * make_day (?y + 1) ?m ?d + clock_ms time"
      using T(1) by (rule later_day)
    have "1970 \<le> ?y + 1" using y by simp
    from js_date_UTC_eq [OF ok this, of mo "min d 28"]
    have "t = MS_DAY * make_day (?y + 1) ?m ?d + clock_ms time"
      using r first clip False
      by (auto simp: next_yearly_def Let_def time_clip_def date_le_def u split: if_splits simp del: of_int_add)
    with later show ?thesis by simp
  qed
qed

section \<open>Well-formed rules\<close>

text \<open>What a rule has to say for its occurrences to be defined: a time of day, a day of the month
  from 1, a month from 1 to 12.\<close>

definition rule_config :: "schedule_row \<Rightarrow> json" where
  "rule_config s = parseRecurrenceConfig (sch_config s)"

definition timed :: "schedule_row \<Rightarrow> bool" where
  "timed s \<longleftrightarrow> rule_config s \<noteq> JNull \<and>
     (case time_parts (rule_config s) of Inl _ \<Rightarrow> False | Inr time \<Rightarrow> clock_ok time)"

definition rule_ok :: "schedule_row \<Rightarrow> bool" where
  "rule_ok s \<longleftrightarrow>
     (sch_recurrence s \<in> {''daily'', ''monthly'', ''yearly''} \<longrightarrow> timed s) \<and>
     (sch_recurrence s = ''weekly'' \<longrightarrow> timed s \<and>
        (\<exists>d \<in> {0..<7}. weekday_number (rule_config s) 0 0 = Some (of_int d))) \<and>
     (sch_recurrence s = ''monthly'' \<longrightarrow> (case weekday_number (rule_config s) 0 1 of None \<Rightarrow> False | Some d \<Rightarrow> 1 \<le> d)) \<and>
     (sch_recurrence s = ''yearly'' \<longrightarrow>
        (case (weekday_number (rule_config s) 0 1, weekday_number (rule_config s) 1 1) of
           (Some m, Some d) \<Rightarrow> 0 \<le> js_trunc (m - 1) \<and> js_trunc (m - 1) < 12 \<and> 1 \<le> d
         | _ \<Rightarrow> False))"

lemma timedE:
  assumes "timed s"
  obtains time where "time_parts (rule_config s) = Inr time" and "clock_ok time" and "rule_config s \<noteq> JNull"
  using assms by (auto simp: timed_def split: sum.splits)

lemma to_iso_string_Some: "to_iso_string d = Inr (Some x) \<longleftrightarrow> (\<exists>t. d = Some t \<and> x = iso_of_ms t)"
  by (auto simp: to_iso_string_def split: option.splits)

lemma next_hourly_later:
  assumes "next_hourly (time_clip (from_ms + 60000)) = Some t"
  shows "from_ms < t"
proof -
  let ?n = "from_ms + 60000"
  have "time_clip ?n = Some ?n" using assms by (auto simp: next_hourly_def time_clip_def split: if_splits)
  then have "t = - ((- ?n) div MS_HOUR) * MS_HOUR" using assms by (auto simp: next_hourly_def time_clip_def split: if_splits)
  moreover have "MS_HOUR * ((- ?n) div MS_HOUR) \<le> - ?n"
    using pos_mod_sign [of MS_HOUR "- ?n"] minus_mod_eq_mult_div [of "- ?n" MS_HOUR] by (simp add: ms_defs)
  ultimately show ?thesis by (simp add: mult.commute)
qed

lemma run_specific_date_later:
  "run_specific_date config from_ms (time_clip (from_ms + 60000)) = Inr (Some x) \<Longrightarrow> \<exists>t. x = iso_of_ms t \<and> from_ms < t"
  by (auto simp: run_specific_date_def Let_def to_iso_string_Some time_clip_Some date_le_def
      split: option.splits json.splits list.splits if_splits)

lemma run_specific_weekdays_later:
  "run_specific_weekdays config from_ms (time_clip (from_ms + 60000)) = Inr (Some x) \<Longrightarrow> \<exists>t. x = iso_of_ms t \<and> from_ms < t"
  by (auto simp: run_specific_weekdays_def with_time_def to_iso_string_Some time_clip_Some
      dest!: find_weekday_Some weekday_hit_later split: option.splits json.splits list.splits sum.splits if_splits)

lemma first_where_distinct:
  "distinct (map k rows) \<Longrightarrow> r \<in> set rows \<Longrightarrow> first_where (\<lambda>x. k x = k r) rows = Some r"
  by (induction rows) (auto simp: image_iff)

section \<open>The next run\<close>

lemma next_run_daily:
  assumes "sch_recurrence s = ''daily''" and "timed s" and "\<bar>from_ms\<bar> \<le> 8000000000000000"
  shows "\<exists>time t. time_parts (rule_config s) = Inr time \<and> computeNextRun s from_ms = Inr (Some (iso_of_ms t)) \<and>
    from_ms < t \<and> t \<le> from_ms + MS_DAY \<and> t mod MS_DAY = clock_ms time"
proof -
  obtain time where T: "time_parts (rule_config s) = Inr time" "clock_ok time" "rule_config s \<noteq> JNull"
    using assms(2) by (rule timedE)
  obtain t where "next_daily time from_ms (time_clip (from_ms + 60000)) = Some t" "from_ms < t"
    "t \<le> from_ms + MS_DAY" "t mod MS_DAY = clock_ms time"
    using next_daily_exact [OF T(2) assms(3)] by blast
  with T assms(1) show ?thesis
    by (auto simp: computeNextRun_def rule_config_def Let_def with_time_def to_iso_string_def)
qed

lemma next_run_weekly:
  assumes "sch_recurrence s = ''weekly''" and "timed s" and "\<bar>from_ms\<bar> \<le> 8000000000000000"
    and "weekday_number (rule_config s) 0 0 = Some (of_int d)" and "0 \<le> d" and "d < 7"
  shows "\<exists>time t. time_parts (rule_config s) = Inr time \<and> computeNextRun s from_ms = Inr (Some (iso_of_ms t)) \<and>
    from_ms < t \<and> t \<le> from_ms + 7 * MS_DAY \<and> t mod MS_DAY = clock_ms time \<and> utc_weekday t = d"
proof -
  obtain time where T: "time_parts (rule_config s) = Inr time" "clock_ok time" "rule_config s \<noteq> JNull"
    using assms(2) by (rule timedE)
  obtain t where "next_weekly (Some (of_int d)) time from_ms (time_clip (from_ms + 60000)) = Some t" "from_ms < t"
    "t \<le> from_ms + 7 * MS_DAY" "t mod MS_DAY = clock_ms time" "utc_weekday t = d"
    using next_weekly_exact [OF T(2) assms(3,5,6)] by blast
  with T assms(1,4) show ?thesis
    by (auto simp: computeNextRun_def rule_config_def Let_def with_time_def to_iso_string_def)
qed

lemma next_run_later:
  assumes ok: "rule_ok s" and "0 \<le> from_ms" and b: "from_ms \<le> 8000000000000000"
    and r: "computeNextRun s from_ms = Inr (Some x)"
  shows "\<exists>t. x = iso_of_ms t \<and> from_ms < t"
proof -
  let ?c = "rule_config s" and ?n = "time_clip (from_ms + 60000)"
  have bound: "\<bar>from_ms\<bar> \<le> 8000000000000000" using assms(2,3) by simp
  consider "sch_recurrence s = ''hourly''" | "sch_recurrence s = ''daily''" | "sch_recurrence s = ''weekly''"
    | "sch_recurrence s = ''monthly''" | "sch_recurrence s = ''yearly''" | "sch_recurrence s = ''specific_date''"
    | "sch_recurrence s = ''specific_weekdays''"
    using r by (auto simp: computeNextRun_def Let_def split: if_splits)
  then show ?thesis
  proof cases
    case 1
    with r show ?thesis by (auto simp: computeNextRun_def Let_def to_iso_string_Some dest: next_hourly_later)
  next
    case 2
    with ok have "timed s" by (simp add: rule_ok_def)
    from next_run_daily [OF 2 this bound] r show ?thesis by auto
  next
    case 3
    with ok obtain d where "timed s" "0 \<le> d" "d < 7" "weekday_number ?c 0 0 = Some (of_int d)"
      by (auto simp: rule_ok_def)
    from next_run_weekly [OF 3 this(1) bound this(4,2,3)] r show ?thesis by auto
  next
    case 4
    with ok obtain d where "timed s" and d: "weekday_number ?c 0 1 = Some d" "1 \<le> d"
      by (auto simp: rule_ok_def split: option.splits)
    obtain time where T: "time_parts ?c = Inr time" "clock_ok time" "?c \<noteq> JNull" using \<open>timed s\<close> by (rule timedE)
    from r 4 T d obtain t where "next_monthly (Some (min d 28)) time from_ms ?n = Some t" "x = iso_of_ms t"
      by (auto simp: computeNextRun_def rule_config_def Let_def with_time_def to_iso_string_Some capped_day_def)
    with next_monthly_later [OF T(2) assms(2) d(2)] show ?thesis by blast
  next
    case 5
    with ok obtain m d where "timed s" and d: "weekday_number ?c 0 1 = Some m" "weekday_number ?c 1 1 = Some d"
        "0 \<le> js_trunc (m - 1)" "js_trunc (m - 1) < 12" "1 \<le> d"
      by (auto simp: rule_ok_def split: option.splits)
    obtain time where T: "time_parts ?c = Inr time" "clock_ok time" "?c \<noteq> JNull" using \<open>timed s\<close> by (rule timedE)
    from r 5 T d obtain t where "next_yearly (Some (m - 1)) (Some (min d 28)) time from_ms ?n = Some t" "x = iso_of_ms t"
      by (auto simp: computeNextRun_def rule_config_def Let_def with_time_def to_iso_string_Some capped_day_def)
    with next_yearly_later [OF T(2) assms(2) d(5,3,4)] show ?thesis by blast
  next
    case 6
    with r show ?thesis by (auto simp: computeNextRun_def Let_def split: if_splits dest: run_specific_date_later)
  next
    case 7
    with r show ?thesis by (auto simp: computeNextRun_def Let_def split: if_splits dest: run_specific_weekdays_later)
  qed
qed

section \<open>Properties\<close>

text \<open>A daily schedule with a valid time of day gets the first instant after now that has
  this time of day.\<close>

theorem computeNextRun_daily:
  assumes "sch_recurrence s = ''daily''" and "timed s" and "\<bar>from_ms\<bar> \<le> 8000000000000000"
  shows "\<exists>time t. time_parts (rule_config s) = Inr time \<and> computeNextRun s from_ms = Inr (Some (iso_of_ms t)) \<and>
    from_ms < t \<and> t \<le> from_ms + MS_DAY \<and> t mod MS_DAY = clock_ms time"
  using assms by (rule next_run_daily)

text \<open>A weekly schedule gets the first instant after now that falls on its weekday at its
  time of day.\<close>

theorem computeNextRun_weekly:
  assumes "sch_recurrence s = ''weekly''" and "timed s" and "\<bar>from_ms\<bar> \<le> 8000000000000000"
    and "weekday_number (rule_config s) 0 0 = Some (of_int d)" and "0 \<le> d" and "d < 7"
  shows "\<exists>time t. time_parts (rule_config s) = Inr time \<and> computeNextRun s from_ms = Inr (Some (iso_of_ms t)) \<and>
    from_ms < t \<and> t \<le> from_ms + 7 * MS_DAY \<and> t mod MS_DAY = clock_ms time \<and> utc_weekday t = d"
  using assms by (rule next_run_weekly)

text \<open>C33: Whatever the rule, a well-formed schedule is never put off to an instant that has
  already passed: the text stored in \<open>next_run_at\<close> is that of a later instant.\<close>

theorem computeNextRun_later:
  assumes ok: "rule_ok s" and "0 \<le> from_ms" and b: "from_ms \<le> 8000000000000000"
    and r: "computeNextRun s from_ms = Inr (Some x)"
  shows "\<exists>t. x = iso_of_ms t \<and> from_ms < t"
  using assms by (rule next_run_later)

text \<open>The search for a weekday tries only the seven days from today: on its own weekday, once
  the time of day has passed, a schedule for that single weekday gets no next run, although the
  same instant a week later is one.\<close>

theorem computeNextRun_single_weekday:
  assumes rule: "sch_recurrence s = ''specific_weekdays''" and "timed s"
    and days: "js_prop (rule_config s) ''weekdays'' = Some (JArr [JNum (of_int (utc_weekday (from_ms + 60000)))])"
    and T: "time_parts (rule_config s) = Inr time"
    and passed: "MS_DAY * utc_day (from_ms + 60000) + clock_ms time \<le> from_ms"
  shows "computeNextRun s from_ms = Inr None"
proof -
  have c: "rule_config s \<noteq> JNull" and ok: "clock_ok time" using \<open>timed s\<close> T by (auto simp: timed_def)
  let ?n = "from_ms + 60000"
  have miss: "weekday_hit time [JNum (of_int (utc_weekday ?n))] from_ms (time_clip ?n) i = None" if "i < 7" for i
  proof (rule ccontr)
    assume "\<not> ?thesis"
    then obtain t where hit: "weekday_hit time [JNum (of_int (utc_weekday ?n))] from_ms (time_clip ?n) i = Some t" by auto
    then have t: "utc_weekday t = utc_weekday ?n" "from_ms < t"
      by (auto simp: weekday_hit_def split: option.splits if_splits)
    have day: "utc_day (?n + int i * MS_DAY) = utc_day ?n + int i" by (simp add: utc_day_def ms_defs)
    from hit have "t = MS_DAY * utc_day (?n + int i * MS_DAY) + clock_ms time"
      by (auto simp: weekday_hit_def time_clip_def js_set_hours_ok [OF ok] split: option.splits if_splits)
    then have t0: "t = MS_DAY * (utc_day ?n + int i) + clock_ms time" by (simp only: day)
    then have "utc_weekday t = (utc_day ?n + int i + 4) mod 7"
      using clock_ms_range [OF ok] by (simp add: utc_weekday_def utc_day_split)
    with t(1) have "(utc_day ?n + 4 + int i) mod 7 = (utc_day ?n + 4) mod 7"
      by (simp add: utc_weekday_def add_ac)
    then have "7 dvd int i" by (metis add_diff_cancel_left' mod_eq_dvd_iff)
    with \<open>i < 7\<close> have "i = 0" using zdvd_not_zless [of "int i" 7] by (cases "i = 0") auto
    with t0 passed t(2) show False by simp
  qed
  then have "find_weekday time [JNum (of_int (utc_weekday ?n))] from_ms (time_clip ?n) [0..<7] = None"
    by (intro find_weekday_None) simp
  then show ?thesis
    using rule c days T by (simp add: computeNextRun_def run_specific_weekdays_def rule_config_def with_time_def Let_def)
qed

text \<open>The query for due schedules, which compares texts, compares instants: an enabled
  schedule whose \<open>next_run_at\<close> is the text of an instant is returned exactly when the instant
  has come.\<close>

theorem getDueSchedules_exact:
  assumes "rt_clock e (tick db) = iso_of_ms now" and "0 \<le> utc_year now" and "utc_year now \<le> 9999"
    and "s \<in> set (schedules db)" and "sch_next_run_at s = Some (iso_of_ms t)"
    and "0 \<le> utc_year t" and "utc_year t \<le> 9999"
  shows "s \<in> set (fst (getDueSchedules e db)) \<longleftrightarrow> sch_enabled s \<and> t \<le> now"
  using assms iso_le_iff [of t now] by (auto simp: getDueSchedules_def now_iso_def)

text \<open>After a run is recorded the schedule is not due again at the instant the record was
  made, nor before its next occurrence: the same occurrence is not run twice.\<close>

theorem updateScheduleAfterRun_not_due:
  assumes db: "distinct (map sch_id (schedules db))" "s \<in> set (schedules db)" and ok: "rule_ok s"
    and run: "updateScheduleAfterRun e (sch_id s) runStatus db = (Inr (), db')"
    and clock: "rt_clock e' (tick db') = iso_of_ms (int (rt_millis e (tick db)))"
    and range: "int (rt_millis e (tick db)) \<le> 8000000000000000" "utc_year (int (rt_millis e (tick db))) \<le> 9999"
    and next_range: "\<And>t. computeNextRun s (int (rt_millis e (tick db))) = Inr (Some (iso_of_ms t)) \<Longrightarrow> utc_year t \<le> 9999"
  shows "list_all (\<lambda>r. sch_id r \<noteq> sch_id s) (fst (getDueSchedules e' db'))"
proof -
  let ?now = "int (rt_millis e (tick db))"
  have find: "first_where (\<lambda>r. sch_id r = sch_id s) (schedules db) = Some s"
    using first_where_distinct [OF db] .
  from run find obtain nextRun where N: "computeNextRun s ?now = Inr nextRun"
    by (auto simp: updateScheduleAfterRun_def now_ms_def split: sum.splits prod.splits)
  have rows: "\<forall>r \<in> set (schedules db'). sch_id r = sch_id s \<longrightarrow> sch_next_run_at r = nextRun"
    using run find N
    by (auto simp: updateScheduleAfterRun_def now_ms_def now_iso_def set_schedule_def update_where_def)
  have "\<not> x \<le> iso_of_ms ?now" if x: "nextRun = Some x" for x
  proof -
    obtain t where t: "x = iso_of_ms t" "?now < t"
      using next_run_later [OF ok _ range(1)] N x by auto
    have "1970 \<le> utc_year y" if "0 \<le> y" for y
      using that unfolding utc_year_def by (intro year_after_epoch) (simp add: utc_day_def ms_defs pos_imp_zdiv_nonneg_iff)
    from this [of ?now] this [of t] t next_range [of t] N x range(2) show ?thesis
      using iso_le_iff [of t ?now] by simp
  qed
  with rows show ?thesis
    unfolding list_all_iff getDueSchedules_def now_iso_def
    by (auto simp: clock split: option.splits)
qed

section \<open>Concrete runs\<close>

definition sample_schedule :: "string \<Rightarrow> json \<Rightarrow> schedule_row" where
  "sample_schedule rule config =
     \<lparr>sch_id = ''S1'', sch_name = ''n'', sch_description = None, sch_scope = ''all'', sch_group = None, sch_vin = None,
      sch_time_range = ''week'', sch_format = ''csv'', sch_recurrence = rule,
      sch_config = Some \<lparr>jt_text = ''c'', jt_json = Some config\<rparr>, sch_recipients = ''[]'', sch_email_template = None,
      sch_enabled = True, sch_created_by = None, sch_created_at = ''t'', sch_updated_at = ''t'',
      sch_next_run_at = None, sch_last_run_at = None, sch_last_run_status = None\<rparr>"

definition sample_daily :: schedule_row where
  "sample_daily = sample_schedule ''daily'' (JObj [(''time_of_day'', JStr ''09:30'')])"

definition sample_weekly :: schedule_row where
  "sample_weekly = sample_schedule ''weekly'' (JObj [(''time_of_day'', JStr ''09:30''), (''weekdays'', JArr [JNum 3])])"

definition sample_thursday :: schedule_row where
  "sample_thursday =
     sample_schedule ''specific_weekdays'' (JObj [(''time_of_day'', JStr ''00:00''), (''weekdays'', JArr [JNum 4])])"

lemmas sample_schedule_simps = sample_daily_def sample_weekly_def sample_thursday_def sample_schedule_def

lemma sample_times:
  "time_parts (rule_config sample_daily) = Inr (Some 9, Some 30)"
  "time_parts (rule_config sample_weekly) = Inr (Some 9, Some 30)"
  "time_parts (rule_config sample_thursday) = Inr (Some 0, Some 0)"
  by code_simp+

lemma sample_timed: "timed sample_daily" "timed sample_weekly" "timed sample_thursday"
  by code_simp+

lemma sample_rule_ok: "rule_ok sample_daily"
  using sample_timed(1) by (simp add: rule_ok_def sample_schedule_simps)

lemma sample_run: "computeNextRun sample_daily 0 = Inr (Some (iso_of_ms 34200000))"
  by code_simp

theorem computeNextRun_daily_witness:
  "\<exists>time t. time_parts (rule_config sample_daily) = Inr time \<and> computeNextRun sample_daily 0 = Inr (Some (iso_of_ms t)) \<and>
    0 < t \<and> t \<le> 0 + MS_DAY \<and> t mod MS_DAY = clock_ms time"
  by (rule computeNextRun_daily [OF _ sample_timed(1)]) (simp_all add: sample_schedule_simps)

theorem computeNextRun_weekly_witness:
  "\<exists>time t. time_parts (rule_config sample_weekly) = Inr time \<and> computeNextRun sample_weekly 0 = Inr (Some (iso_of_ms t)) \<and>
    0 < t \<and> t \<le> 0 + 7 * MS_DAY \<and> t mod MS_DAY = clock_ms time \<and> utc_weekday t = 3"
  by (rule computeNextRun_weekly [OF _ sample_timed(2)]) (simp_all add: sample_schedule_simps, code_simp)

theorem computeNextRun_later_witness: "\<exists>t. iso_of_ms 34200000 = iso_of_ms t \<and> 0 < t"
  by (rule computeNextRun_later [OF sample_rule_ok _ _ sample_run]) simp_all

theorem computeNextRun_single_weekday_witness: "computeNextRun sample_thursday 0 = Inr None"
  by (rule computeNextRun_single_weekday [OF _ sample_timed(3) _ sample_times(3)])
    (simp_all add: rule_config_def parseRecurrenceConfig_def sample_schedule_simps utc_weekday_def utc_day_def ms_defs
      clock_ms_def make_time_def js_trunc_def)

definition sample_schedule_db :: schedule_db where
  "sample_schedule_db = config_db.extend sample_config_db
     \<lparr>schedules = [sample_daily\<lparr>sch_next_run_at := Some (iso_of_ms 34200000)\<rparr>]\<rparr>"

text \<open>A clock whose text is that of its instant, half past nine on the first day.\<close>

definition clock_runtime :: "int \<Rightarrow> runtime" where
  "clock_runtime t = sample_runtime\<lparr>rt_clock := (\<lambda>_. iso_of_ms t), rt_millis := (\<lambda>_. nat t)\<rparr>"

lemma sample_schedules: "schedules sample_schedule_db = [sample_daily\<lparr>sch_next_run_at := Some (iso_of_ms 34200000)\<rparr>]"
  by (simp add: sample_schedule_db_def config_db.extend_def)

lemma sample_years: "utc_year 0 = 1970" "utc_year 34200000 = 1970"
  by code_simp+

theorem getDueSchedules_exact_witness:
  "sample_daily\<lparr>sch_next_run_at := Some (iso_of_ms 34200000)\<rparr> \<in> set (fst (getDueSchedules (clock_runtime 34200000) sample_schedule_db))
     \<longleftrightarrow> sch_enabled (sample_daily\<lparr>sch_next_run_at := Some (iso_of_ms 34200000)\<rparr>) \<and> 34200000 \<le> (34200000::int)"
  by (rule getDueSchedules_exact) (simp_all add: sample_schedules clock_runtime_def sample_years)

definition after_run :: schedule_db where
  "after_run = snd (updateScheduleAfterRun (clock_runtime 0) ''S1'' ''delivered'' sample_schedule_db)"

theorem updateScheduleAfterRun_not_due_witness:
  "list_all (\<lambda>r. sch_id r \<noteq> ''S1'') (fst (getDueSchedules (clock_runtime 0) after_run))"
proof -
  let ?s = "sample_daily\<lparr>sch_next_run_at := Some (iso_of_ms 34200000)\<rparr>"
  have c: "computeNextRun ?s 0 = Inr (Some (iso_of_ms 34200000))"
    using sample_run by (simp add: computeNextRun_def)
  have ok: "rule_ok ?s" using sample_rule_ok by (simp add: rule_ok_def timed_def rule_config_def)
  have id: "sch_id ?s = ''S1''" by (simp add: sample_schedule_simps)
  have run: "updateScheduleAfterRun (clock_runtime 0) (sch_id ?s) ''delivered'' sample_schedule_db = (Inr (), after_run)"
    using c by (simp add: after_run_def updateScheduleAfterRun_def sample_schedules id clock_runtime_def
      now_ms_def now_iso_def Let_def)
  have "utc_year t \<le> 9999" if "iso_of_ms 34200000 = iso_of_ms t" for t
  proof (rule ccontr)
    assume "\<not> ?thesis"
    then have "length (iso_of_ms t) = 27" by (simp add: iso_of_ms_fields iso_fields_def year_text_def)
    moreover have "length (iso_of_ms 34200000) = 24" by code_simp
    ultimately show False using that by simp
  qed
  then show ?thesis
    using updateScheduleAfterRun_not_due [OF _ _ ok run, of "clock_runtime 0"] c
    by (simp add: sample_schedules id clock_runtime_def sample_years)
qed

end
