(* ===== verification/PollCoordinator.thy ===== *)
theory PollCoordinator
  imports KeyPairing JsDate
begin

text \<open>
  \<open>poll-coordinator.ts\<close>: the REST poll that rides on an ingested batch.  A GET of the Fleet API
  is an oracle that takes the number of effects before it.  The vehicle of a poll exists, since
  the consent gate found it, so the foreign keys of the state and batch rows hold.
\<close>

section \<open>State and environment\<close>

record poll_state_row =
  ps_vin :: vin
  ps_identity_polled :: bool
  ps_last_poll_at :: "iso option"
  ps_last_identity_at :: "iso option"
  ps_last_error :: "string option"
  ps_updated_at :: iso

record poll_db = key_db +
  poll_states :: "poll_state_row list"

record poll_env = network +
  pe_get :: "nat \<Rightarrow> string \<Rightarrow> vin \<Rightarrow> string \<Rightarrow> reply"

definition TESLA_POLL_PATHS :: "string list" where
  "TESLA_POLL_PATHS = [''/vehicle_data'', ''/vehicle_config'']"

definition IDENTITY_FIELDS :: "field_key list" where
  "IDENTITY_FIELDS = [''CarType'', ''EfficiencyPackage'', ''Version'']"

definition TELEMETRY_ONLY_STATE :: "field_key list" where
  "TELEMETRY_ONLY_STATE = [''SentryMode'', ''SpeedLimitMode'']"

definition POLL_CADENCE_SECONDS :: "field_key \<rightharpoonup> int" where
  "POLL_CADENCE_SECONDS = [''Odometer'' \<mapsto> 604800]"

record poll_outcome =
  po_vin :: vin
  po_identity_polled :: nat
  po_polls_run :: nat
  po_fields_polled :: nat
  po_last_error :: "string option"

section \<open>What is due\<close>

record candidate =
  cd_key :: field_key
  cd_interval :: int

definition isDue :: "iso option \<Rightarrow> int \<Rightarrow> int option \<Rightarrow> bool" where
  "isDue lastPollAt intervalSeconds nowMs =
     (case lastPollAt of
        None \<Rightarrow> True
      | Some t \<Rightarrow>
          (case date_parse t of
             None \<Rightarrow> True
           | Some last_ms \<Rightarrow>
               (case nowMs of None \<Rightarrow> False | Some now_ms \<Rightarrow> intervalSeconds * 1000 \<le> now_ms - last_ms)))"

definition planPoll ::
  "candidate list \<Rightarrow> bool \<Rightarrow> iso option \<Rightarrow> int option \<Rightarrow> field_key list \<times> field_key list" where
  "planPoll candidates identityDone lastPollAt nowMs =
     (let identityFields = (if identityDone then []
            else filter (\<lambda>k. k \<in> set IDENTITY_FIELDS \<and> k \<notin> set TELEMETRY_ONLY_STATE) (map cd_key candidates));
          dueFields = map cd_key
            (filter (\<lambda>c. isDue lastPollAt (cd_interval c) nowMs)
              (filter (\<lambda>c. cd_key c \<notin> set IDENTITY_FIELDS \<and> cd_key c \<notin> set TELEMETRY_ONLY_STATE) candidates))
      in (identityFields, dueFields))"

definition has_rest_path :: "catalog_row \<Rightarrow> bool" where
  "has_rest_path c \<longleftrightarrow> (case fc_rest_path c of None \<Rightarrow> False | Some p \<Rightarrow> p \<noteq> [])"

definition loadCandidates :: "('a) store_db_scheme \<Rightarrow> candidate list" where
  "loadCandidates db =
     map (\<lambda>(c, en). \<lparr>cd_key = fc_key c,
            cd_interval = (case POLL_CADENCE_SECONDS (fc_key c) of None \<Rightarrow> e_interval en | Some i \<Rightarrow> i)\<rparr>)
       (sort_key (\<lambda>(c, en). fc_key c)
         (concat (map (\<lambda>c. map (\<lambda>en. (c, en))
              (filter (\<lambda>en. e_field en = fc_key c \<and> e_scope en = ''global'' \<and> e_enabled en) (entries db)))
            (filter (\<lambda>c. fc_collected c \<and> has_rest_path c \<and> fc_key c \<notin> {''SentryMode'', ''SpeedLimitMode''})
              (catalog db)))))"

definition state_of :: "('a) poll_db_scheme \<Rightarrow> vin \<Rightarrow> poll_state_row option" where
  "state_of db vin = first_where (\<lambda>r. ps_vin r = vin) (poll_states db)"

definition loadState :: "('a) poll_db_scheme \<Rightarrow> vin \<Rightarrow> bool \<times> iso option" where
  "loadState db vin =
     (case state_of db vin of
        None \<Rightarrow> (False, None)
      | Some r \<Rightarrow> (ps_identity_polled r, ps_last_poll_at r))"

section \<open>Fetching and normalising\<close>

definition teslaGet ::
  "('e) poll_env_scheme \<Rightarrow> string \<Rightarrow> vin \<Rightarrow> string \<Rightarrow> ('a) store_db_scheme \<Rightarrow> json option \<times> ('a) store_db_scheme" where
  "teslaGet e accessToken vin path db =
     (case pe_get e (tick db) accessToken vin path of
        Inl _ \<Rightarrow> None
      | Inr res \<Rightarrow>
          if \<not> reply_ok res then None
          else (case hr_json res of
              None \<Rightarrow> None
            | Some body \<Rightarrow>
                (case js_prop body ''response'' of
                   None \<Rightarrow> None
                 | Some r \<Rightarrow> if truthy (Some r) \<and> is_object r then Some r else None)), next_tick db)"

fun read_segments :: "json option \<Rightarrow> string list \<Rightarrow> json option" where
  "read_segments cur [] = cur"
| "read_segments cur (seg # segs) =
     (case cur of
        None \<Rightarrow> None
      | Some v \<Rightarrow> if v = JNull \<or> \<not> is_object v then None else read_segments (js_prop v seg) segs)"

definition readPath :: "json \<Rightarrow> string \<Rightarrow> json option" where
  "readPath response path = read_segments (Some response) (split_on (CHR ''.'') path)"

definition normaliseRestValue :: "json option \<Rightarrow> classified" where
  "normaliseRestValue value =
     (case value of
        None \<Rightarrow> none_of KInvalid
      | Some JNull \<Rightarrow> none_of KInvalid
      | Some (JBool b) \<Rightarrow> (none_of KBool)\<lparr>cv_bool := Some (if b then 1 else 0)\<rparr>
      | Some (JNum q) \<Rightarrow>
          if of_int \<lfloor>q\<rfloor> = q then (none_of KInt)\<lparr>cv_int := Some \<lfloor>q\<rfloor>\<rparr>
          else (none_of KReal)\<lparr>cv_real := Some q\<rparr>
      | Some (JStr s) \<Rightarrow> (none_of KText)\<lparr>cv_text := Some s\<rparr>
      | Some v \<Rightarrow> (none_of KJson)\<lparr>cv_json := Some v\<rparr>)"

record polled_value =
  pv_key :: field_key
  pv_value :: json
  pv_observed_at :: iso

fun polled_datums :: "('a) store_db_scheme \<Rightarrow> polled_value list \<Rightarrow> normalised_datum list" where
  "polled_datums db [] = []"
| "polled_datums db (v # vs) =
     (case catalog_meta db (pv_key v) of
        None \<Rightarrow> polled_datums db vs
      | Some (tier, _) \<Rightarrow>
          \<lparr>nd_key = pv_key v, nd_observed_at = pv_observed_at v,
           nd_value = normaliseRestValue (Some (pv_value v)), nd_tier = tier\<rparr> # polled_datums db vs)"

definition persistPolledValues ::
  "('e) runtime_scheme \<Rightarrow> vin \<Rightarrow> polled_value list \<Rightarrow> iso \<Rightarrow> ('a) telemetry_db_scheme \<Rightarrow>
   (string + nat) \<times> ('a) telemetry_db_scheme" where
  "persistPolledValues e vin values receivedAt db =
     (if values = [] then (Inr 0, db)
      else (let datums = polled_datums db values
            in if datums = [] then (Inr 0, db)
               else (let (i, db1) = fresh_id e db;
                         pollBatchId = ''poll_'' @ i;
                         db2 = db1\<lparr>batches := batches db1 @
                           [\<lparr>b_id = pollBatchId, b_vin = Some vin, b_received_at = receivedAt, b_payload_bytes = 0,
                             b_r2_key = [], b_sha256 = [], b_datum_count = length datums,
                             b_content_type = ''application/poll'', b_run = None, b_processed_at = Some receivedAt\<rparr>]\<rparr>
                     in case persistDatums e pollBatchId (Some vin) datums receivedAt False T_poll db2 of
                          (Inl err, db3) \<Rightarrow> (Inl err, db3)
                        | (Inr counts, db3) \<Rightarrow> (Inr (pc_facts counts + pc_snapshots counts), db3))))"

section \<open>The state row\<close>

text \<open>An argument that is not given leaves its column alone.\<close>

definition set_state ::
  "iso \<Rightarrow> bool option \<Rightarrow> iso option \<Rightarrow> iso option \<Rightarrow> string option \<Rightarrow> poll_state_row \<Rightarrow> poll_state_row" where
  "set_state nowIso identityPolled lastPollAt lastIdentityAt lastError r =
     \<lparr>ps_vin = ps_vin r,
      ps_identity_polled = (case identityPolled of None \<Rightarrow> ps_identity_polled r | Some b \<Rightarrow> b),
      ps_last_poll_at = sql_coalesce lastPollAt (ps_last_poll_at r),
      ps_last_identity_at = sql_coalesce lastIdentityAt (ps_last_identity_at r),
      ps_last_error = sql_coalesce lastError (ps_last_error r),
      ps_updated_at = nowIso\<rparr>"

definition writeState ::
  "vin \<Rightarrow> iso \<Rightarrow> bool option \<Rightarrow> iso option \<Rightarrow> iso option \<Rightarrow> string option \<Rightarrow>
   ('a) poll_db_scheme \<Rightarrow> ('a) poll_db_scheme" where
  "writeState vin nowIso identityPolled lastPollAt lastIdentityAt lastError db =
     (if state_of db vin \<noteq> None
      then db\<lparr>poll_states := update_where (\<lambda>r. ps_vin r = vin)
             (set_state nowIso identityPolled lastPollAt lastIdentityAt lastError) (poll_states db)\<rparr>
      else db\<lparr>poll_states := poll_states db @
             [\<lparr>ps_vin = vin, ps_identity_polled = (case identityPolled of None \<Rightarrow> False | Some b \<Rightarrow> b),
               ps_last_poll_at = lastPollAt, ps_last_identity_at = lastIdentityAt, ps_last_error = lastError,
               ps_updated_at = nowIso\<rparr>]\<rparr>)"

section \<open>The coordinator\<close>

definition rest_path :: "catalog_row \<Rightarrow> string" where
  "rest_path c = (case fc_rest_path c of None \<Rightarrow> [] | Some p \<Rightarrow> p)"

definition read_value :: "json option \<Rightarrow> string \<Rightarrow> json option" where
  "read_value source path =
     (case source of
        None \<Rightarrow> None
      | Some s \<Rightarrow> (case readPath s path of None \<Rightarrow> None | Some v \<Rightarrow> if v = JNull then None else Some v))"

fun identity_values :: "json option \<Rightarrow> json option \<Rightarrow> iso \<Rightarrow> catalog_row list \<Rightarrow> polled_value list" where
  "identity_values vehicleConfig vehicleState nowIso [] = []"
| "identity_values vehicleConfig vehicleState nowIso (row # rows) =
     (let source = (if starts_with (rest_path row) ''vehicle_config.'' then vehicleConfig else vehicleState)
      in case read_value source (rest_path row) of
           None \<Rightarrow> identity_values vehicleConfig vehicleState nowIso rows
         | Some v \<Rightarrow> \<lparr>pv_key = fc_key row, pv_value = v, pv_observed_at = nowIso\<rparr>
                      # identity_values vehicleConfig vehicleState nowIso rows)"

definition poll_identity ::
  "('e) poll_env_scheme \<Rightarrow> vin \<Rightarrow> iso \<Rightarrow> string \<Rightarrow> field_key list \<Rightarrow> poll_outcome \<Rightarrow> ('a) poll_db_scheme \<Rightarrow>
   (string + poll_outcome) \<times> ('a) poll_db_scheme" where
  "poll_identity e vin nowIso accessToken identityFields outcome db =
     (let rows = filter (\<lambda>c. fc_key c \<in> set identityFields \<and> has_rest_path c) (catalog db)
      in if identityFields = [] \<or> rows = [] then (Inr outcome, db)
         else (let (vehicleConfig, db1) = teslaGet e accessToken vin ''/vehicle_config'' db;
                   (vehicleState, db2) = teslaGet e accessToken vin ''/vehicle_data'' db1;
                   values = identity_values vehicleConfig vehicleState nowIso rows
               in if values = [] then (Inr outcome, db2)
                  else (case persistPolledValues e vin values nowIso db2 of
                      (Inl err, db3) \<Rightarrow> (Inl err, db3)
                    | (Inr _, db3) \<Rightarrow>
                        (Inr (outcome\<lparr>po_fields_polled := po_fields_polled outcome + length values,
                                      po_identity_polled := 1\<rparr>),
                         writeState vin nowIso (Some True) None (Some nowIso) None
                           (recordSignals e (Some vin) (length values) nowIso db3)))))"

text \<open>\<open>byPath\<close>: the fields of each path, paths in the order they are first met.\<close>

definition group_by_path :: "catalog_row list \<Rightarrow> (string \<times> field_key list) list" where
  "group_by_path rows =
     foldl (\<lambda>m row. AList.update (rest_path row)
       ((case map_of m (rest_path row) of None \<Rightarrow> [] | Some ks \<Rightarrow> ks) @ [fc_key row]) m) [] rows"

text \<open>The vehicle data is fetched once and kept while it is not null.\<close>

definition fetch_for_path ::
  "('e) poll_env_scheme \<Rightarrow> vin \<Rightarrow> string \<Rightarrow> string \<Rightarrow> json option \<Rightarrow> ('a) store_db_scheme \<Rightarrow>
   json option \<times> json option \<times> ('a) store_db_scheme" where
  "fetch_for_path e vin accessToken path fetched db =
     (if starts_with path ''vehicle_state.''
      then (if fetched \<noteq> None then (fetched, fetched, db)
            else (let (r, db1) = teslaGet e accessToken vin ''/vehicle_data'' db in (r, r, db1)))
      else (let (r, db1) = teslaGet e accessToken vin ''/vehicle_config'' db in (r, fetched, db1)))"

fun due_values ::
  "('e) poll_env_scheme \<Rightarrow> vin \<Rightarrow> iso \<Rightarrow> string \<Rightarrow> (string \<times> field_key list) list \<Rightarrow> json option \<Rightarrow>
   ('a) store_db_scheme \<Rightarrow> polled_value list \<times> ('a) store_db_scheme" where
  "due_values e vin nowIso accessToken [] fetched db = ([], db)"
| "due_values e vin nowIso accessToken ((path, fieldKeys) # rest) fetched db =
     (let (source, fetched1, db1) = fetch_for_path e vin accessToken path fetched db;
          (values, db2) = due_values e vin nowIso accessToken rest fetched1 db1
      in case read_value source path of
           None \<Rightarrow> (values, db2)
         | Some v \<Rightarrow> (map (\<lambda>k. \<lparr>pv_key = k, pv_value = v, pv_observed_at = nowIso\<rparr>) fieldKeys @ values, db2))"

definition poll_due ::
  "('e) poll_env_scheme \<Rightarrow> vin \<Rightarrow> iso \<Rightarrow> string \<Rightarrow> field_key list \<Rightarrow> poll_outcome \<Rightarrow> ('a) poll_db_scheme \<Rightarrow>
   (string + poll_outcome) \<times> ('a) poll_db_scheme" where
  "poll_due e vin nowIso accessToken dueFields outcome db =
     (if dueFields = [] then (Inr outcome, db)
      else (let (values, db1) = due_values e vin nowIso accessToken
                  (group_by_path (filter (\<lambda>c. fc_key c \<in> set dueFields) (catalog db))) None db
            in if values = []
               then (Inr (outcome\<lparr>po_last_error := Some ''poll_empty_response''\<rparr>),
                     writeState vin nowIso None None None (Some ''poll_empty_response'') db1)
               else (case persistPolledValues e vin values nowIso db1 of
                   (Inl err, db2) \<Rightarrow> (Inl err, db2)
                 | (Inr _, db2) \<Rightarrow>
                     (Inr (outcome\<lparr>po_fields_polled := po_fields_polled outcome + length values,
                                   po_polls_run := Suc (po_polls_run outcome)\<rparr>),
                      writeState vin nowIso None (Some nowIso) None None
                        (recordSignals e (Some vin) (length values) nowIso db2)))))"

definition meter_requests ::
  "('e) runtime_scheme \<Rightarrow> vin \<Rightarrow> iso \<Rightarrow> poll_outcome \<Rightarrow> ('a) telemetry_db_scheme \<Rightarrow> ('a) telemetry_db_scheme" where
  "meter_requests e vin nowIso outcome db =
     (let requests = (if po_identity_polled outcome \<noteq> 0 then 1 else 0)
            + (if po_polls_run outcome \<noteq> 0 \<or> po_fields_polled outcome \<noteq> 0 then 1 else 0)
      in if requests = 0 then db
         else (let (i, db1) = fresh_id e db
               in put_counter \<lparr>sg_id = i, sg_vin = Some vin, sg_period_start = take 10 nowIso, sg_signals = 0,
                    sg_data_requests = requests, sg_updated_at = nowIso\<rparr> db1))"

definition empty_outcome :: "vin \<Rightarrow> poll_outcome" where
  "empty_outcome vin = \<lparr>po_vin = vin, po_identity_polled = 0, po_polls_run = 0, po_fields_polled = 0, po_last_error = None\<rparr>"

definition poll_plan :: "('a) poll_db_scheme \<Rightarrow> vin \<Rightarrow> iso \<Rightarrow> field_key list \<times> field_key list" where
  "poll_plan db vin nowIso =
     planPoll (loadCandidates db) (fst (loadState db vin)) (snd (loadState db vin)) (date_parse nowIso)"

definition poll_as_member ::
  "('e) poll_env_scheme \<Rightarrow> vin \<Rightarrow> iso \<Rightarrow> field_key list \<times> field_key list \<Rightarrow> member_id \<Rightarrow> ('a) poll_db_scheme \<Rightarrow>
   (string + poll_outcome) \<times> ('a) poll_db_scheme" where
  "poll_as_member e vin nowIso plan memberId db =
     (let outcome = empty_outcome vin;
          (accessToken, db1) = getMemberAccessToken e (Some memberId) db
      in if no_token accessToken
         then (Inr (outcome\<lparr>po_last_error := Some ''poll_no_access_token''\<rparr>),
               writeState vin nowIso None None None (Some ''poll_no_access_token'') db1)
         else (case poll_identity e vin nowIso (the accessToken) (fst plan) outcome db1 of
             (Inl err, db2) \<Rightarrow> (Inl err, db2)
           | (Inr outcome2, db2) \<Rightarrow>
               (case poll_due e vin nowIso (the accessToken) (snd plan) outcome2 db2 of
                  (Inl err, db3) \<Rightarrow> (Inl err, db3)
                | (Inr outcome3, db3) \<Rightarrow> (Inr outcome3, meter_requests e vin nowIso outcome3 db3))))"

definition runPollCoordinator ::
  "('e) poll_env_scheme \<Rightarrow> vin \<Rightarrow> iso \<Rightarrow> ('a) poll_db_scheme \<Rightarrow> (string + poll_outcome) \<times> ('a) poll_db_scheme" where
  "runPollCoordinator e vin nowIso db =
     (let plan = poll_plan db vin nowIso
      in if \<not> memberMayBeCollected db vin then (Inr (empty_outcome vin), db)
         else if loadCandidates db = [] then (Inr (empty_outcome vin), db)
         else if fst plan = [] \<and> snd plan = [] then (Inr (empty_outcome vin), db)
         else (case Option.bind (vehicle_of db vin) v_member of
             None \<Rightarrow> (Inr (empty_outcome vin), db)
           | Some memberId \<Rightarrow>
               if memberId = [] then (Inr (empty_outcome vin), db)
               else poll_as_member e vin nowIso plan memberId db))"

definition clearPollEligibility :: "vin list \<Rightarrow> ('a) poll_db_scheme \<Rightarrow> nat \<times> ('a) poll_db_scheme" where
  "clearPollEligibility vins db =
     (if vins = [] then (0, db)
      else (count_where (\<lambda>r. ps_vin r \<in> set vins) (poll_states db),
            db\<lparr>poll_states := delete_where (\<lambda>r. ps_vin r \<in> set vins) (poll_states db)\<rparr>))"

section \<open>What a poll leaves alone\<close>

text \<open>The tables no poll writes, and with the state rows the tables a plan reads.\<close>

definition same_base :: "('a) telemetry_db_scheme \<Rightarrow> ('a) telemetry_db_scheme \<Rightarrow> bool" where
  "same_base db db' \<longleftrightarrow> catalog db' = catalog db \<and> entries db' = entries db \<and> ingest_runs db' = ingest_runs db \<and>
     vehicles db' = vehicles db \<and> members db' = members db \<and> consents db' = consents db"

definition same_plan :: "('a) poll_db_scheme \<Rightarrow> ('a) poll_db_scheme \<Rightarrow> bool" where
  "same_plan db db' \<longleftrightarrow> poll_states db' = poll_states db \<and> same_base db db'"

lemma same_plan_refl [simp]: "same_plan db db"
  by (simp add: same_plan_def same_base_def)

lemma same_plan_trans [trans]: "same_plan a b \<Longrightarrow> same_plan b c \<Longrightarrow> same_plan a c"
  by (simp add: same_plan_def same_base_def)

lemma fold_put_snapshot_plan [simp]: "same_plan db (fold put_snapshot rs db)"
proof (induction rs arbitrary: db)
  case (Cons r rs)
  have "same_plan db (put_snapshot r db)" by (simp add: same_plan_def same_base_def put_snapshot_def)
  with Cons show ?case by (auto intro: same_plan_trans)
qed simp

lemma insert_history_plan [simp]: "same_plan db (insert_history rs db)"
proof (induction rs arbitrary: db)
  case (Cons r rs)
  let ?db = "if list_ex (\<lambda>h. snapshot_key h = snapshot_key r \<and> sn_observed_at h = sn_observed_at r) (snapshot_history db)
        then db else db\<lparr>snapshot_history := snapshot_history db @ [r]\<rparr>"
  have "same_plan db ?db" by (simp add: same_plan_def same_base_def)
  from same_plan_trans [OF this Cons] show ?case unfolding insert_history.simps .
qed simp

lemma persistDatums_plan: "same_plan db (snd (persistDatums e b v ds rcv rs src db))"
proof (cases v)
  case None
  then show ?thesis by (simp add: persistDatums_def)
next
  case (Some vin)
  let ?r = "fact_rows_of e vin rcv b rs src (classifyPayload (map nd_key (dedupe ds))) (dedupe ds) db"
  let ?snaps = "map (snapshot_row_of e vin) (filter (\<lambda>d. nd_tier d = Once) (dedupe ds))"
  obtain t where t: "snd ?r = db\<lparr>tick := t\<rparr>" using fact_rows_of_db by blast
  then have 1: "same_plan db (snd ?r)" by (simp add: same_plan_def same_base_def)
  show ?thesis
  proof (cases "insert_facts (fst ?r) (snd ?r)")
    case None
    with Some 1 show ?thesis by (simp add: persistDatums_def Let_def case_prod_beta)
  next
    case F: (Some db2)
    from insert_facts_Some [OF F] have 2: "same_plan db db2" by (simp add: same_plan_def same_base_def t)
    then have 3: "same_plan db (insert_history ?snaps (fold put_snapshot ?snaps db2))"
      by (meson same_plan_trans insert_history_plan fold_put_snapshot_plan)
    with Some F 1 2 show ?thesis
      by (simp add: persistDatums_def Let_def case_prod_beta insert_snapshots_eq)
  qed
qed

lemma persistPolledValues_plan: "same_plan db (snd (persistPolledValues e vin vs rcv db))"
proof -
  let ?db1 = "snd (fresh_id e db)"
  have "same_plan db (?db1\<lparr>batches := bs\<rparr>)" for bs by (simp add: same_plan_def same_base_def fresh_id_def)
  then have "same_plan db (snd (persistDatums e b v ds rcv False T_poll (?db1\<lparr>batches := bs\<rparr>)))" for b v ds bs
    by (rule same_plan_trans [OF _ persistDatums_plan])
  then show ?thesis
    unfolding persistPolledValues_def Let_def case_prod_beta
    by (simp split: sum.split prod.split)
qed

lemma recordSignals_plan [simp]: "same_plan db (recordSignals e v n now db)"
  by (simp add: same_plan_def same_base_def recordSignals_def put_counter_def fresh_id_def)

lemma meter_requests_plan [simp]: "same_plan db (meter_requests e v now oc db)"
  by (simp add: same_plan_def same_base_def meter_requests_def put_counter_def fresh_id_def Let_def)

lemma next_tick_plan [simp]: "same_plan db (next_tick db)"
  by (simp add: same_plan_def same_base_def next_tick_def)

lemma teslaGet_plan [simp]: "same_plan db (snd (teslaGet e t v p db))"
  by (simp add: teslaGet_def)

lemma getMemberAccessToken_plan: "same_plan db (snd (getMemberAccessToken e m db))"
  by (auto simp: getMemberAccessToken_def refreshAccessToken_def store_refreshed_def next_tick_def same_plan_def same_base_def Let_def
      split: option.split sum.split)

lemma fetch_for_path_plan: "same_plan db (snd (snd (fetch_for_path e v t p fetched db)))"
  by (simp add: fetch_for_path_def case_prod_beta)

lemma due_values_plan: "same_plan db (snd (due_values e v now t ps fetched db))"
proof (induction ps arbitrary: fetched db)
  case (Cons p ps)
  let ?F = "fetch_for_path e v t (fst p) fetched db"
  have "same_plan db (snd (due_values e v now t ps (fst (snd ?F)) (snd (snd ?F))))"
    by (rule same_plan_trans [OF fetch_for_path_plan Cons])
  then show ?case
    by (cases p) (simp add: Let_def case_prod_beta split: option.split)
qed simp

section \<open>The state row after a poll\<close>

lemma loadState_same_plan: "same_plan db db' \<Longrightarrow> loadState db' = loadState db"
  by (simp add: same_plan_def same_base_def loadState_def state_of_def fun_eq_iff)

lemma loadCandidates_same_plan: "same_plan db db' \<Longrightarrow> loadCandidates db' = loadCandidates db"
  by (simp add: same_plan_def same_base_def loadCandidates_def)

lemma loadCandidates_writeState [simp]: "loadCandidates (writeState v now ip lp li le db) = loadCandidates db"
  by (simp add: writeState_def loadCandidates_def)

lemma same_base_same_plan: "same_plan db db' \<Longrightarrow> same_base d db' = same_base d db"
  by (auto simp: same_plan_def same_base_def)

lemma same_base_refl [simp]: "same_base db db"
  by (simp add: same_base_def)

lemma same_base_writeState [simp]: "same_base d (writeState v now ip lp li le db) = same_base d db"
  by (simp add: writeState_def same_base_def)

lemma loadState_writeState:
  "loadState (writeState v now ip lp li le db) u =
     (if u = v then (case ip of None \<Rightarrow> fst (loadState db v) | Some b \<Rightarrow> b, sql_coalesce lp (snd (loadState db v)))
      else loadState db u)"
proof (cases "state_of db v")
  case None
  then show ?thesis
    by (auto simp: writeState_def loadState_def state_of_def find_append sql_coalesce_def split: option.splits)
next
  case (Some r)
  have "state_of (writeState v now ip lp li le db) u =
      map_option (\<lambda>q. if ps_vin q = v then set_state now ip lp li le q else q) (state_of db u)"
    using Some by (simp add: writeState_def state_of_def find_update_where set_state_def)
  also have "\<dots> = (if u = v then Some (set_state now ip lp li le r) else state_of db u)"
    using Some by (cases "state_of db u") (auto simp: state_of_def dest: find_SomeD)
  finally have "state_of (writeState v now ip lp li le db) u =
      (if u = v then Some (set_state now ip lp li le r) else state_of db u)" .
  with Some show ?thesis by (cases ip) (simp_all add: loadState_def set_state_def)
qed

lemma poll_identity_cases:
  assumes "poll_identity e v now t ks oc db = (res, db')"
  obtains (same) "same_plan db db'" and "res = Inr oc \<or> (\<exists>err. res = Inl err)"
  | (polled) db2 n where "same_plan db db2" and "db' = writeState v now (Some True) None (Some now) None db2"
      and "res = Inr (oc\<lparr>po_fields_polled := po_fields_polled oc + n, po_identity_polled := 1\<rparr>)"
proof -
  let ?rows = "filter (\<lambda>c. fc_key c \<in> set ks \<and> has_rest_path c) (catalog db)"
  let ?db2 = "snd (teslaGet e t v ''/vehicle_data'' (snd (teslaGet e t v ''/vehicle_config'' db)))"
  have 2: "same_plan db ?db2" by (rule same_plan_trans [OF teslaGet_plan teslaGet_plan])
  show ?thesis
  proof (cases "ks = [] \<or> ?rows = []")
    case True
    with assms show ?thesis by (intro same) (auto simp: poll_identity_def Let_def)
  next
    case False
    define vs where "vs = identity_values (fst (teslaGet e t v ''/vehicle_config'' db))
        (fst (teslaGet e t v ''/vehicle_data'' (snd (teslaGet e t v ''/vehicle_config'' db)))) now ?rows"
    have R: "poll_identity e v now t ks oc db =
        (if vs = [] then (Inr oc, ?db2)
         else case persistPolledValues e v vs now ?db2 of
             (Inl err, db3) \<Rightarrow> (Inl err, db3)
           | (Inr _, db3) \<Rightarrow> (Inr (oc\<lparr>po_fields_polled := po_fields_polled oc + length vs, po_identity_polled := 1\<rparr>),
               writeState v now (Some True) None (Some now) None (recordSignals e (Some v) (length vs) now db3)))"
      unfolding poll_identity_def vs_def Let_def case_prod_beta using False by simp
    obtain r db3 where P: "persistPolledValues e v vs now ?db2 = (r, db3)" by fastforce
    with persistPolledValues_plan [of ?db2 e v vs now] 2 have 3: "same_plan db db3"
      by (auto intro: same_plan_trans)
    show ?thesis
    proof (cases "vs = []")
      case True
      with R assms 2 show ?thesis by (intro same) auto
    next
      case vs: False
      show ?thesis
      proof (cases r)
        case (Inl err)
        with R P vs assms 3 show ?thesis by (intro same) auto
      next
        case (Inr n)
        from R P vs assms Inr have "res = Inr (oc\<lparr>po_fields_polled := po_fields_polled oc + length vs, po_identity_polled := 1\<rparr>)"
          "db' = writeState v now (Some True) None (Some now) None (recordSignals e (Some v) (length vs) now db3)"
          by auto
        with same_plan_trans [OF 3 recordSignals_plan] show ?thesis by (intro polled)
      qed
    qed
  qed
qed

lemma poll_due_cases:
  assumes "poll_due e v now t ks oc db = (res, db')"
  obtains (same) "same_plan db db'" and "res = Inr oc \<or> (\<exists>err. res = Inl err)"
  | (empty) db2 where "same_plan db db2" and "db' = writeState v now None None None (Some ''poll_empty_response'') db2"
      and "res = Inr (oc\<lparr>po_last_error := Some ''poll_empty_response''\<rparr>)"
  | (polled) db2 n where "same_plan db db2" and "db' = writeState v now None (Some now) None None db2"
      and "res = Inr (oc\<lparr>po_fields_polled := po_fields_polled oc + n, po_polls_run := Suc (po_polls_run oc)\<rparr>)"
proof (cases "ks = []")
  case True
  with assms show ?thesis by (intro same) (auto simp: poll_due_def)
next
  case False
  obtain vs db1 where V: "due_values e v now t (group_by_path (filter (\<lambda>c. fc_key c \<in> set ks) (catalog db))) None db = (vs, db1)"
    by fastforce
  with due_values_plan [of db e v now t _ None] have 1: "same_plan db db1" by (metis snd_conv)
  have R: "poll_due e v now t ks oc db =
      (if vs = [] then (Inr (oc\<lparr>po_last_error := Some ''poll_empty_response''\<rparr>),
          writeState v now None None None (Some ''poll_empty_response'') db1)
       else case persistPolledValues e v vs now db1 of
           (Inl err, db2) \<Rightarrow> (Inl err, db2)
         | (Inr _, db2) \<Rightarrow> (Inr (oc\<lparr>po_fields_polled := po_fields_polled oc + length vs, po_polls_run := Suc (po_polls_run oc)\<rparr>),
             writeState v now None (Some now) None None (recordSignals e (Some v) (length vs) now db2)))"
    unfolding poll_due_def using False V by simp
  obtain r db2 where P: "persistPolledValues e v vs now db1 = (r, db2)" by fastforce
  with persistPolledValues_plan [of db1 e v vs now] 1 have 2: "same_plan db db2" by (auto intro: same_plan_trans)
  show ?thesis
  proof (cases "vs = []")
    case True
    with R assms 1 show ?thesis by (intro empty) auto
  next
    case vs: False
    show ?thesis
    proof (cases r)
      case (Inl err)
      with R P vs assms 2 show ?thesis by (intro same) auto
    next
      case (Inr n)
      from R P vs assms Inr have "res = Inr (oc\<lparr>po_fields_polled := po_fields_polled oc + length vs, po_polls_run := Suc (po_polls_run oc)\<rparr>)"
        "db' = writeState v now None (Some now) None None (recordSignals e (Some v) (length vs) now db2)"
        by auto
      with same_plan_trans [OF 2 recordSignals_plan] show ?thesis by (intro polled)
    qed
  qed
qed

section \<open>The cases of a poll\<close>

text \<open>What a poll does to the state row of its vehicle; no other row changes.\<close>

definition state_step :: "vin \<Rightarrow> iso \<Rightarrow> string + poll_outcome \<Rightarrow> ('a) poll_db_scheme \<Rightarrow> ('a) poll_db_scheme \<Rightarrow> bool" where
  "state_step v now res db db' \<longleftrightarrow>
     same_base db db' \<and> loadCandidates db' = loadCandidates db \<and> (\<forall>u. u \<noteq> v \<longrightarrow> loadState db' u = loadState db u) \<and>
     (fst (loadState db v) \<longrightarrow> fst (loadState db' v)) \<and>
     (case res of
        Inl _ \<Rightarrow> snd (loadState db' v) = snd (loadState db v)
      | Inr oc \<Rightarrow> (po_identity_polled oc \<noteq> 0 \<longrightarrow> fst (loadState db' v)) \<and>
          snd (loadState db' v) = (if po_polls_run oc = 0 then snd (loadState db v) else Some now))"

lemma runPollCoordinator_cases:
  "runPollCoordinator e v now db = (Inr (empty_outcome v), db) \<or>
   (\<exists>m. runPollCoordinator e v now db = poll_as_member e v now (poll_plan db v now) m db)"
  unfolding runPollCoordinator_def Let_def
  by (cases "Option.bind (vehicle_of db v) v_member") (auto simp del: Option.bind_eq_Some_conv bind_eq_None_conv)

lemma runPollCoordinator_state_step: "state_step v now (fst (runPollCoordinator e v now db)) db (snd (runPollCoordinator e v now db))"
proof -
  let ?oc = "empty_outcome v" and ?plan = "poll_plan db v now"
  have stop: "state_step v now (Inr ?oc) db db"
    by (simp add: state_step_def empty_outcome_def)
  consider (stop) "runPollCoordinator e v now db = (Inr ?oc, db)"
    | (token) m where "runPollCoordinator e v now db = poll_as_member e v now ?plan m db"
    using runPollCoordinator_cases by blast
  then show ?thesis
  proof cases
    case stop
    with \<open>state_step v now (Inr ?oc) db db\<close> show ?thesis by simp
  next
    case token
    obtain tok db1 where T: "getMemberAccessToken e (Some m) db = (tok, db1)" by fastforce
    with getMemberAccessToken_plan [of db e "Some m"] have 1: "same_plan db db1" by simp
    show ?thesis
    proof (cases "no_token tok")
      case True
      with token T poll_as_member_def [of e v now ?plan m db] 1 show ?thesis
        by (auto simp: state_step_def empty_outcome_def loadState_writeState sql_coalesce_def
            loadState_same_plan [of db db1] loadCandidates_same_plan [of db db1] same_base_same_plan [of db db1])
    next
      case False
      obtain r2 db2 where I: "poll_identity e v now (the tok) (fst ?plan) ?oc db1 = (r2, db2)" by fastforce
      from I have step1: "state_step v now r2 db db2"
      proof (cases rule: poll_identity_cases)
        case same
        with 1 have "same_plan db db2" by (rule_tac same_plan_trans)
        with same(2) show ?thesis
          by (auto simp: state_step_def empty_outcome_def loadState_same_plan [of db db2] loadCandidates_same_plan [of db db2] same_base_same_plan [of db db2])
      next
        case (polled db2' n)
        with 1 have "same_plan db db2'" by (rule_tac same_plan_trans)
        with polled(2,3) show ?thesis
          by (auto simp: state_step_def empty_outcome_def loadState_writeState sql_coalesce_def
              loadState_same_plan [of db db2'] loadCandidates_same_plan [of db db2'] same_base_same_plan [of db db2'])
      qed
      show ?thesis
      proof (cases r2)
        case (Inl err)
        with token T poll_as_member_def [of e v now ?plan m db] False I step1 show ?thesis by simp
      next
        case (Inr oc2)
        from I have polls0: "po_polls_run oc2 = 0"
          by (cases rule: poll_identity_cases) (auto simp: Inr empty_outcome_def)
        obtain r3 db3 where D: "poll_due e v now (the tok) (snd ?plan) oc2 db2 = (r3, db3)" by fastforce
        from D have step2: "state_step v now r3 db db3"
        proof (cases rule: poll_due_cases)
          case same
          with step1 polls0 show ?thesis
            by (auto simp: state_step_def Inr loadState_same_plan [of db2 db3] loadCandidates_same_plan [of db2 db3] same_base_same_plan [of db2 db3])
        next
          case (empty d)
          with step1 polls0 show ?thesis
            by (auto simp: state_step_def Inr loadState_writeState sql_coalesce_def
                loadState_same_plan [of db2 d] loadCandidates_same_plan [of db2 d] same_base_same_plan [of db2 d])
        next
          case (polled d n)
          with step1 polls0 show ?thesis
            by (auto simp: state_step_def Inr loadState_writeState sql_coalesce_def
                loadState_same_plan [of db2 d] loadCandidates_same_plan [of db2 d] same_base_same_plan [of db2 d])
        qed
        have meter: "loadState (meter_requests e v now oc3 db3) = loadState db3"
          "loadCandidates (meter_requests e v now oc3 db3) = loadCandidates db3"
          "same_base d (meter_requests e v now oc3 db3) = same_base d db3" for oc3 d
          using meter_requests_plan [of db3 e v now oc3] loadState_same_plan loadCandidates_same_plan same_base_same_plan
          by blast+
        show ?thesis
        proof (cases r3)
          case (Inl err)
          with token T poll_as_member_def [of e v now ?plan m db] False I Inr D step2 show ?thesis by simp
        next
          case r3: (Inr oc3)
          with token T poll_as_member_def [of e v now ?plan m db] False I Inr D step2 show ?thesis by (simp add: state_step_def meter)
        qed
      qed
    qed
  qed
qed

lemma loadCandidates_sound:
  "c \<in> set (loadCandidates db) \<Longrightarrow>
   (\<exists>r \<in> set (catalog db). fc_key r = cd_key c \<and> fc_collected r \<and> has_rest_path r) \<and>
   (\<exists>en \<in> set (entries db). e_field en = cd_key c \<and> e_scope en = ''global'' \<and> e_enabled en) \<and>
   cd_key c \<notin> set TELEMETRY_ONLY_STATE \<and> (cd_key c = ''Odometer'' \<longrightarrow> cd_interval c = 604800)"
  by (auto simp: loadCandidates_def TELEMETRY_ONLY_STATE_def POLL_CADENCE_SECONDS_def)

section \<open>Properties\<close>

text \<open>Without a live consent for the vehicle a poll does nothing at all: no request is made,
  no table changes, and the outcome is empty.\<close>

theorem poll_needs_consent:
  assumes "\<not> memberMayBeCollected db v"
  shows "runPollCoordinator e v now db = (Inr (empty_outcome v), db)"
  using assms by (simp add: runPollCoordinator_def)

text \<open>What a plan may fetch: every planned field is collected, has a REST path, is enabled
  at the global scope and is none of the fields reserved to telemetry; an identity field is
  planned only before the identity was polled, another field only when it is due.\<close>

theorem poll_plan_fields:
  assumes "f \<in> set (fst (poll_plan db v now)) \<or> f \<in> set (snd (poll_plan db v now))"
  shows "(\<exists>c \<in> set (catalog db). fc_key c = f \<and> fc_collected c \<and> has_rest_path c) \<and>
    (\<exists>en \<in> set (entries db). e_field en = f \<and> e_scope en = ''global'' \<and> e_enabled en) \<and>
    f \<notin> set TELEMETRY_ONLY_STATE \<and>
    (if f \<in> set IDENTITY_FIELDS then \<not> fst (loadState db v)
     else \<exists>c \<in> set (loadCandidates db). cd_key c = f \<and> isDue (snd (loadState db v)) (cd_interval c) (date_parse now))"
proof -
  from assms obtain c where c: "c \<in> set (loadCandidates db)" "cd_key c = f"
    and "if f \<in> set IDENTITY_FIELDS then \<not> fst (loadState db v)
         else isDue (snd (loadState db v)) (cd_interval c) (date_parse now)"
    by (auto simp: poll_plan_def planPoll_def Let_def split: if_splits)
  with loadCandidates_sound [OF c(1)] show ?thesis by (auto split: if_splits)
qed

text \<open>The identity is polled exactly once: after a poll that read it, and whatever polls of
  any vehicle follow, no plan of the vehicle holds an identity field.\<close>

theorem identity_polled_once:
  assumes "fst (runPollCoordinator e v now db) = Inr oc" and "po_identity_polled oc \<noteq> 0"
  shows "fst (poll_plan (fold (\<lambda>(e, u, t) d. snd (runPollCoordinator e u t d)) later (snd (runPollCoordinator e v now db))) v now') = []"
proof -
  have keep: "fst (loadState d v) \<Longrightarrow> fst (loadState (snd (runPollCoordinator e u t d)) v)" for e u t d
    using runPollCoordinator_state_step [of u t e d] by (cases "u = v") (auto simp: state_step_def)
  have first: "fst (loadState (snd (runPollCoordinator e v now db)) v)"
    using runPollCoordinator_state_step [of v now e db] assms by (simp add: state_step_def)
  have "fst (loadState d v) \<Longrightarrow> fst (loadState (fold (\<lambda>(e, u, t) d. snd (runPollCoordinator e u t d)) later d) v)" for d
    by (induction later arbitrary: d) (auto simp: keep)
  from this [OF first] show ?thesis by (simp add: poll_plan_def planPoll_def Let_def)
qed

text \<open>C32: The cadence: after a poll at one instant, the next plan of the vehicle holds a field among
  those due by their interval only when that interval has passed since the poll, whichever fields
  the poll read; for the odometer this is a week, so an odometer never read more often than weekly
  is also never read while another field is polled sooner.  The fields of the vehicle's identity
  are not due by an interval: they are planned with every poll until they have been read.\<close>

theorem poll_respects_cadence:
  assumes run: "fst (runPollCoordinator e v (iso_of_ms t1) db) = Inr oc" "po_polls_run oc \<noteq> 0"
    and y1: "0 \<le> utc_year t1" "utc_year t1 \<le> 9999" and y2: "0 \<le> utc_year t2" "utc_year t2 \<le> 9999"
    and due: "f \<in> set (snd (poll_plan (snd (runPollCoordinator e v (iso_of_ms t1) db)) v (iso_of_ms t2)))"
  shows "\<exists>c \<in> set (loadCandidates db). cd_key c = f \<and> cd_interval c * 1000 \<le> t2 - t1 \<and>
    (if f = ''Odometer'' then cd_interval c = 604800 else True)"
proof -
  let ?db = "snd (runPollCoordinator e v (iso_of_ms t1) db)"
  have S: "loadCandidates ?db = loadCandidates db" "snd (loadState ?db v) = Some (iso_of_ms t1)"
    using runPollCoordinator_state_step [of v "iso_of_ms t1" e db] run by (simp_all add: state_step_def)
  from due obtain c where c: "c \<in> set (loadCandidates db)" "cd_key c = f"
      "isDue (Some (iso_of_ms t1)) (cd_interval c) (Some t2)"
    by (auto simp: poll_plan_def planPoll_def Let_def S date_parse_iso y2)
  moreover have "cd_interval c * 1000 \<le> t2 - t1" using c(3) by (simp add: isDue_def date_parse_iso y1)
  moreover have "f = ''Odometer'' \<longrightarrow> cd_interval c = 604800"
    using c(2) loadCandidates_sound [OF c(1)] by simp
  ultimately show ?thesis by auto
qed

section \<open>Concrete runs\<close>

definition sample_poll_consent :: consent_row where
  "sample_poll_consent = \<lparr>c_id = ''C1'', c_member = ''M1'', c_vin = None, c_scope_granted = ''all'',
     c_policy_version = ''1'', c_purposes = [], c_granted_at = ''t0'', c_revoked_at = None,
     c_revoke_reason = None, c_policy_sha256 = None, c_collected_fields = [], c_recipients = [],
     c_ip_hash = None, c_user_agent = None\<rparr>"

definition sample_poll_catalog :: "catalog_row list" where
  "sample_poll_catalog =
     [\<lparr>fc_key = ''CarType'', fc_tier = Once, fc_collected = True, fc_min_delta = None,
       fc_rest_path = Some ''vehicle_config.car_type''\<rparr>,
      \<lparr>fc_key = ''Odometer'', fc_tier = On_change, fc_collected = True, fc_min_delta = None,
       fc_rest_path = Some ''vehicle_state.odometer''\<rparr>]"

definition sample_poll_db :: poll_db where
  "sample_poll_db = key_db.extend
     (sample_key_db\<lparr>consents := [sample_poll_consent], catalog := sample_poll_catalog,
        entries := [\<lparr>e_scope = ''global'', e_field = ''CarType'', e_interval = 3600, e_min_delta = None, e_enabled = True\<rparr>,
                    \<lparr>e_scope = ''global'', e_field = ''Odometer'', e_interval = 3600, e_min_delta = None, e_enabled = True\<rparr>]\<rparr>)
     \<lparr>poll_states = []\<rparr>"

definition sample_vehicle_data :: json where
  "sample_vehicle_data = JObj [(''response'', JObj
     [(''vehicle_state'', JObj [(''odometer'', JNum 42)]), (''vehicle_config'', JObj [(''car_type'', JStr ''model3'')])])]"

definition sample_poll_env :: poll_env where
  "sample_poll_env = network.extend sample_network
     \<lparr>pe_get = (\<lambda>n t v p. Inr \<lparr>hr_status = 200, hr_text = [], hr_json = Some sample_vehicle_data\<rparr>)\<rparr>"

lemmas sample_poll_simps = sample_poll_db_def sample_poll_catalog_def sample_poll_consent_def sample_key_db_def
  sample_telemetry_simps telemetry_db.extend_def key_db.extend_def sample_member_def

theorem poll_needs_consent_witness:
  "runPollCoordinator sample_poll_env ''V1'' ''t1'' (sample_poll_db\<lparr>consents := []\<rparr>) =
    (Inr (empty_outcome ''V1''), sample_poll_db\<lparr>consents := []\<rparr>)"
  by (rule poll_needs_consent) (simp add: sample_poll_simps memberMayBeCollected_def)

theorem poll_plan_fields_witness:
  "(\<exists>c \<in> set (catalog sample_poll_db). fc_key c = ''Odometer'' \<and> fc_collected c \<and> has_rest_path c) \<and>
    (\<exists>en \<in> set (entries sample_poll_db). e_field en = ''Odometer'' \<and> e_scope en = ''global'' \<and> e_enabled en) \<and>
    ''Odometer'' \<notin> set TELEMETRY_ONLY_STATE \<and>
    (if ''Odometer'' \<in> set IDENTITY_FIELDS then \<not> fst (loadState sample_poll_db ''V1'')
     else \<exists>c \<in> set (loadCandidates sample_poll_db). cd_key c = ''Odometer'' \<and>
       isDue (snd (loadState sample_poll_db ''V1'')) (cd_interval c) (date_parse ''t1''))"
  by (rule poll_plan_fields) code_simp

lemmas sample_env_simps = sample_poll_env_def sample_network_def sample_runtime_def runtime.extend_def network.extend_def

lemma normaliseRestValue_columns: "columns_ok (normaliseRestValue v)"
  by (auto simp: normaliseRestValue_def columns_ok_def none_of_def split: option.split json.split)

lemmas persist_one_simps = persistPolledValues_def persistDatums_def fresh_id_def dedupe_def dedupe_step_def dedupe_key_def
  classifyPayload_def snapshot_row_of_def fact_allowed_def snapshot_allowed_def catalog_meta_def vehicleExists_def
  is_invalid_def put_snapshot_def Let_def js_set_def normaliseRestValue_columns

lemma persist_once:
  assumes "vehicles db = [sample_vehicle]" "catalog db = sample_poll_catalog" "facts db = []"
  shows "\<exists>n db'. persistPolledValues e ''V1'' [\<lparr>pv_key = ''CarType'', pv_value = JStr s, pv_observed_at = t\<rparr>] t db
    = (Inr n, db') \<and> vehicles db' = [sample_vehicle] \<and> catalog db' = sample_poll_catalog \<and> facts db' = []"
  using assms
  by (simp add: persist_one_simps normaliseRestValue_def none_of_def sample_vehicle_def sample_poll_catalog_def cong: let_weak_cong)

lemma persist_odometer:
  assumes "vehicles db = [sample_vehicle]" "catalog db = sample_poll_catalog" "facts db = []"
  shows "\<exists>n db'. persistPolledValues e ''V1'' [\<lparr>pv_key = ''Odometer'', pv_value = JNum 42, pv_observed_at = t\<rparr>] t db
    = (Inr n, db')"
  using assms
  by (simp add: persist_one_simps sample_vehicle_def sample_poll_catalog_def cong: let_weak_cong)

lemma sample_get: "teslaGet sample_poll_env tok v p db = (Some (JObj
     [(''vehicle_state'', JObj [(''odometer'', JNum 42)]), (''vehicle_config'', JObj [(''car_type'', JStr ''model3'')])]), next_tick db)"
  by (simp add: teslaGet_def sample_env_simps reply_ok_def sample_vehicle_data_def)

lemma sample_split: "split_on (CHR ''.'') ''vehicle_config.car_type'' = [''vehicle_config'', ''car_type'']"
  "split_on (CHR ''.'') ''vehicle_state.odometer'' = [''vehicle_state'', ''odometer'']"
  by code_simp+

lemma sample_poll_token:
  "\<exists>db'. getMemberAccessToken sample_poll_env (Some ''M1'') sample_poll_db = (Some ''at'', db') \<and>
     vehicles db' = [sample_vehicle] \<and> catalog db' = sample_poll_catalog \<and> facts db' = []"
  by (simp add: getMemberAccessToken_def refreshAccessToken_def sample_poll_simps sample_env_simps sample_token_def
     sample_token_reply_def reply_ok_def next_tick_def store_refreshed_def expires_ms_def cong: let_weak_cong)

lemma sample_poll_plan:
  "poll_plan sample_poll_db ''V1'' now = ([''CarType''], [''Odometer''])"
  by (simp add: poll_plan_def loadCandidates_def sample_poll_simps planPoll_def IDENTITY_FIELDS_def TELEMETRY_ONLY_STATE_def
    has_rest_path_def loadState_def state_of_def isDue_def POLL_CADENCE_SECONDS_def)

lemma sample_poll_identity:
  assumes "vehicles db = [sample_vehicle]" "catalog db = sample_poll_catalog" "facts db = []"
  shows "\<exists>db'. poll_identity sample_poll_env ''V1'' t ''at'' [''CarType''] oc db
      = (Inr (oc\<lparr>po_fields_polled := Suc (po_fields_polled oc), po_identity_polled := 1\<rparr>), db') \<and>
    vehicles db' = [sample_vehicle] \<and> catalog db' = sample_poll_catalog \<and> facts db' = []"
proof -
  let ?db = "next_tick (next_tick db)"
  have "vehicles ?db = [sample_vehicle]" "catalog ?db = sample_poll_catalog" "facts ?db = []"
    using assms by (simp_all add: next_tick_def)
  from persist_once [OF this, of sample_poll_env "''model3''" t]
  obtain n db' where P: "persistPolledValues sample_poll_env ''V1'' [\<lparr>pv_key = ''CarType'', pv_value = JStr ''model3'', pv_observed_at = t\<rparr>] t ?db
      = (Inr n, db')" "vehicles db' = [sample_vehicle]" "catalog db' = sample_poll_catalog" "facts db' = []"
    by blast
  then show ?thesis
    using assms
    by (simp add: poll_identity_def sample_get sample_poll_catalog_def has_rest_path_def rest_path_def starts_with_def read_value_def
      readPath_def sample_split recordSignals_def put_counter_def fresh_id_def writeState_def Let_def case_prod_beta)
qed

lemma sample_poll_due:
  assumes "vehicles db = [sample_vehicle]" "catalog db = sample_poll_catalog" "facts db = []"
  shows "\<exists>db'. poll_due sample_poll_env ''V1'' t ''at'' [''Odometer''] oc db
      = (Inr (oc\<lparr>po_fields_polled := Suc (po_fields_polled oc), po_polls_run := Suc (po_polls_run oc)\<rparr>), db')"
proof -
  let ?db = "next_tick db"
  have "vehicles ?db = [sample_vehicle]" "catalog ?db = sample_poll_catalog" "facts ?db = []"
    using assms by (simp_all add: next_tick_def)
  from persist_odometer [OF this, of sample_poll_env t]
  obtain n db' where P: "persistPolledValues sample_poll_env ''V1'' [\<lparr>pv_key = ''Odometer'', pv_value = JNum 42, pv_observed_at = t\<rparr>] t ?db
      = (Inr n, db')"
    by blast
  then show ?thesis
    using assms
    by (simp add: poll_due_def sample_get sample_poll_catalog_def rest_path_def starts_with_def read_value_def group_by_path_def
      fetch_for_path_def readPath_def sample_split Let_def case_prod_beta)
qed

definition sample_poll_outcome :: poll_outcome where
  "sample_poll_outcome = \<lparr>po_vin = ''V1'', po_identity_polled = 1, po_polls_run = 1, po_fields_polled = 2, po_last_error = None\<rparr>"

lemma sample_poll_run: "fst (runPollCoordinator sample_poll_env ''V1'' t sample_poll_db) = Inr sample_poll_outcome"
proof -
  obtain db1 where 1: "getMemberAccessToken sample_poll_env (Some ''M1'') sample_poll_db = (Some ''at'', db1)"
      "vehicles db1 = [sample_vehicle]" "catalog db1 = sample_poll_catalog" "facts db1 = []"
    using sample_poll_token by blast
  obtain db2 where 2: "poll_identity sample_poll_env ''V1'' t ''at'' [''CarType''] (empty_outcome ''V1'') db1 =
      (Inr (empty_outcome ''V1''\<lparr>po_fields_polled := Suc (po_fields_polled (empty_outcome ''V1'')), po_identity_polled := 1\<rparr>), db2)"
      "vehicles db2 = [sample_vehicle]" "catalog db2 = sample_poll_catalog" "facts db2 = []"
    using sample_poll_identity [OF 1(2-4)] by blast
  obtain db3 where 3: "poll_due sample_poll_env ''V1'' t ''at'' [''Odometer'']
      (empty_outcome ''V1''\<lparr>po_fields_polled := Suc (po_fields_polled (empty_outcome ''V1'')), po_identity_polled := 1\<rparr>) db2 =
      (Inr sample_poll_outcome, db3)"
    using sample_poll_due [OF 2(2-4), of t "empty_outcome ''V1''\<lparr>po_fields_polled := Suc (po_fields_polled (empty_outcome ''V1'')), po_identity_polled := 1\<rparr>"]
    by (auto simp: empty_outcome_def sample_poll_outcome_def)
  have gates: "memberMayBeCollected sample_poll_db ''V1''" "loadCandidates sample_poll_db \<noteq> []"
      "Option.bind (vehicle_of sample_poll_db ''V1'') v_member = Some ''M1''"
    by (simp_all add: sample_poll_simps memberMayBeCollected_def loadCandidates_def has_rest_path_def vehicle_of_def)
  show ?thesis
    by (simp add: runPollCoordinator_def gates sample_poll_plan poll_as_member_def 1 2 3 no_token_def Let_def del: Option.bind_eq_Some_conv One_nat_def)
qed
theorem identity_polled_once_witness:
  "fst (poll_plan (fold (\<lambda>(e, u, t) d. snd (runPollCoordinator e u t d))
      [(sample_poll_env, ''V1'', iso_of_ms 1760000086400)]
      (snd (runPollCoordinator sample_poll_env ''V1'' (iso_of_ms 1760000000000) sample_poll_db))) ''V1'' ''t1'') = []"
  by (rule identity_polled_once [OF sample_poll_run]) (simp add: sample_poll_outcome_def)

theorem poll_respects_cadence_witness:
  "\<exists>c \<in> set (loadCandidates sample_poll_db). cd_key c = ''Odometer'' \<and>
    cd_interval c * 1000 \<le> 1760604800000 - (1760000000000 :: int) \<and>
    (if ''Odometer'' = ''Odometer'' then cd_interval c = 604800 else True)"
proof (rule poll_respects_cadence [OF sample_poll_run])
  let ?db = "snd (runPollCoordinator sample_poll_env ''V1'' (iso_of_ms 1760000000000) sample_poll_db)"
  have years: "utc_year 1760000000000 = 2025" "utc_year 1760604800000 = 2025" by code_simp+
  then show "0 \<le> utc_year 1760000000000" "utc_year 1760000000000 \<le> 9999"
    "0 \<le> utc_year 1760604800000" "utc_year 1760604800000 \<le> 9999" by simp_all
  have S: "loadCandidates ?db = loadCandidates sample_poll_db" "snd (loadState ?db ''V1'') = Some (iso_of_ms 1760000000000)"
    using runPollCoordinator_state_step [of "''V1''" "iso_of_ms 1760000000000" sample_poll_env sample_poll_db]
    by (simp_all add: state_step_def sample_poll_run sample_poll_outcome_def)
  have "\<lparr>cd_key = ''Odometer'', cd_interval = 604800\<rparr> \<in> set (loadCandidates sample_poll_db)"
    by code_simp
  then show "''Odometer'' \<in> set (snd (poll_plan ?db ''V1'' (iso_of_ms 1760604800000)))"
    by (force simp: poll_plan_def planPoll_def S Let_def isDue_def date_parse_iso years IDENTITY_FIELDS_def TELEMETRY_ONLY_STATE_def)
qed (simp add: sample_poll_outcome_def)

end
