(* ===== verification/Ingest.thy ===== *)
theory Ingest
  imports PollCoordinator
begin

text \<open>
  The route \<open>POST /ingest/telemetry\<close> of \<open>index.ts\<close>: authentication of the relay, the archive of
  the raw payload, the batch row, normalisation, the consent gate, persistence, the poll that
  rides on the batch, the rejections and the run log.  The object store is an oracle that tells
  whether a put succeeds; what it holds is a list of keys and payloads.
\<close>

section \<open>State and environment\<close>

record ingest_db = poll_db +
  archive :: "(string \<times> string) list"

record ingest_env = poll_env +
  ie_secret :: "string option"
  ie_put :: "nat \<Rightarrow> string \<Rightarrow> bool"

record ingest_request =
  iq_secret :: "string option"
  iq_content_type :: "string option"
  iq_raw :: string
  iq_body :: "json option"

record ingest_report =
  ig_run :: string
  ig_batch :: string
  ig_vin :: "vin option"
  ig_archived :: bool
  ig_accepted :: nat
  ig_facts :: nat
  ig_snapshots :: nat
  ig_skipped_unknown :: nat
  ig_skipped_uncollected :: nat
  ig_invalid :: nat
  ig_errors :: "(string \<times> string) list"
  ig_month :: "nat \<times> rat"

datatype ingest_reply = Ingest_refused nat string | Ingest_no_datums | Ingest_done ingest_report

definition MAX_PAYLOAD :: nat where
  "MAX_PAYLOAD = 524288"

section \<open>The handler\<close>

definition check_request :: "('e) ingest_env_scheme \<Rightarrow> ingest_request \<Rightarrow> ingest_reply + json" where
  "check_request e req =
     (case ie_secret e of
        None \<Rightarrow> Inl (Ingest_refused 503 ''ingest_not_configured'')
      | Some secret \<Rightarrow>
          if secret = [] then Inl (Ingest_refused 503 ''ingest_not_configured'')
          else if \<not> timingSafeEqual (code_units (case iq_secret req of None \<Rightarrow> [] | Some s \<Rightarrow> s)) (code_units secret)
          then Inl (Ingest_refused 401 ''unauthorized'')
          else if MAX_PAYLOAD < length (iq_raw req) then Inl (Ingest_refused 413 ''payload_too_large'')
          else (case iq_body req of
              None \<Rightarrow> Inl (Ingest_refused 400 ''malformed_json'')
            | Some body \<Rightarrow> if extractDatums body = [] then Inl Ingest_no_datums else Inr body))"

definition payload_vin :: "(vin option \<times> telemetry_datum) list \<Rightarrow> vin option" where
  "payload_vin extracted =
     (case first_where (\<lambda>e. fst e \<noteq> None \<and> fst e \<noteq> Some []) extracted of None \<Rightarrow> None | Some e \<Rightarrow> fst e)"

definition archive_key :: "iso \<Rightarrow> vin option \<Rightarrow> string \<Rightarrow> string" where
  "archive_key nowIso vin batchId =
     ''telemetry/'' @ take 10 nowIso @ ''/'' @ (case vin of None \<Rightarrow> ''unknown'' | Some v \<Rightarrow> v) @ ''/'' @ batchId @ ''.json''"

definition content_type_of :: "ingest_request \<Rightarrow> string" where
  "content_type_of req = (case iq_content_type req of None \<Rightarrow> ''application/json'' | Some t \<Rightarrow> t)"

text \<open>The put of the raw payload; a failed put is noted and the payload processed all the same.\<close>

definition archive_raw ::
  "('e) ingest_env_scheme \<Rightarrow> string \<Rightarrow> string \<Rightarrow> ('a) ingest_db_scheme \<Rightarrow> bool \<times> ('a) ingest_db_scheme" where
  "archive_raw e key raw db =
     (if ie_put e (tick db) key then (True, next_tick (db\<lparr>archive := archive db @ [(key, raw)]\<rparr>))
      else (False, next_tick db))"

definition mark_processed :: "string \<Rightarrow> iso \<Rightarrow> ('a) telemetry_db_scheme \<Rightarrow> ('a) telemetry_db_scheme" where
  "mark_processed batchId nowIso db =
     db\<lparr>batches := update_where (\<lambda>b. b_id b = batchId) (\<lambda>b. b\<lparr>b_processed_at := Some nowIso\<rparr>) (batches db)\<rparr>"

definition persist_failed :: "string \<Rightarrow> string" where
  "persist_failed message = ''persist_failed: '' @ take 80 message"

text \<open>The block inside \<open>try\<close>: what was written, and the errors of the vehicle.\<close>

definition ingest_vehicle ::
  "('e) ingest_env_scheme \<Rightarrow> string \<Rightarrow> vin \<Rightarrow> nat \<Rightarrow> normalised_datum list \<Rightarrow> iso \<Rightarrow> ('a) ingest_db_scheme \<Rightarrow>
   (nat \<times> nat) \<times> (string \<times> string) list \<times> ('a) ingest_db_scheme" where
  "ingest_vehicle e batchId vin datumCount datums nowIso db =
     (case persistDatums e batchId (Some vin) datums nowIso False T_telemetry db of
        (Inl err, db1) \<Rightarrow> ((0, 0), [(vin, persist_failed err)], db1)
      | (Inr counts, db1) \<Rightarrow>
          (case runPollCoordinator e vin nowIso
              (mark_processed batchId nowIso (recordSignals e (Some vin) datumCount nowIso db1)) of
             (Inl err, db2) \<Rightarrow> ((pc_facts counts, pc_snapshots counts), [(vin, persist_failed err)], db2)
           | (Inr poll, db2) \<Rightarrow>
               ((pc_facts counts, pc_snapshots counts),
                (case po_last_error poll of None \<Rightarrow> [] | Some err \<Rightarrow> if err = [] then [] else [(vin, err)]), db2)))"

definition ingest_gate ::
  "('e) ingest_env_scheme \<Rightarrow> string \<Rightarrow> string \<Rightarrow> vin option \<Rightarrow> nat \<Rightarrow> normalised_datum list \<Rightarrow> iso \<Rightarrow>
   ('a) ingest_db_scheme \<Rightarrow> (nat \<times> nat) \<times> (string \<times> string) list \<times> ('a) ingest_db_scheme" where
  "ingest_gate e runId batchId vin datumCount datums nowIso db =
     (case vin of
        None \<Rightarrow> ((0, 0), [(''unknown'', ''missing_vin'')], db)
      | Some v \<Rightarrow>
          if \<not> vehicleExists db v
          then ((0, 0), [(v, ''unknown_vehicle'')],
                snd (recordRejections e runId vin (map nd_key datums) Bad_vin (Some nowIso) nowIso db))
          else if \<not> memberMayBeCollected db v then ((0, 0), [(v, ''consent_revoked'')], db)
          else ingest_vehicle e batchId v datumCount datums nowIso db)"

definition when_positive :: "nat \<Rightarrow> ('d \<Rightarrow> 'd) \<Rightarrow> 'd \<Rightarrow> 'd" where
  "when_positive n f db = (if 0 < n then f db else db)"

definition record_refused ::
  "('e) runtime_scheme \<Rightarrow> string \<Rightarrow> vin option \<Rightarrow> (vin option \<times> telemetry_datum) list \<Rightarrow>
   (field_key \<rightharpoonup> tier \<times> bool) \<Rightarrow> normalised \<Rightarrow> iso \<Rightarrow> ('a) store_db_scheme \<Rightarrow> ('a) store_db_scheme" where
  "record_refused e runId vin extracted tiers n nowIso db =
     (let keys = map (\<lambda>x. td_key (snd x)) extracted;
          reject = (\<lambda>ks reason db. snd (recordRejections e runId vin ks reason (Some nowIso) nowIso db));
          db1 = when_positive (nm_skipped_unknown n) (reject (filter (\<lambda>k. tiers k = None) keys) Unknown_field) db;
          db2 = when_positive (nm_skipped_uncollected n)
            (reject (filter (\<lambda>k. case tiers k of None \<Rightarrow> False | Some (_, collected) \<Rightarrow> \<not> collected) keys) Not_collected) db1
      in when_positive (nm_invalid_values n)
           (reject (map nd_key (filter (\<lambda>d. cv_kind (nd_value d) = KInvalid) (nm_datums n))) Invalid_value) db2)"

definition ingest_batch_row ::
  "ingest_request \<Rightarrow> string \<Rightarrow> string \<Rightarrow> vin option \<Rightarrow> bool \<Rightarrow> string \<Rightarrow> nat \<Rightarrow> iso \<Rightarrow> batch_row" where
  "ingest_batch_row req runId batchId vin stored sha256 datumCount nowIso =
     \<lparr>b_id = batchId, b_vin = vin, b_received_at = nowIso, b_payload_bytes = length (iq_raw req),
      b_r2_key = (if stored then archive_key nowIso vin batchId else []), b_sha256 = sha256,
      b_datum_count = datumCount, b_content_type = content_type_of req, b_run = Some runId, b_processed_at = None\<rparr>"

text \<open>The run and the batch are recorded before anything is normalised.\<close>

definition open_batch ::
  "('e) ingest_env_scheme \<Rightarrow> ingest_request \<Rightarrow> vin option \<Rightarrow> nat \<Rightarrow> iso \<Rightarrow> ('a) ingest_db_scheme \<Rightarrow>
   string \<times> string \<times> bool \<times> ('a) ingest_db_scheme" where
  "open_batch e req vin datumCount nowIso db =
     (let (runId, db1) = startIngestRun e ''push'' nowIso db;
          (batchId, db2) = fresh_id e db1;
          (stored, db3) = archive_raw e (archive_key nowIso vin batchId) (iq_raw req) db2
      in (runId, batchId, stored, db3\<lparr>batches := batches db3 @
            [ingest_batch_row req runId batchId vin stored (rt_sha256 e (iq_raw req)) datumCount nowIso]\<rparr>))"

definition ingest_body ::
  "('e) ingest_env_scheme \<Rightarrow> ingest_request \<Rightarrow> json \<Rightarrow> iso \<Rightarrow> ('a) ingest_db_scheme \<Rightarrow> ingest_report \<times> ('a) ingest_db_scheme" where
  "ingest_body e req body nowIso db =
     (let extracted = extractDatums body;
          vin = payload_vin extracted;
          (runId, batchId, stored, db1) = open_batch e req vin (length extracted) nowIso db;
          tiers = resolveTiers db1 (map (\<lambda>x. td_key (snd x)) extracted);
          n = normalise extracted tiers nowIso;
          (written, errors, db2) = ingest_gate e runId batchId vin (length extracted) (nm_datums n) nowIso db1;
          db3 = record_refused e runId vin extracted tiers n nowIso db2;
          month = costReport db3 (take 7 nowIso) None
      in (\<lparr>ig_run = runId, ig_batch = batchId, ig_vin = vin, ig_archived = stored, ig_accepted = length (nm_datums n),
           ig_facts = fst written, ig_snapshots = snd written, ig_skipped_unknown = nm_skipped_unknown n,
           ig_skipped_uncollected = nm_skipped_uncollected n, ig_invalid = nm_invalid_values n, ig_errors = errors,
           ig_month = month\<rparr>,
          finishIngestRun runId nowIso (if vin \<noteq> None then 1 else 0)
            (if 0 < fst written + snd written then 1 else 0) (length errors) errors (snd month) db3))"

definition ingest_telemetry ::
  "('e) ingest_env_scheme \<Rightarrow> ingest_request \<Rightarrow> ('a) ingest_db_scheme \<Rightarrow> ingest_reply \<times> ('a) ingest_db_scheme" where
  "ingest_telemetry e req db =
     (let (nowIso, db1) = now_iso e db
      in case check_request e req of
           Inl reply \<Rightarrow> (reply, db1)
         | Inr body \<Rightarrow> (let (report, db2) = ingest_body e req body nowIso db1 in (Ingest_done report, db2)))"

section \<open>What the bookkeeping leaves alone\<close>

text \<open>Recording rejections writes no other table.\<close>

definition only_rejections :: "('a) store_db_scheme \<Rightarrow> ('a) store_db_scheme \<Rightarrow> bool" where
  "only_rejections db db' \<longleftrightarrow> db'\<lparr>tick := tick db, rejections := rejections db\<rparr> = db"

lemma only_rejections_refl: "only_rejections db db"
  by (simp add: only_rejections_def)

lemma only_rejections_trans:
  assumes "only_rejections a b" and "only_rejections b c"
  shows "only_rejections a c"
proof -
  have "c\<lparr>tick := tick a, rejections := rejections a\<rparr> =
      (c\<lparr>tick := tick b, rejections := rejections b\<rparr>)\<lparr>tick := tick a, rejections := rejections a\<rparr>" by simp
  with assms show ?thesis unfolding only_rejections_def by metis
qed

lemma only_rejections_insert: "only_rejections db (insert_rejections e run v reason obs created ks db)"
proof (induction ks arbitrary: db)
  case (Cons k ks)
  let ?db = "snd (fresh_id e db)\<lparr>rejections := rejections (snd (fresh_id e db)) @
    [\<lparr>rj_id = fst (fresh_id e db), rj_run = run, rj_vin = v, rj_field = k, rj_reason = reason,
      rj_observed_at = obs, rj_created_at = created\<rparr>]\<rparr>"
  have "only_rejections db ?db" by (simp add: only_rejections_def fresh_id_def)
  from only_rejections_trans [OF this Cons] show ?case by (simp add: Let_def case_prod_beta)
qed (simp add: only_rejections_refl)

lemma only_rejections_record: "only_rejections db (snd (recordRejections e run v ks reason obs created db))"
  by (simp add: recordRejections_def Let_def only_rejections_refl only_rejections_insert)

lemma only_rejections_refused: "only_rejections db (record_refused e run v ex tiers n now db)"
proof -
  have step: "only_rejections db (when_positive m (\<lambda>db. snd (recordRejections e run v ks reason obs created db)) db)" for m ks reason obs created db
    by (simp add: when_positive_def only_rejections_record only_rejections_refl)
  show ?thesis
    unfolding record_refused_def Let_def
    by (rule only_rejections_trans [OF only_rejections_trans [OF step step] step])
qed

text \<open>
  The tables that hold readings.  The archive of raw payloads, the batches and the ingest runs are
  not among them: the route writes them before it asks for the consent.
\<close>

definition collected_tables where
  "collected_tables db = (facts db, snapshots db, snapshot_history db, signal_counters db, poll_states db)"

lemma only_rejections_frame:
  assumes "only_rejections db db'"
  shows "collected_tables db' = collected_tables db" "ingest_runs db' = ingest_runs db" "batches db' = batches db"
    "catalog db' = catalog db" "vehicles db' = vehicles db" "members db' = members db" "consents db' = consents db"
    "facts db' = facts db"
proof -
  note eq = assms [unfolded only_rejections_def]
  show "collected_tables db' = collected_tables db" "ingest_runs db' = ingest_runs db" "batches db' = batches db"
    "catalog db' = catalog db" "vehicles db' = vehicles db" "members db' = members db" "consents db' = consents db"
    "facts db' = facts db"
    using arg_cong [OF eq, of collected_tables] arg_cong [OF eq, of ingest_runs] arg_cong [OF eq, of batches]
      arg_cong [OF eq, of catalog] arg_cong [OF eq, of vehicles] arg_cong [OF eq, of members]
      arg_cong [OF eq, of consents] arg_cong [OF eq, of facts]
    by (simp_all add: collected_tables_def)
qed

lemma archive_raw_frame:
  "collected_tables (snd (archive_raw e k raw db)) = collected_tables db"
  "ingest_runs (snd (archive_raw e k raw db)) = ingest_runs db"
  "batches (snd (archive_raw e k raw db)) = batches db"
  "catalog (snd (archive_raw e k raw db)) = catalog db"
  "entries (snd (archive_raw e k raw db)) = entries db"
  "vehicles (snd (archive_raw e k raw db)) = vehicles db"
  "members (snd (archive_raw e k raw db)) = members db"
  "consents (snd (archive_raw e k raw db)) = consents db"
  by (simp_all add: archive_raw_def next_tick_def collected_tables_def)

text \<open>The gate is entered with the run and the batch recorded and nothing else new.\<close>

lemma open_batch_frame:
  assumes "open_batch e req vin n now db = (run, bid, stored, db1)"
  shows "collected_tables db1 = collected_tables db" "catalog db1 = catalog db" "entries db1 = entries db"
    "vehicles db1 = vehicles db" "members db1 = members db" "consents db1 = consents db" "facts db1 = facts db"
    "\<exists>b. batches db1 = batches db @ [b] \<and> b_id b = bid"
    "\<exists>r. ingest_runs db1 = ingest_runs db @ [r] \<and> ir_id r = run"
  using assms archive_raw_frame [of e "archive_key now vin bid" "iq_raw req"
      "snd (fresh_id e (snd (startIngestRun e ''push'' now db)))"]
  by (auto simp: open_batch_def startIngestRun_def fresh_id_def collected_tables_def ingest_batch_row_def Let_def
      case_prod_beta)

text \<open>The parts of one ingested body, named.\<close>

lemma ingest_body_parts:
  obtains run bid stored db1 written errors db2 n tiers cost where
    "open_batch e req (payload_vin (extractDatums body)) (length (extractDatums body)) now db = (run, bid, stored, db1)"
    "tiers = resolveTiers db1 (map (\<lambda>x. td_key (snd x)) (extractDatums body))"
    "n = normalise (extractDatums body) tiers now"
    "ingest_gate e run bid (payload_vin (extractDatums body)) (length (extractDatums body)) (nm_datums n) now db1 = (written, errors, db2)"
    "snd (ingest_body e req body now db) =
       finishIngestRun run now (if payload_vin (extractDatums body) \<noteq> None then 1 else 0)
         (if 0 < fst written + snd written then 1 else 0) (length errors) errors cost
         (record_refused e run (payload_vin (extractDatums body)) (extractDatums body) tiers n now db2)"
    "ig_run (fst (ingest_body e req body now db)) = run" "ig_batch (fst (ingest_body e req body now db)) = bid"
    "ig_errors (fst (ingest_body e req body now db)) = errors"
    "ig_facts (fst (ingest_body e req body now db)) = fst written"
proof -
  let ?x = "extractDatums body"
  obtain run bid stored db1 where O: "open_batch e req (payload_vin ?x) (length ?x) now db = (run, bid, stored, db1)"
    by (cases "open_batch e req (payload_vin ?x) (length ?x) now db") auto
  let ?tiers = "resolveTiers db1 (map (\<lambda>x. td_key (snd x)) ?x)"
  let ?n = "normalise ?x ?tiers now"
  obtain written errors db2 where G: "ingest_gate e run bid (payload_vin ?x) (length ?x) (nm_datums ?n) now db1 = (written, errors, db2)"
    by (cases "ingest_gate e run bid (payload_vin ?x) (length ?x) (nm_datums ?n) now db1") auto
  show thesis
    by (rule that [OF O refl refl G]) (simp_all add: ingest_body_def O G Let_def)
qed

lemma finishIngestRun_frame [simp]:
  "collected_tables (finishIngestRun run now a s f errs c db) = collected_tables db"
  "facts (finishIngestRun run now a s f errs c db) = facts db"
  "batches (finishIngestRun run now a s f errs c db) = batches db"
  "catalog (finishIngestRun run now a s f errs c db) = catalog db"
  by (simp_all add: finishIngestRun_def collected_tables_def Let_def)

lemma memberMayBeCollected_cong:
  "vehicles db' = vehicles db \<Longrightarrow> members db' = members db \<Longrightarrow> consents db' = consents db \<Longrightarrow>
   memberMayBeCollected db' v = memberMayBeCollected db v"
  by (simp add: memberMayBeCollected_def)

lemma collected_tables_tick [simp]: "collected_tables (snd (now_iso e db)) = collected_tables db"
  by (simp add: collected_tables_def now_iso_def)

lemma gate_refused:
  assumes "\<And>v. vin = Some v \<Longrightarrow> \<not> memberMayBeCollected db v"
  shows "only_rejections db (snd (snd (ingest_gate e run bid vin k ds now db)))"
  using assms by (cases vin) (simp_all add: ingest_gate_def only_rejections_refl only_rejections_record)

lemma ingest_body_without_consent:
  assumes "\<And>v. payload_vin (extractDatums body) = Some v \<Longrightarrow> \<not> memberMayBeCollected db v"
  shows "collected_tables (snd (ingest_body e req body now db)) = collected_tables db"
proof (rule ingest_body_parts [where body = body and e = e and req = req and now = now and db = db])
  fix run bid stored db1 written errors db2 n tiers cost
  assume O: "open_batch e req (payload_vin (extractDatums body)) (length (extractDatums body)) now db = (run, bid, stored, db1)"
    and G: "ingest_gate e run bid (payload_vin (extractDatums body)) (length (extractDatums body)) (nm_datums n) now db1
      = (written, errors, db2)"
    and S: "snd (ingest_body e req body now db) =
       finishIngestRun run now (if payload_vin (extractDatums body) \<noteq> None then 1 else 0)
         (if 0 < fst written + snd written then 1 else 0) (length errors) errors cost
         (record_refused e run (payload_vin (extractDatums body)) (extractDatums body) tiers n now db2)"
  have "\<not> memberMayBeCollected db1 v" if "payload_vin (extractDatums body) = Some v" for v
    using assms [OF that] memberMayBeCollected_cong [OF open_batch_frame(4-6) [OF O]] by simp
  then have "only_rejections db1 (snd (snd (ingest_gate e run bid (payload_vin (extractDatums body))
      (length (extractDatums body)) (nm_datums n) now db1)))"
    by (rule gate_refused)
  then have "only_rejections db1 db2" by (simp add: G)
  from only_rejections_frame(1) [OF this] open_batch_frame(1) [OF O]
  show ?thesis by (simp add: S only_rejections_frame(1) [OF only_rejections_refused])
qed

lemma check_request_not_done: "check_request e req \<noteq> Inl (Ingest_done r)"
  by (auto simp: check_request_def split: option.splits)

lemma ingest_telemetry_doneE:
  assumes "ingest_telemetry e req db = (Ingest_done r, db')"
  obtains body where "check_request e req = Inr body"
    and "r = fst (ingest_body e req body (fst (now_iso e db)) (snd (now_iso e db)))"
    and "db' = snd (ingest_body e req body (fst (now_iso e db)) (snd (now_iso e db)))"
  using assms check_request_not_done [of e req]
  by (cases "check_request e req") (auto simp: ingest_telemetry_def case_prod_beta Let_def)

lemma update_where_append: "update_where P f (xs @ ys) = update_where P f xs @ update_where P f ys"
  by (simp add: update_where_def)

lemma same_base_rejections:
  fixes db :: "('a) poll_db_scheme"
  assumes "only_rejections db db'"
  shows "same_base db db'"
proof -
  note eq = assms [unfolded only_rejections_def]
  from arg_cong [OF eq, of entries] only_rejections_frame [OF assms]
  show ?thesis by (simp add: same_base_def)
qed

lemma same_base_trans: "same_base a b \<Longrightarrow> same_base b c \<Longrightarrow> same_base a c"
  by (simp add: same_base_def)

lemma same_base_persistDatums:
  fixes db :: "('a) poll_db_scheme"
  shows "same_base db (snd (persistDatums e b (Some v) ds rcv rs src db))"
  using persistDatums_plan [of db e b "Some v" ds rcv rs src] by (simp add: same_plan_def)

lemma same_base_gate: "same_base db (snd (snd (ingest_gate e run bid vin k ds now db)))"
proof (cases vin)
  case None
  then show ?thesis by (simp add: ingest_gate_def)
next
  case (Some v)
  obtain res db1 where P: "persistDatums e bid (Some v) ds now False T_telemetry db = (res, db1)" by fastforce
  with same_base_persistDatums [of db e bid v ds now False T_telemetry] have 1: "same_base db db1" by simp
  let ?db = "mark_processed bid now (recordSignals e (Some v) k now db1)"
  have 2: "same_base db ?db"
    using recordSignals_plan [of db1 e "Some v" k now] 1 by (simp add: mark_processed_def same_plan_def same_base_def)
  obtain out db2 where R: "runPollCoordinator e v now ?db = (out, db2)" by fastforce
  with runPollCoordinator_state_step [of v now e ?db] same_base_trans [OF 2] have "same_base db db2"
    by (simp add: state_step_def)
  with Some P R 1 show ?thesis
    by (auto simp: ingest_gate_def ingest_vehicle_def same_base_rejections [OF only_rejections_record] split: sum.split)
qed

text \<open>A payload of a vehicle that may be collected, with no field to poll.\<close>

definition may_store :: "('a) ingest_db_scheme \<Rightarrow> vin \<Rightarrow> bool" where
  "may_store db v \<longleftrightarrow> distinct (map fc_key (catalog db)) \<and> vehicleExists db v \<and> memberMayBeCollected db v \<and>
     loadCandidates db = [] \<and> distinct (map fact_identity (facts db))"

definition stored_readings :: "('a) store_db_scheme \<Rightarrow> iso \<Rightarrow> json \<Rightarrow> normalised_datum list" where
  "stored_readings db now body =
     (let extracted = extractDatums body
      in filter (\<lambda>d. nd_tier d \<noteq> Once)
           (dedupe (nm_datums (normalise extracted (resolveTiers db (map (\<lambda>x. td_key (snd x)) extracted)) now))))"

lemma payload_vin_not_Nil: "payload_vin x = Some v \<Longrightarrow> v \<noteq> []"
  by (auto simp: payload_vin_def dest: find_SomeD split: option.splits)

lemma loadCandidates_frame:
  "catalog db' = catalog db \<Longrightarrow> entries db' = entries db \<Longrightarrow> loadCandidates db' = loadCandidates db"
  by (simp add: loadCandidates_def)

lemma resolveTiers_frame:
  assumes "distinct (map fc_key (catalog db))" and "catalog db' = catalog db"
  shows "resolveTiers db' ks = resolveTiers db ks"
  using assms by (simp add: fun_eq_iff resolveTiers_apply catalog_meta_def)

lemma ingest_vehicle_appends:
  fixes db :: "('a) ingest_db_scheme"
  assumes "may_store db v" and "v \<noteq> []" and bat: "list_ex (\<lambda>b. b_id b = bid) (batches db)"
    and fresh: "list_all (\<lambda>f. f_batch f \<noteq> bid) (facts db)" and nd: "nds = nm_datums (normalise ds (resolveTiers db ks) now)"
  obtains w db2 new where "ingest_vehicle e bid v k nds now db = (w, [], db2)" and "facts db2 = facts db @ new"
    and "map fact_content new = map datum_content (filter (\<lambda>d. nd_tier d \<noteq> Once) (dedupe nds))"
    and "list_all (\<lambda>f. f_vin f = v \<and> f_batch f = bid) new" and "distinct (map fact_identity (facts db2))"
proof -
  obtain counts db1 new where P: "persistDatums e bid (Some v) nds now False T_telemetry db = (Inr counts, db1)"
      "facts db1 = facts db @ new" "map fact_content new = map datum_content (filter (\<lambda>d. nd_tier d \<noteq> Once) (dedupe nds))"
      "list_all (\<lambda>f. f_vin f = v \<and> f_batch f = bid) new" "distinct (map fact_identity (facts db1))"
    using persist_normalised [where e = e and src = T_telemetry and rs = False, OF _ _ assms(2) bat fresh _ nd] assms(1)
    unfolding may_store_def by blast
  let ?db = "mark_processed bid now (recordSignals e (Some v) k now db1)"
  have frame: "facts ?db = facts db1" "loadCandidates ?db = loadCandidates db1"
    by (simp_all add: mark_processed_def recordSignals_def put_counter_def fresh_id_def Let_def loadCandidates_def)
  have "loadCandidates db1 = []"
    using loadCandidates_same_plan [OF persistDatums_plan [of db e bid "Some v" nds now False T_telemetry]] assms(1) P(1)
    by (simp add: may_store_def)
  then have "runPollCoordinator e v now ?db = (Inr (empty_outcome v), ?db)"
    by (simp add: runPollCoordinator_def Let_def frame)
  then have "ingest_vehicle e bid v k nds now db = ((pc_facts counts, pc_snapshots counts), [], ?db)"
    by (simp add: ingest_vehicle_def P(1) empty_outcome_def)
  moreover have "facts ?db = facts db @ new" "distinct (map fact_identity (facts ?db))"
    using frame(1) P(2,5) by simp_all
  ultimately show thesis using P(3,4) by (intro that)
qed

lemma ingest_telemetry_appends:
  assumes R: "ingest_telemetry e req db = (Ingest_done r, db')" and body: "iq_body req = Some body"
    and v: "payload_vin (extractDatums body) = Some v" and store: "may_store db v"
    and fresh: "list_all (\<lambda>f. f_batch f \<noteq> ig_batch r) (facts db)"
  obtains new where "facts db' = facts db @ new"
    and "map fact_content new = map datum_content (stored_readings db (rt_clock e (tick db)) body)"
    and "list_all (\<lambda>f. f_vin f = v \<and> f_batch f = ig_batch r) new" and "ig_errors r = []"
    and "distinct (map fact_identity (facts db'))"
proof -
  let ?now = "fst (now_iso e db)" and ?db = "snd (now_iso e db)" and ?x = "extractDatums body"
  obtain body' where B: "check_request e req = Inr body'" "r = fst (ingest_body e req body' ?now ?db)"
      "db' = snd (ingest_body e req body' ?now ?db)"
    using R by (rule ingest_telemetry_doneE)
  then have [simp]: "body' = body" using body by (auto simp: check_request_def split: option.splits if_splits)
  show thesis
  proof (rule ingest_body_parts [where body = body and e = e and req = req and now = ?now and db = ?db])
    fix run bid stored db1 written errors db2 n tiers cost
    assume O: "open_batch e req (payload_vin ?x) (length ?x) ?now ?db = (run, bid, stored, db1)"
      and T: "tiers = resolveTiers db1 (map (\<lambda>x. td_key (snd x)) ?x)" "n = normalise ?x tiers ?now"
      and G: "ingest_gate e run bid (payload_vin ?x) (length ?x) (nm_datums n) ?now db1 = (written, errors, db2)"
      and S: "snd (ingest_body e req body ?now ?db) =
         finishIngestRun run ?now (if payload_vin ?x \<noteq> None then 1 else 0)
           (if 0 < fst written + snd written then 1 else 0) (length errors) errors cost
           (record_refused e run (payload_vin ?x) ?x tiers n ?now db2)"
      and I: "ig_batch (fst (ingest_body e req body ?now ?db)) = bid" "ig_errors (fst (ingest_body e req body ?now ?db)) = errors"
    note F = open_batch_frame [OF O]
    have cat: "catalog ?db = catalog db" "facts ?db = facts db" by (simp_all add: now_iso_def)
    have store1: "may_store db1 v"
      using store F cat loadCandidates_frame [OF F(2,3)] memberMayBeCollected_cong [OF F(4-6)]
      by (simp add: may_store_def vehicleExists_def now_iso_def memberMayBeCollected_def loadCandidates_def)
    have fresh1: "list_all (\<lambda>f. f_batch f \<noteq> bid) (facts db1)" using fresh F cat I B(2) by simp
    have bat: "list_ex (\<lambda>b. b_id b = bid) (batches db1)" using F(8) by auto
    obtain w db3 new where V: "ingest_vehicle e bid v (length ?x) (nm_datums n) ?now db1 = (w, [], db3)" "facts db3 = facts db1 @ new"
        "map fact_content new = map datum_content (filter (\<lambda>d. nd_tier d \<noteq> Once) (dedupe (nm_datums n)))"
        "list_all (\<lambda>f. f_vin f = v \<and> f_batch f = bid) new" "distinct (map fact_identity (facts db3))"
      by (rule ingest_vehicle_appends [OF store1 payload_vin_not_Nil [OF v] bat fresh1, of "nm_datums n" ?x _ ?now e "length ?x"])
        (simp add: T)
    then have E: "errors = []" "db2 = db3"
      using G store1 v by (auto simp: ingest_gate_def may_store_def)
    have SR: "stored_readings db (rt_clock e (tick db)) body = filter (\<lambda>d. nd_tier d \<noteq> Once) (dedupe (nm_datums n))"
      using store resolveTiers_frame [of db db1] F(2) cat
      by (simp add: stored_readings_def T may_store_def Let_def now_iso_def)
    have D: "facts db' = facts db3"
      unfolding B(3) \<open>body' = body\<close> S E(2) finishIngestRun_frame(2)
      by (rule only_rejections_frame(8) [OF only_rejections_refused])
    have RR: "ig_batch r = bid" "ig_errors r = errors"
      unfolding B(2) \<open>body' = body\<close> I by (rule refl)+
    have D1: "facts db1 = facts db" using F(7) cat by simp
    show thesis
    proof (rule that)
      show "facts db' = facts db @ new" unfolding D V(2) D1 ..
      show "map fact_content new = map datum_content (stored_readings db (rt_clock e (tick db)) body)"
        unfolding SR by (rule V(3))
      show "list_all (\<lambda>f. f_vin f = v \<and> f_batch f = ig_batch r) new" unfolding RR by (rule V(4))
      show "ig_errors r = []" unfolding RR by (rule E)
      show "distinct (map fact_identity (facts db'))" unfolding D by (rule V(5))
    qed
  qed
qed

text \<open>A second delivery finds the vehicle as the first did.\<close>

lemma same_base_may_store:
  assumes "same_base db db'" and "may_store db v" and "distinct (map fact_identity (facts db'))"
  shows "may_store db' v"
  using assms by (simp add: may_store_def same_base_def vehicleExists_def memberMayBeCollected_def loadCandidates_def)

text \<open>The tables that no ingest writes.\<close>

definition reference_tables where
  "reference_tables db = (catalog db, entries db, vehicles db, members db, consents db)"

lemma reference_tables_ingest:
  "reference_tables (snd (ingest_body e req body now db)) = reference_tables db"
proof (rule ingest_body_parts [where body = body and e = e and req = req and now = now and db = db])
  fix run bid stored db1 written errors db2 n tiers cost
  let ?x = "extractDatums body"
  assume O: "open_batch e req (payload_vin ?x) (length ?x) now db = (run, bid, stored, db1)"
    and G: "ingest_gate e run bid (payload_vin ?x) (length ?x) (nm_datums n) now db1 = (written, errors, db2)"
    and S: "snd (ingest_body e req body now db) =
       finishIngestRun run now (if payload_vin ?x \<noteq> None then 1 else 0)
         (if 0 < fst written + snd written then 1 else 0) (length errors) errors cost
         (record_refused e run (payload_vin ?x) ?x tiers n now db2)"
  let ?db3 = "record_refused e run (payload_vin ?x) ?x tiers n now db2"
  have "same_base db1 db2"
    using same_base_gate [of db1 e run bid "payload_vin ?x" "length ?x" "nm_datums n" now] by (simp add: G)
  from same_base_trans [OF this same_base_rejections [OF only_rejections_refused]]
  have "same_base db1 ?db3" .
  moreover have "reference_tables (finishIngestRun run now a s f errs c ?db3) = reference_tables ?db3" for a s f errs c
    by (simp add: finishIngestRun_def reference_tables_def Let_def)
  ultimately show ?thesis
    using open_batch_frame [OF O] by (simp add: S reference_tables_def same_base_def)
qed

lemma ingest_telemetry_may_store:
  assumes R: "ingest_telemetry e req db = (Ingest_done r, db')" and "may_store db v"
    and "distinct (map fact_identity (facts db'))"
  shows "may_store db' v" and "catalog db' = catalog db"
proof -
  obtain body where "db' = snd (ingest_body e req body (fst (now_iso e db)) (snd (now_iso e db)))"
    using R by (rule ingest_telemetry_doneE)
  then have "reference_tables db' = reference_tables db"
    by (simp add: reference_tables_ingest) (simp add: reference_tables_def now_iso_def)
  then show "may_store db' v" "catalog db' = catalog db"
    using assms(2,3) by (simp_all add: reference_tables_def may_store_def vehicleExists_def memberMayBeCollected_def loadCandidates_def)
qed

definition dated :: "json \<Rightarrow> bool" where
  "dated body = list_all (\<lambda>x. td_created_at (snd x) \<noteq> None) (extractDatums body)"

lemma normalise_loop_dated:
  "list_all (\<lambda>x. td_created_at (snd x) \<noteq> None) ds \<Longrightarrow> normalise_loop tiers a ds r = normalise_loop tiers b ds r"
  by (induction tiers a ds r rule: normalise_loop.induct) (auto simp: Let_def split: option.split)

lemma stored_readings_dated:
  assumes "dated body" and "distinct (map fc_key (catalog db))" and "catalog db' = catalog db"
  shows "stored_readings db' t' body = stored_readings db t body"
  using normalise_loop_dated [OF assms(1) [unfolded dated_def]] resolveTiers_frame [OF assms(2,3)]
  unfolding stored_readings_def normalise_def Let_def by metis

lemma ingest_without_consent:
  assumes "\<And>body v. iq_body req = Some body \<Longrightarrow> payload_vin (extractDatums body) = Some v \<Longrightarrow> \<not> memberMayBeCollected db v"
  shows "collected_tables (snd (ingest_telemetry e req db)) = collected_tables db"
proof (cases "check_request e req")
  case (Inl reply)
  then show ?thesis by (simp add: ingest_telemetry_def case_prod_beta Let_def)
next
  case (Inr body)
  then have "iq_body req = Some body"
    by (auto simp: check_request_def split: option.splits if_splits)
  with assms have "payload_vin (extractDatums body) = Some v \<Longrightarrow> \<not> memberMayBeCollected (snd (now_iso e db)) v" for v
    by (simp add: memberMayBeCollected_def now_iso_def)
  from ingest_body_without_consent [OF this] Inr show ?thesis
    by (simp add: ingest_telemetry_def case_prod_beta Let_def)
qed

section \<open>Properties\<close>

text \<open>C36: The consent gate of the whole route: a payload whose vehicle may not be collected, or that
  names no vehicle, changes none of the tables that hold readings, not the fact table, the
  snapshots or their history, nor the signal counters nor the state of the polls.\<close>

theorem ingest_needs_consent:
  assumes "\<And>body v. iq_body req = Some body \<Longrightarrow> payload_vin (extractDatums body) = Some v \<Longrightarrow> \<not> memberMayBeCollected db v"
  shows "collected_tables (snd (ingest_telemetry e req db)) = collected_tables db"
  using assms by (rule ingest_without_consent)

text \<open>Every run that is started is finished in the same request, whatever the payload and whatever
  fails: one run is appended, it is not left running, it is complete exactly when there was no
  error, and it holds the errors the reply shows.\<close>

theorem ingest_closes_run:
  assumes "ingest_telemetry e req db = (Ingest_done r, db')" and "list_all (\<lambda>x. ir_id x \<noteq> ig_run r) (ingest_runs db)"
  shows "\<exists>row. ingest_runs db' = ingest_runs db @ [row] \<and> ir_id row = ig_run r \<and> ir_status row \<noteq> R_running \<and>
    (ir_status row = R_complete \<longleftrightarrow> ig_errors r = []) \<and> ir_errors row = ig_errors r \<and> ir_finished_at row \<noteq> None"
proof -
  let ?now = "fst (now_iso e db)" and ?db = "snd (now_iso e db)"
  obtain body where B: "check_request e req = Inr body" "r = fst (ingest_body e req body ?now ?db)"
      "db' = snd (ingest_body e req body ?now ?db)"
    using assms(1) by (rule ingest_telemetry_doneE)
  show ?thesis
  proof (rule ingest_body_parts [where body = body and e = e and req = req and now = ?now and db = ?db])
    fix run bid stored db1 written errors db2 n tiers cost
    assume O: "open_batch e req (payload_vin (extractDatums body)) (length (extractDatums body)) ?now ?db = (run, bid, stored, db1)"
      and G: "ingest_gate e run bid (payload_vin (extractDatums body)) (length (extractDatums body)) (nm_datums n) ?now db1
        = (written, errors, db2)"
      and S: "snd (ingest_body e req body ?now ?db) =
         finishIngestRun run ?now (if payload_vin (extractDatums body) \<noteq> None then 1 else 0)
           (if 0 < fst written + snd written then 1 else 0) (length errors) errors cost
           (record_refused e run (payload_vin (extractDatums body)) (extractDatums body) tiers n ?now db2)"
      and R: "ig_run (fst (ingest_body e req body ?now ?db)) = run" "ig_errors (fst (ingest_body e req body ?now ?db)) = errors"
    obtain x where x: "ingest_runs db1 = ingest_runs db @ [x]" "ir_id x = run"
      using open_batch_frame(9) [OF O] by (auto simp: now_iso_def)
    have "ingest_runs db2 = ingest_runs db1"
      using same_base_gate [of db1 e run bid "payload_vin (extractDatums body)" "length (extractDatums body)" "nm_datums n" ?now]
      by (simp add: G same_base_def)
    then have runs: "ingest_runs (record_refused e run (payload_vin (extractDatums body)) (extractDatums body) tiers n ?now db2)
        = ingest_runs db @ [x]"
      by (simp add: only_rejections_frame(2) [OF only_rejections_refused] x)
    have other: "update_where (\<lambda>x. ir_id x = run) f (ingest_runs db) = ingest_runs db" for f
      using assms(2) B(2) R(1) by (intro update_where_id) (auto simp: list_all_iff)
    show ?thesis
      unfolding B(2,3) S R
      using x(2) by (auto simp: finishIngestRun_def runs other update_where_append Let_def)
  qed
qed

text \<open>C37: What a payload stores when its vehicle may be collected and has no field to poll: the facts
  are appended, one per field and instant of the collected readings, and nothing fails.  All of
  them are stored under the first vehicle the payload names, whichever vehicle their envelope
  names: it is the only vehicle whose consent is asked for.  (With a field to poll the same request
  goes on to store what the poll reads.)\<close>

theorem ingest_appends_readings:
  assumes "ingest_telemetry e req db = (Ingest_done r, db')" and "iq_body req = Some body"
    and "payload_vin (extractDatums body) = Some v" and "may_store db v"
    and "list_all (\<lambda>f. f_batch f \<noteq> ig_batch r) (facts db)"
  shows "\<exists>new. facts db' = facts db @ new \<and>
    map fact_content new = map datum_content (stored_readings db (rt_clock e (tick db)) body) \<and>
    list_all (\<lambda>f. f_vin f = v \<and> f_batch f = ig_batch r) new \<and> ig_errors r = []"
proof -
  obtain new where "facts db' = facts db @ new"
      "map fact_content new = map datum_content (stored_readings db (rt_clock e (tick db)) body)"
      "list_all (\<lambda>f. f_vin f = v \<and> f_batch f = ig_batch r) new" "ig_errors r = []"
    using assms by (rule ingest_telemetry_appends)
  then show ?thesis by blast
qed

text \<open>A redelivery is not idempotent: a batch is identified by an identifier drawn for the request,
  so when the relay delivers a dated payload a second time every reading is stored once more.\<close>

theorem redelivery_stores_again:
  assumes "ingest_telemetry e req db = (Ingest_done r, db1)" and "ingest_telemetry e' req db1 = (Ingest_done r', db2)"
    and "iq_body req = Some body" and "dated body" and "payload_vin (extractDatums body) = Some v" and "may_store db v"
    and "list_all (\<lambda>f. f_batch f \<noteq> ig_batch r) (facts db)" and "list_all (\<lambda>f. f_batch f \<noteq> ig_batch r') (facts db1)"
  shows "\<exists>new new'. facts db2 = facts db @ new @ new' \<and> map fact_content new' = map fact_content new \<and>
    map fact_content new = map datum_content (stored_readings db (rt_clock e (tick db)) body)"
proof -
  obtain new where new: "facts db1 = facts db @ new" "distinct (map fact_identity (facts db1))"
      "map fact_content new = map datum_content (stored_readings db (rt_clock e (tick db)) body)"
    using assms(1,3,5,6,7) by (rule ingest_telemetry_appends)
  note store = ingest_telemetry_may_store [OF assms(1,6) new(2)]
  obtain new' where new': "facts db2 = facts db1 @ new'"
      "map fact_content new' = map datum_content (stored_readings db1 (rt_clock e' (tick db1)) body)"
    using assms(2,3,5) store(1) assms(8) by (rule ingest_telemetry_appends)
  have "stored_readings db1 (rt_clock e' (tick db1)) body = stored_readings db (rt_clock e (tick db)) body"
    using assms(4,6) store(2) by (intro stored_readings_dated) (simp_all add: may_store_def)
  with new new' show ?thesis by (intro exI [of _ new] exI [of _ new']) simp
qed

section \<open>Concrete runs\<close>

definition sample_ingest_env :: "8 word \<Rightarrow> ingest_env" where
  "sample_ingest_env b = poll_env.extend (sample_poll_env\<lparr>rt_millis := (\<lambda>_. 1), rt_random := (\<lambda>_. [b])\<rparr>)
     \<lparr>ie_secret = Some ''k'', ie_put = (\<lambda>_ _. True)\<rparr>"

definition sample_body :: json where
  "sample_body = JObj [(''vin'', JStr ''V1''), (''data'', JArr [JObj [(''key'', JStr ''Odometer''),
     (''value'', JObj [(''doubleValue'', JNum 42)]), (''createdAt'', JStr ''t1'')]])]"

definition sample_request :: ingest_request where
  "sample_request = \<lparr>iq_secret = Some ''k'', iq_content_type = None, iq_raw = ''{}'', iq_body = Some sample_body\<rparr>"

definition sample_ingest_db :: ingest_db where
  "sample_ingest_db = poll_db.extend (sample_poll_db\<lparr>entries := []\<rparr>) \<lparr>archive = []\<rparr>"

definition delivery :: "8 word \<Rightarrow> ingest_db \<Rightarrow> ingest_report \<times> ingest_db" where
  "delivery b db = ingest_body (sample_ingest_env b) sample_request sample_body
     (fst (now_iso (sample_ingest_env b) db)) (snd (now_iso (sample_ingest_env b) db))"

lemma sample_extracted:
  "extractDatums sample_body = [(Some ''V1'', \<lparr>td_key = ''Odometer'', td_value = Some (JObj [(''doubleValue'', JNum 42)]),
     td_created_at = Some ''t1''\<rparr>)]"
  by (simp add: sample_body_def extractDatums_def datum_of_def)

lemma sample_payload_vin: "payload_vin (extractDatums sample_body) = Some ''V1''"
  by (simp add: sample_extracted payload_vin_def)

lemma sample_request_body: "iq_body sample_request = Some sample_body"
  by (simp add: sample_request_def)

lemma delivery_done:
  "ingest_telemetry (sample_ingest_env b) sample_request db = (Ingest_done (fst (delivery b db)), snd (delivery b db))"
proof -
  have "timingSafeEqual (code_units ''k'') (code_units ''k'')" by (simp add: timingSafeEqual_def foldl_OR_zero)
  then have "check_request (sample_ingest_env b) sample_request = Inr sample_body"
    by (simp add: check_request_def sample_ingest_env_def poll_env.extend_def sample_request_def sample_extracted MAX_PAYLOAD_def)
  then show ?thesis by (simp add: ingest_telemetry_def delivery_def case_prod_beta Let_def)
qed

lemma delivery_batch: "ig_batch (fst (delivery b db)) = newId 1 [b]"
  by (simp add: delivery_def ingest_body_def open_batch_def fresh_id_def sample_ingest_env_def poll_env.extend_def
    Let_def case_prod_beta)

lemma sample_may_store: "may_store sample_ingest_db ''V1''"
  by (simp add: may_store_def sample_ingest_db_def poll_db.extend_def sample_poll_simps vehicleExists_def
    memberMayBeCollected_def loadCandidates_def)

lemma sample_no_facts: "facts sample_ingest_db = []" "ingest_runs sample_ingest_db = []"
  by (simp_all add: sample_ingest_db_def poll_db.extend_def sample_poll_simps)

lemma sample_first_delivery:
  "list_all (\<lambda>f. f_batch f = newId 1 [0]) (facts (snd (delivery 0 sample_ingest_db)))"
  by (rule ingest_telemetry_appends [OF delivery_done sample_request_body sample_payload_vin sample_may_store, of 0])
    (auto simp: sample_no_facts delivery_batch list_all_iff)

theorem ingest_needs_consent_witness:
  "collected_tables (snd (ingest_telemetry (sample_ingest_env 0) sample_request (sample_ingest_db\<lparr>consents := []\<rparr>))) =
    collected_tables (sample_ingest_db\<lparr>consents := []\<rparr>)"
  by (rule ingest_needs_consent)
    (simp add: memberMayBeCollected_def sample_ingest_db_def poll_db.extend_def sample_poll_simps)

theorem ingest_closes_run_witness:
  "\<exists>row. ingest_runs (snd (delivery 0 sample_ingest_db)) = ingest_runs sample_ingest_db @ [row] \<and>
    ir_id row = ig_run (fst (delivery 0 sample_ingest_db)) \<and> ir_status row \<noteq> R_running \<and>
    (ir_status row = R_complete \<longleftrightarrow> ig_errors (fst (delivery 0 sample_ingest_db)) = []) \<and>
    ir_errors row = ig_errors (fst (delivery 0 sample_ingest_db)) \<and> ir_finished_at row \<noteq> None"
  by (rule ingest_closes_run [OF delivery_done]) (simp add: sample_no_facts)

theorem ingest_appends_readings_witness:
  "\<exists>new. facts (snd (delivery 0 sample_ingest_db)) = facts sample_ingest_db @ new \<and>
    map fact_content new = map datum_content (stored_readings sample_ingest_db
      (rt_clock (sample_ingest_env 0) (tick sample_ingest_db)) sample_body) \<and>
    list_all (\<lambda>f. f_vin f = ''V1'' \<and> f_batch f = ig_batch (fst (delivery 0 sample_ingest_db))) new \<and>
    ig_errors (fst (delivery 0 sample_ingest_db)) = []"
  by (rule ingest_appends_readings [OF delivery_done sample_request_body sample_payload_vin sample_may_store])
    (simp add: sample_no_facts)

theorem redelivery_stores_again_witness:
  "\<exists>new new'. facts (snd (delivery 1 (snd (delivery 0 sample_ingest_db)))) = facts sample_ingest_db @ new @ new' \<and>
    map fact_content new' = map fact_content new \<and>
    map fact_content new = map datum_content (stored_readings sample_ingest_db
      (rt_clock (sample_ingest_env 0) (tick sample_ingest_db)) sample_body)"
proof (rule redelivery_stores_again [OF delivery_done delivery_done sample_request_body _ sample_payload_vin sample_may_store])
  show "dated sample_body" by (simp add: dated_def sample_extracted)
  show "list_all (\<lambda>f. f_batch f \<noteq> ig_batch (fst (delivery 0 sample_ingest_db))) (facts sample_ingest_db)"
    by (simp add: sample_no_facts)
  have "newId 1 [0] \<noteq> newId 1 [1]" by (simp add: newId_def CROCKFORD_def)
  then show "list_all (\<lambda>f. f_batch f \<noteq> ig_batch (fst (delivery 1 (snd (delivery 0 sample_ingest_db)))))
      (facts (snd (delivery 0 sample_ingest_db)))"
    using sample_first_delivery by (auto simp: delivery_batch list_all_iff)
qed

end
