(* ===== verification/Release.thy ===== *)
theory Release
  imports Ingest
begin

text \<open>
  \<open>release.ts\<close>: the quote package of one member as a CSV file, the consent gate in front of it, the
  download links and their redemption, and the policy hold.  The tables are those of
  \<open>migrations/0001\<close> and \<open>0008\<close> with their foreign keys.  The artifact store and the date
  arithmetic on ISO text are the environment's.
\<close>

section \<open>CSV\<close>

abbreviation QUOTE :: char where "QUOTE \<equiv> CHR 0x22"
abbreviation CRLF :: string where "CRLF \<equiv> [CHR 0x0D, CHR 0x0A]"

definition csv_special :: "char \<Rightarrow> bool" where
  "csv_special c \<longleftrightarrow> c = QUOTE \<or> c = CHR '','' \<or> c = CHR 0x0D \<or> c = CHR 0x0A"

text \<open>\<open>text.replace(/"/g, '""')\<close>.\<close>

fun double_quotes :: "string \<Rightarrow> string" where
  "double_quotes [] = []"
| "double_quotes (c # cs) = (if c = QUOTE then QUOTE # QUOTE # double_quotes cs else c # double_quotes cs)"

text \<open>\<open>None\<close> is null or undefined; any other value is given as its text.\<close>

definition csvField :: "string option \<Rightarrow> string" where
  "csvField value =
     (case value of
        None \<Rightarrow> []
      | Some t \<Rightarrow> if list_ex csv_special t then QUOTE # double_quotes t @ [QUOTE] else t)"

definition csv_line :: "string option list \<Rightarrow> string" where
  "csv_line row = join_with '','' (map csvField row)"

definition toCsv :: "string list \<Rightarrow> string option list list \<Rightarrow> string" where
  "toCsv headers rows = join_with CRLF (map csv_line (map Some headers # rows)) @ CRLF"

section \<open>Rows\<close>

datatype release_type = Group_analytics | Quote_package

record release_row =
  rl_id :: string
  rl_type :: release_type
  rl_period_start :: string
  rl_period_end :: string
  rl_row_count :: nat
  rl_sha256 :: string
  rl_derivation_version :: string
  rl_policy_version :: string
  rl_created_at :: iso
  rl_created_by :: string
  rl_subject_member :: "member_id option"
  rl_subject_vin :: "vin option"
  rl_r2_key :: "string option"

record download_token_row =
  dt_id :: string
  dt_release :: string
  dt_hash :: string
  dt_issued_to :: string
  dt_issued_at :: iso
  dt_expires_at :: iso
  dt_max_uses :: nat
  dt_use_count :: nat
  dt_revoked_at :: "iso option"

datatype access_action = Issue_token | Download

record access_row =
  ac_id :: string
  ac_release :: string
  ac_actor :: string
  ac_actor_type :: string
  ac_action :: access_action
  ac_occurred_at :: iso
  ac_ip_hash :: "string option"
  ac_user_agent :: "string option"

record profile_row =
  p_id :: string
  p_member :: member_id
  p_vin :: vin
  p_period_start :: string
  p_period_end :: string
  p_odometer_km :: "rat option"
  p_distance_km :: "rat option"
  p_fsd_km :: "rat option"
  p_fsd_availability :: string
  p_fsd_note :: "string option"
  p_counter_resets :: nat
  p_derivation_version :: string
  p_source_fact_min :: "iso option"
  p_source_fact_max :: "iso option"
  p_derived_at :: iso

datatype policy_status = Pol_active | Pol_lapsed | Pol_cancelled | Pol_expired

record policy_row =
  pl_id :: string
  pl_member :: member_id
  pl_vin :: "vin option"
  pl_response :: "string option"
  pl_insurer_ref :: string
  pl_insurer_name :: "string option"
  pl_cover_start :: iso
  pl_cover_end :: iso
  pl_status :: policy_status
  pl_bound_at :: iso

record release_db = ingest_db +
  releases :: "release_row list"
  download_tokens :: "download_token_row list"
  accesses :: "access_row list"
  profiles :: "profile_row list"
  policies :: "policy_row list"

record release_env = ingest_env +
  re_add_seconds :: "iso \<Rightarrow> nat \<Rightarrow> iso"
  re_artifact :: "nat \<Rightarrow> string \<Rightarrow> string option"

section \<open>Eligibility\<close>

record release_eligibility =
  el_eligible :: bool
  el_reason :: string
  el_consent_id :: "string option"
  el_policy_version :: "string option"

definition releaseEligibility :: "('a) store_db_scheme \<Rightarrow> member_id \<Rightarrow> release_eligibility" where
  "releaseEligibility db memberId =
     (case latest_by c_granted_at (filter (\<lambda>c. c_member c = memberId \<and> c_revoked_at c = None) (consents db)) of
        None \<Rightarrow> \<lparr>el_eligible = False, el_reason = ''no_live_consent'', el_consent_id = None, el_policy_version = None\<rparr>
      | Some row \<Rightarrow> \<lparr>el_eligible = True, el_reason = ''ok'', el_consent_id = Some (c_id row),
                     el_policy_version = Some (c_policy_version row)\<rparr>)"

section \<open>The package\<close>

definition PACKAGE_VERSION :: string where
  "PACKAGE_VERSION = ''1.0.0''"

record package_input =
  pi_member :: member_id
  pi_vin :: vin
  pi_period_start :: string
  pi_period_end :: string
  pi_now :: iso
  pi_requested_by :: string
  pi_vehicle_config :: "string \<rightharpoonup> string"

record quote_package =
  qp_release :: string
  qp_csv :: string
  qp_row_count :: nat
  qp_sha256 :: string
  qp_headers :: "string list"
  qp_consent_id :: "string option"
  qp_policy_version :: "string option"

definition package_headers :: "string list" where
  "package_headers =
     [''member_id'', ''toca_status'', ''display_name'', ''email'', ''mobile'', ''postcode'', ''vin'',
      ''period_start'', ''period_end'', ''distance_km'', ''fsd_km'', ''fsd_availability'', ''fsd_note'',
      ''counter_reset_count'', ''derivation_version'', ''vehicle_model'', ''vehicle_variant'', ''vehicle_year'',
      ''package_version'', ''released_at'', ''requested_by'', ''consent_policy_version'']"

definition package_profile :: "('a) release_db_scheme \<Rightarrow> package_input \<Rightarrow> profile_row option" where
  "package_profile db input =
     latest_by p_derived_at (filter (\<lambda>p. p_vin p = pi_vin input \<and> p_period_start p = pi_period_start input \<and>
        p_period_end p = pi_period_end input) (profiles db))"

definition package_row ::
  "('e) runtime_scheme \<Rightarrow> package_input \<Rightarrow> member_row \<Rightarrow> profile_row option \<Rightarrow> release_eligibility \<Rightarrow> string option list" where
  "package_row e input member profile eligibility =
     [Some (m_id member), Some (m_toca_status member), m_display_name member, m_email member, m_mobile member,
      m_postcode member, Some (pi_vin input), Some (pi_period_start input), Some (pi_period_end input),
      (case profile of None \<Rightarrow> None | Some p \<Rightarrow> map_option (rt_num_text e) (p_distance_km p)),
      (case profile of None \<Rightarrow> None | Some p \<Rightarrow> map_option (rt_num_text e) (p_fsd_km p)),
      Some (case profile of None \<Rightarrow> ''unavailable'' | Some p \<Rightarrow> p_fsd_availability p),
      Some (case profile of None \<Rightarrow> ''no profile derived for this period''
            | Some p \<Rightarrow> (case p_fsd_note p of None \<Rightarrow> ''no profile derived for this period'' | Some n \<Rightarrow> n)),
      map_option (\<lambda>p. nat_text (p_counter_resets p)) profile,
      map_option p_derivation_version profile,
      pi_vehicle_config input ''model'', pi_vehicle_config input ''variant'', pi_vehicle_config input ''year'',
      Some PACKAGE_VERSION, Some (pi_now input), Some (pi_requested_by input), el_policy_version eligibility]"

definition audit_detail :: "('e) runtime_scheme \<Rightarrow> package_input \<Rightarrow> release_eligibility \<Rightarrow> string \<Rightarrow> json" where
  "audit_detail e input eligibility sha256 =
     JObj [(''member_id'', JStr (pi_member input)), (''vin'', JStr (pi_vin input)),
           (''consent_id'', case el_consent_id eligibility of None \<Rightarrow> JNull | Some i \<Rightarrow> JStr i),
           (''consent_policy_version'', case el_policy_version eligibility of None \<Rightarrow> JNull | Some i \<Rightarrow> JStr i),
           (''sha256'', JStr sha256), (''row_count'', JNum 1)]"

text \<open>The batch: both rows or, when the subject vehicle is unknown to the foreign key, none.\<close>

definition buildQuotePackage ::
  "('e) runtime_scheme \<Rightarrow> package_input \<Rightarrow> ('a) release_db_scheme \<Rightarrow> (string + quote_package) \<times> ('a) release_db_scheme" where
  "buildQuotePackage e input db =
     (let eligibility = releaseEligibility db (pi_member input) in
      if \<not> el_eligible eligibility then (Inl (el_reason eligibility), db)
      else (case first_where (\<lambda>m. m_id m = pi_member input) (members db) of
          None \<Rightarrow> (Inl ''unknown_member'', db)
        | Some member \<Rightarrow>
            (let profile = package_profile db input;
                 csv = toCsv package_headers [package_row e input member profile eligibility];
                 sha256 = rt_sha256 e csv;
                 (releaseId, db1) = fresh_id e db;
                 (eventId, db2) = fresh_id e db1;
                 release = \<lparr>rl_id = releaseId, rl_type = Quote_package, rl_period_start = pi_period_start input,
                   rl_period_end = pi_period_end input, rl_row_count = 1, rl_sha256 = sha256,
                   rl_derivation_version = (case profile of None \<Rightarrow> PACKAGE_VERSION | Some p \<Rightarrow> p_derivation_version p),
                   rl_policy_version = the (el_policy_version eligibility), rl_created_at = pi_now input,
                   rl_created_by = pi_requested_by input, rl_subject_member = Some (pi_member input),
                   rl_subject_vin = Some (pi_vin input), rl_r2_key = None\<rparr>;
                 event = \<lparr>a_id = eventId, a_occurred_at = pi_now input, a_actor = Some (pi_requested_by input),
                   a_actor_type = ''system'', a_action = ''release_created'', a_subject_type = Some ''tesla_release'',
                   a_subject_id = Some releaseId, a_detail = Some (audit_detail e input eligibility sha256)\<rparr>
             in if \<not> vehicleExists db2 (pi_vin input) then (Inl ''FOREIGN KEY constraint failed'', db2)
                else (Inr \<lparr>qp_release = releaseId, qp_csv = csv, qp_row_count = 1, qp_sha256 = sha256,
                          qp_headers = package_headers, qp_consent_id = el_consent_id eligibility,
                          qp_policy_version = el_policy_version eligibility\<rparr>,
                      db2\<lparr>releases := releases db2 @ [release], audits := audits db2 @ [event]\<rparr>))))"

section \<open>Download links\<close>

definition hex_digit :: "nat \<Rightarrow> char" where
  "hex_digit n = ''0123456789abcdef'' ! n"

definition hex_byte :: "8 word \<Rightarrow> string" where
  "hex_byte b = [hex_digit (unat b div 16), hex_digit (unat b mod 16)]"

definition access ::
  "string \<Rightarrow> string \<Rightarrow> string \<Rightarrow> string \<Rightarrow> access_action \<Rightarrow> iso \<Rightarrow> string option \<Rightarrow> string option \<Rightarrow> access_row" where
  "access i release actor actorType action t ip ua =
     \<lparr>ac_id = i, ac_release = release, ac_actor = actor, ac_actor_type = actorType, ac_action = action,
      ac_occurred_at = t, ac_ip_hash = ip, ac_user_agent = ua\<rparr>"

definition issueDownloadToken ::
  "('e) release_env_scheme \<Rightarrow> string \<Rightarrow> string \<Rightarrow> nat \<Rightarrow> iso \<Rightarrow> nat option \<Rightarrow> ('a) release_db_scheme \<Rightarrow>
   (string + string \<times> string \<times> iso) \<times> ('a) release_db_scheme" where
  "issueDownloadToken e releaseId issuedTo ttlSeconds nowIso maxUses db =
     (let token = concat (map hex_byte (rt_random e (tick db)));
          db1 = db\<lparr>tick := Suc (tick db)\<rparr>;
          tokenHash = rt_sha256 e token;
          (tokenId, db2) = fresh_id e db1;
          expiresAt = re_add_seconds e nowIso ttlSeconds;
          (accessId, db3) = fresh_id e db2
      in if \<not> list_ex (\<lambda>r. rl_id r = releaseId) (releases db3) \<or> list_ex (\<lambda>t. dt_hash t = tokenHash) (download_tokens db3)
         then (Inl ''D1_ERROR'', db3)
         else (Inr (token, tokenId, expiresAt),
               db3\<lparr>download_tokens := download_tokens db3 @
                    [\<lparr>dt_id = tokenId, dt_release = releaseId, dt_hash = tokenHash, dt_issued_to = issuedTo,
                      dt_issued_at = nowIso, dt_expires_at = expiresAt,
                      dt_max_uses = (case maxUses of None \<Rightarrow> 1 | Some n \<Rightarrow> n), dt_use_count = 0, dt_revoked_at = None\<rparr>],
                  accesses := accesses db3 @ [access accessId releaseId issuedTo ''system'' Issue_token nowIso None None]\<rparr>))"

record redeem_result =
  rr_ok :: bool
  rr_reason :: string
  rr_release :: "string option"
  rr_csv :: "string option"

definition refused :: "string \<Rightarrow> redeem_result" where
  "refused reason = \<lparr>rr_ok = False, rr_reason = reason, rr_release = None, rr_csv = None\<rparr>"

definition token_record ::
  "('a) release_db_scheme \<Rightarrow> string \<Rightarrow> (download_token_row \<times> release_row) option" where
  "token_record db tokenHash =
     (case first_where (\<lambda>t. dt_hash t = tokenHash) (download_tokens db) of
        None \<Rightarrow> None
      | Some t \<Rightarrow> map_option (\<lambda>r. (t, r)) (first_where (\<lambda>r. rl_id r = dt_release t) (releases db)))"

text \<open>The re-check of the consent, as the reason for a refusal.\<close>

definition consent_refusal :: "('a) release_db_scheme \<Rightarrow> release_row \<Rightarrow> string option" where
  "consent_refusal db release =
     (if rl_type release = Quote_package
      then (case rl_subject_member release of
              None \<Rightarrow> Some ''subject_unknown''
            | Some m \<Rightarrow> if m = [] then Some ''subject_unknown''
                        else if \<not> el_eligible (releaseEligibility db m) then Some ''consent_revoked'' else None)
      else None)"

definition redeemDownloadToken ::
  "('e) release_env_scheme \<Rightarrow> string \<Rightarrow> iso \<Rightarrow> string option \<Rightarrow> string option \<Rightarrow> ('a) release_db_scheme \<Rightarrow>
   redeem_result \<times> ('a) release_db_scheme" where
  "redeemDownloadToken e token nowIso ipHash userAgent db =
     (case token_record db (rt_sha256 e token) of
        None \<Rightarrow> (refused ''unknown_token'', db)
      | Some (record_t, release) \<Rightarrow>
          if (case dt_revoked_at record_t of None \<Rightarrow> False | Some t \<Rightarrow> t \<noteq> []) then (refused ''revoked'', db)
          else if dt_expires_at record_t \<le> nowIso then (refused ''expired'', db)
          else if dt_max_uses record_t \<le> dt_use_count record_t then (refused ''already_used'', db)
          else (case consent_refusal db release of
              Some reason \<Rightarrow> (refused reason, db)
            | None \<Rightarrow>
                (case re_artifact e (tick db) (dt_release record_t) of
                   None \<Rightarrow> (refused ''artifact_missing'', db\<lparr>tick := Suc (tick db)\<rparr>)
                 | Some artifact \<Rightarrow>
                     (let (accessId, db1) = fresh_id e (db\<lparr>tick := Suc (tick db)\<rparr>)
                      in (\<lparr>rr_ok = True, rr_reason = ''ok'', rr_release = Some (dt_release record_t), rr_csv = Some artifact\<rparr>,
                          db1\<lparr>download_tokens := update_where (\<lambda>t. dt_id t = dt_id record_t)
                                (\<lambda>t. t\<lparr>dt_use_count := Suc (dt_use_count t)\<rparr>) (download_tokens db1),
                              accesses := accesses db1 @
                                [access accessId (dt_release record_t) ''token-holder'' ''underwriter'' Download nowIso ipHash userAgent]\<rparr>)))))"

section \<open>The policy hold\<close>

definition activePolicyHold :: "('a) release_db_scheme \<Rightarrow> member_id \<Rightarrow> iso \<Rightarrow> (string \<times> iso) option" where
  "activePolicyHold db memberId nowIso =
     map_option (\<lambda>r. (pl_id r, pl_cover_end r))
       (latest_by pl_cover_end
         (filter (\<lambda>r. pl_member r = memberId \<and> pl_status r = Pol_active \<and> nowIso < pl_cover_end r) (policies db)))"

section \<open>A reader of CSV\<close>

text \<open>The reading side of RFC 4180, as the specification of what \<open>toCsv\<close> writes.\<close>

fun parse_quoted :: "string \<Rightarrow> string \<times> string" where
  "parse_quoted [] = ([], [])"
| "parse_quoted [c] = (if c = QUOTE then ([], []) else ([c], []))"
| "parse_quoted (c # d # ds) =
     (if c \<noteq> QUOTE then (c # fst (parse_quoted (d # ds)), snd (parse_quoted (d # ds)))
      else if d = QUOTE then (QUOTE # fst (parse_quoted ds), snd (parse_quoted ds))
      else ([], d # ds))"

definition parse_field :: "string \<Rightarrow> string \<times> string" where
  "parse_field s =
     (if s \<noteq> [] \<and> hd s = QUOTE then parse_quoted (tl s)
      else (takeWhile (\<lambda>c. \<not> csv_special c) s, dropWhile (\<lambda>c. \<not> csv_special c) s))"

fun parse_fields :: "nat \<Rightarrow> string \<Rightarrow> string list \<times> string" where
  "parse_fields 0 s = ([], s)"
| "parse_fields (Suc n) s =
     (let (f, r) = parse_field s
      in if r \<noteq> [] \<and> hd r = CHR '','' then (f # fst (parse_fields n (tl r)), snd (parse_fields n (tl r)))
         else ([f], r))"

fun parse_lines :: "nat \<Rightarrow> string \<Rightarrow> string list list" where
  "parse_lines 0 s = []"
| "parse_lines (Suc n) s =
     (if s = [] then []
      else (let (fs, r) = parse_fields (length s) s in fs # parse_lines n (drop 2 r)))"

definition parse_csv :: "string \<Rightarrow> string list list" where
  "parse_csv s = parse_lines (length s) s"

definition cell_text :: "string option \<Rightarrow> string" where
  "cell_text v = (case v of None \<Rightarrow> [] | Some t \<Rightarrow> t)"

definition ends_field :: "string \<Rightarrow> bool" where
  "ends_field r \<longleftrightarrow> r \<noteq> [] \<and> csv_special (hd r) \<and> hd r \<noteq> QUOTE"

lemma parse_quoted_other: "c \<noteq> QUOTE \<Longrightarrow> parse_quoted (c # s) = (c # fst (parse_quoted s), snd (parse_quoted s))"
  by (cases s) auto

lemma parse_quoted_double:
  "ends_field r \<Longrightarrow> parse_quoted (double_quotes t @ QUOTE # r) = (t, r)"
proof (induction t)
  case Nil
  then show ?case by (cases r) (auto simp: ends_field_def)
next
  case (Cons c t)
  then show ?case by (cases "c = QUOTE") (simp_all add: parse_quoted_other)
qed

lemma parse_field_csvField: "ends_field r \<Longrightarrow> parse_field (csvField v @ r) = (cell_text v, r)"
proof -
  assume r: "ends_field r"
  have plain: "parse_field (t @ r) = (t, r)" if "\<not> list_ex csv_special t" for t
  proof -
    have "\<not> csv_special c" if "c \<in> set t" for c
      using \<open>\<not> list_ex csv_special t\<close> that by (auto simp: list_ex_iff)
    moreover have "hd (t @ r) \<noteq> QUOTE"
      using calculation r by (cases t) (auto simp: ends_field_def csv_special_def)
    ultimately show ?thesis
      using r by (cases r) (auto simp: parse_field_def ends_field_def takeWhile_append2 dropWhile_append2)
  qed
  show ?thesis
  proof (cases v)
    case None
    with plain [of "[]"] show ?thesis by (simp add: csvField_def cell_text_def)
  next
    case (Some t)
    with plain [of t] r show ?thesis
      by (auto simp: csvField_def cell_text_def parse_field_def parse_quoted_double)
  qed
qed

lemma ends_field_comma [simp]: "ends_field (CHR '','' # r)" and ends_field_crlf [simp]: "ends_field (CHR 0x0D # r)"
  by (simp_all add: ends_field_def csv_special_def)

lemma csv_line_Cons: "csv_line (v # row) = (if row = [] then csvField v else csvField v @ CHR '','' # csv_line row)"
  by (cases row) (simp_all add: csv_line_def)

lemma parse_fields_line:
  "row \<noteq> [] \<Longrightarrow> length row \<le> n \<Longrightarrow>
     parse_fields n (csv_line row @ CRLF @ rest) = (map cell_text row, CRLF @ rest)"
proof (induction row arbitrary: n)
  case Nil
  then show ?case by simp
next
  case (Cons v row)
  then obtain m where n: "n = Suc m" by (cases n) auto
  show ?case
  proof (cases "row = []")
    case True
    then show ?thesis by (simp add: n csv_line_Cons parse_field_csvField)
  next
    case False
    with Cons n show ?thesis by (simp add: csv_line_Cons parse_field_csvField)
  qed
qed

lemma length_csv_line: "length row \<le> Suc (length (csv_line row))"
  by (induction row) (auto simp: csv_line_Cons)

lemma parse_lines_concat:
  "list_all (\<lambda>r. r \<noteq> []) rows \<Longrightarrow> length rows \<le> n \<Longrightarrow>
     parse_lines n (concat (map (\<lambda>r. csv_line r @ CRLF) rows)) = map (map cell_text) rows"
proof (induction rows arbitrary: n)
  case Nil
  then show ?case by (cases n) auto
next
  case (Cons row rows)
  then obtain m where n: "n = Suc m" by (cases n) auto
  let ?rest = "concat (map (\<lambda>r. csv_line r @ CRLF) rows)"
  have "length row \<le> length (csv_line row @ CRLF @ ?rest)" using length_csv_line [of row] by simp
  then have P: "parse_fields (length (csv_line row @ CRLF @ ?rest)) (csv_line row @ CRLF @ ?rest) = (map cell_text row, CRLF @ ?rest)"
    using Cons.prems by (intro parse_fields_line) auto
  have "parse_lines n (csv_line row @ CRLF @ ?rest) = map cell_text row # parse_lines m ?rest"
    unfolding n parse_lines.simps P by simp
  with Cons n show ?case by simp
qed

lemma join_with_end: "xs \<noteq> [] \<Longrightarrow> join_with s xs @ s = concat (map (\<lambda>x. x @ s) xs)"
proof (induction xs)
  case (Cons x xs)
  then show ?case by (cases xs) auto
qed simp

lemma length_le_concat: "length rows \<le> length (concat (map (\<lambda>r. csv_line r @ CRLF) rows))"
  by (induction rows) auto

section \<open>Lemmas on redemption\<close>

lemma releaseEligibility_iff:
  "el_eligible (releaseEligibility db m) \<longleftrightarrow> (\<exists>c \<in> set (consents db). c_member c = m \<and> c_revoked_at c = None)"
proof (cases "latest_by c_granted_at (filter (\<lambda>c. c_member c = m \<and> c_revoked_at c = None) (consents db))")
  case None
  then show ?thesis by (auto simp: releaseEligibility_def filter_empty_conv)
next
  case (Some row)
  with latest_by_SomeD [OF Some] show ?thesis by (auto simp: releaseEligibility_def)
qed

lemma redeem_cases:
  assumes "redeemDownloadToken e tok now ip ua db = (res, db')"
  obtains (no) reason n where "res = refused reason" "db' = db\<lparr>tick := n\<rparr>"
  | (yes) t r artifact i n where "token_record db (rt_sha256 e tok) = Some (t, r)"
      "dt_revoked_at t = None \<or> dt_revoked_at t = Some []" "now < dt_expires_at t" "dt_use_count t < dt_max_uses t"
      "consent_refusal db r = None" "re_artifact e (tick db) (dt_release t) = Some artifact"
      "res = \<lparr>rr_ok = True, rr_reason = ''ok'', rr_release = Some (dt_release t), rr_csv = Some artifact\<rparr>"
      "db' = db\<lparr>tick := n, download_tokens := update_where (\<lambda>x. dt_id x = dt_id t)
           (\<lambda>x. x\<lparr>dt_use_count := Suc (dt_use_count x)\<rparr>) (download_tokens db),
         accesses := accesses db @ [access i (dt_release t) ''token-holder'' ''underwriter'' Download now ip ua]\<rparr>"
proof (cases "token_record db (rt_sha256 e tok)")
  case None
  with assms no [of _ "tick db"] show ?thesis by (auto simp: redeemDownloadToken_def)
next
  case (Some p)
  obtain t r where p: "p = (t, r)" by fastforce
  show ?thesis
  proof (cases "(case dt_revoked_at t of None \<Rightarrow> False | Some t \<Rightarrow> t \<noteq> []) \<or> dt_expires_at t \<le> now \<or>
      dt_max_uses t \<le> dt_use_count t \<or> consent_refusal db r \<noteq> None")
    case True
    with assms Some p have "\<exists>reason. res = refused reason" "db' = db\<lparr>tick := tick db\<rparr>"
      by (auto simp: redeemDownloadToken_def split: if_splits option.splits)
    with no show ?thesis by blast
  next
    case False
    show ?thesis
    proof (cases "re_artifact e (tick db) (dt_release t)")
      case None
      with assms Some p False have "res = refused ''artifact_missing''" "db' = db\<lparr>tick := Suc (tick db)\<rparr>"
        by (auto simp: redeemDownloadToken_def)
      with no show ?thesis by blast
    next
      case A: (Some artifact)
      with assms Some p False have "res = \<lparr>rr_ok = True, rr_reason = ''ok'', rr_release = Some (dt_release t), rr_csv = Some artifact\<rparr>"
        "db' = db\<lparr>tick := Suc (Suc (tick db)), download_tokens := update_where (\<lambda>x. dt_id x = dt_id t)
           (\<lambda>x. x\<lparr>dt_use_count := Suc (dt_use_count x)\<rparr>) (download_tokens db),
         accesses := accesses db @ [access (fst (fresh_id e (db\<lparr>tick := Suc (tick db)\<rparr>))) (dt_release t) ''token-holder'' ''underwriter'' Download now ip ua]\<rparr>"
        by (auto simp: redeemDownloadToken_def fresh_id_def)
      with Some p False A yes show ?thesis by (auto split: option.splits)
    qed
  qed
qed

section \<open>Properties\<close>

text \<open>C15: the CSV round trip: a reader of RFC 4180 gets back from the file exactly the headers and, cell
  by cell, the values, whatever commas, quotes and line breaks they hold; null reads as the empty
  cell.\<close>

theorem toCsv_roundtrip:
  assumes "headers \<noteq> []" and "list_all (\<lambda>r. r \<noteq> []) rows"
  shows "parse_csv (toCsv headers rows) = headers # map (map cell_text) rows"
proof -
  have eq: "toCsv headers rows = concat (map (\<lambda>r. csv_line r @ CRLF) (map Some headers # rows))"
    using join_with_end [of "map csv_line (map Some headers # rows)" CRLF] by (simp add: toCsv_def comp_def)
  have "map cell_text (map Some headers) = headers" by (simp add: comp_def cell_text_def)
  moreover have "parse_csv (toCsv headers rows) = map (map cell_text) (map Some headers # rows)"
    unfolding parse_csv_def eq by (rule parse_lines_concat) (use assms length_le_concat [of rows] in auto)
  ultimately show ?thesis by simp
qed

text \<open>C19: the disclosure gate: a redemption discloses a file only for an issued, unrevoked, unexpired
  link with a use left, and for a quote package only while its subject has an open consent; it
  then takes one use of the link and appends one access row; a refusal discloses nothing and
  changes no table.\<close>

theorem redeemDownloadToken_gate:
  assumes "redeemDownloadToken e tok now ip ua db = (res, db')"
  shows "if rr_ok res
    then (\<exists>t r. token_record db (rt_sha256 e tok) = Some (t, r) \<and> now < dt_expires_at t \<and>
        dt_use_count t < dt_max_uses t \<and> (dt_revoked_at t = None \<or> dt_revoked_at t = Some []) \<and>
        (rl_type r \<noteq> Quote_package \<or> (\<exists>c \<in> set (consents db). rl_subject_member r = Some (c_member c) \<and> c_revoked_at c = None)) \<and>
        length (accesses db') = Suc (length (accesses db)) \<and>
        download_tokens db' = update_where (\<lambda>x. dt_id x = dt_id t) (\<lambda>x. x\<lparr>dt_use_count := Suc (dt_use_count x)\<rparr>) (download_tokens db))
    else rr_csv res = None \<and> accesses db' = accesses db \<and> download_tokens db' = download_tokens db"
  using assms
proof (cases rule: redeem_cases)
  case (no reason n)
  then show ?thesis by (simp add: refused_def)
next
  case (yes t r artifact i n)
  have "rl_type r \<noteq> Quote_package \<or> (\<exists>c \<in> set (consents db). rl_subject_member r = Some (c_member c) \<and> c_revoked_at c = None)"
    using yes(5) by (auto simp: consent_refusal_def releaseEligibility_iff split: if_splits option.splits)
  with yes show ?thesis by simp
qed

text \<open>Revocation reaches the links already sent: after a member revoked, no link to a quote
  package of theirs discloses anything, however long it is still valid.\<close>

theorem revocation_stops_disclosure:
  assumes "token_record db (rt_sha256 e tok) = Some (t, r)" and "rl_type r = Quote_package"
    and "rl_subject_member r = Some m"
  shows "rr_csv (fst (redeemDownloadToken e tok now ip ua (snd (revokeConsent m reason when db)))) = None"
proof -
  let ?db = "snd (revokeConsent m reason when db)"
  have same: "download_tokens ?db = download_tokens db" "releases ?db = releases db"
    by (simp_all add: revokeConsent_def Let_def)
  have "token_record ?db (rt_sha256 e tok) = token_record db (rt_sha256 e tok)" unfolding token_record_def same ..
  have "\<not> el_eligible (releaseEligibility ?db m)"
    unfolding releaseEligibility_iff open_consent_after_revoke by simp
  then have "consent_refusal ?db r \<noteq> None" by (simp add: consent_refusal_def assms(2,3))
  obtain res db' where R: "redeemDownloadToken e tok now ip ua ?db = (res, db')" by fastforce
  then show ?thesis
  proof (cases rule: redeem_cases)
    case (no why n)
    with R show ?thesis by (simp add: refused_def)
  next
    case (yes t' r' artifact i n)
    with assms(1) \<open>token_record ?db (rt_sha256 e tok) = token_record db (rt_sha256 e tok)\<close> have "r' = r" by simp
    with yes(5) \<open>consent_refusal ?db r \<noteq> None\<close> show ?thesis by simp
  qed
qed

text \<open>A package is built for any vehicle: its contents and its success do not depend on who owns
  the vehicle, so that a member with a live consent can ask for the profile of another
  member's car.\<close>

theorem package_ignores_vehicle_owner:
  "fst (buildQuotePackage e input (db\<lparr>vehicles := map (\<lambda>v. v\<lparr>v_member := owner\<rparr>) (vehicles db)\<rparr>)) =
   fst (buildQuotePackage e input db)"
proof -
  have "vehicleExists (db\<lparr>vehicles := map (\<lambda>v. v\<lparr>v_member := owner\<rparr>) (vehicles db), tick := n\<rparr>) w = vehicleExists (db\<lparr>tick := n\<rparr>) w" for n w
    by (simp add: vehicleExists_def list_ex_iff)
  then show ?thesis
    by (simp add: buildQuotePackage_def Let_def case_prod_beta fresh_id_def package_profile_def releaseEligibility_def
      split: option.split)
qed

text \<open>No release without its authority: a package is built only under an open consent of the
  member, whose id and policy version the audit row and the release carry, and the release and
  its audit row are written together or not at all.\<close>

theorem package_is_authorised_and_audited:
  "case buildQuotePackage e input db of
     (Inl _, db') \<Rightarrow> releases db' = releases db \<and> audits db' = audits db
   | (Inr pkg, db') \<Rightarrow>
       (\<exists>c \<in> set (consents db). c_member c = pi_member input \<and> c_revoked_at c = None \<and>
          qp_consent_id pkg = Some (c_id c) \<and>
          (\<exists>rl a. releases db' = releases db @ [rl] \<and> audits db' = audits db @ [a] \<and>
             rl_id rl = qp_release pkg \<and> rl_policy_version rl = c_policy_version c \<and>
             rl_subject_member rl = Some (pi_member input) \<and> rl_sha256 rl = rt_sha256 e (qp_csv pkg) \<and>
             a_subject_id a = Some (rl_id rl) \<and>
             (case a_detail a of Some d \<Rightarrow> js_prop d ''consent_id'' = Some (JStr (c_id c)) | None \<Rightarrow> False)))"
proof (cases "latest_by c_granted_at (filter (\<lambda>c. c_member c = pi_member input \<and> c_revoked_at c = None) (consents db))")
  case None
  then show ?thesis by (simp add: buildQuotePackage_def releaseEligibility_def)
next
  case (Some c)
  have c: "c \<in> set (consents db)" "c_member c = pi_member input" "c_revoked_at c = None"
    using latest_by_SomeD [OF Some] by auto
  with Some show ?thesis
    by (auto simp: buildQuotePackage_def releaseEligibility_def Let_def case_prod_beta fresh_id_def audit_detail_def
      split: option.split)
qed

section \<open>Concrete runs\<close>

definition sample_consent :: consent_row where
  "sample_consent = \<lparr>c_id = ''C'', c_member = ''M1'', c_vin = None, c_scope_granted = ''s'', c_policy_version = ''v'',
     c_purposes = [], c_granted_at = ''t0'', c_revoked_at = None, c_revoke_reason = None, c_policy_sha256 = None,
     c_collected_fields = [], c_recipients = [], c_ip_hash = None, c_user_agent = None\<rparr>"

definition sample_release :: release_row where
  "sample_release = \<lparr>rl_id = ''RL'', rl_type = Quote_package, rl_period_start = ''a'', rl_period_end = ''b'',
     rl_row_count = 1, rl_sha256 = ''h'', rl_derivation_version = ''1'', rl_policy_version = ''v'', rl_created_at = ''t0'',
     rl_created_by = ''m'', rl_subject_member = Some ''M1'', rl_subject_vin = Some ''V1'', rl_r2_key = None\<rparr>"

definition sample_link :: download_token_row where
  "sample_link = \<lparr>dt_id = ''T'', dt_release = ''RL'', dt_hash = ''secret'', dt_issued_to = ''m'', dt_issued_at = ''t0'',
     dt_expires_at = ''t9'', dt_max_uses = 1, dt_use_count = 0, dt_revoked_at = None\<rparr>"

definition sample_release_db :: release_db where
  "sample_release_db = ingest_db.extend (sample_ingest_db\<lparr>consents := [sample_consent]\<rparr>)
     \<lparr>releases = [sample_release], download_tokens = [sample_link], accesses = [], profiles = [], policies = []\<rparr>"

definition sample_release_env :: release_env where
  "sample_release_env = ingest_env.extend ((sample_ingest_env 0)\<lparr>rt_sha256 := (\<lambda>s. s)\<rparr>)
     \<lparr>re_add_seconds = (\<lambda>t n. t), re_artifact = (\<lambda>n r. Some ''a,b'')\<rparr>"

lemmas sample_chain = sample_ingest_db_def sample_poll_db_def sample_key_db_def sample_telemetry_db_def
  sample_config_db_def sample_store_def ingest_db.extend_def poll_db.extend_def key_db.extend_def
  telemetry_db.extend_def config_db.extend_def store_db.extend_def sample_ingest_env_def sample_poll_env_def
  sample_network_def sample_runtime_def ingest_env.extend_def poll_env.extend_def network.extend_def runtime.extend_def

lemmas sample_release_simps = sample_release_env_def sample_release_db_def sample_link_def sample_release_def sample_consent_def
  sample_chain token_record_def

theorem toCsv_roundtrip_witness:
  "parse_csv (toCsv [''name'', ''note''] [[Some ''Smith, John'', None], [Some (QUOTE # ''x''), Some CRLF]]) =
    [[''name'', ''note''], [''Smith, John'', []], [QUOTE # ''x'', CRLF]]"
  by (subst toCsv_roundtrip) (simp_all add: cell_text_def)

theorem redeemDownloadToken_gate_witness:
  "rr_ok (fst (redeemDownloadToken sample_release_env ''secret'' ''t5'' None None sample_release_db)) \<and>
   length (accesses (snd (redeemDownloadToken sample_release_env ''secret'' ''t5'' None None sample_release_db))) = 1"
proof -
  let ?r = "redeemDownloadToken sample_release_env ''secret'' ''t5'' None None sample_release_db"
  have ok: "rr_ok (fst ?r)"
    by (simp add: redeemDownloadToken_def sample_release_simps consent_refusal_def releaseEligibility_def fresh_id_def
      less_eq_char_simp)
  moreover have "accesses sample_release_db = []" by (simp add: sample_release_simps)
  ultimately show ?thesis
    using redeemDownloadToken_gate [of sample_release_env "''secret''" "''t5''" None None sample_release_db "fst ?r" "snd ?r"]
    by auto
qed

theorem revocation_stops_disclosure_witness:
  "rr_csv (fst (redeemDownloadToken sample_release_env ''secret'' ''t5'' None None
     (snd (revokeConsent ''M1'' ''gone'' ''t4'' sample_release_db)))) = None"
  by (rule revocation_stops_disclosure [where t = sample_link and r = sample_release]) (simp_all add: sample_release_simps)

end
