(* ===== verification/Sorting.thy ===== *)
theory Sorting
  imports Prelude "HOL-Library.Multiset"
begin

text \<open>
  \<open>Array.prototype.sort\<close> as a stable insertion sort, and that a linear order sorts every
  permutation of a list alike.
\<close>

text \<open>\<open>Array.prototype.sort\<close> with a comparator, \<open>le a b\<close> being \<open>compare(a, b) <= 0\<close>: it is stable.\<close>

fun insert_stable :: "('a \<Rightarrow> 'a \<Rightarrow> bool) \<Rightarrow> 'a \<Rightarrow> 'a list \<Rightarrow> 'a list" where
  "insert_stable le x [] = [x]"
| "insert_stable le x (y # ys) = (if le x y then x # y # ys else y # insert_stable le x ys)"

definition js_sort :: "('a \<Rightarrow> 'a \<Rightarrow> bool) \<Rightarrow> 'a list \<Rightarrow> 'a list" where
  "js_sort le xs = foldr (insert_stable le) xs []"

definition total_preorder_on :: "'a set \<Rightarrow> ('a \<Rightarrow> 'a \<Rightarrow> bool) \<Rightarrow> bool" where
  "total_preorder_on A le \<longleftrightarrow>
     (\<forall>x \<in> A. \<forall>y \<in> A. (le x y \<or> le y x) \<and> (\<forall>z \<in> A. le x y \<longrightarrow> le y z \<longrightarrow> le x z))"

definition linear_on :: "'a set \<Rightarrow> ('a \<Rightarrow> 'a \<Rightarrow> bool) \<Rightarrow> bool" where
  "linear_on A le \<longleftrightarrow> total_preorder_on A le \<and> (\<forall>x \<in> A. \<forall>y \<in> A. le x y \<longrightarrow> le y x \<longrightarrow> x = y)"

lemma total_preorder_onD:
  assumes "total_preorder_on A le"
  shows "x \<in> A \<Longrightarrow> y \<in> A \<Longrightarrow> le x y \<or> le y x"
    and "x \<in> A \<Longrightarrow> y \<in> A \<Longrightarrow> z \<in> A \<Longrightarrow> le x y \<Longrightarrow> le y z \<Longrightarrow> le x z"
  using assms unfolding total_preorder_on_def by blast+

lemma total_preorder_on_subset: "total_preorder_on A le \<Longrightarrow> B \<subseteq> A \<Longrightarrow> total_preorder_on B le"
  unfolding total_preorder_on_def by blast

lemma linear_on_subset: "linear_on A le \<Longrightarrow> B \<subseteq> A \<Longrightarrow> linear_on B le"
  unfolding linear_on_def using total_preorder_on_subset by blast

lemma mset_insert_stable [simp]: "mset (insert_stable le x xs) = add_mset x (mset xs)"
  by (induction xs) auto

lemma mset_js_sort [simp]: "mset (js_sort le xs) = mset xs"
  by (induction xs) (simp_all add: js_sort_def)

lemma set_js_sort [simp]: "set (js_sort le xs) = set xs"
  by (metis mset_js_sort set_mset_mset)

lemma length_js_sort [simp]: "length (js_sort le xs) = length xs"
  by (metis mset_js_sort size_mset)

lemma set_insert_stable [simp]: "set (insert_stable le x xs) = insert x (set xs)"
  by (induction xs) auto

lemma sorted_insert_stable:
  assumes "total_preorder_on A le" and "insert x (set xs) \<subseteq> A" and "sorted_wrt le xs"
  shows "sorted_wrt le (insert_stable le x xs)"
  using assms(2,3)
proof (induction xs)
  case (Cons y ys)
  show ?case
  proof (cases "le x y")
    case True
    have "\<forall>z \<in> set ys. le x z"
    proof
      fix z assume "z \<in> set ys"
      with Cons.prems have "le y z" "z \<in> A" "x \<in> A" "y \<in> A" by auto
      with total_preorder_onD(2) [OF assms(1), of x y z] True show "le x z" by blast
    qed
    with True Cons.prems show ?thesis by simp
  next
    case False
    with Cons.prems total_preorder_onD(1) [OF assms(1), of x y] have "le y x" by simp
    with False Cons show ?thesis by simp
  qed
qed simp

lemma sorted_js_sort:
  assumes "total_preorder_on (set xs) le"
  shows "sorted_wrt le (js_sort le xs)"
proof -
  have "set ys \<subseteq> set xs \<Longrightarrow> sorted_wrt le (js_sort le ys)" for ys
  proof (induction ys)
    case Nil
    show ?case by (simp add: js_sort_def)
  next
    case (Cons y ys)
    have eq: "js_sort le (y # ys) = insert_stable le y (js_sort le ys)" by (simp add: js_sort_def)
    show ?case unfolding eq
      by (rule sorted_insert_stable [OF assms]) (use Cons in auto)
  qed
  then show ?thesis by simp
qed

lemma sorted_wrt_unique:
  assumes "linear_on (set xs) le" and "mset xs = mset ys" and "sorted_wrt le xs" and "sorted_wrt le ys"
  shows "xs = ys"
  using assms
proof (induction xs arbitrary: ys)
  case (Cons x xs)
  then obtain y zs where ys: "ys = y # zs" by (cases ys) auto
  have set_eq: "set (x # xs) = set (y # zs)" using Cons.prems(2) ys by (metis set_mset_mset)
  have "le x y" if "x \<noteq> y"
  proof -
    have "y \<in> set xs" using set_eq that by auto
    with Cons.prems(3) show ?thesis by simp
  qed
  moreover have "le y x" if "x \<noteq> y"
  proof -
    have "x \<in> set zs" using set_eq that by auto
    with Cons.prems(4) ys show ?thesis by simp
  qed
  moreover have "y \<in> set (x # xs)" "x \<in> set (x # xs)" using set_eq by auto
  ultimately have "x = y" using Cons.prems(1) unfolding linear_on_def ys by blast
  moreover have "linear_on (set xs) le"
    using Cons.prems(1) linear_on_subset by (metis set_subset_Cons)
  ultimately show ?case using Cons.IH [of zs] Cons.prems ys by auto
qed simp

text \<open>A linear order sorts every permutation of a list in the same way.\<close>

lemma js_sort_permutation:
  assumes "linear_on (set xs) le" and "mset xs = mset ys"
  shows "js_sort le xs = js_sort le ys"
proof (rule sorted_wrt_unique [of _ le])
  have "set xs = set ys" using assms(2) by (metis set_mset_mset)
  with assms show "linear_on (set (js_sort le xs)) le" "mset (js_sort le xs) = mset (js_sort le ys)"
    "sorted_wrt le (js_sort le xs)" "sorted_wrt le (js_sort le ys)"
    by (simp_all add: sorted_js_sort linear_on_def)
qed

text \<open>A list in order is left as it is.\<close>

lemma js_sort_sorted: "sorted_wrt le xs \<Longrightarrow> js_sort le xs = xs"
proof (induction xs)
  case (Cons x xs)
  then have "js_sort le xs = xs" by simp
  with Cons.prems show ?case by (cases xs) (simp_all add: js_sort_def)
qed (simp add: js_sort_def)

end
