(* ===== verification/Derive.thy ===== *)
theory Derive
  imports Telemetry Release Sorting
begin

text \<open>
  \<open>derive.ts\<close>: the driver profile of one vehicle over one window.  A number is an exact rational.
  \<open>localeCompare\<close> is the collation of the platform, a parameter \<open>le\<close> that tells whether it answers
  at most zero; the comparisons \<open><\<close> of the code are those of the text itself.
\<close>

section \<open>Facts and profiles\<close>

definition DERIVATION_VERSION :: string where
  "DERIVATION_VERSION = ''1.1.0''"

definition MILES_TO_KM :: rat where
  "MILES_TO_KM = 1609344 / 1000000"

definition MIN_SNAPSHOTS_FOR_CONFIDENCE :: nat where
  "MIN_SNAPSHOTS_FOR_CONFIDENCE = 3"

record fact_point =
  fp_field :: field_key
  fp_observed_at :: iso
  fp_value :: rat

record counter_reset_event =
  cr_field :: field_key
  cr_before :: rat
  cr_after :: rat
  cr_detected_at :: iso

record metric_note =
  mn_metric :: string
  mn_source_field :: "string option"
  mn_source_min :: "iso option"
  mn_source_max :: "iso option"
  mn_definition :: string

datatype fsd_availability = FSD_measured | FSD_partial | FSD_unavailable

record derived_profile =
  dp_period_start :: iso
  dp_period_end :: iso
  dp_odometer_km :: "rat option"
  dp_distance_km :: "rat option"
  dp_fsd_km :: "rat option"
  dp_fsd_percent :: "rat option"
  dp_fsd_availability :: fsd_availability
  dp_fsd_note :: "string option"
  dp_reset_count :: nat
  dp_resets :: "counter_reset_event list"
  dp_confidence :: rat
  dp_low_confidence :: bool
  dp_snapshot_count :: nat
  dp_source_min :: "iso option"
  dp_source_max :: "iso option"
  dp_notes :: "metric_note list"

section \<open>Readings at a boundary\<close>

text \<open>The latest reading at or before an instant; of several at one instant the first is kept.\<close>

fun latest_point :: "iso \<Rightarrow> fact_point option \<Rightarrow> fact_point list \<Rightarrow> fact_point option" where
  "latest_point atOrBefore best [] = best"
| "latest_point atOrBefore best (p # ps) =
     (if fp_observed_at p \<le> atOrBefore \<and>
         (case best of None \<Rightarrow> True | Some b \<Rightarrow> fp_observed_at b < fp_observed_at p)
      then latest_point atOrBefore (Some p) ps
      else latest_point atOrBefore best ps)"

definition valueAtPoint :: "fact_point list \<Rightarrow> iso \<Rightarrow> fact_point option" where
  "valueAtPoint points atOrBefore = latest_point atOrBefore None points"

definition valueAt :: "fact_point list \<Rightarrow> iso \<Rightarrow> rat option" where
  "valueAt points atOrBefore = map_option fp_value (latest_point atOrBefore None points)"

definition windowOpenWithInstant :: "fact_point list \<Rightarrow> iso \<Rightarrow> (rat \<times> iso) option" where
  "windowOpenWithInstant points periodStart =
     (case valueAtPoint points periodStart of
        Some p \<Rightarrow> Some (fp_value p, fp_observed_at p)
      | None \<Rightarrow>
          (case filter (\<lambda>p. periodStart \<le> fp_observed_at p) points of
             [] \<Rightarrow> None
           | p # ps \<Rightarrow>
               (let earliest = foldl (\<lambda>e p. if fp_observed_at p < fp_observed_at e then p else e) p ps
                in Some (fp_value earliest, fp_observed_at earliest))))"

definition windowOpen :: "fact_point list \<Rightarrow> iso \<Rightarrow> rat option" where
  "windowOpen points periodStart = map_option fst (windowOpenWithInstant points periodStart)"

definition distinctInstants :: "fact_point list \<Rightarrow> nat" where
  "distinctInstants points = length (remdups (map fp_observed_at points))"

section \<open>Resets\<close>

fun resets_in :: "field_key \<Rightarrow> fact_point list \<Rightarrow> counter_reset_event list" where
  "resets_in fieldKey (p # q # ps) =
     (if fp_value q < fp_value p
      then \<lparr>cr_field = fieldKey, cr_before = fp_value p, cr_after = fp_value q, cr_detected_at = fp_observed_at q\<rparr>
           # resets_in fieldKey (q # ps)
      else resets_in fieldKey (q # ps))"
| "resets_in fieldKey _ = []"

definition detectResets ::
  "(string \<Rightarrow> string \<Rightarrow> bool) \<Rightarrow> field_key \<Rightarrow> fact_point list \<Rightarrow> counter_reset_event list" where
  "detectResets le fieldKey points =
     resets_in fieldKey (js_sort (\<lambda>a b. le (fp_observed_at a) (fp_observed_at b)) points)"

section \<open>The profile\<close>

definition fact_order :: "(string \<Rightarrow> string \<Rightarrow> bool) \<Rightarrow> fact_point \<Rightarrow> fact_point \<Rightarrow> bool" where
  "fact_order le a b =
     (if fp_observed_at a = fp_observed_at b then le (fp_field a) (fp_field b)
      else le (fp_observed_at a) (fp_observed_at b))"

definition facts_in_window ::
  "(string \<Rightarrow> string \<Rightarrow> bool) \<Rightarrow> iso \<Rightarrow> iso \<Rightarrow> fact_point list \<Rightarrow> fact_point list" where
  "facts_in_window le periodStart periodEnd fs =
     js_sort (fact_order le) (filter (\<lambda>f. periodStart \<le> fp_observed_at f \<and> fp_observed_at f \<le> periodEnd) fs)"

definition series_of :: "fact_point list \<Rightarrow> field_key \<Rightarrow> fact_point list" where
  "series_of inWindow key = filter (\<lambda>f. fp_field f = key) inWindow"

definition first_value :: "fact_point list \<Rightarrow> rat option" where
  "first_value ps = (case ps of [] \<Rightarrow> None | p # _ \<Rightarrow> Some (fp_value p))"

definition last_value :: "fact_point list \<Rightarrow> rat option" where
  "last_value ps = (if ps = [] then None else Some (fp_value (last ps)))"

definition distance_figure ::
  "(string \<Rightarrow> string \<Rightarrow> bool) \<Rightarrow> iso \<Rightarrow> iso \<Rightarrow> fact_point list \<Rightarrow> fact_point list \<Rightarrow> rat option" where
  "distance_figure le periodStart periodEnd milesSeries odometerSeries =
     (case (windowOpen milesSeries periodStart, valueAt milesSeries periodEnd, 2 \<le> distinctInstants milesSeries) of
        (Some milesFirst, Some milesLast, True) \<Rightarrow>
          Some (if detectResets le ''MilesSinceReset'' milesSeries = [] then (milesLast - milesFirst) * MILES_TO_KM
                else milesLast * MILES_TO_KM)
      | _ \<Rightarrow>
          (case (first_value odometerSeries, last_value odometerSeries) of
             (Some odoFirst, Some odoLast) \<Rightarrow>
               if odoFirst < odoLast \<and> 2 \<le> distinctInstants odometerSeries
               then Some ((odoLast - odoFirst) * MILES_TO_KM) else None
           | _ \<Rightarrow> None))"

text \<open>The notes that explain a figure that is not reported.\<close>

definition NOTE_NO_FSD :: string where
  "NOTE_NO_FSD = ''The vehicle did not report Full Self-Driving distance. This is expected on hardware or firmware that does not expose it, and no estimate has been substituted.''"

definition NOTE_NO_TOTAL :: string where
  "NOTE_NO_TOTAL = ''Full Self-Driving distance was reported but total distance was not, so a share cannot be computed.''"

definition NOTE_RESET :: string where
  "NOTE_RESET = ''A distance counter reset inside this window (software update, computer replacement or factory reset). Only travel since the reset is known, so no share is reported for the full window.''"

definition NOTE_SPANS :: "iso \<Rightarrow> iso \<Rightarrow> string" where
  "NOTE_SPANS fsdAt milesAt =
     ''Full Self-Driving distance and total distance were first observed at different times '' @
     ''('' @ fsdAt @ '' and '' @ milesAt @ ''), so the two cover different periods. '' @
     ''A share would compare travel over one span against travel over another, so it is not reported. '' @
     ''Full Self-Driving distance since its first observation is given instead.''"

definition NOTE_STILL :: string where
  "NOTE_STILL = ''The vehicle did not move during this window, so Full Self-Driving usage is not meaningful.''"

definition NOTE_NEGATIVE :: string where
  "NOTE_NEGATIVE = ''Total distance was zero or negative across this window, so no Full Self-Driving share could be derived.''"

record fsd_figure =
  ff_percent :: "rat option"
  ff_km :: "rat option"
  ff_availability :: fsd_availability
  ff_note :: "string option"

definition zero_if_none :: "rat option \<Rightarrow> rat" where
  "zero_if_none v = (case v of None \<Rightarrow> 0 | Some q \<Rightarrow> q)"

definition opened_at :: "(rat \<times> iso) option \<Rightarrow> iso" where
  "opened_at w = (case w of None \<Rightarrow> ''undefined'' | Some (_, t) \<Rightarrow> t)"

definition fsd_share :: "iso \<Rightarrow> iso \<Rightarrow> fact_point list \<Rightarrow> fact_point list \<Rightarrow> rat \<Rightarrow> fsd_figure" where
  "fsd_share periodStart periodEnd milesSeries fsdSeries deltaMiles =
     (let fsdFirst = windowOpen fsdSeries periodStart;
          fsdLast = valueAt fsdSeries periodEnd;
          milesOpen = windowOpenWithInstant milesSeries periodStart;
          fsdOpen = windowOpenWithInstant fsdSeries periodStart;
          deltaFsd = zero_if_none fsdLast - zero_if_none fsdFirst;
          fsdStartsAfterTotal = (case (fsdOpen, milesOpen) of (Some (_, f), Some (_, m)) \<Rightarrow> m < f | _ \<Rightarrow> False)
      in if 0 < deltaMiles \<and> fsdFirst \<noteq> None \<and> fsdLast \<noteq> None \<and> \<not> fsdStartsAfterTotal
         then \<lparr>ff_percent = Some (deltaFsd / deltaMiles), ff_km = Some (deltaFsd * MILES_TO_KM),
               ff_availability = FSD_measured, ff_note = None\<rparr>
         else if 0 < deltaMiles \<and> fsdStartsAfterTotal
         then \<lparr>ff_percent = None, ff_km = Some (deltaFsd * MILES_TO_KM), ff_availability = FSD_partial,
               ff_note = Some (NOTE_SPANS (opened_at fsdOpen) (opened_at milesOpen))\<rparr>
         else if deltaMiles = 0
         then \<lparr>ff_percent = None, ff_km = None, ff_availability = FSD_partial, ff_note = Some NOTE_STILL\<rparr>
         else \<lparr>ff_percent = None, ff_km = None, ff_availability = FSD_unavailable, ff_note = Some NOTE_NEGATIVE\<rparr>)"

definition fsd_figures ::
  "(string \<Rightarrow> string \<Rightarrow> bool) \<Rightarrow> iso \<Rightarrow> iso \<Rightarrow> fact_point list \<Rightarrow> fact_point list \<Rightarrow> fsd_figure" where
  "fsd_figures le periodStart periodEnd milesSeries fsdSeries =
     (if fsdSeries = []
      then \<lparr>ff_percent = None, ff_km = None, ff_availability = FSD_unavailable, ff_note = Some NOTE_NO_FSD\<rparr>
      else (case (windowOpen milesSeries periodStart, valueAt milesSeries periodEnd) of
          (Some milesFirst, Some milesLast) \<Rightarrow>
            if detectResets le ''MilesSinceReset'' milesSeries \<noteq> [] \<or>
               detectResets le ''SelfDrivingMilesSinceReset'' fsdSeries \<noteq> []
            then \<lparr>ff_percent = None, ff_km = map_option (\<lambda>v. v * MILES_TO_KM) (valueAt fsdSeries periodEnd),
                  ff_availability = FSD_partial, ff_note = Some NOTE_RESET\<rparr>
            else fsd_share periodStart periodEnd milesSeries fsdSeries (milesLast - milesFirst)
        | _ \<Rightarrow> \<lparr>ff_percent = None, ff_km = None, ff_availability = FSD_unavailable, ff_note = Some NOTE_NO_TOTAL\<rparr>))"

text \<open>\<open>Math.round(Math.min(1, c) * 100) / 100\<close>.\<close>

definition confidence_of :: "nat \<Rightarrow> bool \<Rightarrow> fsd_availability \<Rightarrow> rat" where
  "confidence_of snapshotCount hasDistance availability =
     (let c = (if MIN_SNAPSHOTS_FOR_CONFIDENCE \<le> snapshotCount then (1 / 2 :: rat)
               else if 0 < snapshotCount then 15 / 100 * of_nat snapshotCount else 0)
            + (if hasDistance then 1 / 4 else 0)
            + (case availability of FSD_measured \<Rightarrow> 1 / 4 | FSD_partial \<Rightarrow> 1 / 10 | FSD_unavailable \<Rightarrow> 0)
      in of_int \<lfloor>min 1 c * 100 + 1 / 2\<rfloor> / 100)"

definition profile_notes :: "bool \<Rightarrow> iso option \<Rightarrow> iso option \<Rightarrow> metric_note list" where
  "profile_notes milesReset sourceMin sourceMax =
     [\<lparr>mn_metric = ''distance_km'', mn_source_field = (if milesReset then None else Some ''MilesSinceReset''),
       mn_source_min = sourceMin, mn_source_max = sourceMax,
       mn_definition =
         (if milesReset then ''Distance since the most recent counter reset in this window, converted to kilometres.''
          else ''Increase in the vehicle'' @ [CHR 0xE2, CHR 0x80, CHR 0x99] @
               ''s distance-since-reset counter across this window, converted to kilometres.'')\<rparr>,
      \<lparr>mn_metric = ''fsd_percent'', mn_source_field = Some ''SelfDrivingMilesSinceReset'',
       mn_source_min = sourceMin, mn_source_max = sourceMax,
       mn_definition = ''Proportion of distance driven with Full Self-Driving engaged, as reported by the vehicle. This is a share of the period, not lifetime usage.''\<rparr>]"

definition deriveProfile ::
  "(string \<Rightarrow> string \<Rightarrow> bool) \<Rightarrow> iso \<Rightarrow> iso \<Rightarrow> fact_point list \<Rightarrow> derived_profile" where
  "deriveProfile le periodStart periodEnd fs =
     (let inWindow = facts_in_window le periodStart periodEnd fs;
          odometerSeries = series_of inWindow ''Odometer'';
          milesSeries = series_of inWindow ''MilesSinceReset'';
          fsdSeries = series_of inWindow ''SelfDrivingMilesSinceReset'';
          sourceMin = (if inWindow = [] then None else Some (fp_observed_at (hd inWindow)));
          sourceMax = (if inWindow = [] then None else Some (fp_observed_at (last inWindow)));
          distanceKm = distance_figure le periodStart periodEnd milesSeries odometerSeries;
          milesResets = detectResets le ''MilesSinceReset'' milesSeries;
          fsd = fsd_figures le periodStart periodEnd milesSeries fsdSeries;
          resets = js_sort (\<lambda>a b. le (cr_detected_at a) (cr_detected_at b))
                     (milesResets @ detectResets le ''SelfDrivingMilesSinceReset'' fsdSeries);
          snapshotCount = distinctInstants inWindow;
          confidence = confidence_of snapshotCount (distanceKm \<noteq> None) (ff_availability fsd)
      in \<lparr>dp_period_start = periodStart, dp_period_end = periodEnd,
          dp_odometer_km = map_option (\<lambda>v. v * MILES_TO_KM) (last_value odometerSeries),
          dp_distance_km = distanceKm, dp_fsd_km = ff_km fsd, dp_fsd_percent = ff_percent fsd,
          dp_fsd_availability = ff_availability fsd, dp_fsd_note = ff_note fsd,
          dp_reset_count = length resets, dp_resets = resets, dp_confidence = confidence,
          dp_low_confidence = (confidence < 1 / 2 \<or> snapshotCount < MIN_SNAPSHOTS_FOR_CONFIDENCE),
          dp_snapshot_count = snapshotCount, dp_source_min = sourceMin, dp_source_max = sourceMax,
          dp_notes = profile_notes (milesResets \<noteq> []) sourceMin sourceMax\<rparr>)"

section \<open>Persistence\<close>

record counter_reset_row =
  rs_id :: string
  rs_vin :: vin
  rs_field :: field_key
  rs_before :: rat
  rs_after :: rat
  rs_detected_at :: iso

record derive_db = release_db +
  counter_resets :: "counter_reset_row list"

definition availability_text :: "fsd_availability \<Rightarrow> string" where
  "availability_text a =
     (case a of FSD_measured \<Rightarrow> ''measured'' | FSD_partial \<Rightarrow> ''partial'' | FSD_unavailable \<Rightarrow> ''unavailable'')"

fun reset_rows ::
  "('e) runtime_scheme \<Rightarrow> vin \<Rightarrow> counter_reset_event list \<Rightarrow> ('a) store_db_scheme \<Rightarrow>
   counter_reset_row list \<times> ('a) store_db_scheme" where
  "reset_rows e vin [] db = ([], db)"
| "reset_rows e vin (r # rs) db =
     (let (i, db1) = fresh_id e db; (rest, db2) = reset_rows e vin rs db1
      in (\<lparr>rs_id = i, rs_vin = vin, rs_field = cr_field r, rs_before = cr_before r, rs_after = cr_after r,
           rs_detected_at = cr_detected_at r\<rparr> # rest, db2))"

text \<open>The foreign keys name the member, the vehicle and, for a reset, the field of the catalog.\<close>

definition saveProfile ::
  "('e) runtime_scheme \<Rightarrow> member_id \<Rightarrow> vin \<Rightarrow> derived_profile \<Rightarrow> iso \<Rightarrow> ('a) derive_db_scheme \<Rightarrow>
   (string + string) \<times> ('a) derive_db_scheme" where
  "saveProfile e memberId vin profile nowIso db =
     (let (profileId, db1) = fresh_id e db;
          row = \<lparr>p_id = profileId, p_member = memberId, p_vin = vin, p_period_start = dp_period_start profile,
                 p_period_end = dp_period_end profile, p_odometer_km = dp_odometer_km profile,
                 p_distance_km = dp_distance_km profile, p_fsd_km = dp_fsd_km profile,
                 p_fsd_availability = availability_text (dp_fsd_availability profile),
                 p_fsd_note = dp_fsd_note profile, p_counter_resets = dp_reset_count profile,
                 p_derivation_version = DERIVATION_VERSION, p_source_fact_min = dp_source_min profile,
                 p_source_fact_max = dp_source_max profile, p_derived_at = nowIso\<rparr>
      in if \<not> list_ex (\<lambda>m. m_id m = memberId) (members db1) \<or> \<not> vehicleExists db1 vin
         then (Inl ''FOREIGN KEY constraint failed'', db1)
         else (let db2 = db1\<lparr>profiles := profiles db1 @ [row]\<rparr>;
                   (rows, db3) = reset_rows e vin (dp_resets profile) db2
               in if list_all (\<lambda>r. list_ex (\<lambda>c. fc_key c = rs_field r) (catalog db3)) rows
                  then (Inr profileId, db3\<lparr>counter_resets := counter_resets db3 @ rows\<rparr>)
                  else (Inl ''FOREIGN KEY constraint failed'', db3)))"

definition loadFacts ::
  "('a) telemetry_db_scheme \<Rightarrow> vin \<Rightarrow> iso \<Rightarrow> iso \<Rightarrow> field_key list \<Rightarrow> fact_point list" where
  "loadFacts db vin from_iso to_iso fieldKeys =
     map (\<lambda>f. \<lparr>fp_field = f_field f, fp_observed_at = f_observed_at f,
               fp_value = (case cv_real (f_value f) of Some q \<Rightarrow> q
                           | None \<Rightarrow> (case cv_int (f_value f) of Some i \<Rightarrow> of_int i | None \<Rightarrow> 0))\<rparr>)
       (sort_key f_observed_at
         (filter (\<lambda>f. f_vin f = vin \<and> f_field f \<in> set fieldKeys \<and> from_iso \<le> f_observed_at f \<and>
              f_observed_at f \<le> to_iso \<and> cv_kind (f_value f) \<in> {KReal, KInt}) (facts db)))"

definition DERIVATION_FIELDS :: "field_key list" where
  "DERIVATION_FIELDS = [''Odometer'', ''MilesSinceReset'', ''SelfDrivingMilesSinceReset'']"


section \<open>Readings of a series in order\<close>

text \<open>The collation of the platform agrees with the text order on these instants.\<close>

definition collates_as_text :: "(string \<Rightarrow> string \<Rightarrow> bool) \<Rightarrow> string set \<Rightarrow> bool" where
  "collates_as_text le A \<longleftrightarrow> (\<forall>x \<in> A. \<forall>y \<in> A. le x y \<longleftrightarrow> x \<le> y)"

definition in_order :: "fact_point list \<Rightarrow> bool" where
  "in_order ps = sorted (map fp_observed_at ps)"

lemma latest_point_in:
  "latest_point t best ps = Some p \<Longrightarrow> p \<in> set ps \<or> best = Some p"
  by (induction ps arbitrary: best) (auto split: if_splits)

lemma latest_point_keeps:
  assumes "\<forall>p \<in> set ps. t < fp_observed_at p \<or> fp_observed_at p \<le> fp_observed_at b"
  shows "latest_point t (Some b) ps = Some b"
  using assms by (induction ps) auto

lemma latest_point_None: "latest_point t best ps = None \<longleftrightarrow> best = None \<and> (\<forall>p \<in> set ps. t < fp_observed_at p)"
  by (induction ps arbitrary: best) (auto split: option.splits)

lemma foldl_earliest:
  assumes "\<forall>q \<in> set ps. fp_observed_at p \<le> fp_observed_at q"
  shows "foldl (\<lambda>e p. if fp_observed_at p < fp_observed_at e then p else e) p ps = p"
  using assms by (induction ps) auto

text \<open>In a series in order that starts inside the window, the window opens with the first reading.\<close>

lemma windowOpen_first:
  assumes "in_order (p # ps)" and "\<forall>q \<in> set (p # ps). periodStart \<le> fp_observed_at q"
  shows "windowOpenWithInstant (p # ps) periodStart = Some (fp_value p, fp_observed_at p)"
proof (cases "fp_observed_at p \<le> periodStart")
  case True
  with assms have "latest_point periodStart (Some p) ps = Some p"
    by (intro latest_point_keeps) (auto simp: in_order_def)
  with True show ?thesis by (simp add: windowOpenWithInstant_def valueAtPoint_def)
next
  case False
  with assms have "valueAtPoint (p # ps) periodStart = None"
    by (auto simp: valueAtPoint_def latest_point_None in_order_def)
  moreover have "filter (\<lambda>p. periodStart \<le> fp_observed_at p) (p # ps) = p # ps"
    using assms by (simp add: filter_id_conv)
  ultimately show ?thesis
    using assms foldl_earliest [of ps p] by (simp add: windowOpenWithInstant_def in_order_def del: filter.simps)
qed

text \<open>A series of one instant opens and closes with the same reading.\<close>

lemma one_instant:
  assumes "\<forall>q \<in> set ps. fp_observed_at q = fp_observed_at p"
  shows "windowOpen (p # ps) a = Some (fp_value p)"
    and "valueAt (p # ps) b = (if fp_observed_at p \<le> b then Some (fp_value p) else None)"
proof -
  have le: "\<forall>q \<in> set ps. fp_observed_at q \<le> fp_observed_at p" and ge: "\<forall>q \<in> set ps. fp_observed_at p \<le> fp_observed_at q"
    using assms by (metis order_refl)+
  have keep: "latest_point t (Some p) ps = Some p" for t
    using le by (intro latest_point_keeps) blast
  have none: "latest_point t None ps = None" if "\<not> fp_observed_at p \<le> t" for t
    unfolding latest_point_None using ge that by (meson not_le order_less_le_trans)
  have "foldl (\<lambda>e p. if fp_observed_at p < fp_observed_at e then p else e) p ps = p"
    using ge by (rule foldl_earliest)
  moreover have "filter (\<lambda>p. a \<le> fp_observed_at p) (p # ps) = p # ps" if "\<not> fp_observed_at p \<le> a"
    unfolding filter_id_conv using ge that by (metis linear order_trans set_ConsD)
  ultimately show "windowOpen (p # ps) a = Some (fp_value p)"
    using keep none by (simp add: windowOpen_def windowOpenWithInstant_def valueAtPoint_def del: filter.simps)
  show "valueAt (p # ps) b = (if fp_observed_at p \<le> b then Some (fp_value p) else None)"
    using keep none by (simp add: valueAt_def)
qed

lemma few_instants:
  assumes "\<not> 2 \<le> distinctInstants ps" and "ps \<noteq> []"
  obtains p qs where "ps = p # qs" and "\<forall>q \<in> set qs. fp_observed_at q = fp_observed_at p"
proof -
  obtain p qs where ps: "ps = p # qs" using assms(2) by (cases ps) auto
  have "card (set (map fp_observed_at ps)) \<le> 1"
    using assms(1) by (simp add: distinctInstants_def length_remdups_card_conv)
  then have one: "\<forall>x \<in> set (map fp_observed_at ps). \<forall>y \<in> set (map fp_observed_at ps). x = y"
    by (metis One_nat_def List.finite_set card_le_Suc0_iff_eq)
  have "\<forall>q \<in> set qs. fp_observed_at q = fp_observed_at p"
    using one unfolding ps list.set_map by (metis image_eqI list.set_intros)
  with ps show thesis by (rule that)
qed

lemma resets_in_Nil_iff: "resets_in k ps = [] \<longleftrightarrow> sorted (map fp_value ps)"
  by (induction k ps rule: resets_in.induct) (auto simp: not_less dest: order_trans)

section \<open>The facts of a window\<close>

lemma set_facts_in_window:
  "set (facts_in_window le a b fs) = {f \<in> set fs. a \<le> fp_observed_at f \<and> fp_observed_at f \<le> b}"
  by (simp add: facts_in_window_def)

lemma fact_order_text:
  assumes "collates_as_text le A" and "fp_observed_at x \<in> A" and "fp_observed_at y \<in> A"
  shows "fact_order le x y \<longleftrightarrow> fp_observed_at x < fp_observed_at y \<or>
    (fp_observed_at x = fp_observed_at y \<and> le (fp_field x) (fp_field y))"
  using assms by (auto simp: fact_order_def collates_as_text_def order_less_le)

lemma fact_order_preorder:
  assumes "total_preorder_on UNIV le" and "collates_as_text le (fp_observed_at ` set fs)"
  shows "total_preorder_on (set fs) (fact_order le)"
  unfolding total_preorder_on_def
proof (intro ballI conjI impI)
  note order = fact_order_text [OF assms(2)]
  fix x y z assume xyz: "x \<in> set fs" "y \<in> set fs"
  show "fact_order le x y \<or> fact_order le y x"
    using xyz order total_preorder_onD(1) [OF assms(1)] by (metis UNIV_I image_eqI linorder_neq_iff)
  assume z: "z \<in> set fs" "fact_order le x y" "fact_order le y z"
  with xyz order [of x y] order [of y z] order [of x z] total_preorder_onD(2) [OF assms(1)]
  show "fact_order le x z" by (smt (verit) UNIV_I image_eqI order_less_trans)
qed

lemma facts_in_window_in_order:
  assumes "total_preorder_on UNIV le" and "collates_as_text le (fp_observed_at ` set fs)"
  shows "in_order (facts_in_window le a b fs)"
proof -
  let ?ws = "filter (\<lambda>f. a \<le> fp_observed_at f \<and> fp_observed_at f \<le> b) fs"
  have "total_preorder_on (set ?ws) (fact_order le)"
    by (rule total_preorder_on_subset [OF fact_order_preorder [OF assms]]) auto
  then have "sorted_wrt (fact_order le) (facts_in_window le a b fs)"
    unfolding facts_in_window_def by (rule sorted_js_sort)
  moreover have "fp_observed_at x \<le> fp_observed_at y"
    if "x \<in> set (facts_in_window le a b fs)" "y \<in> set (facts_in_window le a b fs)" "fact_order le x y" for x y
    using that fact_order_text [OF assms(2), of x y] by (auto simp: set_facts_in_window)
  ultimately have "sorted_wrt (\<lambda>x y. fp_observed_at x \<le> fp_observed_at y) (facts_in_window le a b fs)"
    by (rule sorted_wrt_mono_rel [rotated]) blast+
  then show ?thesis by (simp add: in_order_def sorted_map)
qed

lemma in_order_series: "in_order ps \<Longrightarrow> in_order (series_of ps k)"
  by (simp add: in_order_def series_of_def sorted_filter)

lemma collates_as_text_subset: "collates_as_text le A \<Longrightarrow> B \<subseteq> A \<Longrightarrow> collates_as_text le B"
  by (auto simp: collates_as_text_def)

lemma detectResets_in_order:
  assumes "in_order ps" and "collates_as_text le (fp_observed_at ` set ps)"
  shows "detectResets le k ps = resets_in k ps"
proof -
  have "sorted_wrt (\<lambda>x y. fp_observed_at x \<le> fp_observed_at y) ps"
    using assms(1) by (simp add: in_order_def sorted_map)
  then have "sorted_wrt (\<lambda>x y. le (fp_observed_at x) (fp_observed_at y)) ps"
    by (rule sorted_wrt_mono_rel [rotated]) (use assms(2) in \<open>auto simp: collates_as_text_def\<close>)
  then show ?thesis by (simp add: detectResets_def js_sort_sorted)
qed

lemma valueAt_in: "valueAt ps t = Some v \<Longrightarrow> \<exists>p \<in> set ps. fp_value p = v"
  using latest_point_in [of t None ps] by (auto simp: valueAt_def)

text \<open>Without a reset a counter in order never ends below its opening value.\<close>

lemma counter_grows:
  assumes "in_order ps" and "\<forall>p \<in> set ps. a \<le> fp_observed_at p" and "resets_in k ps = []"
    and "windowOpen ps a = Some x" and "valueAt ps b = Some y"
  shows "x \<le> y"
proof -
  obtain q where q: "q \<in> set ps" "fp_value q = y" using valueAt_in [OF assms(5)] by blast
  then obtain p qs where ps: "ps = p # qs" by (cases ps) auto
  have "x = fp_value p"
    using windowOpen_first [of p qs a] assms(1,2,4) by (simp add: ps windowOpen_def)
  moreover have "fp_value p \<le> fp_value q"
    using assms(3) q(1) by (auto simp: ps resets_in_Nil_iff)
  ultimately show ?thesis using q by simp
qed

lemma distance_figure_nonneg:
  assumes "in_order miles" and "\<forall>p \<in> set miles. a \<le> fp_observed_at p \<and> 0 \<le> fp_value p"
    and "collates_as_text le (fp_observed_at ` set miles)" and "distance_figure le a b miles odo = Some d"
  shows "0 \<le> d"
proof -
  have K: "0 \<le> MILES_TO_KM" by (simp add: MILES_TO_KM_def)
  have odometer: "(case (first_value odo, last_value odo) of
         (Some odoFirst, Some odoLast) \<Rightarrow>
           if odoFirst < odoLast \<and> 2 \<le> distinctInstants odo then Some ((odoLast - odoFirst) * MILES_TO_KM) else None
       | _ \<Rightarrow> None) = Some d \<Longrightarrow> 0 \<le> d"
    using K by (auto split: option.splits if_splits)
  show ?thesis
  proof (cases "windowOpen miles a \<noteq> None \<and> valueAt miles b \<noteq> None \<and> 2 \<le> distinctInstants miles")
    case True
    then obtain x y where xy: "windowOpen miles a = Some x" "valueAt miles b = Some y" by auto
    then have d: "d = (if resets_in ''MilesSinceReset'' miles = [] then (y - x) * MILES_TO_KM else y * MILES_TO_KM)"
      using assms(4) True detectResets_in_order [OF assms(1,3)] by (simp add: distance_figure_def split: if_splits)
    moreover have "0 \<le> y" using valueAt_in [OF xy(2)] assms(2) by auto
    moreover have "x \<le> y" if "resets_in ''MilesSinceReset'' miles = []"
      using counter_grows [OF assms(1) _ that xy] assms(2) by blast
    ultimately show ?thesis using K by simp
  next
    case False
    then have "distance_figure le a b miles odo =
        (case (first_value odo, last_value odo) of
           (Some odoFirst, Some odoLast) \<Rightarrow>
             if odoFirst < odoLast \<and> 2 \<le> distinctInstants odo then Some ((odoLast - odoFirst) * MILES_TO_KM) else None
         | _ \<Rightarrow> None)"
      unfolding distance_figure_def
      by (cases "windowOpen miles a"; cases "valueAt miles b"; cases "2 \<le> distinctInstants miles") simp_all
    with assms(4) show ?thesis by (intro odometer) simp
  qed
qed

section \<open>Two counters that close at different instants\<close>

definition late_reading :: "rat \<Rightarrow> fact_point list" where
  "late_reading n =
     [\<lparr>fp_field = ''MilesSinceReset'', fp_observed_at = ''t1'', fp_value = 0\<rparr>,
      \<lparr>fp_field = ''SelfDrivingMilesSinceReset'', fp_observed_at = ''t1'', fp_value = 0\<rparr>,
      \<lparr>fp_field = ''MilesSinceReset'', fp_observed_at = ''t2'', fp_value = 1\<rparr>,
      \<lparr>fp_field = ''SelfDrivingMilesSinceReset'', fp_observed_at = ''t3'', fp_value = n\<rparr>]"

lemma late_reading_order:
  "''t0'' \<le> ''t1''" "''t0'' \<le> ''t2''" "''t0'' \<le> ''t3''" "''t1'' \<le> ''t9''" "''t2'' \<le> ''t9''" "''t3'' \<le> ''t9''"
  "''t1'' \<le> ''t2''" "''t2'' \<le> ''t3''" "''t1'' \<le> ''t3''" "''t1'' < ''t2''" "''t1'' < ''t3''" "''t2'' < ''t3''"
  "\<not> ''t1'' \<le> ''t0''" "\<not> ''t2'' \<le> ''t0''" "\<not> ''t3'' \<le> ''t0''" "\<not> ''t2'' < ''t1''" "\<not> ''t3'' < ''t1''"
  "''MilesSinceReset'' \<le> ''SelfDrivingMilesSinceReset''"
  by code_simp+

lemma late_reading_window: "facts_in_window (\<le>) ''t0'' ''t9'' (late_reading n) = late_reading n"
  by (simp add: facts_in_window_def late_reading_def late_reading_order js_sort_def fact_order_def)

lemma late_reading_figures:
  assumes "0 \<le> n"
  shows "fsd_figures (\<le>) ''t0'' ''t9'' (series_of (late_reading n) ''MilesSinceReset'')
      (series_of (late_reading n) ''SelfDrivingMilesSinceReset'') =
    \<lparr>ff_percent = Some n, ff_km = Some (n * MILES_TO_KM), ff_availability = FSD_measured, ff_note = None\<rparr>"
  using assms by (simp add: late_reading_def late_reading_order series_of_def fsd_figures_def fsd_share_def windowOpen_def
      windowOpenWithInstant_def valueAtPoint_def valueAt_def detectResets_def js_sort_def zero_if_none_def)

section \<open>The profile in a quote package\<close>

lemma latest_by_snoc:
  "\<forall>r \<in> set rs. k r < k x \<Longrightarrow> latest_by k (rs @ [x]) = Some x"
  by (induction rs) auto

lemma reset_rows_profiles: "profiles (snd (reset_rows e v rs db)) = profiles db"
  by (induction rs arbitrary: db) (auto simp: fresh_id_def Let_def case_prod_beta)

lemma saveProfile_latest:
  assumes "saveProfile e m v p now db = (Inr i, db')"
    and "\<forall>r \<in> set (profiles db). p_derived_at r < now"
    and "pi_vin input = v" and "pi_period_start input = dp_period_start p" and "pi_period_end input = dp_period_end p"
  obtains row where "package_profile db' input = Some row" and "p_fsd_availability row = availability_text (dp_fsd_availability p)"
    and "p_fsd_note row = dp_fsd_note p" and "p_distance_km row = dp_distance_km p" and "p_fsd_km row = dp_fsd_km p"
    and "p_derivation_version row = DERIVATION_VERSION"
proof -
  from assms(1) obtain row where row: "profiles db' = profiles db @ [row]" "p_vin row = v"
      "p_period_start row = dp_period_start p" "p_period_end row = dp_period_end p" "p_derived_at row = now"
      "p_fsd_availability row = availability_text (dp_fsd_availability p)" "p_fsd_note row = dp_fsd_note p"
      "p_distance_km row = dp_distance_km p" "p_fsd_km row = dp_fsd_km p" "p_derivation_version row = DERIVATION_VERSION"
    by (auto simp: saveProfile_def fresh_id_def Let_def case_prod_beta reset_rows_profiles split: if_splits)
  have "package_profile db' input = Some row"
    using assms(2-5) row unfolding package_profile_def by (subst row(1)) (simp add: latest_by_snoc)
  then show thesis using row(6-10) by (rule that)
qed

section \<open>Properties\<close>

text \<open>C34: Never negative travel: with counters that are never negative, and a collation that orders
  the observed instants as text, no profile reports a negative distance, whatever resets and
  gaps the readings have.\<close>

theorem distance_never_negative:
  assumes "total_preorder_on UNIV le" and "collates_as_text le (fp_observed_at ` set fs)"
    and "\<forall>f \<in> set fs. 0 \<le> fp_value f" and "dp_distance_km (deriveProfile le a b fs) = Some d"
  shows "0 \<le> d"
proof (rule distance_figure_nonneg)
  let ?miles = "series_of (facts_in_window le a b fs) ''MilesSinceReset''"
  show "in_order ?miles"
    by (rule in_order_series [OF facts_in_window_in_order [OF assms(1,2)]])
  show "\<forall>p \<in> set ?miles. a \<le> fp_observed_at p \<and> 0 \<le> fp_value p"
    using assms(3) by (auto simp: series_of_def set_facts_in_window)
  show "collates_as_text le (fp_observed_at ` set ?miles)"
    by (rule collates_as_text_subset [OF assms(2)]) (auto simp: series_of_def set_facts_in_window)
  show "distance_figure le a b ?miles (series_of (facts_in_window le a b fs) ''Odometer'') = Some d"
    using assms(4) by (simp add: deriveProfile_def Let_def)
qed

text \<open>C35: The profile does not depend on the order in which the facts were read, if readings of one
  field at one instant agree: facts that are repeated any number of times, in any two orders,
  give the same profile.\<close>

theorem deriveProfile_order_independent:
  assumes "linear_on UNIV le" and "collates_as_text le (fp_observed_at ` set fs)"
    and "inj_on (\<lambda>f. (fp_field f, fp_observed_at f)) (set fs)" and "mset fs' = mset fs"
  shows "deriveProfile le a b fs' = deriveProfile le a b fs"
proof -
  let ?in = "\<lambda>f. a \<le> fp_observed_at f \<and> fp_observed_at f \<le> b"
  have pre: "total_preorder_on (set fs) (fact_order le)"
    using assms(1,2) by (intro fact_order_preorder) (simp add: linear_on_def)
  have "x = y" if "x \<in> set fs" "y \<in> set fs" "fact_order le x y" "fact_order le y x" for x y
  proof -
    have "fp_observed_at x = fp_observed_at y" "fp_field x = fp_field y"
      using that fact_order_text [OF assms(2), of x y] fact_order_text [OF assms(2), of y x] assms(1)
      by (auto simp: linear_on_def)
    with that(1,2) assms(3) show "x = y" by (simp add: inj_on_def)
  qed
  with pre have "linear_on (set fs) (fact_order le)" by (simp add: linear_on_def)
  then have "linear_on (set (filter ?in fs)) (fact_order le)" by (rule linear_on_subset) auto
  moreover have "mset (filter ?in fs) = mset (filter ?in fs')" using assms(4) by (simp add: mset_filter)
  ultimately have "facts_in_window le a b fs = facts_in_window le a b fs'"
    unfolding facts_in_window_def by (rule js_sort_permutation)
  then show ?thesis by (simp only: deriveProfile_def)
qed

text \<open>A share is reported exactly when it was measured, and then it is the share of a distance
  that is reported, positive, and free of resets: the three figures agree.\<close>

theorem measured_share_consistent:
  assumes "dp_fsd_percent (deriveProfile le a b fs) = Some share"
  shows "dp_fsd_availability (deriveProfile le a b fs) = FSD_measured \<and>
    dp_resets (deriveProfile le a b fs) = [] \<and>
    (\<exists>d. dp_distance_km (deriveProfile le a b fs) = Some d \<and> 0 < d \<and>
      dp_fsd_km (deriveProfile le a b fs) = Some (share * d))"
proof -
  let ?w = "facts_in_window le a b fs"
  let ?miles = "series_of ?w ''MilesSinceReset''" and ?fsd = "series_of ?w ''SelfDrivingMilesSinceReset''"
  have P: "ff_percent (fsd_figures le a b ?miles ?fsd) = Some share"
    using assms by (simp add: deriveProfile_def Let_def)
  then have "?fsd \<noteq> []" by (auto simp: fsd_figures_def)
  from P this obtain x y where xy: "windowOpen ?miles a = Some x" "valueAt ?miles b = Some y"
    unfolding fsd_figures_def by (cases "windowOpen ?miles a"; cases "valueAt ?miles b") simp_all
  from P \<open>?fsd \<noteq> []\<close> xy have R: "detectResets le ''MilesSinceReset'' ?miles = []"
      "detectResets le ''SelfDrivingMilesSinceReset'' ?fsd = []"
    by (simp_all add: fsd_figures_def split: if_splits)
  with P \<open>?fsd \<noteq> []\<close> xy have S: "ff_percent (fsd_share a b ?miles ?fsd (y - x)) = Some share"
      "fsd_figures le a b ?miles ?fsd = fsd_share a b ?miles ?fsd (y - x)"
    by (simp_all add: fsd_figures_def)
  then have F: "0 < y - x" "ff_availability (fsd_share a b ?miles ?fsd (y - x)) = FSD_measured"
      "ff_km (fsd_share a b ?miles ?fsd (y - x)) = Some (share * (y - x) * MILES_TO_KM)"
    by (auto simp: fsd_share_def Let_def split: if_splits)
  have two: "2 \<le> distinctInstants ?miles"
  proof (rule ccontr)
    assume "\<not> 2 \<le> distinctInstants ?miles"
    moreover have "?miles \<noteq> []" using xy(2) by (auto simp: valueAt_def)
    ultimately obtain p qs where "?miles = p # qs" "\<forall>q \<in> set qs. fp_observed_at q = fp_observed_at p"
      by (rule few_instants)
    with one_instant [of qs p] xy F(1) show False by (auto split: if_splits)
  qed
  have "distance_figure le a b ?miles (series_of ?w ''Odometer'') = Some ((y - x) * MILES_TO_KM)"
    using xy two R by (simp add: distance_figure_def)
  moreover have "0 < (y - x) * MILES_TO_KM" using F(1) by (simp add: MILES_TO_KM_def)
  ultimately show ?thesis
    using S F R by (simp add: deriveProfile_def Let_def js_sort_def mult.assoc)
qed

text \<open>Only the instants at which the two counters open are compared, not those at which they
  close: with a later last reading of the self-driving counter a share of any size is reported
  as measured.\<close>

theorem measured_share_unbounded:
  assumes "0 \<le> n"
  shows "dp_fsd_percent (deriveProfile (\<le>) ''t0'' ''t9'' (late_reading n)) = Some n"
  using assms by (simp add: deriveProfile_def late_reading_window Let_def late_reading_figures)

text \<open>A measured profile travels into the package without its reason: the package that is built
  after the profile was saved says that the share was measured and, in the next cell, that no
  profile was derived for the period.\<close>

theorem measured_profile_released_without_note:
  assumes "saveProfile e m v (deriveProfile le a b fs) now db = (Inr i, db')"
    and "dp_fsd_availability (deriveProfile le a b fs) = FSD_measured"
    and "\<forall>r \<in> set (profiles db). p_derived_at r < now"
    and "pi_vin input = v" and "pi_period_start input = a" and "pi_period_end input = b"
  shows "take 2 (drop 11 (package_row e' input member (package_profile db' input) eligibility)) =
    [Some ''measured'', Some ''no profile derived for this period'']"
proof -
  let ?p = "deriveProfile le a b fs"
  have period: "dp_period_start ?p = a" "dp_period_end ?p = b" by (simp_all add: deriveProfile_def Let_def)
  have "dp_fsd_note ?p = None"
    using assms(2) by (auto simp: deriveProfile_def fsd_figures_def fsd_share_def Let_def split: if_splits option.splits)
  moreover obtain row where "package_profile db' input = Some row"
      "p_fsd_availability row = availability_text (dp_fsd_availability ?p)" "p_fsd_note row = dp_fsd_note ?p"
    using saveProfile_latest [OF assms(1,3,4)] assms(5,6) period by metis
  ultimately show ?thesis
    using assms(2) by (simp add: package_row_def availability_text_def)
qed

section \<open>Concrete runs\<close>

lemma text_collation: "linear_on (UNIV :: string set) (\<le>)" "total_preorder_on (UNIV :: string set) (\<le>)" "collates_as_text (\<le>) A"
  by (auto simp: linear_on_def total_preorder_on_def collates_as_text_def)

lemma late_reading_distance: "dp_distance_km (deriveProfile (\<le>) ''t0'' ''t9'' (late_reading n)) = Some MILES_TO_KM"
proof -
  have "distance_figure (\<le>) ''t0'' ''t9'' (series_of (late_reading n) ''MilesSinceReset'')
      (series_of (late_reading n) ''Odometer'') = Some MILES_TO_KM"
    by (simp add: distance_figure_def late_reading_def late_reading_order series_of_def windowOpen_def
      windowOpenWithInstant_def valueAtPoint_def valueAt_def detectResets_def js_sort_def distinctInstants_def)
  then show ?thesis by (simp add: deriveProfile_def late_reading_window Let_def)
qed

lemma late_reading_share:
  assumes "0 \<le> n"
  shows "dp_fsd_percent (deriveProfile (\<le>) ''t0'' ''t9'' (late_reading n)) = Some n"
    and "dp_fsd_availability (deriveProfile (\<le>) ''t0'' ''t9'' (late_reading n)) = FSD_measured"
  using assms by (simp_all add: deriveProfile_def late_reading_window Let_def late_reading_figures)

theorem distance_never_negative_witness: "0 \<le> MILES_TO_KM"
  by (rule distance_never_negative [OF text_collation(2,3) _ late_reading_distance [of 5]]) (simp add: late_reading_def)

text \<open>The last counter is reported twice.\<close>

theorem deriveProfile_order_independent_witness:
  "deriveProfile (\<le>) ''t0'' ''t9'' (rev (late_reading 5) @ [late_reading 5 ! 3]) =
   deriveProfile (\<le>) ''t0'' ''t9'' (late_reading 5 @ [late_reading 5 ! 3])"
  by (rule deriveProfile_order_independent [OF text_collation(1,3)]) (simp_all add: late_reading_def)

text \<open>Repeats that differ make the profile depend on the order of the readings.\<close>

lemma differing_repeats_order_dependent:
  fixes x y :: rat
  defines "reading \<equiv> \<lambda>v. \<lparr>fp_field = ''Odometer'', fp_observed_at = ''t1'', fp_value = v\<rparr>"
  assumes "x \<noteq> y"
  shows "dp_odometer_km (deriveProfile (\<le>) ''t0'' ''t9'' [reading x, reading y]) \<noteq>
    dp_odometer_km (deriveProfile (\<le>) ''t0'' ''t9'' [reading y, reading x])"
proof -
  have "facts_in_window (\<le>) ''t0'' ''t9'' [reading a, reading b] = [reading a, reading b]" for a b
    by (simp add: facts_in_window_def reading_def late_reading_order js_sort_def fact_order_def)
  then show ?thesis
    using assms(2) by (simp add: deriveProfile_def Let_def series_of_def last_value_def reading_def MILES_TO_KM_def)
qed

theorem measured_share_consistent_witness:
  "dp_fsd_availability (deriveProfile (\<le>) ''t0'' ''t9'' (late_reading (1 / 2))) = FSD_measured \<and>
    dp_resets (deriveProfile (\<le>) ''t0'' ''t9'' (late_reading (1 / 2))) = [] \<and>
    (\<exists>d. dp_distance_km (deriveProfile (\<le>) ''t0'' ''t9'' (late_reading (1 / 2))) = Some d \<and> 0 < d \<and>
      dp_fsd_km (deriveProfile (\<le>) ''t0'' ''t9'' (late_reading (1 / 2))) = Some (1 / 2 * d))"
  by (rule measured_share_consistent) (simp add: late_reading_share)

theorem measured_share_unbounded_witness:
  "dp_fsd_percent (deriveProfile (\<le>) ''t0'' ''t9'' (late_reading 5)) = Some 5"
  by (rule measured_share_unbounded) simp

definition sample_derive_db :: derive_db where
  "sample_derive_db = release_db.extend sample_release_db \<lparr>counter_resets = []\<rparr>"

definition sample_package_input :: package_input where
  "sample_package_input = \<lparr>pi_member = ''M1'', pi_vin = ''V1'', pi_period_start = ''t0'', pi_period_end = ''t9'',
     pi_now = ''t9'', pi_requested_by = ''op'', pi_vehicle_config = Map.empty\<rparr>"

definition saved_derive_db :: derive_db where
  "saved_derive_db = snd (saveProfile sample_runtime ''M1'' ''V1'' (deriveProfile (\<le>) ''t0'' ''t9'' (late_reading (1 / 2)))
     ''t9'' sample_derive_db)"

lemma late_reading_no_resets: "dp_resets (deriveProfile (\<le>) ''t0'' ''t9'' (late_reading (1 / 2))) = []"
  unfolding deriveProfile_def late_reading_window Let_def
  by (simp add: late_reading_def series_of_def detectResets_def js_sort_def late_reading_order)

theorem measured_profile_released_without_note_witness:
  "take 2 (drop 11 (package_row sample_runtime sample_package_input sample_member
      (package_profile saved_derive_db sample_package_input) (releaseEligibility saved_derive_db ''M1''))) =
    [Some ''measured'', Some ''no profile derived for this period'']"
proof (rule measured_profile_released_without_note)
  let ?p = "deriveProfile (\<le>) ''t0'' ''t9'' (late_reading (1 / 2))"
  show "saveProfile sample_runtime ''M1'' ''V1'' ?p ''t9'' sample_derive_db =
      (Inr (fst (fresh_id sample_runtime sample_derive_db)), saved_derive_db)"
    by (simp add: saved_derive_db_def saveProfile_def late_reading_no_resets sample_derive_db_def release_db.extend_def
      sample_release_db_def sample_chain sample_member_def sample_vehicle_def vehicleExists_def
      fresh_id_def Let_def)
qed (simp_all add: late_reading_share sample_derive_db_def release_db.extend_def sample_release_simps sample_package_input_def)

end
