(* ===== verification/Onboarding.thy ===== *)
theory Onboarding
  imports Store
begin

text \<open>
  Collection of a member's mobile number and postcode, \<open>onboarding.ts\<close>, and the route
  \<open>POST /details\<close> of \<open>index.ts\<close> that calls it: the two normalisers, the gaps of a stored profile,
  the all-or-nothing save and the audit of a change.  A character class \<open>\d\<close> is the ASCII digits.
\<close>

section \<open>Normalisation\<close>

definition national_digits :: "string \<Rightarrow> string option" where
  "national_digits trimmed =
     (let hasPlus = starts_with trimmed ''+''; digits = filter is_digit trimmed
      in if hasPlus then (if \<not> starts_with digits ''61'' then None else Some (drop 2 digits))
         else if starts_with digits ''61'' \<and> length digits = 11 then Some (drop 2 digits)
         else Some digits)"

definition normaliseMobileAu :: "string \<Rightarrow> string option" where
  "normaliseMobileAu input =
     (let trimmed = trim input
      in if trimmed = [] then None
         else (case national_digits trimmed of
             None \<Rightarrow> None
           | Some national \<Rightarrow>
               (let local = (if starts_with national ''0'' then drop 1 national else national)
                in if length local \<noteq> 9 \<or> \<not> starts_with local ''4'' then None
                   else Some (''+61'' @ local))))"

definition normalisePostcodeAu :: "string \<Rightarrow> string option" where
  "normalisePostcodeAu input =
     (let trimmed = trim input
      in if \<not> (length trimmed = 4 \<and> list_all is_digit trimmed) then None
         else (let value = digits_value trimmed
               in if value < 200 \<or> 9999 < value then None else Some trimmed))"

section \<open>The stored details\<close>

datatype detail_gap = Gap_mobile | Gap_postcode

datatype details_error = Invalid_detail detail_gap string | Unknown_member string

record save_details_result =
  sd_mobile :: string
  sd_postcode :: string
  sd_changed :: bool

definition member_of :: "('a) store_db_scheme \<Rightarrow> member_id \<Rightarrow> member_row option" where
  "member_of db memberId = first_where (\<lambda>m. m_id m = memberId) (members db)"

text \<open>\<open>!text\<close>: \<open>null\<close> and the empty string are both missing.\<close>

definition blank :: "string option \<Rightarrow> bool" where
  "blank v = (case v of None \<Rightarrow> True | Some s \<Rightarrow> s = [])"

definition memberDetailGaps :: "('a) store_db_scheme \<Rightarrow> member_id \<Rightarrow> detail_gap list" where
  "memberDetailGaps db memberId =
     (case member_of db memberId of
        None \<Rightarrow> [Gap_mobile, Gap_postcode]
      | Some row \<Rightarrow>
          (if blank (m_mobile row) then [Gap_mobile] else []) @
          (if blank (m_postcode row) then [Gap_postcode] else []))"

definition set_details :: "member_id \<Rightarrow> string \<Rightarrow> string \<Rightarrow> iso \<Rightarrow> ('a) store_db_scheme \<Rightarrow> ('a) store_db_scheme" where
  "set_details memberId mobile postcode nowIso db =
     db\<lparr>members := update_where (\<lambda>m. m_id m = memberId)
       (\<lambda>m. m\<lparr>m_mobile := Some mobile, m_postcode := Some postcode, m_updated_at := nowIso\<rparr>) (members db)\<rparr>"

definition saveMemberDetails ::
  "member_id \<Rightarrow> string \<Rightarrow> string \<Rightarrow> iso \<Rightarrow> ('a) store_db_scheme \<Rightarrow>
   (details_error + save_details_result) \<times> ('a) store_db_scheme" where
  "saveMemberDetails memberId mobileIn postcodeIn nowIso db =
     (case normaliseMobileAu mobileIn of
        None \<Rightarrow> (Inl (Invalid_detail Gap_mobile mobileIn), db)
      | Some mobile \<Rightarrow>
          (case normalisePostcodeAu postcodeIn of
             None \<Rightarrow> (Inl (Invalid_detail Gap_postcode postcodeIn), db)
           | Some postcode \<Rightarrow>
               (case member_of db memberId of
                  None \<Rightarrow> (Inl (Unknown_member memberId), db)
                | Some current \<Rightarrow>
                    if m_mobile current \<noteq> Some mobile \<or> m_postcode current \<noteq> Some postcode
                    then (Inr \<lparr>sd_mobile = mobile, sd_postcode = postcode, sd_changed = True\<rparr>,
                          set_details memberId mobile postcode nowIso db)
                    else (Inr \<lparr>sd_mobile = mobile, sd_postcode = postcode, sd_changed = False\<rparr>, db))))"

section \<open>The route\<close>

text \<open>
  \<open>kv\<close> is the session store \<open>OAUTH_SESSIONS\<close>: the value under a session's key, absent once it has
  expired.  A form field that is not text reads as the empty string.
\<close>

datatype details_reply = To_connect | To_dashboard | Details_form detail_gap | Details_failed

definition form_text :: "string option \<Rightarrow> string" where
  "form_text v = (case v of None \<Rightarrow> [] | Some s \<Rightarrow> s)"

definition session_live :: "(string \<Rightarrow> string option) \<Rightarrow> string option \<Rightarrow> bool" where
  "session_live kv sessionId \<longleftrightarrow> \<not> blank sessionId \<and> \<not> blank (kv (''sess:'' @ the sessionId))"

definition session_member :: "string option \<Rightarrow> ('a) store_db_scheme \<Rightarrow> member_id option" where
  "session_member sessionId db = map_option s_member (first_where (\<lambda>s. Some (s_id s) = sessionId) (sessions db))"

definition signed_in :: "(string \<Rightarrow> string option) \<Rightarrow> string option \<Rightarrow> ('a) store_db_scheme \<Rightarrow> member_id option" where
  "signed_in kv sessionId db = (if session_live kv sessionId then session_member sessionId db else None)"

definition details_audit :: json where
  "details_audit = JObj [(''fields'', JArr [JStr ''mobile'', JStr ''postcode''])]"

definition postDetails ::
  "('e) runtime_scheme \<Rightarrow> (string \<Rightarrow> string option) \<Rightarrow> string option \<Rightarrow> string option \<Rightarrow> string option \<Rightarrow>
   ('a) store_db_scheme \<Rightarrow> details_reply \<times> ('a) store_db_scheme" where
  "postDetails e kv sessionId mobile postcode db =
     (case signed_in kv sessionId db of
        None \<Rightarrow> (To_connect, db)
      | Some memberId \<Rightarrow>
          (let (nowIso, db1) = now_iso e db;
               (result, db2) = saveMemberDetails memberId (form_text mobile) (form_text postcode) nowIso db1
           in case result of
                Inl (Invalid_detail gap _) \<Rightarrow> (Details_form gap, db2)
              | Inl (Unknown_member _) \<Rightarrow> (Details_failed, db2)
              | Inr saved \<Rightarrow>
                  (To_dashboard,
                   if sd_changed saved
                   then audit e ''member_details_updated'' (Some memberId) (Some ''member'')
                          (Some ''tesla_member'') (Some memberId) (Some details_audit) nowIso db2
                   else db2)))"

section \<open>Lemmas\<close>

lemma filter_digits_trim: "filter is_digit (trim s) = filter is_digit s"
proof -
  have space: "\<And>c. is_space c \<Longrightarrow> \<not> is_digit c" by (auto simp: is_space_def is_digit_def Let_def)
  have cut: "filter is_digit (dropWhile is_space t) = filter is_digit t" for t
    by (induction t) (auto simp: space)
  have "filter is_digit (trim s) = rev (filter is_digit (dropWhile is_space (rev (dropWhile is_space s))))"
    by (simp add: trim_def rev_filter)
  also have "\<dots> = rev (filter is_digit (rev (dropWhile is_space s)))" by (simp only: cut)
  also have "\<dots> = filter is_digit s" by (simp add: rev_filter [symmetric] cut)
  finally show ?thesis .
qed

lemma starts_with_iff: "starts_with s p \<longleftrightarrow> (\<exists>t. s = p @ t)"
  unfolding starts_with_def by (metis append_eq_conv_conj append_take_drop_id)

lemma dropWhile_digits: "list_all is_digit s \<Longrightarrow> dropWhile is_space s = s"
  by (cases s) (auto simp: is_space_def is_digit_def Let_def)

lemma trim_digits: "list_all is_digit s \<Longrightarrow> trim s = s"
  by (simp add: trim_def dropWhile_digits list_all_iff)

lemma trim_plus_digits: "list_all is_digit s \<Longrightarrow> s \<noteq> [] \<Longrightarrow> trim (CHR ''+'' # s) = CHR ''+'' # s"
proof -
  assume a: "list_all is_digit s" "s \<noteq> []"
  have plus: "\<not> is_space (CHR ''+'')" by (simp add: is_space_def)
  have "\<not> is_space (last s)" using a by (auto simp: list_all_iff is_space_def is_digit_def Let_def dest!: bspec [of _ _ "last s"])
  then have "dropWhile is_space (rev s @ [CHR ''+'']) = rev s @ [CHR ''+'']"
    using a by (cases "rev s") (auto simp: rev_swap)
  then show ?thesis by (simp add: trim_def plus)
qed

text \<open>The ways to write the number whose nine national digits are \<open>l\<close>.\<close>

definition spellings :: "bool \<Rightarrow> string \<Rightarrow> string list" where
  "spellings intl l =
     (if intl then [''61'' @ l, ''610'' @ l] else [l, ''0'' @ l, ''61'' @ l])"

lemma starts_with_Cons [simp]: "starts_with s (c # p) \<longleftrightarrow> (case s of [] \<Rightarrow> False | x # xs \<Rightarrow> x = c \<and> starts_with xs p)"
  by (cases s) (simp_all add: starts_with_def)

lemma starts_with_Nil [simp]: "starts_with s []"
  by (simp add: starts_with_def)

lemma trunk_zero_dropped:
  assumes "starts_with l ''4''"
  shows "(if starts_with n ''0'' then drop 1 n else n) = l \<longleftrightarrow> n = l \<or> n = ''0'' @ l"
  using assms by (cases n; cases l) auto

lemma drop_prefix: "starts_with d p \<Longrightarrow> drop (length p) d = x \<longleftrightarrow> d = p @ x"
  by (auto simp: starts_with_iff)

lemma national_digits_iff:
  assumes l: "length l = 9" "starts_with l ''4''"
  shows "(\<exists>n. national_digits t = Some n \<and> (if starts_with n ''0'' then drop 1 n else n) = l)
     \<longleftrightarrow> filter is_digit t \<in> set (spellings (starts_with t ''+'') l)"
proof -
  let ?d = "filter is_digit t"
  note zero = trunk_zero_dropped [OF l(2)]
  have prefix: "starts_with ?d ''61'' \<Longrightarrow> drop 2 ?d = x \<longleftrightarrow> ?d = ''61'' @ x" for x
    using drop_prefix [of ?d "''61''" x] by (simp add: numeral_2_eq_2)
  have lead: "\<not> starts_with l ''61''" "\<not> starts_with (''0'' @ l) ''61''" using l by (cases l; simp)+
  have both: "starts_with (''61'' @ x) ''61''" for x by (simp add: starts_with_def)
  show ?thesis
  proof (cases "starts_with t ''+''")
    case True
    then show ?thesis unfolding national_digits_def Let_def spellings_def
      using prefix [of l] prefix [of "''0'' @ l"] both [of l] both [of "''0'' @ l"]
      by (simp only: zero if_True) auto
  next
    case False
    show ?thesis
    proof (cases "starts_with ?d ''61'' \<and> length ?d = 11")
      case True
      with False show ?thesis unfolding national_digits_def Let_def spellings_def zero
        using prefix [of l] prefix [of "''0'' @ l"] lead l by auto
    next
      case other: False
      have "?d \<noteq> ''61'' @ l" using other both [of l] l by auto
      with False other show ?thesis unfolding national_digits_def Let_def spellings_def zero
        by auto
    qed
  qed
qed

lemma normaliseMobileAu_iff:
  "normaliseMobileAu s = Some m \<longleftrightarrow>
     take 3 m = ''+61'' \<and> length m = 12 \<and> starts_with (drop 3 m) ''4'' \<and>
     filter is_digit s \<in> set (spellings (starts_with (trim s) ''+'') (drop 3 m))"
proof (cases "length (drop 3 m) = 9 \<and> starts_with (drop 3 m) ''4''")
  case True
  define l where "l = drop 3 m"
  have l: "length l = 9" "starts_with l ''4''" using True by (simp_all add: l_def)
  have m: "take 3 m = ''+61'' \<longleftrightarrow> m = ''+61'' @ l" unfolding l_def
    by (metis append_take_drop_id append_eq_conv_conj length_Cons list.size(3) numeral_3_eq_3)
  have "trim s = [] \<Longrightarrow> filter is_digit s = []"
    using filter_digits_trim [of s] by simp
  then have empty: "trim s = [] \<Longrightarrow> filter is_digit s \<notin> set (spellings i l)" for i
    using l by (auto simp: spellings_def)
  have pick: "(if length x \<noteq> 9 \<or> \<not> starts_with x ''4'' then None else Some (''+61'' @ x)) = Some m
      \<longleftrightarrow> m = ''+61'' @ l \<and> x = l" for x
    using l unfolding l_def by (cases "length x \<noteq> 9 \<or> \<not> starts_with x ''4''") auto
  have "normaliseMobileAu s = Some m \<longleftrightarrow> trim s \<noteq> [] \<and> m = ''+61'' @ l \<and>
      (\<exists>n. national_digits (trim s) = Some n \<and> (if starts_with n ''0'' then drop 1 n else n) = l)"
    unfolding normaliseMobileAu_def Let_def
    by (cases "trim s = []"; cases "national_digits (trim s)") (simp_all only: pick option.case if_True if_False; simp)+
  also have "\<dots> \<longleftrightarrow> m = ''+61'' @ l \<and> filter is_digit s \<in> set (spellings (starts_with (trim s) ''+'') l)"
    unfolding national_digits_iff [OF l] filter_digits_trim using empty by blast
  finally show ?thesis using l m by (auto simp: l_def)
next
  case False
  then show ?thesis unfolding normaliseMobileAu_def Let_def
    by (auto split: option.splits simp del: starts_with_Cons)
qed


lemma set_details_other [frame_simps]:
  "k \<noteq> memberId \<Longrightarrow> member_of (set_details memberId mobile postcode nowIso db) k = member_of db k"
  unfolding member_of_def set_details_def by (simp add: find_update_where_other)

lemma member_of_set_details:
  "member_of (set_details memberId mobile postcode nowIso db) memberId =
     map_option (\<lambda>m. m\<lparr>m_mobile := Some mobile, m_postcode := Some postcode, m_updated_at := nowIso\<rparr>)
       (member_of db memberId)"
  unfolding member_of_def set_details_def by (simp add: find_update_where_same)

text \<open>What a save that did not fail leaves behind: both details in canonical form.\<close>

lemma saved_details:
  assumes "saveMemberDetails k mobileIn postcodeIn nowIso db = (Inr r, db')"
  shows "normaliseMobileAu mobileIn = Some (sd_mobile r)" "normalisePostcodeAu postcodeIn = Some (sd_postcode r)"
    "\<exists>m. member_of db' k = Some m \<and> m_mobile m = Some (sd_mobile r) \<and> m_postcode m = Some (sd_postcode r)"
    "sd_changed r \<longleftrightarrow> members db' \<noteq> members db \<or> map_option m_mobile (member_of db k) \<noteq> Some (Some (sd_mobile r)) \<or>
       map_option m_postcode (member_of db k) \<noteq> Some (Some (sd_postcode r))"
  using assms unfolding saveMemberDetails_def
  by (auto simp: member_of_set_details split: option.splits if_splits)

lemma set_details_changes:
  assumes "member_of db k = Some m" "m_mobile m \<noteq> Some mobile \<or> m_postcode m \<noteq> Some postcode"
  shows "members (set_details k mobile postcode nowIso db) \<noteq> members db"
proof
  assume "members (set_details k mobile postcode nowIso db) = members db"
  then have "member_of (set_details k mobile postcode nowIso db) k = member_of db k"
    by (simp add: member_of_def)
  with assms show False by (auto simp: member_of_set_details dest: arg_cong [of _ _ m_mobile] arg_cong [of _ _ m_postcode])
qed

lemma audits_set_details [simp]: "audits (set_details k mobile postcode nowIso db) = audits db"
  by (simp add: set_details_def)

lemma save_tables:
  assumes "saveMemberDetails k mobileIn postcodeIn nowIso db = (result, db')"
  shows "audits db' = audits db"
    "members db' \<noteq> members db \<longleftrightarrow> (\<exists>r. result = Inr r \<and> sd_changed r)"
proof -
  have "audits db' = audits db \<and> (members db' \<noteq> members db \<longleftrightarrow> (\<exists>r. result = Inr r \<and> sd_changed r))"
  proof (cases "\<exists>m p c. normaliseMobileAu mobileIn = Some m \<and> normalisePostcodeAu postcodeIn = Some p \<and>
      member_of db k = Some c \<and> (m_mobile c \<noteq> Some m \<or> m_postcode c \<noteq> Some p)")
    case True
    then obtain m p c where c: "normaliseMobileAu mobileIn = Some m" "normalisePostcodeAu postcodeIn = Some p"
      "member_of db k = Some c" "m_mobile c \<noteq> Some m \<or> m_postcode c \<noteq> Some p" by blast
    then have "db' = set_details k m p nowIso db" "\<exists>r. result = Inr r \<and> sd_changed r"
      using assms unfolding saveMemberDetails_def c(1-3) option.case if_P [OF c(4)] by auto
    then show ?thesis using set_details_changes [OF c(3,4)] by simp
  next
    case False
    have "db' = db \<and> (\<nexists>r. result = Inr r \<and> sd_changed r)"
    proof (cases "normaliseMobileAu mobileIn")
      case None
      with assms show ?thesis by (auto simp: saveMemberDetails_def)
    next
      case m: (Some m)
      show ?thesis
      proof (cases "normalisePostcodeAu postcodeIn")
        case None
        with assms m show ?thesis by (auto simp: saveMemberDetails_def)
      next
        case p: (Some p)
        show ?thesis
        proof (cases "member_of db k")
          case None
          with assms m p show ?thesis by (auto simp: saveMemberDetails_def)
        next
          case c: (Some c)
          with False m p have "\<not> (m_mobile c \<noteq> Some m \<or> m_postcode c \<noteq> Some p)" by blast
          from assms [unfolded saveMemberDetails_def m p c option.case if_not_P [OF this]]
          show ?thesis by auto
        qed
      qed
    qed
    then show ?thesis by simp
  qed
  then show "audits db' = audits db" "members db' \<noteq> members db \<longleftrightarrow> (\<exists>r. result = Inr r \<and> sd_changed r)"
    by blast+
qed

lemma canonical_mobile_idem:
  assumes "normaliseMobileAu s = Some m"
  shows "normaliseMobileAu m = Some m"
proof -
  define l where "l = drop 3 m"
  from assms [unfolded normaliseMobileAu_iff] have h: "take 3 m = ''+61''" "length m = 12"
    and l: "length l = 9" "starts_with l ''4''"
    and d: "filter is_digit s \<in> set (spellings (starts_with (trim s) ''+'') l)"
    by (auto simp: l_def)
  have m: "m = ''+61'' @ l" using append_take_drop_id [of 3 m] h by (simp add: l_def)
  obtain p where "filter is_digit s = p @ l" using d by (auto simp: spellings_def split: if_splits)
  then have "set l \<subseteq> set (filter is_digit s)" by simp
  then have digits: "list_all is_digit l" by (auto simp: list_all_iff)
  have "trim m = m" unfolding m using digits trim_plus_digits [of "''61'' @ l"] by (simp add: is_digit_def)
  moreover have "filter is_digit m = ''61'' @ l" unfolding m using digits by (simp add: is_digit_def list_all_iff)
  ultimately show ?thesis unfolding normaliseMobileAu_iff using l by (simp add: m spellings_def starts_with_Cons)
qed

section \<open>Properties\<close>

text \<open>A mobile number is accepted exactly when its digits are one of the five spellings of nine national
  digits that start with 4, the international ones with the country code, and every spelling gives the
  same canonical form.\<close>

theorem mobile_recognised:
  "normaliseMobileAu s = Some m \<longleftrightarrow>
     take 3 m = ''+61'' \<and> length m = 12 \<and> starts_with (drop 3 m) ''4'' \<and>
     filter is_digit s \<in> set (spellings (starts_with (trim s) ''+'') (drop 3 m))"
  by (rule normaliseMobileAu_iff)

text \<open>A save that did not fail leaves no gap, and submitting the same or the stored form again changes
  nothing.\<close>

theorem details_saved_once:
  assumes "saveMemberDetails k mobile postcode now db = (Inr r, db')"
  shows "memberDetailGaps db' k = [] \<and>
         saveMemberDetails k mobile postcode later db' = (Inr (r\<lparr>sd_changed := False\<rparr>), db') \<and>
         saveMemberDetails k (sd_mobile r) (sd_postcode r) later db' = (Inr (r\<lparr>sd_changed := False\<rparr>), db')"
proof -
  note s = saved_details [OF assms]
  have p: "normalisePostcodeAu (sd_postcode r) = Some (sd_postcode r)" "sd_postcode r \<noteq> []"
    using s(2) unfolding normalisePostcodeAu_def Let_def by (auto simp: trim_digits split: if_splits)
  have m: "normaliseMobileAu (sd_mobile r) = Some (sd_mobile r)" "sd_mobile r \<noteq> []"
    using canonical_mobile_idem [OF s(1)] s(1) by (auto simp: normaliseMobileAu_iff)
  show ?thesis using s(1,2,3) p m
    by (auto simp: memberDetailGaps_def blank_def saveMemberDetails_def)
qed

theorem details_saved_once_witness:
  "memberDetailGaps (snd (saveMemberDetails ''M1'' ''(04) 1234 5678'' '' 0800 '' ''t1'' sample_store)) ''M1'' = [] \<and>
   memberDetailGaps sample_store ''M1'' = [Gap_mobile, Gap_postcode]"
proof -
  have "saveMemberDetails ''M1'' ''(04) 1234 5678'' '' 0800 '' ''t1'' sample_store =
     (Inr \<lparr>sd_mobile = ''+61412345678'', sd_postcode = ''0800'', sd_changed = True\<rparr>,
      snd (saveMemberDetails ''M1'' ''(04) 1234 5678'' '' 0800 '' ''t1'' sample_store))"
    by code_simp
  from details_saved_once [OF this] show ?thesis by (auto simp: memberDetailGaps_def member_of_def sample_store_def sample_member_def blank_def)
qed

text \<open>The details change only through a submission that is accepted, and each change appends one audit row
  that names the fields and not their values.\<close>

theorem details_change_audited:
  "case postDetails e kv sessionId mobile postcode db of (reply, db') \<Rightarrow>
     (reply = To_dashboard \<or> members db' = members db) \<and>
     map a_detail (audits db') =
       map a_detail (audits db) @ (if members db' = members db then [] else [Some details_audit])"
proof (cases "signed_in kv sessionId db")
  case None
  then show ?thesis by (simp add: postDetails_def)
next
  case (Some k)
  obtain now db1 where n: "now_iso e db = (now, db1)" by force
  obtain result db2 where sv: "saveMemberDetails k (form_text mobile) (form_text postcode) now db1 = (result, db2)" by force
  have db1: "members db1 = members db" "audits db1 = audits db" using n by (auto simp: now_iso_def)
  show ?thesis unfolding postDetails_def Some n sv Let_def option.case case_prod_conv
    using save_tables [OF sv] db1
    by (cases result) (auto simp: audit_def fresh_id_def Let_def split: details_error.splits)
qed

end
