(* ===== verification/Timezone.thy ===== *)
theory Timezone
  imports Onboarding JsDate
begin

text \<open>
  The state of a postcode and the rendering of an instant in UTC and in the state's zone,
  \<open>timezone.ts\<close>.  A postcode is the text the column \<open>tesla_member.postcode\<close> holds.  The reading of
  a text as a \<open>Date\<close>, whose result for text outside the ISO format is up to the engine, and the
  zone database behind \<open>Intl.DateTimeFormat\<close> are parameters.
\<close>

section \<open>States and zones\<close>

datatype au_state = ACT | NSW | NT | QLD | SA | TAS | VIC | WA

definition state_of_number :: "nat \<Rightarrow> au_state option" where
  "state_of_number pc =
     (if (200 \<le> pc \<and> pc \<le> 299) \<or> (2600 \<le> pc \<and> pc \<le> 2618) \<or> (2620 \<le> pc \<and> pc \<le> 2639) \<or>
         (2900 \<le> pc \<and> pc \<le> 2920) then Some ACT
      else if (800 \<le> pc \<and> pc \<le> 899) \<or> (900 \<le> pc \<and> pc \<le> 999) then Some NT
      else if 7000 \<le> pc \<and> pc \<le> 7999 then Some TAS
      else if 1000 \<le> pc \<and> pc \<le> 2599 then Some NSW
      else if 2619 \<le> pc \<and> pc \<le> 2619 then Some NSW
      else if 2640 \<le> pc \<and> pc \<le> 2899 then Some NSW
      else if 2921 \<le> pc \<and> pc \<le> 2999 then Some NSW
      else if 3000 \<le> pc \<and> pc \<le> 3999 then Some VIC
      else if 4000 \<le> pc \<and> pc \<le> 4999 then Some QLD
      else if 5000 \<le> pc \<and> pc \<le> 5999 then Some SA
      else if 6000 \<le> pc \<and> pc \<le> 6999 then Some WA
      else if 8000 \<le> pc \<and> pc \<le> 8999 then Some VIC
      else if 9000 \<le> pc \<and> pc \<le> 9999 then Some QLD
      else None)"

definition stateFromPostcode :: "string option \<Rightarrow> au_state option" where
  "stateFromPostcode postcode =
     (case postcode of
        None \<Rightarrow> None
      | Some text \<Rightarrow>
          (let raw = trim text
           in if raw = [] \<or> \<not> list_all is_digit raw then None
              else (let pc = digits_value raw in if 9999 < pc then None else state_of_number pc)))"

fun STATE_TIME_ZONE :: "au_state \<Rightarrow> string" where
  "STATE_TIME_ZONE ACT = ''Australia/Sydney''"
| "STATE_TIME_ZONE NSW = ''Australia/Sydney''"
| "STATE_TIME_ZONE VIC = ''Australia/Melbourne''"
| "STATE_TIME_ZONE QLD = ''Australia/Brisbane''"
| "STATE_TIME_ZONE SA = ''Australia/Adelaide''"
| "STATE_TIME_ZONE WA = ''Australia/Perth''"
| "STATE_TIME_ZONE TAS = ''Australia/Hobart''"
| "STATE_TIME_ZONE NT = ''Australia/Darwin''"

definition timeZoneForState :: "au_state option \<Rightarrow> string option" where
  "timeZoneForState state = map_option STATE_TIME_ZONE state"

definition timeZoneForPostcode :: "string option \<Rightarrow> string option" where
  "timeZoneForPostcode postcode = timeZoneForState (stateFromPostcode postcode)"

section \<open>Rendering\<close>

text \<open>
  \<open>in_date\<close> is \<open>new Date(text).getTime()\<close>, \<open>None\<close> where that is \<open>NaN\<close>; \<open>in_parts\<close> is
  \<open>formatToParts\<close> in a zone, \<open>None\<close> where the zone is not known and the formatter throws.
\<close>

record intl =
  in_date :: "string \<Rightarrow> int option"
  in_parts :: "string \<Rightarrow> int \<Rightarrow> (string \<times> string) list option"

definition EM_DASH :: string where
  "EM_DASH = [CHR 0xE2, CHR 0x80, CHR 0x94]"

definition part :: "(string \<times> string) list \<Rightarrow> string \<Rightarrow> string" where
  "part parts type = (case first_where (\<lambda>p. fst p = type) parts of None \<Rightarrow> [] | Some p \<Rightarrow> snd p)"

definition utc_text :: "iso \<Rightarrow> string" where
  "utc_text stamp = take 10 stamp @ '' '' @ take 8 (drop 11 stamp)"

definition local_text :: "(string \<times> string) list \<Rightarrow> string" where
  "local_text parts =
     part parts ''year'' @ ''-'' @ part parts ''month'' @ ''-'' @ part parts ''day'' @ '' '' @
     part parts ''hour'' @ '':'' @ part parts ''minute'' @ '':'' @ part parts ''second''"

definition zone_suffix :: "(string \<times> string) list \<Rightarrow> string" where
  "zone_suffix parts =
     (let zoneName = part parts ''timeZoneName'' in if zoneName = [] then [] else '' '' @ zoneName)"

definition formatDualTime :: "intl \<Rightarrow> iso option \<Rightarrow> string option \<Rightarrow> string" where
  "formatDualTime i stamp timeZone =
     (if blank stamp then EM_DASH
      else (case in_date i (the stamp) of
          None \<Rightarrow> the stamp
        | Some date \<Rightarrow>
            (let utc = utc_text (the stamp)
             in if blank timeZone then utc @ '' UTC''
                else (case in_parts i (the timeZone) date of
                    Some parts \<Rightarrow> utc @ '' UTC ('' @ local_text parts @ zone_suffix parts @ '')''
                  | None \<Rightarrow> utc @ '' UTC''))))"

definition formatTimeColumns :: "intl \<Rightarrow> iso option \<Rightarrow> string option \<Rightarrow> string \<times> string" where
  "formatTimeColumns i stamp timeZone =
     (if blank stamp then (EM_DASH, EM_DASH)
      else (case in_date i (the stamp) of
          None \<Rightarrow> (the stamp, EM_DASH)
        | Some date \<Rightarrow>
            (let utc = utc_text (the stamp)
             in if blank timeZone then (utc, EM_DASH)
                else (case in_parts i (the timeZone) date of
                    Some parts \<Rightarrow> (utc, local_text parts @ zone_suffix parts)
                  | None \<Rightarrow> (utc, EM_DASH)))))"

section \<open>Lemmas\<close>

lemma state_gap:
  assumes "200 \<le> pc" "pc \<le> 9999"
  shows "state_of_number pc = None \<longleftrightarrow> 300 \<le> pc \<and> pc \<le> 799"
proof
  assume "300 \<le> pc \<and> pc \<le> 799"
  then show "state_of_number pc = None" by (simp add: state_of_number_def)
next
  assume none: "state_of_number pc = None"
  define out where "out a b \<longleftrightarrow> \<not> (a \<le> pc \<and> pc \<le> b)" for a b
  have n: "out 200 299" "out 2600 2618" "out 2620 2639" "out 2900 2920" "out 800 899" "out 900 999"
    "out 7000 7999" "out 1000 2599" "out 2619 2619" "out 2640 2899" "out 2921 2999" "out 3000 3999"
    "out 4000 4999" "out 5000 5999" "out 6000 6999" "out 8000 8999" "out 9000 9999"
    using none unfolding state_of_number_def out_def [symmetric] by (auto simp: out_def split: if_splits simp del: not_le)
  have step: "a \<le> pc \<Longrightarrow> out a b \<Longrightarrow> c = Suc b \<Longrightarrow> c \<le> pc" for a b c
    unfolding out_def by simp
  have "300 \<le> pc" using step [OF assms(1) n(1)] by simp
  moreover have "\<not> 800 \<le> pc"
  proof
    assume "800 \<le> pc"
    then have "900 \<le> pc" by (rule step [OF _ n(5)]) simp
    then have "1000 \<le> pc" by (rule step [OF _ n(6)]) simp
    then have "2600 \<le> pc" by (rule step [OF _ n(8)]) simp
    then have "2619 \<le> pc" by (rule step [OF _ n(2)]) simp
    then have "2620 \<le> pc" by (rule step [OF _ n(9)]) simp
    then have "2640 \<le> pc" by (rule step [OF _ n(3)]) simp
    then have "2900 \<le> pc" by (rule step [OF _ n(10)]) simp
    then have "2921 \<le> pc" by (rule step [OF _ n(4)]) simp
    then have "3000 \<le> pc" by (rule step [OF _ n(11)]) simp
    then have "4000 \<le> pc" by (rule step [OF _ n(12)]) simp
    then have "5000 \<le> pc" by (rule step [OF _ n(13)]) simp
    then have "6000 \<le> pc" by (rule step [OF _ n(14)]) simp
    then have "7000 \<le> pc" by (rule step [OF _ n(15)]) simp
    then have "8000 \<le> pc" by (rule step [OF _ n(7)]) simp
    then have "9000 \<le> pc" by (rule step [OF _ n(16)]) simp
    then have "10000 \<le> pc" by (rule step [OF _ n(17)]) simp
    with assms(2) show False by simp
  qed
  ultimately show "300 \<le> pc \<and> pc \<le> 799" by simp
qed

lemma local_text_no_dash: "local_text parts @ z \<noteq> EM_DASH"
proof -
  have "CHR ''-'' \<in> set (local_text parts)" "CHR ''-'' \<notin> set EM_DASH"
    by (simp_all add: local_text_def EM_DASH_def)
  then show ?thesis by (metis Un_iff set_append)
qed

lemma postcode_kept:
  assumes "normalisePostcodeAu s = Some p"
  shows "length p = 4" "list_all is_digit p" "200 \<le> digits_value p" "digits_value p \<le> 9999" "trim p = p"
  using assms unfolding normalisePostcodeAu_def Let_def by (auto simp: trim_digits split: if_splits)

section \<open>Properties\<close>

text \<open>Of the postcodes that are accepted exactly those from 0300 to 0799 have no zone.\<close>

theorem accepted_postcode_state:
  assumes "normalisePostcodeAu s = Some p"
  shows "timeZoneForPostcode (Some p) = None \<longleftrightarrow> 300 \<le> digits_value p \<and> digits_value p \<le> 799"
  using postcode_kept [OF assms]
  by (auto simp: timeZoneForPostcode_def timeZoneForState_def stateFromPostcode_def Let_def state_gap)

theorem accepted_postcode_state_witness:
  "normalisePostcodeAu ''0350'' = Some ''0350'' \<and> timeZoneForPostcode (Some ''0350'') = None \<and>
   timeZoneForPostcode (Some ''0800'') = Some ''Australia/Darwin''"
proof -
  have p: "normalisePostcodeAu ''0350'' = Some ''0350''" by code_simp
  have q: "normalisePostcodeAu ''0800'' = Some ''0800''" by code_simp
  have "timeZoneForPostcode (Some ''0800'') = Some ''Australia/Darwin''" by code_simp
  with p accepted_postcode_state [OF p] accepted_postcode_state [OF q] show ?thesis
    by (simp add: digits_value_def digit_value_def)
qed

text \<open>The one-line rendering is the two columns put together, the local one only where there is one.\<close>

theorem dual_time_agrees_with_columns:
  assumes "stamp \<noteq> []" "in_date i stamp = Some ms"
  shows "formatDualTime i (Some stamp) zone =
     (case formatTimeColumns i (Some stamp) zone of
        (utc, local) \<Rightarrow> utc @ '' UTC'' @ (if local = EM_DASH then [] else '' ('' @ local @ '')''))"
  using assms local_text_no_dash
  by (auto simp: formatDualTime_def formatTimeColumns_def Let_def blank_def split: option.splits)

text \<open>The UTC column of an instant is its civil date and time to the second.\<close>

theorem utc_of_instant:
  assumes "four_digit_year t" "in_date i (iso_of_ms t) = Some t"
  shows "fst (formatTimeColumns i (Some (iso_of_ms t)) zone) =
     year_text (utc_year t) @ ''-'' @ pad 2 (nat (utc_month t + 1)) @ ''-'' @ pad 2 (nat (utc_date t)) @ '' '' @
     take 8 (clock_text (t mod MS_DAY))"
proof -
  have y: "length (year_text (utc_year t)) = 4" using assms(1) by (simp add: four_digit_year_def year_text_def)
  have "iso_of_ms t \<noteq> []" by (simp add: iso_of_ms_def)
  then have "fst (formatTimeColumns i (Some (iso_of_ms t)) zone) = utc_text (iso_of_ms t)"
    using assms(2) by (auto simp: formatTimeColumns_def Let_def blank_def split: option.split)
  also have "\<dots> = year_text (utc_year t) @ ''-'' @ pad 2 (nat (utc_month t + 1)) @ ''-'' @ pad 2 (nat (utc_date t)) @
      '' '' @ take 8 (clock_text (t mod MS_DAY))"
    using y by (simp add: utc_text_def iso_of_ms_def clock_text_def)
  finally show ?thesis .
qed

end
