(* ===== verification/Billing.thy ===== *)
theory Billing
  imports Telemetry JsDate Timezone
begin

text \<open>
  The billing-limit guard, \<open>billing.ts\<close>, and the readiness check \<open>GET /healthz\<close> of \<open>index.ts\<close>
  that surfaces it: the projection of a month's usage, the margin and the alerts, the record of a
  guard run, and the problems the check reports.  Numbers are exact rationals; a number's text
  and \<open>toFixed\<close> are parameters.
\<close>

section \<open>The guard\<close>

definition MIN_MARGIN_RATIO :: rat where "MIN_MARGIN_RATIO = 10"
definition ALERT_WARN_FRACTION :: rat where "ALERT_WARN_FRACTION = 4 / 5"
definition ALERT_BREACH_FRACTION :: rat where "ALERT_BREACH_FRACTION = 1"

record billing_evaluation =
  be_configured :: bool
  be_usage :: rat
  be_projected :: rat
  be_limit :: "rat option"
  be_ratio :: "rat option"
  be_margin_ok :: bool
  be_consumed :: "rat option"
  be_warn :: bool
  be_breach :: bool

definition projectMonth :: "rat \<Rightarrow> int \<Rightarrow> int \<Rightarrow> rat" where
  "projectMonth signalsMtd daysElapsed daysInMonth =
     (if daysElapsed \<le> 0 then 0
      else (let perDay = signalsMtd / of_int daysElapsed in perDay * of_int daysInMonth))"

text \<open>
  The window of an instant in the form \<open>toISOString\<close> writes: the numbers are read at their places.
  \<open>Date.UTC\<close> of such a month is always a date.
\<close>

definition monthWindow :: "iso \<Rightarrow> string \<times> int \<times> int" where
  "monthWindow nowIso =
     (let year = num_at nowIso 0 4; month = num_at nowIso 5 2; day = num_at nowIso 8 2;
          daysInMonth = (case date_UTC year month 0 0 0 0 0 of None \<Rightarrow> 0 | Some t \<Rightarrow> utc_date t)
      in (take 7 nowIso, day, daysInMonth))"

definition round6 :: "rat \<Rightarrow> rat" where
  "round6 n = of_int \<lfloor>n * 1000000 + 1 / 2\<rfloor> / 1000000"

definition evaluateBillingGuard :: "nat \<Rightarrow> int \<Rightarrow> int \<Rightarrow> rat option \<Rightarrow> billing_evaluation" where
  "evaluateBillingGuard signalsMtd daysElapsed daysInMonth limitUsd =
     (let usageUsd = of_nat signalsMtd / of_nat SIGNALS_PER_DOLLAR;
          projectedSignals = projectMonth (of_nat signalsMtd) daysElapsed daysInMonth;
          projectedMonthUsd = projectedSignals / of_nat SIGNALS_PER_DOLLAR;
          configured = (case limitUsd of None \<Rightarrow> False | Some l \<Rightarrow> 0 < l);
          marginRatio = (if configured \<and> 0 < projectedMonthUsd
                         then Some (round6 (the limitUsd / projectedMonthUsd)) else None);
          consumedFraction = (if configured then Some (round6 (usageUsd / the limitUsd)) else None)
      in \<lparr>be_configured = configured, be_usage = round6 usageUsd, be_projected = round6 projectedMonthUsd,
          be_limit = limitUsd, be_ratio = marginRatio,
          be_margin_ok = (case marginRatio of None \<Rightarrow> False | Some r \<Rightarrow> MIN_MARGIN_RATIO \<le> r),
          be_consumed = consumedFraction,
          be_warn = (case consumedFraction of None \<Rightarrow> False | Some f \<Rightarrow> ALERT_WARN_FRACTION \<le> f),
          be_breach = (case consumedFraction of None \<Rightarrow> False | Some f \<Rightarrow> ALERT_BREACH_FRACTION \<le> f)\<rparr>)"

section \<open>The record of a run\<close>

record guard_row =
  bg_id :: string
  bg_checked_at :: iso
  bg_limit :: "rat option"
  bg_usage :: rat
  bg_projected :: rat
  bg_ratio :: "rat option"
  bg_alert_80 :: "iso option"
  bg_alert_100 :: "iso option"
  bg_breach_at :: "iso option"
  bg_remediation :: "string option"

record billing_db = telemetry_db +
  guards :: "guard_row list"

definition or_else :: "'a option \<Rightarrow> 'a option \<Rightarrow> 'a option" where
  "or_else a b = (case a of None \<Rightarrow> b | Some x \<Rightarrow> Some x)"

definition evaluateAndRecord ::
  "('e) runtime_scheme \<Rightarrow> rat option \<Rightarrow> iso \<Rightarrow> (iso option \<times> iso option) option \<Rightarrow> ('a) billing_db_scheme \<Rightarrow>
   (billing_evaluation \<times> string option) \<times> ('a) billing_db_scheme" where
  "evaluateAndRecord e limitUsd nowIso previous db =
     (let (month, daysElapsed, daysInMonth) = monthWindow nowIso;
          report = costReport db month None;
          evaluation = evaluateBillingGuard (fst report) daysElapsed daysInMonth limitUsd;
          prev = (case previous of None \<Rightarrow> (None, None) | Some p \<Rightarrow> p);
          alert80SentAt = or_else (fst prev) (if be_warn evaluation then Some nowIso else None);
          alert100SentAt = or_else (snd prev) (if be_breach evaluation then Some nowIso else None);
          remediationState = (if be_breach evaluation then Some ''detected'' else None);
          (guardId, db1) = fresh_id e db
      in ((evaluation, remediationState),
          db1\<lparr>guards := guards db1 @
            [\<lparr>bg_id = guardId, bg_checked_at = nowIso, bg_limit = be_limit evaluation,
              bg_usage = be_usage evaluation, bg_projected = be_projected evaluation,
              bg_ratio = be_ratio evaluation, bg_alert_80 = alert80SentAt, bg_alert_100 = alert100SentAt,
              bg_breach_at = (if be_breach evaluation then Some nowIso else None),
              bg_remediation = remediationState\<rparr>]\<rparr>))"

definition latestBillingGuard :: "('a) billing_db_scheme \<Rightarrow> (iso option \<times> iso option) option" where
  "latestBillingGuard db = map_option (\<lambda>g. (bg_alert_80 g, bg_alert_100 g)) (latest_by bg_checked_at (guards db))"

section \<open>Readiness\<close>

record health_env = runtime +
  he_client_id :: "string option"
  he_client_secret :: "string option"
  he_state_secret :: "string option"
  he_token_key :: "string option"
  he_limit :: "string option"
  he_fixed :: "rat \<Rightarrow> nat \<Rightarrow> string"

record health_report =
  hl_status :: string
  hl_problems :: "string list"
  hl_checks :: "(string \<times> string) list"

definition CONFIG_LABELS :: "(string \<times> string) list" where
  "CONFIG_LABELS =
    [(''clientId'', ''TESLA_CLIENT_ID''), (''clientSecret'', ''TESLA_CLIENT_SECRET''),
     (''stateSecret'', ''OAUTH_STATE_SECRET''), (''tokenKey'', ''TOKEN_ENCRYPTION_KEY'')]"

definition assertConfigured :: "(string \<times> string option) list \<Rightarrow> string list" where
  "assertConfigured config =
     map (\<lambda>f. snd f @ '' is not set'')
       (filter (\<lambda>f. case map_of config (fst f) of None \<Rightarrow> False | Some v \<Rightarrow> blank v) CONFIG_LABELS)"

definition consent_text_check :: "('e) runtime_scheme \<Rightarrow> ('a) store_db_scheme \<Rightarrow> string" where
  "consent_text_check e db =
     (case first_where (\<lambda>p. cp_version p = CONSENT_POLICY_VERSION) (consent_policies db) of
        None \<Rightarrow> ''not_seeded''
      | Some row \<Rightarrow> if cp_sha256 row = rt_sha256 e (rt_consent_text e) then ''ok'' else ''STALE_TEXT_HASH'')"

definition missing_fields :: "('a) store_db_scheme \<Rightarrow> field_key list" where
  "missing_fields db =
     (let catalogSet = map fc_key (filter fc_collected (catalog db))
      in filter (\<lambda>f. f \<notin> set catalogSet) CONSENTED_FIELDS)"

definition field_set_check :: "('a) store_db_scheme \<Rightarrow> string list \<times> string" where
  "field_set_check db =
     (let rows = filter fc_collected (catalog db);
          missing = missing_fields db;
          extra = int (length rows) - int (length CONSENTED_FIELDS)
      in if missing = []
         then ([], if 0 < extra then ''ok+enrolled:'' @ nat_text (nat extra) else ''ok'')
         else ([''F01 AC6: declared CONSENTED_FIELDS missing from catalog: '' @ join_with '','' missing],
               ''STALE_DECLARED missing='' @ join_with '','' missing))"

definition limit_of :: "string option \<Rightarrow> rat option" where
  "limit_of limitRaw = (case limitRaw of None \<Rightarrow> None | Some s \<Rightarrow> if s = [] then None else js_number s)"

definition margin_problems :: "('e) health_env_scheme \<Rightarrow> billing_evaluation \<Rightarrow> string list" where
  "margin_problems e guard =
     (if \<not> be_configured guard
      then [''F02-R13: TESLA_BILLING_LIMIT_USD is not set '' @ EM_DASH @ '' the 10x safety margin cannot be verified'']
      else (case be_ratio guard of
          None \<Rightarrow> []
        | Some r \<Rightarrow>
            if be_margin_ok guard then []
            else [''F02-R13: billing margin '' @ rt_num_text e r @ ''x is below the required '' @
                  rt_num_text e MIN_MARGIN_RATIO @ ''x (projected $'' @ he_fixed e (be_projected guard) 2 @ ''/mo)'']))"

definition alert_problems :: "billing_evaluation \<Rightarrow> string list" where
  "alert_problems guard =
     (if be_breach guard
      then [''R-07: billing limit BREACHED '' @ EM_DASH @
            '' Tesla configs are stripped and not restored; run the re-apply runbook'']
      else if be_warn guard then [''F02-R13: billing limit is at or above 80% consumed'']
      else [])"

definition billing_checks :: "('e) health_env_scheme \<Rightarrow> billing_evaluation \<Rightarrow> (string \<times> string) list" where
  "billing_checks e guard =
     [(''billing_margin'',
         if be_configured guard
         then (case be_ratio guard of
             None \<Rightarrow> ''no_usage_yet''
           | Some r \<Rightarrow> rt_num_text e r @ ''x'' @ (if be_margin_ok guard then [] else '' BELOW_MIN''))
         else ''unconfigured''),
      (''billing_projected_usd'', he_fixed e (be_projected guard) 4),
      (''billing_consumed'', case be_consumed guard of None \<Rightarrow> ''n/a'' | Some f \<Rightarrow> he_fixed e f 3)]"

text \<open>\<open>MAX(received_at)\<close> of the fact table.\<close>

definition last_fact :: "('a) telemetry_db_scheme \<Rightarrow> string" where
  "last_fact db =
     (if facts db = [] then ''unknown'' else fold max (map f_received_at (facts db)) [])"

definition flow_check :: "('a) telemetry_db_scheme \<Rightarrow> string list \<times> (string \<times> string) list" where
  "flow_check db =
     (let activeCount = count_where (\<lambda>t. tc_state t = CActive) (telemetry_configs db);
          factCount = length (facts db);
          verifiedCount = count_where (\<lambda>t. tc_state t = CActive \<and> tc_verified_at t \<noteq> None) (telemetry_configs db);
          counts = [(''active_configs'', nat_text activeCount), (''telemetry_facts'', nat_text factCount),
                    (''verified_configs'', nat_text verifiedCount)]
      in if 0 < verifiedCount \<and> factCount = 0
         then ([''F02-R14: '' @ nat_text verifiedCount @
                '' config(s) verified active but tesla_telemetry_fact is empty '' @ EM_DASH @
                '' collection is not reaching Tier 1 (check the relay log_level and its '' @
                ''forwarded-line counters; a log_level above info discards every payload silently)''],
               counts @ [(''telemetry_flow'', ''NO_DATA'')])
         else if factCount = 0 then ([], counts @ [(''telemetry_flow'', ''awaiting_first_drive'')])
         else ([], counts @ [(''telemetry_flow'', ''ok''), (''telemetry_last_fact'', last_fact db)]))"

definition healthz :: "('e) health_env_scheme \<Rightarrow> ('a) telemetry_db_scheme \<Rightarrow> health_report" where
  "healthz e db =
     (let unset = assertConfigured
            [(''clientId'', he_client_id e), (''clientSecret'', he_client_secret e),
             (''stateSecret'', he_state_secret e), (''tokenKey'', he_token_key e)];
          (stale, fieldCheck) = field_set_check db;
          (month, daysElapsed, daysInMonth) = monthWindow (rt_clock e (tick db));
          report = costReport db month None;
          guard = evaluateBillingGuard (fst report) daysElapsed daysInMonth (limit_of (he_limit e));
          (silent, flowChecks) = flow_check db;
          problems = unset @ stale @ margin_problems e guard @ alert_problems guard @ silent
      in \<lparr>hl_status = (if problems \<noteq> [] then ''degraded'' else ''ok''),
          hl_problems = problems,
          hl_checks =
            [(''d1'', ''ok''), (''fields'', nat_text (length (catalog db))),
             (''policies'', nat_text (length (consent_policies db))),
             (''consent_text'', consent_text_check e db),
             (''collected_fields'', nat_text (length (filter fc_collected (catalog db)))),
             (''consent_field_set'', fieldCheck)] @
            billing_checks e guard @ flowChecks\<rparr>)"

section \<open>Lemmas on the calendar\<close>

lemma next_month_start:
  assumes "0 \<le> m" "m < 12"
  shows "make_day y (m + 1) 1 = day_from_year y + (if m = 11 then year_days y else month_starts (leap_year y) ! Suc (nat m))"
  using assms by (cases "m = 11") (auto simp: make_day_next_year make_day_month day_from_year_succ nat_add_distrib)

lemma day_in_month:
  assumes "0 \<le> m" "m < 12" "make_day y m 1 \<le> k" "k < make_day y (m + 1) 1"
  shows "year_of_day k = y" "month_of_day k = m"
proof -
  let ?ms = "month_starts (leap_year y)"
  have lo: "day_from_year y + ?ms ! nat m \<le> k" using assms by (simp add: make_day_month)
  have hi: "k < day_from_year y + (if m = 11 then year_days y else ?ms ! Suc (nat m))"
    using assms(4) unfolding next_month_start [OF assms(1,2)] .
  have "?ms ! nat 0 \<le> ?ms ! nat m" using assms by (intro month_starts_mono; simp)
  moreover have "(if m = 11 then year_days y else ?ms ! Suc (nat m)) \<le> year_days y"
  proof (cases "m = 11")
    case False
    with assms have "?ms ! nat (m + 1) \<le> ?ms ! nat 11" by (intro month_starts_mono) simp_all
    then show ?thesis using december [of y] False assms by (simp add: nat_add_distrib)
  qed simp
  ultimately show y: "year_of_day k = y"
    using lo hi by (intro year_of_day_unique) (simp_all add: day_from_year_succ month_starts_facts)
  note M = month_of_day [of k, unfolded y]
  show "month_of_day k = m"
  proof (rule ccontr)
    assume "month_of_day k \<noteq> m"
    then consider "month_of_day k + 1 \<le> m" | "m + 1 \<le> month_of_day k" by linarith
    then show False
    proof cases
      case 1
      then have "?ms ! nat (month_of_day k + 1) \<le> ?ms ! nat m" using M assms by (intro month_starts_mono) simp_all
      moreover have "nat (month_of_day k) < 11" using 1 assms(2) by linarith
      from M(4) [OF this] have "k < day_from_year y + ?ms ! nat (month_of_day k + 1)"
        using M(1) by (simp add: nat_add_distrib)
      ultimately show False using lo by linarith
    next
      case 2
      then have "?ms ! nat (m + 1) \<le> ?ms ! nat (month_of_day k)" using M assms by (intro month_starts_mono) simp_all
      moreover have "m \<noteq> 11" using 2 M(2) by linarith
      ultimately show False using M(3) hi assms by (simp add: nat_add_distrib)
    qed
  qed
qed

lemma month_length_28:
  assumes "0 \<le> m" "m < 12"
  shows "make_day y m 1 + 28 \<le> make_day y (m + 1) 1" "make_day y (m + 1) 1 \<le> make_day y m 1 + 31"
proof -
  have "m \<noteq> 11 \<Longrightarrow> nat m < 11" using assms by linarith
  then show "make_day y m 1 + 28 \<le> make_day y (m + 1) 1" "make_day y (m + 1) 1 \<le> make_day y m 1 + 31"
    unfolding next_month_start [OF assms] make_day_month [OF assms]
    using month_at_least_28 [of "nat m" "leap_year y"] month_length [of "nat m" "leap_year y"] december [of y]
    by (cases "m = 11"; simp)+
qed

lemma last_of_month:
  assumes "0 \<le> m" "m < 12"
  shows "date_of_day (make_day y (m + 1) 0) = make_day y (m + 1) 1 - make_day y m 1"
proof -
  let ?k = "make_day y (m + 1) 0"
  have k: "?k = make_day y (m + 1) 1 - 1" using make_day_add [of y "m + 1" 0 1] by simp
  have "make_day y m 1 < make_day y (m + 1) 1"
    using month_length_28 [OF assms, of y] by simp
  then have "make_day y m 1 \<le> ?k" "?k < make_day y (m + 1) 1" unfolding k by simp_all
  from day_in_month [OF assms this] k show ?thesis by (simp add: date_of_day_def)
qed

text \<open>The window of an instant: the day of the month lies in the month.\<close>

lemma month_window_of_instant:
  assumes "1970 \<le> utc_year t" "utc_year t \<le> 9999"
  shows "\<exists>days. monthWindow (iso_of_ms t) = (take 7 (iso_of_ms t), utc_date t, days) \<and>
     1 \<le> utc_date t \<and> utc_date t \<le> days \<and> 28 \<le> days \<and> days \<le> 31"
proof -
  let ?y = "utc_year t" and ?m = "utc_month t"
  let ?len = "make_day ?y (?m + 1) 1 - make_day ?y ?m 1"
  have read: "num_at (iso_of_ms t) 0 4 = ?y" "num_at (iso_of_ms t) 5 2 = ?m + 1" "num_at (iso_of_ms t) 8 2 = utc_date t"
    using assms utc_ranges [of t]
    by (simp_all add: iso_of_ms_def year_text_def num_at_def digits_value_pad nat_less_iff del: pad.simps)
  have m: "0 \<le> ?m" "?m < 12" using utc_ranges [of t] by simp_all
  let ?n = "make_day ?y (?m + 1) 0"
  have "day_from_year ?y \<le> make_day ?y ?m 1" "make_day ?y (?m + 1) 1 \<le> day_from_year (?y + 1)"
    using year_of_day [of "utc_day t"] month_of_day [of "utc_day t"] m month_starts_mono [of 0 ?m "leap_year ?y"]
      month_starts_mono [of "?m + 1" 11 "leap_year ?y"] december [of ?y]
    unfolding next_month_start [OF m] make_day_month [OF m]
    by (auto simp: month_starts_facts day_from_year_succ nat_add_distrib)
  moreover have "?n = make_day ?y (?m + 1) 1 - 1" using make_day_add [of ?y "?m + 1" 0 1] by simp
  moreover have "day_from_year 1970 \<le> day_from_year ?y" "day_from_year (?y + 1) \<le> day_from_year 10000"
    using assms by (simp_all add: day_from_year_le)
  moreover have "day_from_year 1970 = 0" "day_from_year 10000 = 2932897" by (simp_all add: day_from_year_def)
  ultimately have "- 1 \<le> ?n" "?n \<le> 2932896" using month_length_28(1) [OF m, of ?y] by linarith+
  then have "\<bar>MS_DAY * ?n\<bar> \<le> 8640000000000000" by (simp add: ms_defs abs_le_iff)
  then have "date_UTC ?y (?m + 1) 0 0 0 0 0 = Some (MS_DAY * ?n)"
    using assms by (simp add: date_UTC_def make_time_def time_clip_def)
  moreover have "utc_date (MS_DAY * ?n) = ?len"
    using last_of_month [OF m, of ?y] by (simp add: utc_date_def utc_day_def ms_defs)
  moreover have "utc_date t \<le> ?len"
    using make_day_next_month [of "utc_day t"] by (simp add: utc_date_def utc_year_def utc_month_def date_of_day_def)
  moreover have "28 \<le> ?len \<and> ?len \<le> 31"
    using month_length_28 [OF m, of ?y] by simp
  ultimately show ?thesis using utc_ranges [of t] read by (simp add: monthWindow_def Let_def)
qed

section \<open>Lemmas on the guard\<close>

lemma round6_bounds: "n - 1 / 2000000 < round6 n + 1 / 1000000" "round6 n \<le> n + 1 / 2000000"
proof -
  have "of_int \<lfloor>n * 1000000 + 1 / 2\<rfloor> \<le> n * 1000000 + 1 / 2"
    "n * 1000000 + 1 / 2 < of_int \<lfloor>n * 1000000 + 1 / 2\<rfloor> + 1"
    by (simp, linarith)
  then show "n - 1 / 2000000 < round6 n + 1 / 1000000" "round6 n \<le> n + 1 / 2000000"
    unfolding round6_def by (simp_all add: field_simps)
qed

lemma round6_zero [simp]: "round6 0 = 0"
proof -
  have "\<lfloor>1 / 2 :: rat\<rfloor> = 0" by (intro floor_unique) simp_all
  then show ?thesis by (simp add: round6_def)
qed

lemma projection_grows:
  assumes "1 \<le> elapsed" "elapsed \<le> days"
  shows "of_nat s \<le> projectMonth (of_nat s) elapsed days"
proof -
  have "of_nat s * of_int elapsed \<le> of_nat s * (of_int days :: rat)"
    using assms by (intro mult_left_mono) simp_all
  then show ?thesis using assms by (simp add: projectMonth_def Let_def field_simps)
qed

lemma projection_zero [simp]: "projectMonth 0 elapsed days = 0"
  by (simp add: projectMonth_def Let_def)

text \<open>Usage within a month never exceeds the projection, so a margin of ten leaves no room for an alert.\<close>

lemma warn_excludes_margin:
  assumes days: "1 \<le> elapsed" "elapsed \<le> days"
    and warn: "be_warn (evaluateBillingGuard s elapsed days limit)"
  shows "\<not> be_margin_ok (evaluateBillingGuard s elapsed days limit)"
    "be_ratio (evaluateBillingGuard s elapsed days limit) \<noteq> None"
proof -
  define u :: rat where "u = of_nat s / of_nat SIGNALS_PER_DOLLAR"
  define v :: rat where "v = projectMonth (of_nat s) elapsed days / of_nat SIGNALS_PER_DOLLAR"
  obtain l where l: "limit = Some l" "0 < l"
    using warn by (auto simp: evaluateBillingGuard_def Let_def split: option.splits if_splits)
  have "ALERT_WARN_FRACTION \<le> round6 (u / l)"
    using warn l by (simp add: evaluateBillingGuard_def Let_def u_def)
  then have "7 / 10 \<le> u / l" using round6_bounds(2) [of "u / l"] by (simp add: ALERT_WARN_FRACTION_def)
  then have ul: "7 / 10 * l \<le> u" using l by (simp add: field_simps)
  have uv: "u \<le> v" unfolding u_def v_def SIGNALS_PER_DOLLAR_def
    using projection_grows [OF days, of s] by (intro divide_right_mono) simp_all
  with ul l have v: "0 < v" by linarith
  from ul uv l v have "l / v \<le> 2" by (simp add: field_simps)
  then have "round6 (l / v) < MIN_MARGIN_RATIO"
    using round6_bounds(2) [of "l / v"] by (simp add: MIN_MARGIN_RATIO_def)
  then show "\<not> be_margin_ok (evaluateBillingGuard s elapsed days limit)"
    "be_ratio (evaluateBillingGuard s elapsed days limit) \<noteq> None"
    using l v by (simp_all add: evaluateBillingGuard_def Let_def v_def)
qed

lemma breach_warns: "be_breach (evaluateBillingGuard s elapsed days limit) \<Longrightarrow> be_warn (evaluateBillingGuard s elapsed days limit)"
  by (auto simp: evaluateBillingGuard_def Let_def ALERT_WARN_FRACTION_def ALERT_BREACH_FRACTION_def
      split: option.splits if_splits)

lemma no_billing_problem:
  fixes s limit
  assumes "1 \<le> elapsed" "elapsed \<le> days"
  defines "g \<equiv> evaluateBillingGuard s elapsed days limit"
  shows "margin_problems e g @ alert_problems g = [] \<longleftrightarrow> be_configured g \<and> (be_ratio g = None \<or> be_margin_ok g)"
  using warn_excludes_margin [OF assms(1,2), of s limit] breach_warns [of s elapsed days limit]
  by (auto simp: margin_problems_def alert_problems_def g_def split: option.splits)

lemma assertConfigured_Nil:
  "assertConfigured [(''clientId'', a), (''clientSecret'', b), (''stateSecret'', c), (''tokenKey'', d)] = []
     \<longleftrightarrow> \<not> blank a \<and> \<not> blank b \<and> \<not> blank c \<and> \<not> blank d"
  by (simp add: assertConfigured_def CONFIG_LABELS_def)

definition collection_silent :: "('a) telemetry_db_scheme \<Rightarrow> bool" where
  "collection_silent db \<longleftrightarrow>
     facts db = [] \<and> list_ex (\<lambda>t. tc_state t = CActive \<and> tc_verified_at t \<noteq> None) (telemetry_configs db)"

lemma flow_problem: "fst (flow_check db) = [] \<longleftrightarrow> \<not> collection_silent db"
  by (auto simp: flow_check_def collection_silent_def Let_def count_where_def list_ex_iff filter_empty_conv)

section \<open>Properties\<close>

definition sample_health_env :: health_env where
  "sample_health_env = runtime.extend (sample_runtime\<lparr>rt_clock := \<lambda>n. iso_of_ms 0\<rparr>)
     \<lparr>he_client_id = Some ''id'', he_client_secret = Some ''cs'', he_state_secret = Some ''ss'',
      he_token_key = Some ''tk'', he_limit = Some ''100'', he_fixed = (\<lambda>q n. [])\<rparr>"

definition healthy_db :: telemetry_db where
  "healthy_db = sample_telemetry_db\<lparr>catalog :=
     map (\<lambda>k. \<lparr>fc_key = k, fc_tier = On_change, fc_collected = True, fc_min_delta = None, fc_rest_path = None\<rparr>)
       CONSENTED_FIELDS\<rparr>"

text \<open>The readiness check answers \<open>ok\<close> exactly when the secrets are set, no declared field is missing,
  collection is not silent, and the billing limit is configured with its margin kept.  The alerts do
  not occur in this condition: a margin of ten leaves no room for them.\<close>

theorem healthz_ok_iff:
  assumes "rt_clock e (tick db) = iso_of_ms t" "1970 \<le> utc_year t" "utc_year t \<le> 9999"
  shows "hl_status (healthz e db) = ''ok'' \<longleftrightarrow>
     \<not> blank (he_client_id e) \<and> \<not> blank (he_client_secret e) \<and> \<not> blank (he_state_secret e) \<and>
     \<not> blank (he_token_key e) \<and> missing_fields db = [] \<and> \<not> collection_silent db \<and>
     (case monthWindow (iso_of_ms t) of (month, elapsed, days) \<Rightarrow>
        let g = evaluateBillingGuard (fst (costReport db month None)) elapsed days (limit_of (he_limit e))
        in be_configured g \<and> (be_ratio g = None \<or> be_margin_ok g))"
proof -
  obtain days where w: "monthWindow (iso_of_ms t) = (take 7 (iso_of_ms t), utc_date t, days)"
    and d: "1 \<le> utc_date t" "utc_date t \<le> days"
    using month_window_of_instant [OF assms(2,3)] by blast
  let ?g = "evaluateBillingGuard (fst (costReport db (take 7 (iso_of_ms t)) None)) (utc_date t) days (limit_of (he_limit e))"
  have "hl_status (healthz e db) = ''ok'' \<longleftrightarrow>
      assertConfigured [(''clientId'', he_client_id e), (''clientSecret'', he_client_secret e),
        (''stateSecret'', he_state_secret e), (''tokenKey'', he_token_key e)] = [] \<and>
      fst (field_set_check db) = [] \<and> margin_problems e ?g @ alert_problems ?g = [] \<and> fst (flow_check db) = []"
    by (auto simp: healthz_def Let_def assms(1) w split: prod.splits)
  then show ?thesis unfolding no_billing_problem [OF d] flow_problem assertConfigured_Nil w Let_def case_prod_conv
    by (auto simp: field_set_check_def Let_def)
qed

theorem healthz_ok_iff_witness:
  "hl_status (healthz sample_health_env healthy_db) = ''ok'' \<and>
   hl_status (healthz (sample_health_env\<lparr>he_limit := None\<rparr>) healthy_db) = ''degraded''"
proof -
  have c: "rt_clock sample_health_env (tick healthy_db) = iso_of_ms 0"
    "rt_clock (sample_health_env\<lparr>he_limit := None\<rparr>) (tick healthy_db) = iso_of_ms 0"
    by (simp_all add: sample_health_env_def runtime.extend_def)
  have y: "1970 \<le> utc_year 0" "utc_year 0 \<le> 9999" by code_simp+
  have w: "monthWindow (iso_of_ms 0) = (''1970-01'', 1, 31)" by code_simp
  have f: "missing_fields healthy_db = []" "\<not> collection_silent healthy_db"
    "fst (costReport healthy_db ''1970-01'' None) = 0"
    by (simp_all add: missing_fields_def collection_silent_def healthy_db_def costReport_def Let_def comp_def
        sample_telemetry_db_def sample_config_db_def sample_store_def telemetry_db.extend_def config_db.extend_def store_db.extend_def)
  have l: "limit_of (he_limit sample_health_env) = Some 100"
    by (simp add: sample_health_env_def runtime.extend_def limit_of_def) code_simp
  have "hl_status (healthz sample_health_env healthy_db) = ''ok''"
    unfolding healthz_ok_iff [OF c(1) y] w l case_prod_conv f Let_def
    by (simp add: f sample_health_env_def runtime.extend_def blank_def evaluateBillingGuard_def)
  moreover have "hl_status (healthz (sample_health_env\<lparr>he_limit := None\<rparr>) healthy_db) \<noteq> ''ok''"
    unfolding healthz_ok_iff [OF c(2) y] w case_prod_conv Let_def
    by (simp add: limit_of_def evaluateBillingGuard_def)
  ultimately show ?thesis by (auto simp: healthz_def Let_def split: prod.splits if_splits)
qed

text \<open>The seeded consent policies, missing or stale, change neither the status nor the problems.\<close>

theorem healthz_ignores_consent_text:
  "hl_status (healthz e (db\<lparr>consent_policies := policies\<rparr>)) = hl_status (healthz e db) \<and>
   hl_problems (healthz e (db\<lparr>consent_policies := policies\<rparr>)) = hl_problems (healthz e db)"
  by (simp add: healthz_def field_set_check_def missing_fields_def flow_check_def costReport_def last_fact_def Let_def
      split: prod.split)

text \<open>Once an alert was stamped, every later run carries that stamp, in whatever month.\<close>

theorem alert_never_restamped:
  assumes "latestBillingGuard db = Some (Some sent, breach)"
    and "evaluateAndRecord e limit now (latestBillingGuard db) db = (r, db')"
  shows "bg_alert_80 (last (guards db')) = Some sent"
  using assms by (auto simp: evaluateAndRecord_def Let_def or_else_def fresh_id_def split: prod.splits)


definition sample_guard :: guard_row where
  "sample_guard = \<lparr>bg_id = ''G'', bg_checked_at = ''2026-09-30'', bg_limit = Some 1, bg_usage = 1, bg_projected = 1,
     bg_ratio = Some 1, bg_alert_80 = Some ''2026-09-30'', bg_alert_100 = None, bg_breach_at = None,
     bg_remediation = None\<rparr>"

definition sample_billing_db :: billing_db where
  "sample_billing_db = telemetry_db.extend sample_telemetry_db \<lparr>guards = [sample_guard]\<rparr>"

theorem alert_never_restamped_witness:
  "bg_alert_80 (last (guards (snd (evaluateAndRecord sample_runtime (Some 1) ''2026-10-31''
     (latestBillingGuard sample_billing_db) sample_billing_db)))) = Some ''2026-09-30''"
proof -
  have "latestBillingGuard sample_billing_db = Some (Some ''2026-09-30'', None)"
    by (simp add: latestBillingGuard_def sample_billing_db_def telemetry_db.extend_def sample_guard_def)
  from alert_never_restamped [OF this surjective_pairing] show ?thesis .
qed

end
