(* ===== verification/Quotes.thy ===== *)
theory Quotes
  imports Release Onboarding
begin

text \<open>
  The quote routes of \<open>index.ts\<close>: \<open>POST /quote/request\<close> builds a package and hands out a link,
  \<open>GET /download/:token\<close> redeems it, \<open>POST /quote/response\<close> records an insurer's offer and
  \<open>POST /quote/decide\<close> the member's decision, under the constraints of \<open>migrations/0008\<close>.  The
  object store is the archive the ingest route writes too; its last value under a key is read.
\<close>

section \<open>State\<close>

datatype request_status = Req_draft | Req_sent | Req_accepted | Req_declined | Req_expired | Req_withdrawn

datatype response_status =
  Resp_received | Resp_presented | Resp_accepted | Resp_declined | Resp_expired | Resp_withdrawn

record quote_request_row =
  qr_id :: string
  qr_member :: member_id
  qr_vin :: vin
  qr_status :: request_status
  qr_decided_at :: "iso option"

record quote_response_row =
  qs_id :: string
  qs_request :: string
  qs_insurer_ref :: string
  qs_insurer_name :: "string option"
  qs_premium :: "rat option"
  qs_excess :: "rat option"
  qs_cover_type :: "string option"
  qs_terms :: "json option"
  qs_status :: response_status
  qs_received_at :: iso
  qs_decided_at :: "iso option"
  qs_decision_reason :: "string option"
  qs_release :: "string option"

record quote_db = release_db +
  quote_requests :: "quote_request_row list"
  quote_responses :: "quote_response_row list"

datatype quote_reply =
  Quote_connect
| Quote_dashboard
| Quote_text nat string
| Quote_ready string string
| Quote_blocked string "iso option"
| Quote_link_unavailable string
| Quote_csv string string
| Quote_recorded string

section \<open>Requesting a package\<close>

definition DOWNLOAD_TTL_SECONDS :: nat where
  "DOWNLOAD_TTL_SECONDS = 3600"

definition member_actor :: "member_id \<Rightarrow> string" where
  "member_actor m = ''member:'' @ m"

definition release_key :: "string \<Rightarrow> string" where
  "release_key releaseId = ''releases/'' @ releaseId @ ''.csv''"

definition set_release_key :: "string \<Rightarrow> string \<Rightarrow> ('a) release_db_scheme \<Rightarrow> ('a) release_db_scheme" where
  "set_release_key key releaseId db =
     db\<lparr>releases := update_where (\<lambda>r. rl_id r = releaseId) (\<lambda>r. r\<lparr>rl_r2_key := Some key\<rparr>) (releases db)\<rparr>"

definition request_audit :: "vin \<Rightarrow> string \<Rightarrow> json" where
  "request_audit vin sha256 = JObj [(''vin'', JStr vin), (''sha256'', JStr sha256)]"

text \<open>The block inside \<open>try\<close>, once the package is built: the artifact, its key, the link, the audit.\<close>

definition deliver_package ::
  "('e) release_env_scheme \<Rightarrow> member_id \<Rightarrow> vin \<Rightarrow> iso \<Rightarrow> quote_package \<Rightarrow> ('a) release_db_scheme \<Rightarrow>
   quote_reply \<times> ('a) release_db_scheme" where
  "deliver_package e member vin nowIso pkg db =
     (let (put, db1) = archive_raw e (release_key (qp_release pkg)) (qp_csv pkg) db
      in if \<not> put then (Quote_text 500 ''Could not build the quote package.'', db1)
         else (let db2 = set_release_key (release_key (qp_release pkg)) (qp_release pkg) db1;
                   (link, db3) = issueDownloadToken e (qp_release pkg) (member_actor member)
                      DOWNLOAD_TTL_SECONDS nowIso None db2
               in case link of
                    Inl _ \<Rightarrow> (Quote_text 500 ''Could not build the quote package.'', db3)
                  | Inr (token, _, _) \<Rightarrow>
                      (Quote_ready token (qp_sha256 pkg),
                       audit e ''quote_package_requested'' (Some member) (Some ''member'')
                         (Some ''tesla_release'') (Some (qp_release pkg))
                         (Some (request_audit vin (qp_sha256 pkg))) nowIso db3)))"

definition package_blocked :: "string \<Rightarrow> bool" where
  "package_blocked reason \<longleftrightarrow> reason \<noteq> ''FOREIGN KEY constraint failed''"

definition requestQuote ::
  "('e) release_env_scheme \<Rightarrow> member_id \<Rightarrow> vin \<Rightarrow> string \<Rightarrow> string \<Rightarrow> ('a) release_db_scheme \<Rightarrow>
   quote_reply \<times> ('a) release_db_scheme" where
  "requestQuote e member vin periodStart periodEnd db =
     (let (nowIso, db1) = now_iso e db;
          (result, db2) = buildQuotePackage e
             \<lparr>pi_member = member, pi_vin = vin, pi_period_start = periodStart, pi_period_end = periodEnd,
              pi_now = nowIso, pi_requested_by = member_actor member, pi_vehicle_config = Map.empty\<rparr> db1
      in case result of
           Inr pkg \<Rightarrow> deliver_package e member vin nowIso pkg db2
         | Inl reason \<Rightarrow>
             if package_blocked reason
             then (Quote_blocked reason (map_option snd (activePolicyHold db2 member nowIso)), db2)
             else (Quote_text 500 ''Could not build the quote package.'', db2))"

definition postQuoteRequest ::
  "('e) release_env_scheme \<Rightarrow> (string \<Rightarrow> string option) \<Rightarrow> string option \<Rightarrow> string option \<Rightarrow> string option \<Rightarrow>
   string option \<Rightarrow> ('a) release_db_scheme \<Rightarrow> quote_reply \<times> ('a) release_db_scheme" where
  "postQuoteRequest e kv sessionId vin periodStart periodEnd db =
     (if \<not> session_live kv sessionId then (Quote_connect, db)
      else if blank vin \<or> blank periodStart \<or> blank periodEnd
      then (Quote_text 400 ''vin, period_start and period_end are required'', db)
      else (case session_member sessionId db of
          None \<Rightarrow> (Quote_connect, db)
        | Some member \<Rightarrow> requestQuote e member (the vin) (the periodStart) (the periodEnd) db))"

section \<open>Redeeming a link\<close>

definition archive_get :: "('a) ingest_db_scheme \<Rightarrow> string \<Rightarrow> string option" where
  "archive_get db key = map_of (rev (archive db)) key"

definition load_artifact :: "('a) release_db_scheme \<Rightarrow> string \<Rightarrow> string option" where
  "load_artifact db releaseId =
     (case first_where (\<lambda>r. rl_id r = releaseId) (releases db) of
        None \<Rightarrow> None
      | Some r \<Rightarrow> if blank (rl_r2_key r) then None else archive_get db (the (rl_r2_key r)))"

definition getDownload ::
  "('e) release_env_scheme \<Rightarrow> string \<Rightarrow> string option \<Rightarrow> string option \<Rightarrow> ('a) release_db_scheme \<Rightarrow>
   quote_reply \<times> ('a) release_db_scheme" where
  "getDownload e token ip userAgent db =
     (let (nowIso, db1) = now_iso e db;
          (result, db2) = redeemDownloadToken (e\<lparr>re_artifact := \<lambda>n. load_artifact db1\<rparr>) token nowIso
             (hashIp e ip) userAgent db1
      in if \<not> rr_ok result then (Quote_link_unavailable (rr_reason result), db2)
         else (Quote_csv (case rr_release result of None \<Rightarrow> [] | Some r \<Rightarrow> r)
                 (case rr_csv result of None \<Rightarrow> [] | Some csv \<Rightarrow> csv), db2))"

section \<open>An insurer's response\<close>

record response_body =
  rb_request :: "string option"
  rb_insurer_ref :: "string option"
  rb_insurer_name :: "string option"
  rb_premium :: "rat option"
  rb_excess :: "rat option"
  rb_cover_type :: "string option"
  rb_terms :: "json option"
  rb_release :: "string option"

definition insurer_audit :: "response_body \<Rightarrow> json" where
  "insurer_audit body =
     JObj [(''quote_request_id'', JStr (the (rb_request body))),
           (''premium'', case rb_premium body of None \<Rightarrow> JNull | Some p \<Rightarrow> JNum p)]"

definition postQuoteResponse ::
  "('e) ingest_env_scheme \<Rightarrow> string option \<Rightarrow> response_body \<Rightarrow> ('a) quote_db_scheme \<Rightarrow>
   quote_reply \<times> ('a) quote_db_scheme" where
  "postQuoteResponse e provided body db =
     (if blank (ie_secret e) \<or> \<not> timingSafeEqual (code_units (form_text provided)) (code_units (the (ie_secret e)))
      then (Quote_text 401 ''unauthorized'', db)
      else if blank (rb_request body) \<or> blank (rb_insurer_ref body)
      then (Quote_text 400 ''quote_request_id and insurer_ref are required'', db)
      else (let (nowIso, db1) = now_iso e db;
                (responseId, db2) = fresh_id e db1
            in case first_where (\<lambda>q. Some (qr_id q) = rb_request body) (quote_requests db2) of
                 None \<Rightarrow> (Quote_text 404 ''unknown quote_request_id'', db2)
               | Some _ \<Rightarrow>
                   (let (eventId, db3) = fresh_id e db2
                    in if (case rb_release body of None \<Rightarrow> False
                           | Some r \<Rightarrow> \<not> list_ex (\<lambda>x. rl_id x = r) (releases db3))
                       then (Quote_text 500 ''D1_ERROR'', db3)
                       else (Quote_recorded responseId,
                             db3\<lparr>quote_responses := quote_responses db3 @
                                  [\<lparr>qs_id = responseId, qs_request = the (rb_request body),
                                    qs_insurer_ref = the (rb_insurer_ref body), qs_insurer_name = rb_insurer_name body,
                                    qs_premium = rb_premium body, qs_excess = rb_excess body,
                                    qs_cover_type = rb_cover_type body,
                                    qs_terms = (if truthy (rb_terms body) then rb_terms body else None),
                                    qs_status = Resp_received, qs_received_at = nowIso, qs_decided_at = None,
                                    qs_decision_reason = None, qs_release = rb_release body\<rparr>],
                                 audits := audits db3 @
                                  [\<lparr>a_id = eventId, a_occurred_at = nowIso,
                                    a_actor = Some (''insurer:'' @ the (rb_insurer_ref body)), a_actor_type = ''system'',
                                    a_action = ''quote_response_received'', a_subject_type = Some ''tesla_quote_response'',
                                    a_subject_id = Some responseId, a_detail = Some (insurer_audit body)\<rparr>]\<rparr>))))"

section \<open>The member's decision\<close>

definition response_of :: "('a) quote_db_scheme \<Rightarrow> string \<Rightarrow> (quote_response_row \<times> quote_request_row) option" where
  "response_of db responseId =
     (case first_where (\<lambda>r. qs_id r = responseId) (quote_responses db) of
        None \<Rightarrow> None
      | Some r \<Rightarrow> map_option (\<lambda>q. (r, q)) (first_where (\<lambda>q. qr_id q = qs_request r) (quote_requests db)))"

definition mark_response ::
  "string \<Rightarrow> response_status \<Rightarrow> iso \<Rightarrow> string \<Rightarrow> ('a) quote_db_scheme \<Rightarrow> ('a) quote_db_scheme" where
  "mark_response responseId status nowIso reason db =
     db\<lparr>quote_responses := update_where (\<lambda>r. qs_id r = responseId)
       (\<lambda>r. r\<lparr>qs_status := status, qs_decided_at := Some nowIso, qs_decision_reason := Some reason\<rparr>)
       (quote_responses db)\<rparr>"

definition declineQuote ::
  "('e) runtime_scheme \<Rightarrow> member_id \<Rightarrow> string \<Rightarrow> iso \<Rightarrow> ('a) quote_db_scheme \<Rightarrow> ('a) quote_db_scheme" where
  "declineQuote e member responseId nowIso db =
     audit e ''quote_declined'' (Some member) (Some ''member'') (Some ''tesla_quote_response'')
       (Some responseId) None nowIso (mark_response responseId Resp_declined nowIso ''member_declined'' db)"

definition COVER_SECONDS :: nat where
  "COVER_SECONDS = 31536000"

definition text_json :: "string option \<Rightarrow> json" where
  "text_json v = (case v of None \<Rightarrow> JNull | Some s \<Rightarrow> JStr s)"

text \<open>The unique index on active policies and the trigger on the cover period.\<close>

definition policy_allowed :: "('a) release_db_scheme \<Rightarrow> policy_row \<Rightarrow> bool" where
  "policy_allowed db p \<longleftrightarrow>
     pl_cover_start p < pl_cover_end p \<and>
     \<not> list_ex (\<lambda>q. pl_status q = Pol_active \<and> pl_vin q = pl_vin p) (policies db)"

definition acceptQuote ::
  "('e) release_env_scheme \<Rightarrow> member_id \<Rightarrow> quote_response_row \<Rightarrow> quote_request_row \<Rightarrow> iso \<Rightarrow> ('a) quote_db_scheme \<Rightarrow>
   quote_reply \<times> ('a) quote_db_scheme" where
  "acceptQuote e member response request nowIso db =
     (let coverEnd = re_add_seconds e nowIso COVER_SECONDS;
          (policyId, db1) = fresh_id e db;
          (eventId, db2) = fresh_id e db1;
          policy = \<lparr>pl_id = policyId, pl_member = qr_member request, pl_vin = Some (qr_vin request),
            pl_response = Some (qs_id response), pl_insurer_ref = qs_insurer_ref response,
            pl_insurer_name = qs_insurer_name response, pl_cover_start = nowIso, pl_cover_end = coverEnd,
            pl_status = Pol_active, pl_bound_at = nowIso\<rparr>
      in if \<not> policy_allowed db2 policy then (Quote_text 500 ''D1_ERROR'', db2)
         else (Quote_dashboard,
               (mark_response (qs_id response) Resp_accepted nowIso ''member_accepted'' db2)
                \<lparr>quote_requests := update_where (\<lambda>q. qr_id q = qs_request response)
                   (\<lambda>q. q\<lparr>qr_status := Req_accepted, qr_decided_at := Some nowIso\<rparr>) (quote_requests db2),
                 policies := policies db2 @ [policy],
                 audits := audits db2 @
                   [\<lparr>a_id = eventId, a_occurred_at = nowIso, a_actor = Some member, a_actor_type = ''member'',
                     a_action = ''quote_accepted'', a_subject_type = Some ''tesla_policy'', a_subject_id = Some policyId,
                     a_detail = Some (JObj [(''insurer_ref'', JStr (qs_insurer_ref response)),
                       (''quote_request_id'', JStr (qs_request response)),
                       (''release_id'', text_json (qs_release response)), (''cover_end'', JStr coverEnd)])\<rparr>]\<rparr>))"

definition decideQuote ::
  "('e) release_env_scheme \<Rightarrow> member_id \<Rightarrow> string \<Rightarrow> string \<Rightarrow> ('a) quote_db_scheme \<Rightarrow>
   quote_reply \<times> ('a) quote_db_scheme" where
  "decideQuote e member responseId decision db =
     (if responseId = [] \<or> decision \<notin> {''accept'', ''decline''}
      then (Quote_text 400 ''response_id and decision (accept|decline) are required'', db)
      else (case response_of db responseId of
          None \<Rightarrow> (Quote_text 404 ''unknown response_id'', db)
        | Some (response, request) \<Rightarrow>
            if qr_member request \<noteq> member then (Quote_text 403 ''not your quote'', db)
            else (let (nowIso, db1) = now_iso e db
                  in if decision \<noteq> ''accept'' then (Quote_dashboard, declineQuote e member responseId nowIso db1)
                     else acceptQuote e member response request nowIso db1)))"

definition postQuoteDecide ::
  "('e) release_env_scheme \<Rightarrow> (string \<Rightarrow> string option) \<Rightarrow> string option \<Rightarrow> string option \<Rightarrow> string option \<Rightarrow>
   ('a) quote_db_scheme \<Rightarrow> quote_reply \<times> ('a) quote_db_scheme" where
  "postQuoteDecide e kv sessionId responseId decision db =
     (case signed_in kv sessionId db of
        None \<Rightarrow> (Quote_connect, db)
      | Some member \<Rightarrow> decideQuote e member (form_text responseId) (form_text decision) db)"

section \<open>What a request leaves behind\<close>

text \<open>A package that was built: its row, its digest, and the tables it leaves alone.\<close>

lemma buildQuotePackage_built:
  assumes "buildQuotePackage e input db = (Inr pkg, db')"
  shows "qp_sha256 pkg = rt_sha256 e (qp_csv pkg)"
    "\<exists>r. releases db' = releases db @ [r] \<and> rl_id r = qp_release pkg \<and> rl_type r = Quote_package \<and>
       rl_subject_member r = Some (pi_member input) \<and> rl_sha256 r = qp_sha256 pkg"
    "el_eligible (releaseEligibility db (pi_member input))"
    "consents db' = consents db" "download_tokens db' = download_tokens db" "archive db' = archive db"
    "qp_release pkg = fst (fresh_id e db)"
proof -
  have el: "el_eligible (releaseEligibility db (pi_member input))"
    using assms by (auto simp: buildQuotePackage_def Let_def split: if_splits)
  then obtain m where m: "first_where (\<lambda>m. m_id m = pi_member input) (members db) = Some m"
    using assms by (auto simp: buildQuotePackage_def Let_def split: option.splits)
  show "qp_sha256 pkg = rt_sha256 e (qp_csv pkg)"
    "\<exists>r. releases db' = releases db @ [r] \<and> rl_id r = qp_release pkg \<and> rl_type r = Quote_package \<and>
       rl_subject_member r = Some (pi_member input) \<and> rl_sha256 r = qp_sha256 pkg"
    "consents db' = consents db" "download_tokens db' = download_tokens db" "archive db' = archive db"
    "qp_release pkg = fst (fresh_id e db)"
    using assms el m by (auto simp: buildQuotePackage_def fresh_id_def Let_def split: if_splits)
  show "el_eligible (releaseEligibility db (pi_member input))" by (rule el)
qed

definition link_for :: "('e) release_env_scheme \<Rightarrow> string \<Rightarrow> string \<Rightarrow> iso \<Rightarrow> download_token_row \<Rightarrow> bool" where
  "link_for e releaseId token nowIso t \<longleftrightarrow>
     dt_release t = releaseId \<and> dt_hash t = rt_sha256 e token \<and> dt_max_uses t = 1 \<and> dt_use_count t = 0 \<and>
     dt_revoked_at t = None \<and> dt_expires_at t = re_add_seconds e nowIso DOWNLOAD_TTL_SECONDS"

lemma issueDownloadToken_issued:
  assumes "issueDownloadToken e releaseId who DOWNLOAD_TTL_SECONDS nowIso None db = (Inr (token, i, x), db')"
  shows "\<exists>t. download_tokens db' = download_tokens db @ [t] \<and> link_for e releaseId token nowIso t"
    "list_all (\<lambda>t. dt_hash t \<noteq> rt_sha256 e token) (download_tokens db)"
    "releases db' = releases db" "consents db' = consents db" "archive db' = archive db"
  using assms
  by (auto simp: issueDownloadToken_def fresh_id_def Let_def link_for_def list_all_iff list_ex_iff split: if_splits)

lemma deliver_package_ready:
  assumes "deliver_package e member vin nowIso pkg db = (Quote_ready token sha, db')"
  shows "sha = qp_sha256 pkg" "archive db' = archive db @ [(release_key (qp_release pkg), qp_csv pkg)]"
    "releases db' = update_where (\<lambda>r. rl_id r = qp_release pkg) (\<lambda>r. r\<lparr>rl_r2_key := Some (release_key (qp_release pkg))\<rparr>) (releases db)"
    "consents db' = consents db"
    "\<exists>t. download_tokens db' = download_tokens db @ [t] \<and> link_for e (qp_release pkg) token nowIso t"
    "list_all (\<lambda>t. dt_hash t \<noteq> rt_sha256 e token) (download_tokens db)"
proof -
  let ?key = "release_key (qp_release pkg)"
  obtain put db1 where put: "archive_raw e ?key (qp_csv pkg) db = (put, db1)" by force
  with assms have "put" by (auto simp: deliver_package_def split: if_splits)
  with put have db1: "archive db1 = archive db @ [(?key, qp_csv pkg)]" "releases db1 = releases db"
    "consents db1 = consents db" "download_tokens db1 = download_tokens db"
    by (auto simp: archive_raw_def next_tick_def split: if_splits)
  let ?db2 = "set_release_key ?key (qp_release pkg) db1"
  obtain link db3 where link: "issueDownloadToken e (qp_release pkg) (member_actor member) DOWNLOAD_TTL_SECONDS nowIso None ?db2 = (link, db3)"
    by force
  with assms put \<open>put\<close> obtain i x where i: "link = Inr (token, i, x)" "sha = qp_sha256 pkg"
    and db': "db' = audit e ''quote_package_requested'' (Some member) (Some ''member'') (Some ''tesla_release'')
       (Some (qp_release pkg)) (Some (request_audit vin (qp_sha256 pkg))) nowIso db3"
    by (auto simp: deliver_package_def split: sum.splits)
  note issued = issueDownloadToken_issued [OF link [unfolded i(1)]]
  have frame: "archive db' = archive db3" "releases db' = releases db3" "consents db' = consents db3"
    "download_tokens db' = download_tokens db3"
    by (simp_all add: db' audit_def fresh_id_def)
  show "sha = qp_sha256 pkg" by (rule i)
  show "archive db' = archive db @ [(?key, qp_csv pkg)]" "consents db' = consents db"
    "releases db' = update_where (\<lambda>r. rl_id r = qp_release pkg) (\<lambda>r. r\<lparr>rl_r2_key := Some ?key\<rparr>) (releases db)"
    "\<exists>t. download_tokens db' = download_tokens db @ [t] \<and> link_for e (qp_release pkg) token nowIso t"
    "list_all (\<lambda>t. dt_hash t \<noteq> rt_sha256 e token) (download_tokens db)"
    using issued frame db1 by (simp_all add: set_release_key_def)
qed

text \<open>A request that ended with a link: one release, one artifact, one live link to it.\<close>

lemma requestQuote_ready:
  assumes ready: "requestQuote e member vin periodStart periodEnd db = (Quote_ready token sha, db')"
  defines "i \<equiv> fst (fresh_id e (snd (now_iso e db)))"
  assumes fresh: "list_all (\<lambda>r. rl_id r \<noteq> i) (releases db)"
  shows "\<exists>r t csv. releases db' = releases db @ [r] \<and> rl_id r = i \<and> rl_type r = Quote_package \<and>
     rl_subject_member r = Some member \<and> rl_r2_key r = Some (release_key i) \<and>
     archive db' = archive db @ [(release_key i, csv)] \<and> rt_sha256 e csv = sha \<and>
     download_tokens db' = download_tokens db @ [t] \<and> link_for e i token (rt_clock e (tick db)) t \<and>
     list_all (\<lambda>t. dt_hash t \<noteq> rt_sha256 e token) (download_tokens db)"
    "consents db' = consents db" "el_eligible (releaseEligibility db member)"
proof -
  let ?db1 = "snd (now_iso e db)" and ?now = "rt_clock e (tick db)"
  let ?input = "\<lparr>pi_member = member, pi_vin = vin, pi_period_start = periodStart, pi_period_end = periodEnd,
     pi_now = ?now, pi_requested_by = member_actor member, pi_vehicle_config = Map.empty\<rparr>"
  have db1: "releases ?db1 = releases db" "consents ?db1 = consents db" "archive ?db1 = archive db"
    "download_tokens ?db1 = download_tokens db" "releaseEligibility ?db1 member = releaseEligibility db member"
    by (simp_all add: now_iso_def releaseEligibility_def)
  obtain result db2 where b: "buildQuotePackage e ?input ?db1 = (result, db2)" by force
  with ready obtain pkg where pkg: "result = Inr pkg"
    and d: "deliver_package e member vin ?now pkg db2 = (Quote_ready token sha, db')"
    by (auto simp: requestQuote_def Let_def now_iso_def split: sum.splits if_splits)
  note built = buildQuotePackage_built [OF b [unfolded pkg], unfolded db1, simplified]
  note del = deliver_package_ready [OF d]
  from built(2) obtain r where r: "releases db2 = releases db @ [r]" "rl_id r = qp_release pkg"
    "rl_type r = Quote_package" "rl_subject_member r = Some member" by (auto simp: db1)
  have i: "qp_release pkg = i" using built(7) by (simp add: i_def)
  have "releases db' = releases db @ [r\<lparr>rl_r2_key := Some (release_key i)\<rparr>]"
    unfolding del(3) r(1) using r(2) fresh update_where_id [of "releases db" "\<lambda>r. rl_id r = i"]
    by (auto simp: i list_all_iff update_where_def)
  moreover have "rt_sha256 e (qp_csv pkg) = sha" using del(1) built(1) by simp
  ultimately show "\<exists>r t csv. releases db' = releases db @ [r] \<and> rl_id r = i \<and> rl_type r = Quote_package \<and>
     rl_subject_member r = Some member \<and> rl_r2_key r = Some (release_key i) \<and>
     archive db' = archive db @ [(release_key i, csv)] \<and> rt_sha256 e csv = sha \<and>
     download_tokens db' = download_tokens db @ [t] \<and> link_for e i token ?now t \<and>
     list_all (\<lambda>t. dt_hash t \<noteq> rt_sha256 e token) (download_tokens db)"
    using del(2,5,6) built(5,6) db1 r i
    by (intro exI [of _ "r\<lparr>rl_r2_key := Some (release_key i)\<rparr>"]) auto
  show "consents db' = consents db" using del(4) built(4) db1 by simp
  show "el_eligible (releaseEligibility db member)" using built(3) by (simp add: db1)
qed

text \<open>A consenting member's request for a known vehicle is answered with a link.\<close>

lemma buildQuotePackage_succeeds:
  assumes "el_eligible (releaseEligibility db (pi_member input))"
    and "first_where (\<lambda>m. m_id m = pi_member input) (members db) = Some m" "vehicleExists db (pi_vin input)"
  shows "\<exists>pkg. fst (buildQuotePackage e input db) = Inr pkg"
  using assms by (simp add: buildQuotePackage_def fresh_id_def Let_def vehicleExists_def)

lemma requestQuote_succeeds:
  assumes el: "el_eligible (releaseEligibility db member)"
    and known: "first_where (\<lambda>m. m_id m = member) (members db) = Some m" "vehicleExists db vin"
    and put: "\<And>n k. ie_put e n k"
    and hash: "\<And>n. list_all (\<lambda>t. dt_hash t \<noteq> rt_sha256 e (concat (map hex_byte (rt_random e n)))) (download_tokens db)"
  shows "\<exists>token sha. fst (requestQuote e member vin a b db) = Quote_ready token sha"
proof -
  let ?now = "rt_clock e (tick db)" and ?db1 = "db\<lparr>tick := Suc (tick db)\<rparr>"
  let ?input = "\<lparr>pi_member = member, pi_vin = vin, pi_period_start = a, pi_period_end = b, pi_now = ?now,
     pi_requested_by = member_actor member, pi_vehicle_config = Map.empty\<rparr>"
  obtain result db2 where b: "buildQuotePackage e ?input ?db1 = (result, db2)" by force
  obtain pkg where pkg: "fst (buildQuotePackage e ?input ?db1) = Inr pkg"
    using buildQuotePackage_succeeds [of ?db1 ?input m e] el known
    by (auto simp: releaseEligibility_def vehicleExists_def)
  then have result: "result = Inr pkg" using b by simp
  note built = buildQuotePackage_built [OF b [unfolded result]]
  let ?db3 = "set_release_key (release_key (qp_release pkg)) (qp_release pkg)
     (snd (archive_raw e (release_key (qp_release pkg)) (qp_csv pkg) db2))"
  have "download_tokens ?db3 = download_tokens db" "list_ex (\<lambda>r. rl_id r = qp_release pkg) (releases ?db3)"
    using built(2,5) by (auto simp: set_release_key_def archive_raw_def next_tick_def list_ex_iff set_update_where)
  then obtain token i x where "fst (issueDownloadToken e (qp_release pkg) (member_actor member) DOWNLOAD_TTL_SECONDS
      ?now None ?db3) = Inr (token, i, x)"
    using hash [of "tick ?db3"] by (auto simp: issueDownloadToken_def fresh_id_def Let_def list_ex_iff list_all_iff)
  then have "fst (deliver_package e member vin ?now pkg db2) = Quote_ready token (qp_sha256 pkg)"
    using put by (auto simp: deliver_package_def archive_raw_def Let_def case_prod_beta)
  then show ?thesis by (simp add: requestQuote_def now_iso_def b result Let_def)
qed

lemma find_appended: "list_all (\<lambda>x. \<not> P x) xs \<Longrightarrow> P y \<Longrightarrow> first_where P (xs @ [y]) = Some y"
  by (induction xs) auto

lemma clock_frame:
  "token_record (db\<lparr>tick := n\<rparr>) h = token_record db h"
  "load_artifact (db\<lparr>tick := n\<rparr>) k = load_artifact db k"
  "releaseEligibility (db\<lparr>tick := n\<rparr>) m = releaseEligibility db m"
  by (auto simp: token_record_def load_artifact_def archive_get_def releaseEligibility_def split: option.split)

text \<open>A live link to a stored package of a consenting member is redeemed, and counted.\<close>

lemma getDownload_serves:
  assumes link: "token_record db (rt_sha256 e token) = Some (t, r)"
    and live: "dt_revoked_at t = None" "rt_clock e (tick db) < dt_expires_at t" "dt_use_count t < dt_max_uses t"
    and subject: "rl_type r = Quote_package" "rl_subject_member r = Some m" "m \<noteq> []"
    and consent: "el_eligible (releaseEligibility db m)"
    and stored: "load_artifact db (dt_release t) = Some csv"
  shows "fst (getDownload e token ip ua db) = Quote_csv (dt_release t) csv"
    "download_tokens (snd (getDownload e token ip ua db)) =
       update_where (\<lambda>x. dt_id x = dt_id t) (\<lambda>x. x\<lparr>dt_use_count := Suc (dt_use_count x)\<rparr>) (download_tokens db)"
    "releases (snd (getDownload e token ip ua db)) = releases db"
proof -
  let ?e = "e\<lparr>re_artifact := \<lambda>n. load_artifact (snd (now_iso e db))\<rparr>"
  have frame: "token_record (snd (now_iso e db)) h = token_record db h" "load_artifact (snd (now_iso e db)) k = load_artifact db k"
    "releaseEligibility (snd (now_iso e db)) m = releaseEligibility db m" for h k
    by (simp_all add: now_iso_def clock_frame)
  have "redeemDownloadToken ?e token (rt_clock e (tick db)) (hashIp e ip) ua (snd (now_iso e db)) =
     (let (accessId, db1) = fresh_id e ((snd (now_iso e db))\<lparr>tick := Suc (tick (snd (now_iso e db)))\<rparr>)
      in (\<lparr>rr_ok = True, rr_reason = ''ok'', rr_release = Some (dt_release t), rr_csv = Some csv\<rparr>,
          db1\<lparr>download_tokens := update_where (\<lambda>x. dt_id x = dt_id t)
                (\<lambda>x. x\<lparr>dt_use_count := Suc (dt_use_count x)\<rparr>) (download_tokens db1),
              accesses := accesses db1 @
                [access accessId (dt_release t) ''token-holder'' ''underwriter'' Download (rt_clock e (tick db)) (hashIp e ip) ua]\<rparr>))"
    using live subject consent stored
    by (simp add: redeemDownloadToken_def frame link consent_refusal_def fresh_id_def Let_def)
  then show "fst (getDownload e token ip ua db) = Quote_csv (dt_release t) csv"
    "download_tokens (snd (getDownload e token ip ua db)) =
       update_where (\<lambda>x. dt_id x = dt_id t) (\<lambda>x. x\<lparr>dt_use_count := Suc (dt_use_count x)\<rparr>) (download_tokens db)"
    "releases (snd (getDownload e token ip ua db)) = releases db"
    by (simp_all add: getDownload_def Let_def now_iso_def fresh_id_def)
qed

lemma getDownload_used_up:
  assumes "token_record db (rt_sha256 e token) = Some (t, r)" "dt_revoked_at t = None" "dt_max_uses t \<le> dt_use_count t"
  shows "\<exists>reason. fst (getDownload e token ip ua db) = Quote_link_unavailable reason \<and> reason \<in> {''expired'', ''already_used''}"
  using assms by (auto simp: getDownload_def now_iso_def redeemDownloadToken_def clock_frame refused_def Let_def)

section \<open>Offers and policies\<close>

text \<open>The four routes as calls, and a run of them; each call comes with its own environment.\<close>

datatype quote_call =
  Call_request "string option" "string option" "string option" "string option"
| Call_download string "string option" "string option"
| Call_response "string option" response_body
| Call_decide "string option" "string option" "string option"

fun quote_step :: "release_env \<times> (string \<Rightarrow> string option) \<times> quote_call \<Rightarrow> quote_db \<Rightarrow> quote_db" where
  "quote_step (e, kv, Call_request sessionId vin periodStart periodEnd) db =
     snd (postQuoteRequest e kv sessionId vin periodStart periodEnd db)"
| "quote_step (e, kv, Call_download token ip ua) db = snd (getDownload e token ip ua db)"
| "quote_step (e, kv, Call_response provided body) db = snd (postQuoteResponse e provided body db)"
| "quote_step (e, kv, Call_decide sessionId responseId decision) db =
     snd (postQuoteDecide e kv sessionId responseId decision db)"

definition accepted_bound :: "quote_response_row list \<Rightarrow> policy_row list \<Rightarrow> bool" where
  "accepted_bound rs ps \<longleftrightarrow>
     list_all (\<lambda>r. if qs_status r = Resp_accepted then list_ex (\<lambda>p. pl_response p = Some (qs_id r)) ps else True) rs"

definition one_active_per_vehicle :: "policy_row list \<Rightarrow> bool" where
  "one_active_per_vehicle ps \<longleftrightarrow> distinct (map pl_vin (filter (\<lambda>p. pl_status p = Pol_active) ps))"

definition policies_bound :: "('a) quote_db_scheme \<Rightarrow> bool" where
  "policies_bound db \<longleftrightarrow> accepted_bound (quote_responses db) (policies db) \<and> one_active_per_vehicle (policies db)"

abbreviation offers :: "('a) quote_db_scheme \<Rightarrow> quote_response_row list \<times> policy_row list" where
  "offers db \<equiv> (quote_responses db, policies db)"

lemma offers_tick [simp]: "offers (db\<lparr>tick := n\<rparr>) = offers db"
  by simp

lemma offers_buildQuotePackage: "offers (snd (buildQuotePackage e input db)) = offers db"
  by (simp add: buildQuotePackage_def fresh_id_def Let_def split: option.split)

lemma offers_issueDownloadToken: "offers (snd (issueDownloadToken e i who n t u db)) = offers db"
  by (simp add: issueDownloadToken_def fresh_id_def Let_def)

lemmas offers_package = offers_buildQuotePackage [unfolded prod.inject] offers_issueDownloadToken [unfolded prod.inject]

lemma offers_deliver_package: "offers (snd (deliver_package e member vin nowIso pkg db)) = offers db"
proof -
  let ?key = "release_key (qp_release pkg)"
  let ?db1 = "snd (archive_raw e ?key (qp_csv pkg) db)"
  let ?l = "issueDownloadToken e (qp_release pkg) (member_actor member) DOWNLOAD_TTL_SECONDS nowIso None
     (set_release_key ?key (qp_release pkg) ?db1)"
  have 1: "offers ?db1 = offers db" by (simp add: archive_raw_def next_tick_def)
  then have "offers (snd ?l) = offers db" by (simp add: offers_package set_release_key_def)
  with 1 show ?thesis
    by (cases "fst ?l") (simp_all add: deliver_package_def audit_def fresh_id_def Let_def case_prod_beta)
qed

lemma offers_requestQuote: "offers (snd (requestQuote e member vin a b db)) = offers db"
proof -
  let ?now = "rt_clock e (tick db)"
  let ?b = "buildQuotePackage e \<lparr>pi_member = member, pi_vin = vin, pi_period_start = a, pi_period_end = b, pi_now = ?now,
     pi_requested_by = member_actor member, pi_vehicle_config = Map.empty\<rparr> (db\<lparr>tick := Suc (tick db)\<rparr>)"
  have "offers (snd ?b) = offers db" by (simp add: offers_package)
  then show ?thesis
    using offers_deliver_package [of e member vin ?now _ "snd ?b"]
    by (cases "fst ?b") (simp_all add: requestQuote_def now_iso_def Let_def case_prod_beta)
qed

lemma offers_redeem: "offers (snd (redeemDownloadToken e token nowIso ip ua db)) = offers db"
proof (cases "token_record db (rt_sha256 e token)")
  case None
  then show ?thesis by (simp add: redeemDownloadToken_def)
next
  case (Some tr)
  then show ?thesis
    by (cases tr; cases "consent_refusal db (snd tr)"; cases "re_artifact e (tick db) (dt_release (fst tr))")
      (simp_all add: redeemDownloadToken_def fresh_id_def Let_def)
qed

lemma offers_getDownload: "offers (snd (getDownload e token ip ua db)) = offers db"
  using offers_redeem [of "e\<lparr>re_artifact := \<lambda>n. load_artifact (snd (now_iso e db))\<rparr>" token "fst (now_iso e db)"
      "hashIp e ip" ua "snd (now_iso e db)"]
  by (simp add: getDownload_def Let_def case_prod_beta now_iso_def)

lemma accepted_bound_append:
  assumes "accepted_bound rs ps" "qs_status r \<noteq> Resp_accepted"
  shows "accepted_bound (rs @ [r]) ps"
  using assms by (simp add: accepted_bound_def)

lemma accepted_bound_declined:
  "accepted_bound rs ps \<Longrightarrow> accepted_bound (update_where P (\<lambda>r. r\<lparr>qs_status := Resp_declined,
     qs_decided_at := t, qs_decision_reason := why\<rparr>) rs) ps"
  by (auto simp: accepted_bound_def list_all_iff set_update_where)

lemma accepted_bound_accepted:
  assumes "accepted_bound rs ps" "pl_response p = Some i"
  shows "accepted_bound (update_where (\<lambda>r. qs_id r = i) (\<lambda>r. r\<lparr>qs_status := Resp_accepted,
     qs_decided_at := t, qs_decision_reason := why\<rparr>) rs) (ps @ [p])"
  using assms by (auto simp: accepted_bound_def list_all_iff set_update_where)

lemma one_active_append:
  assumes "one_active_per_vehicle ps" "policy_allowed db p" "policies db = ps"
  shows "one_active_per_vehicle (ps @ [p])"
  using assms by (auto simp: one_active_per_vehicle_def policy_allowed_def list_ex_iff)

lemma bound_response: "policies_bound db \<Longrightarrow> policies_bound (snd (postQuoteResponse e provided body db))"
  by (auto simp: policies_bound_def postQuoteResponse_def now_iso_def fresh_id_def Let_def accepted_bound_append
      split: option.split)

lemma bound_decline: "policies_bound db \<Longrightarrow> policies_bound (declineQuote e member i t db)"
  by (simp add: policies_bound_def declineQuote_def audit_def fresh_id_def mark_response_def accepted_bound_declined)

lemma bound_accept: "policies_bound db \<Longrightarrow> policies_bound (snd (acceptQuote e member r q t db))"
  by (auto simp: policies_bound_def acceptQuote_def fresh_id_def mark_response_def Let_def
      intro!: accepted_bound_accepted one_active_append)

lemma bound_decide: "policies_bound db \<Longrightarrow> policies_bound (snd (postQuoteDecide e kv sessionId i d db))"
proof -
  assume b: "policies_bound db"
  then have b1: "policies_bound (db\<lparr>tick := Suc (tick db)\<rparr>)" by (simp add: policies_bound_def)
  have "policies_bound (snd (decideQuote e member x y db))" for member x y
    using b bound_decline [OF b1] bound_accept [OF b1]
    by (auto simp: decideQuote_def now_iso_def split: option.split)
  with b show ?thesis by (simp add: postQuoteDecide_def split: option.split)
qed

lemma bound_step: "policies_bound db \<Longrightarrow> policies_bound (quote_step call db)"
proof -
  assume b: "policies_bound db"
  obtain e kv c where call: "call = (e, kv, c)" by (cases call) auto
  have same: "offers db' = offers db \<Longrightarrow> policies_bound db'" for db' :: quote_db
    using b by (simp add: policies_bound_def)
  show ?thesis
  proof (cases c)
    case (Call_request s v x y)
    have "offers (snd (postQuoteRequest e kv s v x y db)) = offers db"
      by (simp add: postQuoteRequest_def offers_requestQuote [unfolded prod.inject] split: option.split)
    then show ?thesis by (simp add: call Call_request same)
  next
    case (Call_download token ip ua)
    then show ?thesis by (simp add: call same offers_getDownload [unfolded prod.inject])
  next
    case (Call_response p body)
    with b show ?thesis by (simp add: call bound_response)
  next
    case (Call_decide s i d)
    with b show ?thesis by (simp add: call bound_decide)
  qed
qed

lemma bound_run: "policies_bound db \<Longrightarrow> policies_bound (fold quote_step calls db)"
  by (induction calls arbitrary: db) (simp_all add: bound_step)

section \<open>The owner of the vehicle plays no part\<close>

definition reassign :: "(vehicle_row \<Rightarrow> member_id option) \<Rightarrow> ('a) store_db_scheme \<Rightarrow> ('a) store_db_scheme" where
  "reassign owner db = db\<lparr>vehicles := map (\<lambda>v. v\<lparr>v_member := owner v\<rparr>) (vehicles db)\<rparr>"

lemma reassign_vehicleExists: "vehicleExists (reassign owner db) vin = vehicleExists db vin"
  by (simp add: vehicleExists_def reassign_def list_ex_iff)

lemma reassign_package:
  "buildQuotePackage e input (reassign owner db) = map_prod id (reassign owner) (buildQuotePackage e input db)"
proof (cases "first_where (\<lambda>m. m_id m = pi_member input) (members db)")
  case None
  then show ?thesis
    by (simp add: buildQuotePackage_def reassign_def releaseEligibility_def Let_def split: option.split)
next
  case (Some m)
  have "releaseEligibility (reassign owner db) = releaseEligibility db" "package_profile (reassign owner db) = package_profile db"
    by (simp_all add: fun_eq_iff reassign_def releaseEligibility_def package_profile_def)
  with Some show ?thesis using reassign_vehicleExists [of owner db]
    by (simp add: buildQuotePackage_def fresh_id_def Let_def vehicleExists_def reassign_def)
qed

lemma reassign_link:
  "issueDownloadToken e i who n t u (reassign owner db) = map_prod id (reassign owner) (issueDownloadToken e i who n t u db)"
  by (simp add: issueDownloadToken_def fresh_id_def Let_def reassign_def)

lemma reassign_archive_raw: "archive_raw e k x (reassign owner db) = map_prod id (reassign owner) (archive_raw e k x db)"
  by (simp add: archive_raw_def next_tick_def reassign_def)

lemma reassign_set_key: "set_release_key k i (reassign owner db) = reassign owner (set_release_key k i db)"
  by (simp add: set_release_key_def reassign_def)

lemma reassign_audit: "audit e a b c d f g t (reassign owner db) = reassign owner (audit e a b c d f g t db)"
  by (simp add: audit_def fresh_id_def Let_def reassign_def)

lemma reassign_deliver:
  "deliver_package e member vin t pkg (reassign owner db) = map_prod id (reassign owner) (deliver_package e member vin t pkg db)"
  by (auto simp: deliver_package_def reassign_archive_raw reassign_set_key reassign_link reassign_audit Let_def
      split: prod.splits sum.splits)

lemma reassign_request:
  "requestQuote e member vin a b (reassign owner db) = map_prod id (reassign owner) (requestQuote e member vin a b db)"
proof -
  have n: "now_iso e (reassign owner db) = map_prod id (reassign owner) (now_iso e db)"
    by (simp add: now_iso_def reassign_def)
  have h: "activePolicyHold (reassign owner x) m t = activePolicyHold x m t" for x :: "('a) release_db_scheme" and m t
    by (simp add: activePolicyHold_def reassign_def)
  show ?thesis
    by (auto simp: requestQuote_def n reassign_package reassign_deliver h Let_def split: prod.splits sum.splits)
qed

lemma reassign_post:
  "postQuoteRequest e kv sessionId vin a b (reassign owner db) =
     map_prod id (reassign owner) (postQuoteRequest e kv sessionId vin a b db)"
proof -
  have "session_member sessionId (reassign owner db) = session_member sessionId db"
    by (simp add: session_member_def reassign_def)
  then show ?thesis by (simp add: postQuoteRequest_def reassign_request split: option.split)
qed

section \<open>Properties\<close>

text \<open>C20: The link a quote request hands out serves the stored package once: a download in time answers with
  a file whose digest is the one the request reported, and the download after it is refused.\<close>

theorem requested_package_downloads_once:
  assumes ready: "requestQuote e member vin periodStart periodEnd db = (Quote_ready token sha, db1)"
    and fresh: "list_all (\<lambda>r. rl_id r \<noteq> fst (fresh_id e (snd (now_iso e db)))) (releases db)"
    and member: "member \<noteq> []"
    and hash: "rt_sha256 e1 = rt_sha256 e" "rt_sha256 e2 = rt_sha256 e"
    and in_time: "rt_clock e1 (tick db1) < re_add_seconds e (rt_clock e (tick db)) DOWNLOAD_TTL_SECONDS"
  shows "\<exists>csv reason. rt_sha256 e csv = sha \<and>
     fst (getDownload e1 token ip1 ua1 db1) = Quote_csv (fst (fresh_id e (snd (now_iso e db)))) csv \<and>
     fst (getDownload e2 token ip2 ua2 (snd (getDownload e1 token ip1 ua1 db1))) = Quote_link_unavailable reason \<and>
     reason \<in> {''expired'', ''already_used''}"
proof -
  let ?i = "fst (fresh_id e (snd (now_iso e db)))"
  note R = requestQuote_ready [OF ready fresh]
  from R(1) obtain r t csv where r: "releases db1 = releases db @ [r]" "rl_id r = ?i" "rl_type r = Quote_package"
      "rl_subject_member r = Some member" "rl_r2_key r = Some (release_key ?i)"
    and csv: "archive db1 = archive db @ [(release_key ?i, csv)]" "rt_sha256 e csv = sha"
    and t: "download_tokens db1 = download_tokens db @ [t]" "link_for e ?i token (rt_clock e (tick db)) t"
    and other: "list_all (\<lambda>t. dt_hash t \<noteq> rt_sha256 e token) (download_tokens db)" by blast
  have rel: "first_where (\<lambda>r. rl_id r = ?i) (releases db1) = Some r"
    unfolding r(1) by (rule find_appended) (use fresh r in simp_all)
  have tok: "first_where (\<lambda>t. dt_hash t = rt_sha256 e token) (download_tokens db1) = Some t"
    unfolding t(1) by (rule find_appended) (use other t(2) in \<open>simp_all add: link_for_def\<close>)
  have record_t: "token_record db1 (rt_sha256 e token) = Some (t, r)"
    using rel tok t(2) by (simp add: token_record_def link_for_def)
  have key: "release_key ?i \<noteq> []" by (simp add: release_key_def)
  have "load_artifact db1 (dt_release t) = Some csv"
    using rel r csv t(2) key by (simp add: load_artifact_def link_for_def blank_def archive_get_def)
  moreover have "el_eligible (releaseEligibility db1 member)"
    using R(3) by (simp add: releaseEligibility_def R(2))
  moreover have "dt_revoked_at t = None" "rt_clock e1 (tick db1) < dt_expires_at t" "dt_use_count t < dt_max_uses t"
    "dt_release t = ?i"
    using t(2) in_time by (simp_all add: link_for_def)
  ultimately have served: "fst (getDownload e1 token ip1 ua1 db1) = Quote_csv ?i csv"
    "download_tokens (snd (getDownload e1 token ip1 ua1 db1)) =
       update_where (\<lambda>x. dt_id x = dt_id t) (\<lambda>x. x\<lparr>dt_use_count := Suc (dt_use_count x)\<rparr>) (download_tokens db1)"
    "releases (snd (getDownload e1 token ip1 ua1 db1)) = releases db1"
    using getDownload_serves [of db1 e1 token t r member csv ip1 ua1] record_t r member by (simp_all add: hash)
  have "first_where (\<lambda>t. dt_hash t = rt_sha256 e token) (download_tokens (snd (getDownload e1 token ip1 ua1 db1))) =
      Some (t\<lparr>dt_use_count := Suc (dt_use_count t)\<rparr>)"
    unfolding served(2) by (subst find_update_where) (simp_all add: tok)
  then have "token_record (snd (getDownload e1 token ip1 ua1 db1)) (rt_sha256 e2 token) =
      Some (t\<lparr>dt_use_count := Suc (dt_use_count t)\<rparr>, r)"
    using rel t(2) by (simp add: token_record_def served(3) hash link_for_def)
  from getDownload_used_up [OF this, of ip2 ua2] t(2) served(1) csv(2) show ?thesis by (auto simp: link_for_def)
qed


text \<open>C5: Whatever calls the four quote routes receive, every accepted offer has a policy that cites it and no
  vehicle has two active policies.\<close>

theorem policies_stay_bound:
  assumes "policies_bound db"
  shows "policies_bound (fold quote_step calls db)"
  using assms by (rule bound_run)

text \<open>A decision does not check that the offer is still open: an accepted offer can be declined, and its
  policy stays active.\<close>

theorem accepted_offer_declined:
  assumes "signed_in kv sessionId db = Some member"
    and "response_of db i = Some (response, request)" "qr_member request = member" "i \<noteq> []"
    and "policy \<in> set (policies db)" "pl_response policy = Some i" "pl_status policy = Pol_active"
    and "postQuoteDecide e kv sessionId (Some i) (Some ''decline'') db = (reply, db')"
  shows "reply = Quote_dashboard \<and> policy \<in> set (policies db') \<and>
     map_option (qs_status \<circ> fst) (response_of db' i) = Some Resp_declined"
proof -
  have d: "postQuoteDecide e kv sessionId (Some i) (Some ''decline'') db =
      (Quote_dashboard, declineQuote e member i (rt_clock e (tick db)) (db\<lparr>tick := Suc (tick db)\<rparr>))"
    using assms(1-4) by (simp add: postQuoteDecide_def decideQuote_def form_text_def now_iso_def)
  let ?f = "\<lambda>r. r\<lparr>qs_status := Resp_declined, qs_decided_at := Some (rt_clock e (tick db)),
     qs_decision_reason := Some ''member_declined''\<rparr>"
  have r: "first_where (\<lambda>r. qs_id r = i) (quote_responses db) = Some response"
    "first_where (\<lambda>q. qr_id q = qs_request response) (quote_requests db) = Some request"
    using assms(2) by (auto simp: response_of_def split: option.splits)
  then have "first_where (\<lambda>r. qs_id r = i) (update_where (\<lambda>r. qs_id r = i) ?f (quote_responses db)) = Some (?f response)"
    by (subst find_update_where_same) simp_all
  with assms(5,8) d r(2) show ?thesis
    by (auto simp: declineQuote_def audit_def fresh_id_def mark_response_def response_of_def Let_def)
qed

text \<open>C29: The vehicle of a quote request is not checked against the member: changing the owners of all
  vehicles in any way changes neither the answer nor the package that is stored.\<close>

theorem quote_ignores_vehicle_owner:
  "fst (postQuoteRequest e kv sessionId vin periodStart periodEnd (reassign owner db)) =
     fst (postQuoteRequest e kv sessionId vin periodStart periodEnd db) \<and>
   archive (snd (postQuoteRequest e kv sessionId vin periodStart periodEnd (reassign owner db))) =
     archive (snd (postQuoteRequest e kv sessionId vin periodStart periodEnd db))"
  unfolding reassign_post by (simp add: reassign_def)

section \<open>Concrete runs\<close>

definition sample_quote_request :: quote_request_row where
  "sample_quote_request = \<lparr>qr_id = ''Q'', qr_member = ''M1'', qr_vin = ''V1'', qr_status = Req_sent, qr_decided_at = None\<rparr>"

definition sample_response :: quote_response_row where
  "sample_response = \<lparr>qs_id = ''RS'', qs_request = ''Q'', qs_insurer_ref = ''I'', qs_insurer_name = None, qs_premium = Some 9,
     qs_excess = None, qs_cover_type = None, qs_terms = None, qs_status = Resp_accepted, qs_received_at = ''t0'',
     qs_decided_at = Some ''t1'', qs_decision_reason = Some ''member_accepted'', qs_release = None\<rparr>"

definition sample_policy :: policy_row where
  "sample_policy = \<lparr>pl_id = ''P'', pl_member = ''M1'', pl_vin = Some ''V1'', pl_response = Some ''RS'', pl_insurer_ref = ''I'',
     pl_insurer_name = None, pl_cover_start = ''t1'', pl_cover_end = ''t9'', pl_status = Pol_active, pl_bound_at = ''t1''\<rparr>"

definition sample_session :: session_row where
  "sample_session = \<lparr>s_id = ''S'', s_member = ''M1'', s_scope = ''all'', s_created_at = ''t0'', s_expires_at = ''t9'', s_user_agent = None\<rparr>"

definition sample_quote_db :: quote_db where
  "sample_quote_db = release_db.extend (sample_release_db\<lparr>sessions := [sample_session], policies := [sample_policy]\<rparr>)
     \<lparr>quote_requests = [sample_quote_request], quote_responses = [sample_response]\<rparr>"

definition sample_quote_env :: "string \<Rightarrow> release_env" where
  "sample_quote_env t = sample_release_env\<lparr>rt_clock := (\<lambda>_. t), re_add_seconds := (\<lambda>_ _. ''t8'')\<rparr>"

lemmas sample_quote_simps = sample_quote_db_def sample_quote_env_def sample_quote_request_def sample_response_def
  sample_policy_def sample_session_def release_db.extend_def release_env.extend_def ingest_env.extend_def

lemma sample_eligible: "el_eligible (releaseEligibility sample_quote_db ''M1'')"
  by (simp add: releaseEligibility_def sample_quote_simps sample_release_simps)

lemma sample_request_ready:
  "\<exists>token sha. fst (requestQuote (sample_quote_env ''t5'') ''M1'' ''V1'' ''a'' ''b'' sample_quote_db) = Quote_ready token sha"
proof (rule requestQuote_succeeds)
  show "el_eligible (releaseEligibility sample_quote_db ''M1'')" by (rule sample_eligible)
  show "first_where (\<lambda>m. m_id m = ''M1'') (members sample_quote_db) = Some sample_member"
    "vehicleExists sample_quote_db ''V1''"
    by (simp_all add: sample_quote_simps sample_release_simps sample_member_def sample_vehicle_def vehicleExists_def)
  show "ie_put (sample_quote_env ''t5'') n k" for n k
    by (simp add: sample_quote_simps sample_release_simps)
  show "list_all (\<lambda>t. dt_hash t \<noteq> rt_sha256 (sample_quote_env ''t5'') (concat (map hex_byte (rt_random (sample_quote_env ''t5'') n))))
      (download_tokens sample_quote_db)" for n
    by (simp add: sample_quote_simps sample_release_simps hex_byte_def)
qed

lemma length_time_part: "length (time_part n r acc) = n + length acc"
  by (induction n r acc rule: time_part.induct) simp_all

lemma sample_id_fresh: "newId n r \<noteq> ''RL''"
proof
  assume "newId n r = ''RL''"
  then have "length (newId n r) = 2" by simp
  then show False by (simp add: newId_def length_time_part)
qed

theorem requested_package_downloads_once_witness:
  "\<exists>token sha csv reason. fst (requestQuote (sample_quote_env ''t5'') ''M1'' ''V1'' ''a'' ''b'' sample_quote_db) = Quote_ready token sha \<and>
     fst (getDownload (sample_quote_env ''t6'') token None None
       (snd (requestQuote (sample_quote_env ''t5'') ''M1'' ''V1'' ''a'' ''b'' sample_quote_db))) =
       Quote_csv (fst (fresh_id (sample_quote_env ''t5'') (snd (now_iso (sample_quote_env ''t5'') sample_quote_db)))) csv \<and>
     fst (getDownload (sample_quote_env ''t7'') token None None (snd (getDownload (sample_quote_env ''t6'') token None None
       (snd (requestQuote (sample_quote_env ''t5'') ''M1'' ''V1'' ''a'' ''b'' sample_quote_db))))) =
       Quote_link_unavailable reason"
proof -
  let ?e = "sample_quote_env ''t5''"
  obtain token sha where ready: "requestQuote ?e ''M1'' ''V1'' ''a'' ''b'' sample_quote_db =
      (Quote_ready token sha, snd (requestQuote ?e ''M1'' ''V1'' ''a'' ''b'' sample_quote_db))"
    using sample_request_ready by (metis prod.collapse)
  have fresh: "list_all (\<lambda>r. rl_id r \<noteq> fst (fresh_id ?e (snd (now_iso ?e sample_quote_db)))) (releases sample_quote_db)"
    by (simp add: sample_quote_db_def release_db.extend_def sample_release_simps fresh_id_def sample_id_fresh [symmetric])
  have clock: "rt_clock (sample_quote_env t) n = t" "rt_sha256 (sample_quote_env t) = (\<lambda>s. s)"
    "re_add_seconds (sample_quote_env t) = (\<lambda>_ _. ''t8'')" for t n
    by (simp_all add: sample_quote_simps sample_release_simps)
  have "\<exists>csv reason. rt_sha256 ?e csv = sha \<and>
     fst (getDownload (sample_quote_env ''t6'') token None None (snd (requestQuote ?e ''M1'' ''V1'' ''a'' ''b'' sample_quote_db))) =
       Quote_csv (fst (fresh_id ?e (snd (now_iso ?e sample_quote_db)))) csv \<and>
     fst (getDownload (sample_quote_env ''t7'') token None None (snd (getDownload (sample_quote_env ''t6'') token None None
       (snd (requestQuote ?e ''M1'' ''V1'' ''a'' ''b'' sample_quote_db))))) = Quote_link_unavailable reason \<and>
     reason \<in> {''expired'', ''already_used''}"
    by (rule requested_package_downloads_once [OF ready fresh]) (simp_all add: clock less_char_def)
  moreover from ready have "fst (requestQuote ?e ''M1'' ''V1'' ''a'' ''b'' sample_quote_db) = Quote_ready token sha"
    by (metis fst_conv)
  ultimately show ?thesis by blast
qed

theorem policies_stay_bound_witness:
  "policies_bound (fold quote_step
     [(sample_quote_env ''t5'', (\<lambda>_. Some ''1''), Call_decide (Some ''S'') (Some ''RS'') (Some ''decline'')),
      (sample_quote_env ''t6'', (\<lambda>_. Some ''1''), Call_decide (Some ''S'') (Some ''RS'') (Some ''accept''))]
     sample_quote_db)"
  by (rule policies_stay_bound)
    (simp add: policies_bound_def accepted_bound_def one_active_per_vehicle_def sample_quote_simps)

theorem accepted_offer_declined_witness:
  "fst (postQuoteDecide (sample_quote_env ''t5'') (\<lambda>_. Some ''1'') (Some ''S'') (Some ''RS'') (Some ''decline'') sample_quote_db) =
     Quote_dashboard \<and>
   sample_policy \<in> set (policies (snd (postQuoteDecide (sample_quote_env ''t5'') (\<lambda>_. Some ''1'') (Some ''S'') (Some ''RS'')
     (Some ''decline'') sample_quote_db)))"
proof -
  have "fst (postQuoteDecide (sample_quote_env ''t5'') (\<lambda>_. Some ''1'') (Some ''S'') (Some ''RS'') (Some ''decline'') sample_quote_db) =
      Quote_dashboard \<and>
    sample_policy \<in> set (policies (snd (postQuoteDecide (sample_quote_env ''t5'') (\<lambda>_. Some ''1'') (Some ''S'') (Some ''RS'')
      (Some ''decline'') sample_quote_db))) \<and>
    map_option (qs_status \<circ> fst) (response_of (snd (postQuoteDecide (sample_quote_env ''t5'') (\<lambda>_. Some ''1'') (Some ''S'')
      (Some ''RS'') (Some ''decline'') sample_quote_db)) ''RS'') = Some Resp_declined"
  proof (rule accepted_offer_declined [OF _ _ _ _ _ _ _ surjective_pairing])
    show "signed_in (\<lambda>_. Some ''1'') (Some ''S'') sample_quote_db = Some ''M1''"
      by (simp add: signed_in_def session_live_def session_member_def blank_def sample_quote_simps)
    show "response_of sample_quote_db ''RS'' = Some (sample_response, sample_quote_request)"
      by (simp add: response_of_def sample_quote_simps)
  qed (simp_all add: sample_quote_simps)
  then show ?thesis by blast
qed

end
