(* ===== verification/VehicleConfig.thy ===== *)
theory VehicleConfig
  imports Quotes Sorting ApplyQueue
begin

text \<open>
  \<open>vehicle-config.ts\<close>, and the removal of a vehicle's configuration in \<open>index.ts\<close>: the fields block,
  the request body, the row, the classification of a skip, the check of the input and the error
  text that is stored.  \<open>localeCompare\<close> is a parameter \<open>le\<close>, and so is \<open>JSON.stringify\<close>.
\<close>

section \<open>The configuration\<close>

record field_config =
  fg_interval :: int
  fg_minimum_delta :: "rat option"

definition SYNC_INTERVAL :: string where
  "SYNC_INTERVAL = ''60 minutes''"

definition field_config_of :: "collected_field \<Rightarrow> field_config" where
  "field_config_of row =
     \<lparr>fg_interval = cf_interval row,
      fg_minimum_delta = (case cf_min_delta row of
          None \<Rightarrow> None
        | Some d \<Rightarrow> if cf_tier row \<noteq> Once \<and> 0 < d then Some d else None)\<rparr>"

definition buildFieldConfig :: "(string \<Rightarrow> string \<Rightarrow> bool) \<Rightarrow> collected_field list \<Rightarrow> (field_key \<times> field_config) list" where
  "buildFieldConfig le rows =
     fold (\<lambda>row out. AList.update (cf_key row) (field_config_of row) out)
       (js_sort (\<lambda>a b. le (cf_key a) (cf_key b)) rows) []"

definition field_config_json :: "field_config \<Rightarrow> json" where
  "field_config_json c =
     JObj ((''interval_seconds'', JNum (of_int (fg_interval c))) #
       (case fg_minimum_delta c of None \<Rightarrow> [] | Some d \<Rightarrow> [(''minimum_delta'', JNum d)]))"

definition fields_json :: "(field_key \<times> field_config) list \<Rightarrow> json" where
  "fields_json fs = JObj (map (\<lambda>(k, c). (k, field_config_json c)) fs)"

record telemetry_config_input =
  ti_vins :: "vin list"
  ti_hostname :: string
  ti_port :: int
  ti_ca :: string
  ti_fields :: "collected_field list"

definition buildTelemetryConfig :: "(string \<Rightarrow> string \<Rightarrow> bool) \<Rightarrow> telemetry_config_input \<Rightarrow> json" where
  "buildTelemetryConfig le input =
     JObj [(''vins'', JArr (map JStr (ti_vins input))),
           (''config'', JObj [(''hostname'', JStr (ti_hostname input)), (''port'', JNum (of_int (ti_port input))),
              (''ca'', JStr (ti_ca input)), (''fields'', fields_json (buildFieldConfig le (ti_fields input)))])]"

section \<open>Skips\<close>

datatype skip_reason = Missing_key | Unsupported_hardware | Unsupported_firmware | Max_configs

text \<open>\<open>replace(/[\s-]+/g, '_')\<close>: every run of spaces and hyphens becomes one underscore.\<close>

fun squash_runs :: "(char \<Rightarrow> bool) \<Rightarrow> char \<Rightarrow> bool \<Rightarrow> string \<Rightarrow> string" where
  "squash_runs P c inside [] = []"
| "squash_runs P c inside (x # xs) =
     (if P x then (if inside then squash_runs P c True xs else c # squash_runs P c True xs)
      else x # squash_runs P c False xs)"

definition mapSkipReason :: "json option \<Rightarrow> skip_reason option" where
  "mapSkipReason raw =
     (case raw of
        Some (JStr s) \<Rightarrow>
          (let norm = squash_runs (\<lambda>c. is_space c \<or> c = CHR ''-'') (CHR ''_'') False (to_lower (trim s))
           in map_of [(''missing_key'', Missing_key), (''unsupported_hardware'', Unsupported_hardware),
                      (''unsupported_firmware'', Unsupported_firmware), (''max_configs'', Max_configs)] norm)
      | _ \<Rightarrow> None)"

section \<open>The row\<close>

definition buildConfigRecord ::
  "(string \<Rightarrow> string \<Rightarrow> bool) \<Rightarrow> (json \<Rightarrow> string) \<Rightarrow> vin \<Rightarrow> string \<Rightarrow> int \<Rightarrow> collected_field list \<Rightarrow> iso \<Rightarrow>
   string option \<Rightarrow> telemetry_config_row" where
  "buildConfigRecord le stringify vin hostname port cfs now syncInterval =
     \<lparr>tc_id = ''cfg_'' @ vin @ ''_'' @ now, tc_vin = vin, tc_state = CPending, tc_skip_reason = None,
      tc_sync_interval = (case syncInterval of None \<Rightarrow> SYNC_INTERVAL | Some s \<Rightarrow> s), tc_hostname = hostname,
      tc_port = port, tc_fields_json = stringify (fields_json (buildFieldConfig le cfs)), tc_version = 1,
      tc_applied_at = None, tc_verified_at = None, tc_last_error = None, tc_created_at = now\<rparr>"

definition proxyConfigured :: "string option \<Rightarrow> bool" where
  "proxyConfigured url =
     (case url of None \<Rightarrow> False | Some s \<Rightarrow> starts_with s ''http://'' \<or> starts_with s ''https://'')"

definition proxyBase :: "string option \<Rightarrow> string option" where
  "proxyBase url =
     (if proxyConfigured url then Some (rev (dropWhile (\<lambda>c. c = CHR ''/'') (rev (the url)))) else None)"

section \<open>The stored error\<close>

definition UPSTREAM_ERROR_MAX :: nat where
  "UPSTREAM_ERROR_MAX = 300"

definition word_char :: "char \<Rightarrow> bool" where
  "word_char c = (let n = (of_char c :: nat)
     in is_digit c \<or> (65 \<le> n \<and> n \<le> 90) \<or> (97 \<le> n \<and> n \<le> 122) \<or> n = 95)"

definition token_char :: "char \<Rightarrow> bool" where
  "token_char c \<longleftrightarrow> word_char c \<or> c = CHR ''-''"

text \<open>
  What follows a match of \<open>eyJ[..]{6,}\.[..]+\.[..]*\<close> at the start of the text; the class does not
  hold the dot, so the greedy match needs no backtracking.
\<close>

definition jwt_rest :: "string \<Rightarrow> string option" where
  "jwt_rest s =
     (if \<not> starts_with s ''eyJ'' then None
      else (let a = takeWhile token_char (drop 3 s); t = dropWhile token_char (drop 3 s)
            in if length a < 6 \<or> \<not> starts_with t ''.'' then None
               else (let b = takeWhile token_char (drop 1 t); u = dropWhile token_char (drop 1 t)
                     in if b = [] \<or> \<not> starts_with u ''.'' then None
                        else Some (dropWhile token_char (drop 1 u)))))"

lemma jwt_rest_shorter: "jwt_rest s = Some r \<Longrightarrow> length r < length s"
proof -
  assume a: "jwt_rest s = Some r"
  let ?t = "dropWhile token_char (drop 3 s)"
  let ?u = "dropWhile token_char (drop 1 ?t)"
  have s: "starts_with s ''eyJ''" and r: "r = dropWhile token_char (drop 1 ?u)"
    using a by (auto simp: jwt_rest_def Let_def split: if_splits)
  have cut: "length (dropWhile token_char x) \<le> length x" "length (drop k x) \<le> length x" for x :: string and k
    by (simp_all add: length_dropWhile_le)
  have "length r \<le> length ?u" using cut(1) [of "drop 1 ?u"] cut(2) [of 1 ?u] unfolding r by linarith
  also have "\<dots> \<le> length ?t" using cut(1) [of "drop 1 ?t"] cut(2) [of 1 ?t] by linarith
  also have "\<dots> \<le> length (drop 3 s)" by (rule cut)
  also have "\<dots> < length s" using s by (cases s) (simp_all add: starts_with_def)
  finally show ?thesis .
qed

definition JWT_MARK :: string where
  "JWT_MARK = ''[redacted-jwt]''"

text \<open>
  The replacement; the flag tells whether the character before is a word character.  After a match
  it may be off, for the next character is outside the class and starts no match.
\<close>

function redact :: "bool \<Rightarrow> string \<Rightarrow> string" where
  "redact w [] = []"
| "redact w (c # s) =
     (case (if w then None else jwt_rest (c # s)) of
        Some r \<Rightarrow> JWT_MARK @ redact False r
      | None \<Rightarrow> c # redact (word_char c) s)"
  by pat_completeness auto
termination by (relation "measure (length \<circ> snd)") (auto split: if_splits dest: jwt_rest_shorter)

definition collapse_spaces :: "string \<Rightarrow> string" where
  "collapse_spaces s = trim (squash_runs is_space (CHR '' '') False s)"

text \<open>\<open>parsed\<close> is the value \<open>JSON.parse\<close> makes of the body, \<open>None\<close> where it throws.\<close>

definition error_candidate :: "json \<Rightarrow> json option" where
  "error_candidate parsed =
     coalesce (js_prop parsed ''error'') (coalesce (js_prop parsed ''error_description'')
       (coalesce (js_prop parsed ''message'') (js_prop parsed ''detail'')))"

definition error_detail :: "(json \<Rightarrow> string) \<Rightarrow> string \<Rightarrow> json option \<Rightarrow> string" where
  "error_detail stringify collapsed parsed =
     (case parsed of
        None \<Rightarrow> collapsed
      | Some v \<Rightarrow>
          (case error_candidate v of
             Some (JStr s) \<Rightarrow> if trim s \<noteq> [] then trim s else collapsed
           | Some (JObj ps) \<Rightarrow> stringify (JObj ps)
           | Some (JArr vs) \<Rightarrow> stringify (JArr vs)
           | _ \<Rightarrow> collapsed))"

definition upstreamErrorDetail :: "(json \<Rightarrow> string) \<Rightarrow> nat \<Rightarrow> string \<Rightarrow> json option \<Rightarrow> string" where
  "upstreamErrorDetail stringify status rawBody parsed =
     (let base = ''http_'' @ nat_text status;
          collapsed = collapse_spaces rawBody
      in if collapsed = [] then base
         else (let clipped = take UPSTREAM_ERROR_MAX (redact False (error_detail stringify collapsed parsed))
               in if clipped \<noteq> [] then base @ '':'' @ clipped else base))"

section \<open>The input\<close>

definition validateConfigInput :: "telemetry_config_input \<Rightarrow> string list" where
  "validateConfigInput input =
     (if ti_vins input = [] then [''no_vins''] else []) @
     (if ti_fields input = [] then [''no_fields''] else []) @
     (if ti_hostname input = [] then [''no_hostname''] else []) @
     (if \<not> (0 < ti_port input \<and> ti_port input \<le> 65535) then [''bad_port''] else []) @
     (if ti_ca input = [] then [''no_ca'']
      else if length (ti_ca input) < 100 \<or> starts_with (dropWhile is_space (ti_ca input)) ''/''
      then [''ca_not_certificate_contents''] else [])"

section \<open>No token survives\<close>

text \<open>Whether a match of the pattern starts anywhere, a word boundary before it.\<close>

fun has_jwt :: "bool \<Rightarrow> string \<Rightarrow> bool" where
  "has_jwt w [] = False"
| "has_jwt w (c # s) = ((\<not> w \<and> jwt_rest (c # s) \<noteq> None) \<or> has_jwt (word_char c) s)"

lemma starts_with_single: "starts_with t [c] \<longleftrightarrow> (\<exists>u. t = c # u)"
  by (cases t) (auto simp: starts_with_def)

lemma jwt_rest_iff:
  "jwt_rest s \<noteq> None \<longleftrightarrow>
     (\<exists>a b t. s = ''eyJ'' @ a @ ''.'' @ b @ ''.'' @ t \<and> 6 \<le> length a \<and> list_all token_char a \<and> b \<noteq> [] \<and> list_all token_char b)"
proof
  assume "jwt_rest s \<noteq> None"
  then obtain t u where s: "starts_with s ''eyJ''"
    and t: "dropWhile token_char (drop 3 s) = CHR ''.'' # t" "6 \<le> length (takeWhile token_char (drop 3 s))"
    and u: "dropWhile token_char t = CHR ''.'' # u" "takeWhile token_char t \<noteq> []"
    by (auto simp: jwt_rest_def Let_def starts_with_single simp del: starts_with_Cons split: if_splits)
  have "s = ''eyJ'' @ drop 3 s" using s unfolding starts_with_def by (metis append_take_drop_id length_Cons list.size(3) numeral_3_eq_3)
  also have "drop 3 s = takeWhile token_char (drop 3 s) @ ''.'' @ t" using t(1) by (metis append_Cons append_Nil takeWhile_dropWhile_id)
  also have "t = takeWhile token_char t @ ''.'' @ u" using u(1) by (metis append_Cons append_Nil takeWhile_dropWhile_id)
  finally show "\<exists>a b t. s = ''eyJ'' @ a @ ''.'' @ b @ ''.'' @ t \<and> 6 \<le> length a \<and> list_all token_char a \<and> b \<noteq> [] \<and> list_all token_char b"
    using t(2) u(2) by (intro exI conjI; assumption?) (auto simp: list_all_iff dest: set_takeWhileD)
next
  assume "\<exists>a b t. s = ''eyJ'' @ a @ ''.'' @ b @ ''.'' @ t \<and> 6 \<le> length a \<and> list_all token_char a \<and> b \<noteq> [] \<and> list_all token_char b"
  then obtain a b t where s: "s = ''eyJ'' @ a @ ''.'' @ b @ ''.'' @ t" "6 \<le> length a" "list_all token_char a" "b \<noteq> []" "list_all token_char b"
    by blast
  have dot: "\<not> token_char (CHR ''.'')" by (simp add: token_char_def word_char_def is_digit_def)
  have run: "takeWhile token_char (x @ CHR ''.'' # y) = x" "dropWhile token_char (x @ CHR ''.'' # y) = CHR ''.'' # y"
    if "list_all token_char x" for x y
    using that dot by (auto simp: list_all_iff takeWhile_append2 dropWhile_append2)
  show "jwt_rest s \<noteq> None"
    using s run [OF s(3)] run [OF s(5)] by (simp add: jwt_rest_def starts_with_single Let_def)
qed

text \<open>A match that meets a bracket or the end lies before it, so another continuation keeps it.\<close>

lemma jwt_rest_stable:
  assumes "jwt_rest (p @ y) \<noteq> None" and "y = [] \<or> hd y = CHR ''[''"
  shows "jwt_rest (p @ x) \<noteq> None"
proof -
  obtain a b t where s: "p @ y = (''eyJ'' @ a @ ''.'' @ b @ ''.'') @ t" "6 \<le> length a" "list_all token_char a" "b \<noteq> []" "list_all token_char b"
    using assms(1) unfolding jwt_rest_iff by auto
  define q where "q = ''eyJ'' @ a @ ''.'' @ b @ ''.''"
  have "\<not> token_char (CHR ''['')" by (simp add: token_char_def word_char_def is_digit_def)
  then have out: "CHR ''['' \<notin> set q" using s by (auto simp: list_all_iff q_def)
  have pq: "p @ y = q @ t" using s(1) by (simp add: q_def)
  obtain z where "p = q @ z"
  proof (cases "length q \<le> length p")
    case True
    have "p = take (length p) (q @ t)" using pq by (metis append_eq_conv_conj)
    also have "\<dots> = q @ take (length p - length q) t" using True by (simp only: take_append take_all)
    finally show thesis by (rule that)
  next
    case False
    then obtain z where z: "q = p @ z" "z \<noteq> []" "y = z @ t"
      using pq by (auto simp: append_eq_append_conv2)
    with assms(2) have "CHR ''['' \<in> set z" by (cases z) auto
    with z(1) out have False by (metis Un_iff set_append)
    then show thesis ..
  qed
  then have "p @ x = ''eyJ'' @ a @ ''.'' @ b @ ''.'' @ (z @ x)" by (simp add: q_def)
  with s show ?thesis unfolding jwt_rest_iff by blast
qed

lemma redact_shape: "\<exists>p x y. s = p @ x \<and> redact w s = p @ y \<and> (y = [] \<or> hd y = CHR ''['')"
proof (induction w s rule: redact.induct)
  case (2 w c s)
  show ?case
  proof (cases "if w then None else jwt_rest (c # s)")
    case None
    from 2(1) [OF None] obtain p x y where "s = p @ x" "redact (word_char c) s = p @ y" "y = [] \<or> hd y = CHR ''[''" by blast
    with None have "c # s = (c # p) @ x \<and> redact w (c # s) = (c # p) @ y \<and> (y = [] \<or> hd y = CHR ''['')"
      by (cases w) simp_all
    then show ?thesis by blast
  next
    case (Some r)
    then have "c # s = [] @ c # s \<and> redact w (c # s) = [] @ JWT_MARK @ redact False r \<and>
        (JWT_MARK @ redact False r = [] \<or> hd (JWT_MARK @ redact False r) = CHR ''['')"
      by (cases w) (simp_all add: JWT_MARK_def)
    then show ?thesis by blast
  qed
qed auto

lemma has_jwt_mark: "has_jwt w (JWT_MARK @ z) = has_jwt False z"
  by (simp add: JWT_MARK_def jwt_rest_def word_char_def is_digit_def)

lemma redact_clean: "\<not> has_jwt w (redact w s)"
proof (induction w s rule: redact.induct)
  case (2 w c s)
  show ?case
  proof (cases "if w then None else jwt_rest (c # s)")
    case None
    obtain p x y where p: "s = p @ x" "redact (word_char c) s = p @ y" "y = [] \<or> hd y = CHR ''[''"
      using redact_shape by blast
    have "w \<or> jwt_rest (c # redact (word_char c) s) = None"
      using None p(1,2) jwt_rest_stable [of "c # p" y x, OF _ p(3)] by (cases w) (simp_all del: not_None_eq, blast)
    with None 2(1) [OF None] show ?thesis by auto
  next
    case (Some r)
    with 2(2) [OF Some] show ?thesis by (simp add: has_jwt_mark)
  qed
qed simp

lemma has_jwt_take: "has_jwt w (take n s) \<Longrightarrow> has_jwt w s"
proof (induction s arbitrary: n w)
  case (Cons c s)
  obtain m where n: "n = Suc m" using Cons(2) by (cases n) auto
  have "jwt_rest (c # take m s) \<noteq> None \<Longrightarrow> jwt_rest (c # s) \<noteq> None"
    using jwt_rest_stable [of "c # take m s" "[]" "drop m s"] by (simp del: not_None_eq)
  with Cons(1) [of "word_char c" m] Cons(2) show ?case unfolding n by (auto simp del: not_None_eq)
qed simp

lemma has_jwt_prefix: "CHR ''e'' \<notin> set b \<Longrightarrow> has_jwt w (b @ s) = has_jwt (if b = [] then w else word_char (last b)) s"
  by (induction b arbitrary: w) (auto simp: jwt_rest_def)

text \<open>
  A token as one reads it off a text: \<open>eyJ\<close> that does not continue a word, at least six characters
  of the base64url alphabet, a dot, at least one such character and another dot.
\<close>

definition base64url :: "char \<Rightarrow> bool" where
  "base64url c \<longleftrightarrow> (of_char c :: nat) \<in> {48..57} \<union> {65..90} \<union> {97..122} \<union> {45, 95}"

definition holds_jwt :: "string \<Rightarrow> bool" where
  "holds_jwt t \<longleftrightarrow>
     (\<exists>pre a b rest. t = pre @ ''eyJ'' @ a @ ''.'' @ b @ ''.'' @ rest \<and>
        (pre = [] \<or> \<not> base64url (last pre) \<or> last pre = CHR ''-'') \<and>
        6 \<le> length a \<and> b \<noteq> [] \<and> list_all base64url a \<and> list_all base64url b)"

lemma token_char_base64url: "token_char c \<longleftrightarrow> base64url c"
proof -
  have "c = CHR ''-'' \<longleftrightarrow> (of_char c :: nat) = of_char (CHR ''-'')" by (metis of_char_eq_iff)
  then show ?thesis by (auto simp: token_char_def word_char_def base64url_def is_digit_def Let_def)
qed

lemma word_char_base64url: "word_char c \<longleftrightarrow> base64url c \<and> c \<noteq> CHR ''-''"
  unfolding token_char_base64url [symmetric] by (auto simp: token_char_def word_char_def is_digit_def Let_def)

lemma has_jwt_iff:
  "has_jwt w t \<longleftrightarrow> (\<exists>pre s. t = pre @ s \<and> jwt_rest s \<noteq> None \<and> (if pre = [] then \<not> w else \<not> word_char (last pre)))"
proof (induction t arbitrary: w)
  case Nil
  then show ?case by (simp add: jwt_rest_def starts_with_def)
next
  case (Cons c t)
  have "(\<exists>pre s. c # t = pre @ s \<and> jwt_rest s \<noteq> None \<and> (if pre = [] then \<not> w else \<not> word_char (last pre))) \<longleftrightarrow>
      (\<not> w \<and> jwt_rest (c # t) \<noteq> None) \<or>
      (\<exists>pre s. t = pre @ s \<and> jwt_rest s \<noteq> None \<and> (if pre = [] then \<not> word_char c else \<not> word_char (last pre)))"
    (is "?l \<longleftrightarrow> ?r")
  proof
    assume ?l
    then obtain pre s where p: "c # t = pre @ s" "jwt_rest s \<noteq> None" "if pre = [] then \<not> w else \<not> word_char (last pre)" by blast
    show ?r
    proof (cases pre)
      case (Cons d q)
      with p have "t = q @ s" "if q = [] then \<not> word_char c else \<not> word_char (last q)" by (auto split: if_splits)
      with p(2) show ?thesis by blast
    qed (use p in auto)
  next
    assume ?r
    then show ?l
    proof
      assume "\<exists>pre s. t = pre @ s \<and> jwt_rest s \<noteq> None \<and> (if pre = [] then \<not> word_char c else \<not> word_char (last pre))"
      then obtain pre s where "t = pre @ s" "jwt_rest s \<noteq> None" "if pre = [] then \<not> word_char c else \<not> word_char (last pre)" by blast
      then have "c # t = (c # pre) @ s \<and> jwt_rest s \<noteq> None \<and> (if c # pre = [] then \<not> w else \<not> word_char (last (c # pre)))"
        by auto
      then show ?l by blast
    qed (metis append_Nil)
  qed
  with Cons show ?case by simp
qed

lemma holds_jwt_iff: "holds_jwt t \<longleftrightarrow> has_jwt False t"
proof -
  have all: "list_all base64url a \<longleftrightarrow> list_all token_char a" for a by (simp add: list_all_iff token_char_base64url)
  show ?thesis
  proof
    assume "holds_jwt t"
    then obtain pre a b r where t: "t = pre @ (''eyJ'' @ a @ ''.'' @ b @ ''.'' @ r)"
      and pre: "pre = [] \<or> \<not> base64url (last pre) \<or> last pre = CHR ''-''"
      and ab: "6 \<le> length a" "list_all token_char a" "b \<noteq> []" "list_all token_char b"
      unfolding holds_jwt_def all by blast
    have "jwt_rest (''eyJ'' @ a @ ''.'' @ b @ ''.'' @ r) \<noteq> None" unfolding jwt_rest_iff using ab by blast
    moreover have "if pre = [] then \<not> False else \<not> word_char (last pre)" using pre by (auto simp: word_char_base64url)
    ultimately show "has_jwt False t" unfolding has_jwt_iff using t by blast
  next
    assume "has_jwt False t"
    then obtain pre s where t: "t = pre @ s" "jwt_rest s \<noteq> None" and pre: "if pre = [] then \<not> False else \<not> word_char (last pre)"
      unfolding has_jwt_iff by blast
    then obtain a b r where s: "s = ''eyJ'' @ a @ ''.'' @ b @ ''.'' @ r" "6 \<le> length a" "list_all token_char a" "b \<noteq> []"
      "list_all token_char b" unfolding jwt_rest_iff by blast
    have "pre = [] \<or> \<not> base64url (last pre) \<or> last pre = CHR ''-''"
      using pre by (simp add: word_char_base64url split: if_splits)
    with s t(1) show "holds_jwt t" unfolding holds_jwt_def all by blast
  qed
qed

lemma base_no_e: "CHR ''e'' \<notin> set (''http_'' @ nat_text n)"
  using nat_text_digits [of n] by (auto simp: list_all_iff is_digit_def Let_def dest: bspec)

section \<open>Lemmas on the fields\<close>

lemma map_of_fold_update:
  "map_of (fold (\<lambda>row out. AList.update (k row) (v row) out) rows out) =
     map_of out ++ map_of (rev (map (\<lambda>row. (k row, v row)) rows))"
  by (induction rows arbitrary: out) (simp_all add: update_conv' fun_eq_iff map_add_def split: option.split)

lemma keys_fold_update:
  assumes "distinct (map k rows)" "set (map k rows) \<inter> fst ` set out = {}"
  shows "fold (\<lambda>row out. AList.update (k row) (v row) out) rows out = out @ map (\<lambda>row. (k row, v row)) rows"
  using assms
proof (induction rows arbitrary: out)
  case (Cons r rows)
  have "AList.update (k r) (v r) out = out @ [(k r, v r)]"
    using Cons(3) by (induction out) auto
  with Cons show ?case by auto
qed simp

lemma buildFieldConfig_sorted:
  assumes "distinct (map cf_key rows)"
  shows "buildFieldConfig le rows = map (\<lambda>row. (cf_key row, field_config_of row)) (js_sort (\<lambda>a b. le (cf_key a) (cf_key b)) rows)"
proof -
  have "distinct (map cf_key (js_sort (\<lambda>a b. le (cf_key a) (cf_key b)) rows))"
    using assms by (subst mset_eq_imp_distinct_iff [of _ "map cf_key rows"]) simp_all
  then show ?thesis unfolding buildFieldConfig_def by (subst keys_fold_update) simp_all
qed

section \<open>Properties\<close>

text \<open>C18: The detail \<open>upstreamErrorDetail\<close> makes of a refused reply, which the removal of a
  configuration and \<open>sendVehicleConfig\<close> record, holds no text of the shape of a JSON web token and is
  of bounded length, whatever the reply.\<close>

theorem upstream_error_detail_clean:
  "\<not> holds_jwt (upstreamErrorDetail stringify status rawBody parsed) \<and>
   length (upstreamErrorDetail stringify status rawBody parsed) \<le> length (nat_text status) + UPSTREAM_ERROR_MAX + 6"
proof -
  let ?d = "redact False (error_detail stringify (collapse_spaces rawBody) parsed)"
  have "\<not> has_jwt False (take UPSTREAM_ERROR_MAX ?d)" using redact_clean has_jwt_take by blast
  moreover have "has_jwt False ((''http_'' @ nat_text status) @ '':'' @ x) = has_jwt False x" for x
    using has_jwt_prefix [OF base_no_e, of False status "'':'' @ x"] by (simp add: jwt_rest_def word_char_def is_digit_def)
  moreover have "\<not> has_jwt False ((''http_'' @ nat_text status) @ [])"
    unfolding has_jwt_prefix [OF base_no_e] by simp
  ultimately show ?thesis by (simp add: upstreamErrorDetail_def Let_def holds_jwt_iff)
qed

text \<open>The rows in any order give one configuration, its keys in the order of the collation.\<close>

theorem buildFieldConfig_canonical:
  assumes "linear_on (cf_key ` set rows) le" and "distinct (map cf_key rows)" and "mset rows' = mset rows"
  shows "buildFieldConfig le rows' = buildFieldConfig le rows \<and>
     sorted_wrt le (map fst (buildFieldConfig le rows)) \<and>
     map_of (buildFieldConfig le rows) = map_of (map (\<lambda>row. (cf_key row, field_config_of row)) rows)"
proof -
  let ?le = "\<lambda>a b. le (cf_key a) (cf_key b)"
  have inj: "inj_on cf_key (set rows)" using assms(2) by (simp add: distinct_map)
  have lin: "linear_on (set rows) ?le"
    unfolding linear_on_def
  proof (intro conjI ballI impI)
    show "total_preorder_on (set rows) ?le"
      using assms(1) unfolding linear_on_def total_preorder_on_def by blast
    fix x y assume "x \<in> set rows" "y \<in> set rows" "?le x y" "?le y x"
    moreover from this have "cf_key x = cf_key y" using assms(1) unfolding linear_on_def by blast
    ultimately show "x = y" using inj by (simp add: inj_on_def)
  qed
  have d': "distinct (map cf_key rows')"
    using assms(2) by (subst mset_eq_imp_distinct_iff [of _ "map cf_key rows"]) (simp_all add: assms(3))
  have "set rows' = set rows" by (metis assms(3) set_mset_mset)
  then have "js_sort ?le rows' = js_sort ?le rows" by (intro js_sort_permutation) (use lin assms(3) in simp_all)
  moreover have "sorted_wrt ?le (js_sort ?le rows)" by (rule sorted_js_sort) (use lin in \<open>simp add: linear_on_def\<close>)
  moreover have "map_of (map (\<lambda>row. (cf_key row, field_config_of row)) (js_sort ?le rows)) =
      map_of (map (\<lambda>row. (cf_key row, field_config_of row)) rows)"
    using assms(2) mset_eq_imp_distinct_iff [of "map cf_key (js_sort ?le rows)" "map cf_key rows"]
    by (subst map_of_inject_set) (simp_all add: comp_def)
  ultimately show ?thesis
    unfolding buildFieldConfig_sorted [OF assms(2)] buildFieldConfig_sorted [OF d'] by (simp add: sorted_wrt_map comp_def)
qed

text \<open>The apply path keeps the text of a refused request as it came.\<close>

theorem apply_error_unredacted:
  assumes "\<not> reply_ok res" "hr_text res \<noteq> []" "hr_json res = None"
  shows "ar_error_detail (read_apply_reply e vin (Inr res)) = Some (''http_'' @ nat_text (hr_status res) @ '':'' @ hr_text res) \<and>
     has_jwt False (the (ar_error_detail (read_apply_reply e vin (Inr res)))) = has_jwt False (hr_text res)"
proof -
  have "has_jwt False ((''http_'' @ nat_text (hr_status res)) @ '':'' @ hr_text res) = has_jwt False (hr_text res)"
    unfolding has_jwt_prefix [OF base_no_e] by (simp add: jwt_rest_def word_char_def is_digit_def)
  then show ?thesis using assms by (simp add: read_apply_reply_def plain_result_def Let_def)
qed

section \<open>Concrete runs\<close>

definition collected :: "field_key \<Rightarrow> tier \<Rightarrow> rat option \<Rightarrow> collected_field" where
  "collected k t d = \<lparr>cf_key = k, cf_tier = t, cf_min_delta = d, cf_interval = 3600\<rparr>"

theorem buildFieldConfig_canonical_witness:
  "buildFieldConfig (\<le>) [collected ''B'' Once (Some 1), collected ''A'' On_change (Some 2)] =
     buildFieldConfig (\<le>) [collected ''A'' On_change (Some 2), collected ''B'' Once (Some 1)]"
proof -
  have "linear_on UNIV ((\<le>) :: string \<Rightarrow> string \<Rightarrow> bool)"
    unfolding linear_on_def total_preorder_on_def by auto
  from linear_on_subset [OF this]
  show ?thesis
    using buildFieldConfig_canonical [of "[collected ''A'' On_change (Some 2), collected ''B'' Once (Some 1)]" "(\<le>)"
      "[collected ''B'' Once (Some 1), collected ''A'' On_change (Some 2)]"]
    by (simp add: collected_def)
qed

theorem apply_error_unredacted_witness:
  "has_jwt False (the (ar_error_detail (read_apply_reply sample_runtime ''V1''
     (Inr \<lparr>hr_status = 401, hr_text = ''bad eyJhbGciOi.a.b'', hr_json = None\<rparr>))))"
proof -
  have "has_jwt False ''bad eyJhbGciOi.a.b''"
    by (simp add: jwt_rest_def token_char_def word_char_def is_digit_def)
  moreover have "has_jwt False (the (ar_error_detail (read_apply_reply sample_runtime ''V1''
     (Inr \<lparr>hr_status = 401, hr_text = ''bad eyJhbGciOi.a.b'', hr_json = None\<rparr>)))) =
     has_jwt False (hr_text \<lparr>hr_status = 401, hr_text = ''bad eyJhbGciOi.a.b'', hr_json = None\<rparr>)"
    by (rule apply_error_unredacted [THEN conjunct2]) (simp_all add: reply_ok_def)
  ultimately show ?thesis by (simp only: http_reply.simps)
qed

end
