(* ===== verification/Revocation.thy ===== *)
theory Revocation
  imports VehicleConfig
begin

text \<open>
  \<open>POST /auth/revoke\<close> of \<open>index.ts\<close>: the consent is withdrawn, the poll state of the member's
  vehicles is deleted, their configurations are marked removed, a delete is aimed at each vehicle,
  and all of it is audited.  The removals, which the code starts together, run here one vehicle
  after the other; the delete of the proxy is an oracle.
\<close>

section \<open>The removal of one configuration\<close>

record revoke_env = release_env +
  rv_proxy_url :: "string option"
  rv_delete :: "nat \<Rightarrow> string \<Rightarrow> string \<Rightarrow> vin \<Rightarrow> reply"
  rv_stringify :: "json \<Rightarrow> string"

definition removeVehicleConfig ::
  "('e) revoke_env_scheme \<Rightarrow> vin \<Rightarrow> member_id \<Rightarrow> ('a) store_db_scheme \<Rightarrow>
   (bool \<times> string option) \<times> ('a) store_db_scheme" where
  "removeVehicleConfig e vin memberId db =
     (case proxyBase (rv_proxy_url e) of
        None \<Rightarrow> ((False, Some ''proxy_not_configured''), db)
      | Some base \<Rightarrow>
          (let (accessToken, db1) = getMemberAccessToken e (Some memberId) db
           in if no_token accessToken then ((False, Some ''no_member_access_token''), db1)
              else (case rv_delete e (tick db1) base (the accessToken) vin of
                  Inl msg \<Rightarrow> (False, Some (''transport:'' @ msg))
                | Inr res \<Rightarrow>
                    if \<not> reply_ok res
                    then (False, Some (upstreamErrorDetail (rv_stringify e) (hr_status res) (hr_text res) (hr_json res)))
                    else (True, None), next_tick db1)))"

record removal =
  rm_vin :: vin
  rm_rows :: nat
  rm_sent :: bool

definition removal_detail :: "nat \<Rightarrow> bool \<times> string option \<Rightarrow> json" where
  "removal_detail rows ok =
     JObj [(''rows_marked'', JNum (of_nat rows)), (''delete_sent'', JBool (fst ok)), (''error'', text_json (snd ok))]"

definition remove_vehicle ::
  "('e) revoke_env_scheme \<Rightarrow> member_id \<Rightarrow> iso \<Rightarrow> vin \<Rightarrow> ('a) store_db_scheme \<Rightarrow> removal \<times> ('a) store_db_scheme" where
  "remove_vehicle e member nowIso vin db =
     (let (rows, db1) = markConfigRemoved vin nowIso db;
          (ok, db2) = removeVehicleConfig e vin member db1
      in (\<lparr>rm_vin = vin, rm_rows = rows, rm_sent = fst ok\<rparr>,
          audit e ''telemetry.config_removed'' (Some member) (Some ''member'') (Some ''vehicle'') (Some vin)
            (Some (removal_detail rows ok)) nowIso db2))"

fun remove_vehicles ::
  "('e) revoke_env_scheme \<Rightarrow> member_id \<Rightarrow> iso \<Rightarrow> vin list \<Rightarrow> ('a) store_db_scheme \<Rightarrow> removal list \<times> ('a) store_db_scheme" where
  "remove_vehicles e member nowIso [] db = ([], db)"
| "remove_vehicles e member nowIso (vin # vins) db =
     (let (r, db1) = remove_vehicle e member nowIso vin db;
          (rs, db2) = remove_vehicles e member nowIso vins db1
      in (r # rs, db2))"

section \<open>The route\<close>

datatype revoke_reply = Revoke_connect | Revoked iso bool

definition policy_linked :: "('a) quote_db_scheme \<Rightarrow> member_id \<Rightarrow> bool" where
  "policy_linked db member =
     list_ex (\<lambda>q. qr_member q = member \<and> (qr_status q = Req_sent \<or> qr_status q = Req_accepted)) (quote_requests db)"

definition clear_polls ::
  "('e) runtime_scheme \<Rightarrow> member_id \<Rightarrow> vin list \<Rightarrow> iso \<Rightarrow> ('a) poll_db_scheme \<Rightarrow> ('a) poll_db_scheme" where
  "clear_polls e member vins nowIso db =
     (let (clearedPolls, db1) = clearPollEligibility vins db
      in if 0 < clearedPolls
         then audit e ''poll.eligibility_cleared'' (Some member) (Some ''member'') (Some ''member'') (Some member)
                (Some (JObj [(''vins'', JArr (map JStr vins)), (''rows_cleared'', JNum (of_nat clearedPolls)),
                  (''lane'', JStr ''fleet_api_polling'')])) nowIso db1
         else db1)"

definition revoked_detail :: "nat \<Rightarrow> bool \<Rightarrow> removal list \<Rightarrow> json" where
  "revoked_detail revoked linked removals =
     JObj [(''revoked'', JNum (of_nat revoked)),
           (''retention'', JStr (if linked then ''policy_linked'' else ''immediate_deletion'')),
           (''vehicles_removed'', JNum (of_nat (length (filter (\<lambda>r. 0 < rm_rows r) removals)))),
           (''deletes_sent'', JNum (of_nat (length (filter rm_sent removals))))]"

definition revokeMember ::
  "('e) revoke_env_scheme \<Rightarrow> member_id \<Rightarrow> ('a) quote_db_scheme \<Rightarrow> revoke_reply \<times> ('a) quote_db_scheme" where
  "revokeMember e member db =
     (let (nowIso, db1) = now_iso e db;
          linked = policy_linked db1 member;
          (revoked, db2) = revokeConsent member ''member_revoked'' nowIso db1;
          vins = vinsForMember db2 member;
          db3 = clear_polls e member vins nowIso db2;
          (removals, db4) = remove_vehicles e member nowIso vins db3
      in (Revoked nowIso linked,
          audit e ''member.consent_revoked'' (Some member) (Some ''member'') (Some ''member'') (Some member)
            (Some (revoked_detail revoked linked removals)) nowIso db4))"

definition member_signed_in ::
  "(string \<Rightarrow> string option) \<Rightarrow> string option \<Rightarrow> ('a) store_db_scheme \<Rightarrow> member_id option" where
  "member_signed_in kv sessionId db =
     (case signed_in kv sessionId db of
        None \<Rightarrow> None
      | Some m \<Rightarrow> if member_of db m = None then None else Some m)"

definition postRevoke ::
  "('e) revoke_env_scheme \<Rightarrow> (string \<Rightarrow> string option) \<Rightarrow> string option \<Rightarrow> ('a) quote_db_scheme \<Rightarrow>
   revoke_reply \<times> ('a) quote_db_scheme" where
  "postRevoke e kv sessionId db =
     (case member_signed_in kv sessionId db of
        None \<Rightarrow> (Revoke_connect, db)
      | Some member \<Rightarrow> revokeMember e member db)"

section \<open>What a removal leaves alone\<close>

text \<open>The tables neither a removal nor an audit writes.\<close>

definition gate_tables where
  "gate_tables db = (vehicles db, members db, consents db, poll_states db, quote_requests db, releases db,
     download_tokens db, archive db, sessions db)"

lemma token_only_tables:
  fixes db :: "('a) quote_db_scheme"
  assumes "token_only db db'"
  shows "gate_tables db' = gate_tables db" "telemetry_configs db' = telemetry_configs db" "audits db' = audits db"
  using assms by (auto simp: token_only_def gate_tables_def)

lemma removeVehicleConfig_token_only: "token_only db (snd (removeVehicleConfig e vin m db))"
  using getMemberAccessToken_db [of db e "Some m"]
  by (auto simp: removeVehicleConfig_def token_only_refl token_only_next_tick Let_def case_prod_beta split: option.split)

lemma audit_tables [simp]:
  "gate_tables (audit e a b c d f g t db) = gate_tables db"
  "telemetry_configs (audit e a b c d f g t db) = telemetry_configs db"
  by (simp_all add: gate_tables_def audit_def fresh_id_def Let_def)

lemma mark_tables: "gate_tables (snd (markConfigRemoved vin t db)) = gate_tables db"
  by (simp add: gate_tables_def markConfigRemoved_def Let_def)

lemma remove_vehicle_tables:
  "gate_tables (snd (remove_vehicle e m t vin db)) = gate_tables db"
  "telemetry_configs (snd (remove_vehicle e m t vin db)) = telemetry_configs (snd (markConfigRemoved vin t db))"
  by (simp_all add: remove_vehicle_def Let_def case_prod_beta mark_tables token_only_tables [OF removeVehicleConfig_token_only])

lemma remove_vehicles_tables: "gate_tables (snd (remove_vehicles e m t vins db)) = gate_tables db"
  by (induction vins arbitrary: db) (simp_all add: remove_vehicle_tables Let_def case_prod_beta)

definition vehicle_configs_removed :: "('a) store_db_scheme \<Rightarrow> vin \<Rightarrow> bool" where
  "vehicle_configs_removed db vin \<longleftrightarrow> list_all (\<lambda>r. if tc_vin r = vin then tc_state r = CRemoved else True) (telemetry_configs db)"

lemma live_state: "(s \<in> {CActive, CPending, CFailed, CSkipped}) = (s \<noteq> CRemoved)"
  by (cases s) simp_all

lemma list_all_update: "(\<And>r. r \<in> set rows \<Longrightarrow> if P r then Q (f r) else Q r) \<Longrightarrow> list_all Q (update_where P f rows)"
  by (induction rows) (auto split: if_splits)

lemma mark_removes:
  "vehicle_configs_removed (snd (markConfigRemoved vin t db)) vin"
  "vehicle_configs_removed db v \<Longrightarrow> vehicle_configs_removed (snd (markConfigRemoved vin t db)) v"
proof -
  have rows: "telemetry_configs (snd (markConfigRemoved vin t db)) = update_where (\<lambda>r. tc_vin r = vin \<and> tc_state r \<noteq> CRemoved)
      (\<lambda>r. r\<lparr>tc_state := CRemoved, tc_verified_at := Some t\<rparr>) (telemetry_configs db)"
    unfolding markConfigRemoved_def Let_def live_state by simp
  show "vehicle_configs_removed (snd (markConfigRemoved vin t db)) vin"
    unfolding vehicle_configs_removed_def rows by (rule list_all_update) simp
  show "vehicle_configs_removed (snd (markConfigRemoved vin t db)) v" if "vehicle_configs_removed db v"
    using that unfolding vehicle_configs_removed_def rows by (intro list_all_update) (simp add: list_all_iff)
qed

lemma remove_vehicles_removes:
  fixes db :: "('a) quote_db_scheme"
  shows "vehicle_configs_removed db v \<or> v \<in> set vins \<Longrightarrow> vehicle_configs_removed (snd (remove_vehicles e m t vins db)) v"
proof (induction vins arbitrary: db)
  case (Cons w vins)
  have "vehicle_configs_removed (snd (remove_vehicle e m t w db)) x = vehicle_configs_removed (snd (markConfigRemoved w t db)) x" for x
    by (simp add: vehicle_configs_removed_def remove_vehicle_tables)
  then have "vehicle_configs_removed (snd (remove_vehicle e m t w db)) v \<or> v \<in> set vins"
    using Cons(2) mark_removes [where vin = w and t = t and db = db] by auto
  from Cons(1) [OF this] show ?case by (simp add: Let_def case_prod_beta)
qed simp

lemma clear_polls_tables:
  "vehicles (clear_polls e m vins t db) = vehicles db" "members (clear_polls e m vins t db) = members db"
  "consents (clear_polls e m vins t db) = consents db"
  "list_all (\<lambda>r. ps_vin r \<notin> set vins) (poll_states (clear_polls e m vins t db))"
  by (auto simp: clear_polls_def clearPollEligibility_def audit_def fresh_id_def Let_def list_all_iff delete_where_def)

lemma clear_polls_links:
  "download_tokens (clear_polls e m vins t db) = download_tokens db" "releases (clear_polls e m vins t db) = releases db"
  by (simp_all add: clear_polls_def clearPollEligibility_def audit_def fresh_id_def Let_def)

lemma revokeMember_tables:
  fixes db :: "('a) quote_db_scheme" and e :: "('e) revoke_env_scheme" and m :: member_id
  defines "db' \<equiv> snd (revokeMember e m db)"
  shows "vehicles db' = vehicles db" "members db' = members db"
    "consents db' = consents (snd (revokeConsent m ''member_revoked'' (rt_clock e (tick db)) db))"
    "list_all (\<lambda>r. ps_vin r \<notin> set (vinsForMember db m)) (poll_states db')"
    "v \<in> set (vinsForMember db m) \<Longrightarrow> vehicle_configs_removed db' v"
    "token_record db' h = token_record db h"
proof -
  let ?db2 = "snd (revokeConsent m ''member_revoked'' (rt_clock e (tick db)) (db\<lparr>tick := Suc (tick db)\<rparr>))"
  let ?vins = "vinsForMember ?db2 m"
  let ?db3 = "clear_polls e m ?vins (rt_clock e (tick db)) ?db2"
  let ?db4 = "snd (remove_vehicles e m (rt_clock e (tick db)) ?vins ?db3)"
  have vins: "?vins = vinsForMember db m"
    by (simp add: vinsForMember_def revokeConsent_def Let_def)
  have D: "gate_tables db' = gate_tables ?db4" "telemetry_configs db' = telemetry_configs ?db4"
    by (simp_all add: db'_def revokeMember_def now_iso_def Let_def case_prod_beta)
  then have D: "gate_tables db' = gate_tables ?db3" "telemetry_configs db' = telemetry_configs ?db4"
    by (simp_all add: remove_vehicles_tables)
  have "consents ?db2 = consents (snd (revokeConsent m ''member_revoked'' (rt_clock e (tick db)) db))"
    "vehicles ?db2 = vehicles db" "members ?db2 = members db"
    by (simp_all add: revokeConsent_def Let_def)
  with D(1) show "vehicles db' = vehicles db" "members db' = members db"
    "consents db' = consents (snd (revokeConsent m ''member_revoked'' (rt_clock e (tick db)) db))"
    "list_all (\<lambda>r. ps_vin r \<notin> set (vinsForMember db m)) (poll_states db')"
    using clear_polls_tables [where e = e and m = m and vins = ?vins and t = "rt_clock e (tick db)" and db = ?db2] vins by (simp_all add: gate_tables_def)
  have "download_tokens ?db2 = download_tokens db" "releases ?db2 = releases db"
    by (simp_all add: revokeConsent_def Let_def)
  with D(1) have "download_tokens db' = download_tokens db" "releases db' = releases db"
    by (simp_all add: gate_tables_def clear_polls_links)
  then show "token_record db' h = token_record db h" by (simp add: token_record_def split: option.split)
  show "vehicle_configs_removed db' v" if "v \<in> set (vinsForMember db m)"
    using remove_vehicles_removes [of ?db3 v ?vins e m "rt_clock e (tick db)"] that D(2)
    by (simp add: vehicle_configs_removed_def vins)
qed

lemma postRevoke_member:
  "member_signed_in kv sessionId db = Some m \<Longrightarrow> postRevoke e kv sessionId db = revokeMember e m db"
  by (simp add: postRevoke_def)

lemma no_consent_after:
  "\<not> (\<exists>c \<in> set (consents (snd (revokeMember e m db))). c_member c = m \<and> c_revoked_at c = None)"
  unfolding revokeMember_tables(3) open_consent_after_revoke by simp

lemma not_collected_after:
  assumes "distinct (map v_vin (vehicles db))" "v \<in> set (vinsForMember db m)"
  shows "\<not> memberMayBeCollected (snd (revokeMember e m db)) v"
proof
  assume "memberMayBeCollected (snd (revokeMember e m db)) v"
  then obtain w k where w: "w \<in> set (vehicles db)" "v_vin w = v" "v_member w = Some k"
    and k: "\<exists>c \<in> set (consents (snd (revokeMember e m db))). c_member c = k \<and> c_revoked_at c = None"
    by (auto simp: memberMayBeCollected_iff revokeMember_tables)
  obtain u where "u \<in> set (vehicles db)" "v_vin u = v" "v_member u = Some m"
    using assms(2) by (auto simp: vinsForMember_def)
  with w assms(1) have "k = m" by (auto simp: distinct_map inj_on_def)
  with k no_consent_after show False by blast
qed

lemma download_refused:
  assumes "token_record db (rt_sha256 e token) = Some (t, r)" "rl_type r = Quote_package" "rl_subject_member r = Some m"
    and "\<not> el_eligible (releaseEligibility db m)"
  shows "\<exists>reason. fst (getDownload e token ip ua db) = Quote_link_unavailable reason"
  using assms
  by (auto simp: getDownload_def now_iso_def redeemDownloadToken_def clock_frame refused_def consent_refusal_def Let_def)

section \<open>Properties\<close>

text \<open>C3: Withdrawal closes every lane at once: once \<open>POST /auth/revoke\<close> has answered, no vehicle of
  the member may be collected, its configurations are marked removed and its poll state is gone, an
  ingest payload for it changes none of the tables that hold readings (facts, snapshots and their
  history, signal counters, poll states), and no link to a package about the member is served.  The
  archive of raw payloads and the batch row are written before the consent is asked for, and so
  are also written for such a payload.\<close>

theorem revocation_closes_every_lane:
  assumes "member_signed_in kv sessionId db = Some m" and "distinct (map v_vin (vehicles db))" and "v \<in> set (vinsForMember db m)"
    and "postRevoke e kv sessionId db = (reply, db')"
    and "iq_body req = Some body" "payload_vin (extractDatums body) = Some v"
    and "token_record db' (rt_sha256 e2 token) = Some (t, r)" "rl_type r = Quote_package" "rl_subject_member r = Some m"
  shows "\<not> memberMayBeCollected db' v \<and> vehicle_configs_removed db' v \<and> list_all (\<lambda>p. ps_vin p \<noteq> v) (poll_states db') \<and>
     collected_tables (snd (ingest_telemetry e1 req db')) = collected_tables db' \<and>
     (\<exists>reason. fst (getDownload e2 token ip ua db') = Quote_link_unavailable reason)"
proof -
  have db': "db' = snd (revokeMember e m db)" using assms(1,4) by (auto simp: postRevoke_member)
  have gate: "\<not> memberMayBeCollected db' v" unfolding db' by (rule not_collected_after [OF assms(2,3)])
  have "collected_tables (snd (ingest_telemetry e1 req db')) = collected_tables db'"
    by (rule ingest_without_consent) (use assms(5,6) gate in auto)
  moreover have "\<not> el_eligible (releaseEligibility db' m)"
    unfolding releaseEligibility_iff db' by (rule no_consent_after)
  moreover have "list_all (\<lambda>p. ps_vin p \<noteq> v) (poll_states db')"
    using revokeMember_tables(4) [where m = m and db = db and e = e] assms(3) by (auto simp: db' list_all_iff)
  moreover have "vehicle_configs_removed db' v" unfolding db' by (rule revokeMember_tables(5) [OF assms(3)])
  ultimately show ?thesis using gate download_refused [OF assms(7-9)] by blast
qed

text \<open>The retention a withdrawal announces is read from the quote requests alone; the policies the
  member holds, active or expired, play no part.\<close>

theorem retention_ignores_policies:
  "fst (postRevoke e kv sessionId (db\<lparr>policies := ps\<rparr>)) = fst (postRevoke e kv sessionId db)"
  by (simp add: postRevoke_def member_signed_in_def signed_in_def session_member_def member_of_def revokeMember_def
      now_iso_def policy_linked_def Let_def case_prod_beta split: option.split)

text \<open>Without a configured proxy no delete goes out, and the audit says so: one row per vehicle, in
  order, each recording the rows marked and that the delete was not sent.\<close>

theorem unreached_vehicle_reported:
  assumes "proxyBase (rv_proxy_url e) = None"
  shows "list_all (\<lambda>r. \<not> rm_sent r) (fst (remove_vehicles e m t vins db)) \<and>
     map rm_vin (fst (remove_vehicles e m t vins db)) = vins \<and>
     map a_detail (audits (snd (remove_vehicles e m t vins db))) =
       map a_detail (audits db) @ map (\<lambda>r. Some (removal_detail (rm_rows r) (False, Some ''proxy_not_configured'')))
         (fst (remove_vehicles e m t vins db))"
proof (induction vins arbitrary: db)
  case (Cons v vins)
  obtain n db1 where mk: "markConfigRemoved v t db = (n, db1)" by force
  have "audits db1 = audits db" using mk by (auto simp: markConfigRemoved_def Let_def)
  with mk have "fst (remove_vehicle e m t v db) = \<lparr>rm_vin = v, rm_rows = n, rm_sent = False\<rparr>"
    "map a_detail (audits (snd (remove_vehicle e m t v db))) =
       map a_detail (audits db) @ [Some (removal_detail n (False, Some ''proxy_not_configured''))]"
    by (simp_all add: remove_vehicle_def removeVehicleConfig_def assms audit_def fresh_id_def Let_def)
  then show ?case using Cons [of "snd (remove_vehicle e m t v db)"] by (simp add: Let_def case_prod_beta)
qed simp

section \<open>Concrete runs\<close>

definition sample_revoke_env :: revoke_env where
  "sample_revoke_env = release_env.extend (sample_quote_env ''t5'') \<lparr>rv_proxy_url = Some ''signer.local'',
     rv_delete = (\<lambda>n b t v. Inl ''down''), rv_stringify = (\<lambda>j. [])\<rparr>"

abbreviation sample_kv :: "string \<Rightarrow> string option" where
  "sample_kv \<equiv> \<lambda>_. Some ''1''"

theorem revocation_closes_every_lane_witness:
  "\<not> memberMayBeCollected (snd (postRevoke sample_revoke_env sample_kv (Some ''S'') sample_quote_db)) ''V1'' \<and>
   (\<exists>reason. fst (getDownload (sample_quote_env ''t6'') ''secret'' None None
     (snd (postRevoke sample_revoke_env sample_kv (Some ''S'') sample_quote_db))) = Quote_link_unavailable reason) \<and>
   memberMayBeCollected sample_quote_db ''V1''"
proof -
  have m: "member_signed_in sample_kv (Some ''S'') sample_quote_db = Some ''M1''"
    by (simp add: member_signed_in_def signed_in_def session_live_def session_member_def member_of_def blank_def
        sample_quote_simps sample_release_simps sample_member_def)
  have v: "distinct (map v_vin (vehicles sample_quote_db))" "''V1'' \<in> set (vinsForMember sample_quote_db ''M1'')"
    "memberMayBeCollected sample_quote_db ''V1''"
    by (simp_all add: sample_quote_simps sample_release_simps sample_vehicle_def sample_member_def vinsForMember_def memberMayBeCollected_def)
  have "token_record sample_quote_db ''secret'' = Some (sample_link, sample_release)"
    by (simp add: sample_quote_db_def release_db.extend_def sample_release_simps)
  then have t: "token_record (snd (postRevoke sample_revoke_env sample_kv (Some ''S'') sample_quote_db))
      (rt_sha256 (sample_quote_env ''t6'') ''secret'') = Some (sample_link, sample_release)"
    using revokeMember_tables(6) [where e = sample_revoke_env and m = "''M1''" and db = sample_quote_db]
    by (simp add: postRevoke_member [OF m]) (simp add: sample_quote_env_def sample_release_env_def ingest_env.extend_def)
  have "rl_type sample_release = Quote_package" "rl_subject_member sample_release = Some ''M1''"
    by (simp_all add: sample_release_def)
  from revocation_closes_every_lane [OF m v(1,2) surjective_pairing sample_request_body sample_payload_vin t this] v(3)
  show ?thesis by blast
qed

theorem unreached_vehicle_reported_witness:
  "map a_detail (audits (snd (remove_vehicles sample_revoke_env ''M1'' ''t5'' [''V1''] sample_quote_db))) =
     map a_detail (audits sample_quote_db) @ [Some (removal_detail 0 (False, Some ''proxy_not_configured''))]"
proof -
  have p: "proxyBase (rv_proxy_url sample_revoke_env) = None"
    by (simp add: sample_revoke_env_def release_env.extend_def proxyBase_def proxyConfigured_def)
  have "rm_rows (fst (remove_vehicle sample_revoke_env ''M1'' ''t5'' ''V1'' sample_quote_db)) = 0"
    by (simp add: remove_vehicle_def markConfigRemoved_def Let_def case_prod_beta sample_quote_simps sample_release_simps count_where_def)
  with unreached_vehicle_reported [OF p, of "''M1''" "''t5''" "[''V1'']" sample_quote_db]
  show ?thesis by (simp add: Let_def case_prod_beta)
qed

end
