(* ===== verification/AnyValue.thy ===== *)
theory AnyValue
  imports Complex_Main Prelude
begin

text \<open>
  The values of type \<open>unknown\<close> the edge runtime passes around inside one request.  Unlike
  parsed JSON they may be \<open>undefined\<close>, also as the value of a key an object has.  An object is
  its list of own enumerable keys in the order \<open>Object.keys\<close> gives, an array is its list of
  elements.  Functions, symbols and dates do not occur in the states, inputs and outputs of the
  modelled code.  Numbers are finite: NaN and the infinities, which JSON text holds only in a
  numeral beyond the range of a double such as 1e999, are outside the model.
\<close>

datatype jsv =
    VUndef
  | VNull
  | VBool bool
  | VNum rat
  | VStr string
  | VArr "jsv list"
  | VObj "(string \<times> jsv) list"

type_synonym obj = "(string \<times> jsv) list"

text \<open>The optional read \<open>v?.k\<close>, and the read \<open>v[k]\<close> of an object.\<close>

definition obj_get :: "obj \<Rightarrow> string \<Rightarrow> jsv" where
  "obj_get ps k = (case map_of ps k of Some v \<Rightarrow> v | None \<Rightarrow> VUndef)"

fun v_get :: "jsv \<Rightarrow> string \<Rightarrow> jsv" where
  "v_get (VObj ps) k = obj_get ps k"
| "v_get _ k = VUndef"

fun v_truthy :: "jsv \<Rightarrow> bool" where
  "v_truthy VUndef = False"
| "v_truthy VNull = False"
| "v_truthy (VBool b) = b"
| "v_truthy (VNum n) = (n \<noteq> 0)"
| "v_truthy (VStr s) = (s \<noteq> [])"
| "v_truthy (VArr _) = True"
| "v_truthy (VObj _) = True"

text \<open>The operators \<open>a ?? b\<close> and \<open>a || b\<close>.\<close>

fun v_coalesce :: "jsv \<Rightarrow> jsv \<Rightarrow> jsv" where
  "v_coalesce VUndef b = b"
| "v_coalesce VNull b = b"
| "v_coalesce a b = a"

definition v_or :: "jsv \<Rightarrow> jsv \<Rightarrow> jsv" where
  "v_or a b = (if v_truthy a then a else b)"

text \<open>Every object inside the value has each key once.\<close>

fun v_wf :: "jsv \<Rightarrow> bool" where
  "v_wf (VArr xs) = (\<forall>x \<in> set xs. v_wf x)"
| "v_wf (VObj ps) = (distinct (map fst ps) \<and> (\<forall>p \<in> set ps. v_wf (snd p)))"
| "v_wf _ = True"

lemma size_obj_member [termination_simp]:
  assumes "(k, v) \<in> set ps"
  shows "size v < Suc (size_list (size_prod (\<lambda>_. 0) size) ps)"
proof -
  have "size_prod (\<lambda>_. 0) size (k, v) \<le> size_list (size_prod (\<lambda>_. 0) size) ps"
    using assms by (rule size_list_estimation') simp
  then show ?thesis by simp
qed

section \<open>Agreement\<close>

fun isPlainValue :: "jsv \<Rightarrow> bool" where
  "isPlainValue (VArr _) = False"
| "isPlainValue (VObj _) = False"
| "isPlainValue _ = True"

text \<open>
  Two values agree when they are equal, objects being compared as finite maps from their keys,
  and arrays element by element.
\<close>

fun same_value :: "jsv \<Rightarrow> jsv \<Rightarrow> bool" where
  "same_value (VObj e) (VObj a) =
     (fst ` set a \<subseteq> fst ` set e \<and>
      (\<forall>(k, v) \<in> set e. case map_of a k of Some w \<Rightarrow> same_value v w | None \<Rightarrow> False))"
| "same_value (VArr xs) (VArr ys) = list_all2 same_value xs ys"
| "same_value v w = (isPlainValue v \<and> v = w)"

fun array_free :: "jsv \<Rightarrow> bool" where
  "array_free (VArr _) = False"
| "array_free (VObj ps) = (\<forall>p \<in> set ps. array_free (snd p))"
| "array_free _ = True"

text \<open>No value inside is \<open>undefined\<close>.\<close>

fun defined :: "jsv \<Rightarrow> bool" where
  "defined VUndef = False"
| "defined (VArr xs) = (\<forall>x \<in> set xs. defined x)"
| "defined (VObj ps) = (\<forall>p \<in> set ps. defined (snd p))"
| "defined _ = True"

lemma same_plain: "isPlainValue v \<Longrightarrow> same_value v w \<longleftrightarrow> v = w"
  by (cases v; cases w) auto

lemma same_plain_right: "isPlainValue w \<Longrightarrow> same_value v w \<longleftrightarrow> v = w"
  by (cases v; cases w) auto

lemma plain_array_free: "isPlainValue v \<Longrightarrow> array_free v"
  by (cases v) auto

lemma plain_not_object: "isPlainValue v \<Longrightarrow> v \<noteq> VObj ps"
  by auto

lemma same_version:
  assumes "same_value (VObj e) (VObj a)" and "map_of e k = Some v"
  shows "\<exists>w. map_of a k = Some w \<and> same_value v w"
proof -
  have "case map_of a k of Some w \<Rightarrow> same_value v w | None \<Rightarrow> False"
    using assms(1) map_of_SomeD [OF assms(2)] by auto
  then show ?thesis by (simp split: option.splits)
qed

text \<open>A well-formed value agrees with itself.\<close>

lemma same_value_refl: "v_wf v \<Longrightarrow> same_value v v"
proof (induction v rule: v_wf.induct)
  case (1 xs)
  then show ?case by (auto simp: list_all2_same)
next
  case (2 ps)
  have "map_of ps k = Some w \<and> same_value w w" if "(k, w) \<in> set ps" for k w
    using 2 that by fastforce
  then show ?case by auto
qed auto

end
