(* ===== verification/Drift.thy ===== *)
theory Drift
  imports AnyValue
begin

text \<open>
  The drift between a desired and an actual state
  (\<open>apps/edge-runtime/src/actions/compute-drift.ts\<close>): the comparison of two objects, nested
  objects included, with the category and severity of every difference, and the score of a
  list of differences.  The comparison is characterised by the agreement of the two states as
  finite maps; the score is an exact rational.
\<close>

section \<open>Drift results\<close>

datatype drift_category = Missing | Extra | Mismatch | Stale | Derived_error

datatype severity = Sev_info | Sev_warning | Sev_error

record drift_result =
  dr_key :: string
  dr_path :: "string option"
  dr_expected :: jsv
  dr_actual :: jsv
  dr_type :: drift_category
  dr_severity :: "severity option"

fun isObject :: "jsv \<Rightarrow> bool" where
  "isObject (VObj _) = True"
| "isObject _ = False"

fun inferMissingType :: "jsv \<Rightarrow> drift_category" where
  "inferMissingType VNull = Extra"
| "inferMissingType VUndef = Extra"
| "inferMissingType _ = Missing"

definition ends_with :: "string \<Rightarrow> string \<Rightarrow> bool" where
  "ends_with s suffix = starts_with (rev s) (rev suffix)"

definition join_path :: "string \<Rightarrow> string \<Rightarrow> string" where
  "join_path parent key = (if parent \<noteq> [] then parent @ ''.'' @ key else key)"

text \<open>Both values are objects with a numeric \<open>version\<close>, and the versions differ.\<close>

fun stale_versions :: "jsv \<Rightarrow> jsv \<Rightarrow> (rat \<times> rat) option" where
  "stale_versions (VObj e) (VObj a) =
     (case (obj_get e ''version'', obj_get a ''version'') of
        (VNum m, VNum n) \<Rightarrow> if m \<noteq> n then Some (m, n) else None
      | _ \<Rightarrow> None)"
| "stale_versions _ _ = None"

section \<open>computeDrift\<close>

definition missing_drift :: "string \<Rightarrow> string \<Rightarrow> jsv \<Rightarrow> drift_result" where
  "missing_drift key path expVal =
     \<lparr>dr_key = key, dr_path = Some path, dr_expected = expVal, dr_actual = VUndef,
      dr_type = inferMissingType expVal,
      dr_severity = Some (if expVal = VUndef then Sev_info else Sev_error)\<rparr>"

definition stale_drift :: "string \<Rightarrow> string \<Rightarrow> rat \<Rightarrow> rat \<Rightarrow> drift_result" where
  "stale_drift key path m n =
     \<lparr>dr_key = key, dr_path = Some path, dr_expected = VNum m, dr_actual = VNum n,
      dr_type = Stale, dr_severity = Some Sev_error\<rparr>"

text \<open>The comparison of two values that are not both objects.\<close>

definition leaf_drift :: "string \<Rightarrow> string \<Rightarrow> jsv \<Rightarrow> jsv \<Rightarrow> drift_result list" where
  "leaf_drift key path expVal actVal =
     (if isPlainValue expVal \<and> isPlainValue actVal
      then (if expVal \<noteq> actVal
            then (let derived = ends_with key ''_computed'' \<or> ends_with key ''_derived''
                  in [\<lparr>dr_key = key, dr_path = Some path, dr_expected = expVal, dr_actual = actVal,
                       dr_type = (if derived then Derived_error else Mismatch),
                       dr_severity = Some (if derived then Sev_error else Sev_warning)\<rparr>])
            else [])
      else [\<lparr>dr_key = key, dr_path = Some path, dr_expected = expVal, dr_actual = actVal,
             dr_type = Mismatch, dr_severity = Some Sev_error\<rparr>])"

definition extra_drifts :: "obj \<Rightarrow> obj \<Rightarrow> string \<Rightarrow> drift_result list" where
  "extra_drifts expected actual parentPath =
     map (\<lambda>(key, actVal).
            \<lparr>dr_key = key, dr_path = Some (join_path parentPath key), dr_expected = VUndef,
             dr_actual = actVal, dr_type = Extra, dr_severity = Some Sev_info\<rparr>)
       (filter (\<lambda>(key, _). key \<notin> fst ` set expected) actual)"

function computeDrift :: "obj \<Rightarrow> obj \<Rightarrow> string \<Rightarrow> drift_result list" where
  "computeDrift expected actual parentPath =
     concat (map (\<lambda>(key, expVal).
        let path = join_path parentPath key in
        case map_of actual key of
          None \<Rightarrow> [missing_drift key path expVal]
        | Some actVal \<Rightarrow>
            (case stale_versions expVal actVal of
               Some (m, n) \<Rightarrow> [stale_drift key path m n]
             | None \<Rightarrow>
                 (case expVal of
                    VObj e \<Rightarrow> (case actVal of VObj a \<Rightarrow> computeDrift e a path
                                | _ \<Rightarrow> leaf_drift key path expVal actVal)
                  | _ \<Rightarrow> leaf_drift key path expVal actVal))) expected)
     @ extra_drifts expected actual parentPath"
  by pat_completeness auto
termination
  by (relation "measure (\<lambda>(e, _, _). size (VObj e))") (auto dest: size_obj_member)

declare computeDrift.simps [simp del]

text \<open>The comparison of two present values, as the body of the loop makes it.\<close>

definition compare_values :: "string \<Rightarrow> string \<Rightarrow> jsv \<Rightarrow> jsv \<Rightarrow> drift_result list" where
  "compare_values key path expVal actVal =
     (case stale_versions expVal actVal of
        Some (m, n) \<Rightarrow> [stale_drift key path m n]
      | None \<Rightarrow>
          (case expVal of
             VObj e \<Rightarrow> (case actVal of VObj a \<Rightarrow> computeDrift e a path
                         | _ \<Rightarrow> leaf_drift key path expVal actVal)
           | _ \<Rightarrow> leaf_drift key path expVal actVal))"

lemma computeDrift_unfold:
  "computeDrift expected actual parentPath =
     concat (map (\<lambda>(key, expVal).
        case map_of actual key of
          None \<Rightarrow> [missing_drift key (join_path parentPath key) expVal]
        | Some actVal \<Rightarrow> compare_values key (join_path parentPath key) expVal actVal) expected)
     @ extra_drifts expected actual parentPath"
  unfolding compare_values_def by (subst computeDrift.simps) (simp only: Let_def)

section \<open>computeDriftScore\<close>

definition severity_points :: "severity option \<Rightarrow> rat" where
  "severity_points s =
     (case s of Some Sev_error \<Rightarrow> 1 | Some Sev_warning \<Rightarrow> 3 / 10 | Some Sev_info \<Rightarrow> 1 / 10
      | None \<Rightarrow> 1 / 2)"

definition drift_points :: "drift_result \<Rightarrow> rat" where
  "drift_points r =
     severity_points (dr_severity r)
     + (if dr_type r = Missing then 1 / 2 else 0) + (if dr_type r = Stale then 1 else 0)"

definition computeDriftScore :: "drift_result list \<Rightarrow> rat" where
  "computeDriftScore results = foldl (\<lambda>score r. score + drift_points r) 0 results"

section \<open>No drift is agreement\<close>

lemma extra_drifts_Nil: "extra_drifts expected actual p = [] \<longleftrightarrow> fst ` set actual \<subseteq> fst ` set expected"
  unfolding extra_drifts_def map_is_Nil_conv filter_empty_conv by (simp only: image_subset_iff split_def not_not)

lemma leaf_drift_Nil: "leaf_drift key path v w = [] \<longleftrightarrow> isPlainValue v \<and> v = w"
  by (auto simp: leaf_drift_def Let_def)

lemma stale_differ:
  assumes "stale_versions v w = Some mn"
  shows "\<not> same_value v w"
proof
  assume same: "same_value v w"
  obtain e where v: "v = VObj e" using assms by (cases v) auto
  obtain a where w: "w = VObj a" using assms v by (cases w) auto
  obtain m where m: "obj_get e ''version'' = VNum m"
    using assms v w by (cases "obj_get e ''version''") auto
  obtain n where n: "obj_get a ''version'' = VNum n" and ne: "m \<noteq> n"
    using assms v w m by (cases "obj_get a ''version''") (auto split: if_splits)
  from m have "map_of e ''version'' = Some (VNum m)"
    by (simp add: obj_get_def split: option.splits)
  from same_version [OF same [unfolded v w] this] n ne show False
    by (auto simp: obj_get_def same_plain)
qed

text \<open>One entry of the desired state, compared with its counterpart.\<close>

lemma compare_values_Nil:
  assumes nested: "\<And>e a. v = VObj e \<Longrightarrow> w = VObj a \<Longrightarrow> stale_versions v w = None \<Longrightarrow>
      computeDrift e a path = [] \<longleftrightarrow> array_free (VObj e) \<and> same_value (VObj e) (VObj a)"
  shows "compare_values key path v w = [] \<longleftrightarrow> array_free v \<and> same_value v w"
proof (cases "stale_versions v w")
  case None
  show ?thesis
  proof (cases v)
    case (VObj e)
    with None nested show ?thesis by (cases w) (simp_all add: compare_values_def leaf_drift_Nil)
  qed (use None in \<open>auto simp: compare_values_def leaf_drift_Nil same_plain\<close>)
next
  case (Some mn)
  with stale_differ [OF this] show ?thesis by (simp add: compare_values_def split: prod.split)
qed

lemma no_drift_agreement:
  "computeDrift e a p = [] \<longleftrightarrow> array_free (VObj e) \<and> same_value (VObj e) (VObj a)"
proof (induction e a p rule: computeDrift.induct)
  case (1 expected actual parentPath)
  have entry: "(case map_of actual k of
          None \<Rightarrow> [missing_drift k (join_path parentPath k) v]
        | Some w \<Rightarrow> compare_values k (join_path parentPath k) v w) = []
      \<longleftrightarrow> (case map_of actual k of None \<Rightarrow> False | Some w \<Rightarrow> array_free v \<and> same_value v w)"
    if "(k, v) \<in> set expected" for k v
  proof (cases "map_of actual k")
    case (Some w)
    then show ?thesis
      using compare_values_Nil [of v w "join_path parentPath k" k] 1 [OF that refl _ Some] by simp
  qed simp
  have "computeDrift expected actual parentPath = [] \<longleftrightarrow>
    (\<forall>(k, v) \<in> set expected. case map_of actual k of None \<Rightarrow> False | Some w \<Rightarrow> array_free v \<and> same_value v w)
    \<and> fst ` set actual \<subseteq> fst ` set expected"
    using entry unfolding computeDrift_unfold append_is_Nil_conv extra_drifts_Nil concat_eq_Nil_conv
    by (simp add: split_def)
  also have "(\<forall>(k, v) \<in> set expected. case map_of actual k of None \<Rightarrow> False | Some w \<Rightarrow> array_free v \<and> same_value v w)
    \<longleftrightarrow> (\<forall>(k, v) \<in> set expected. case map_of actual k of None \<Rightarrow> False | Some w \<Rightarrow> same_value v w)
        \<and> (\<forall>q \<in> set expected. array_free (snd q))"
    unfolding ball_conj_distrib [symmetric]
    by (intro ball_cong refl) (auto split: option.split)
  finally have "computeDrift expected actual parentPath = [] \<longleftrightarrow>
    ((\<forall>(k, v) \<in> set expected. case map_of actual k of None \<Rightarrow> False | Some w \<Rightarrow> same_value v w)
      \<and> (\<forall>q \<in> set expected. array_free (snd q))) \<and> fst ` set actual \<subseteq> fst ` set expected" .
  also have "\<dots> \<longleftrightarrow> array_free (VObj expected) \<and> same_value (VObj expected) (VObj actual)"
    by (simp only: array_free.simps same_value.simps) blast
  finally show ?case .
qed

section \<open>The score\<close>

lemma computeDriftScore_sum: "computeDriftScore rs = sum_list (map drift_points rs)"
proof -
  have "foldl (\<lambda>score r. score + drift_points r) s rs = s + sum_list (map drift_points rs)" for s
    by (induction rs arbitrary: s) (simp_all add: algebra_simps)
  then show ?thesis by (simp add: computeDriftScore_def)
qed

lemma drift_points_bounds: "1 / 10 \<le> drift_points r" "drift_points r \<le> 2"
  by (auto simp: drift_points_def severity_points_def split: option.split severity.split)

lemma computeDriftScore_bounds:
  "of_nat (length rs) / 10 \<le> computeDriftScore rs \<and> computeDriftScore rs \<le> 2 * of_nat (length rs)"
proof (induction rs)
  case (Cons r rs)
  with drift_points_bounds [of r] show ?case by (simp add: computeDriftScore_sum field_simps)
qed (simp add: computeDriftScore_def)

lemma computeDriftScore_zero: "computeDriftScore rs = 0 \<longleftrightarrow> rs = []"
  using computeDriftScore_bounds [of rs] by (cases rs) (auto simp: computeDriftScore_def)

text \<open>C38: The comparison of a desired with an actual state finds no drift, and its score is zero,
  exactly when the two agree as finite maps at every level of nesting and the desired state
  holds no array: an array drifts from everything, from the same array too.  The score lies
  between a tenth and twice the number of differences.
\<close>

theorem drift_free_iff_agreement:
  "(computeDrift e a p = [] \<longleftrightarrow> array_free (VObj e) \<and> same_value (VObj e) (VObj a))
   \<and> (computeDriftScore (computeDrift e a p) = 0 \<longleftrightarrow> computeDrift e a p = [])
   \<and> of_nat (length (computeDrift e a p)) / 10 \<le> computeDriftScore (computeDrift e a p)
   \<and> computeDriftScore (computeDrift e a p) \<le> 2 * of_nat (length (computeDrift e a p))"
  using no_drift_agreement computeDriftScore_zero computeDriftScore_bounds by simp

end
