(* ===== verification/JsonText.thy ===== *)
theory JsonText
  imports AnyValue
begin

text \<open>
  The text of a value: \<open>JSON.stringify\<close> as the runtime's code calls it, and the canonical text
  \<open>canonicalStableStringify\<close> of \<open>apps/edge-runtime/src/agentic-ux/agentic-ux.schema.ts\<close>, in which
  the keys of every object are sorted.  The text of a number is a parameter
  (\<open>Number.prototype.toString\<close>); what the results need of it is that two finite numbers have two
  texts and that a text is made of digits, signs, points and the exponent letter.  An infinite
  number, whose text is null, is outside the model.
\<close>

section \<open>JSON.stringify\<close>

definition hex_char :: "nat \<Rightarrow> char" where
  "hex_char n = char_of (if n < 10 then 48 + n else 87 + n)"

definition escape_char :: "char \<Rightarrow> string" where
  "escape_char c =
     (let n = of_char c :: nat in
      if n = 34 then [CHR 0x5C, CHR 0x22] else if n = 92 then [CHR 0x5C, CHR 0x5C]
      else if n = 8 then [CHR 0x5C, CHR ''b''] else if n = 9 then [CHR 0x5C, CHR ''t'']
      else if n = 10 then [CHR 0x5C, CHR ''n''] else if n = 12 then [CHR 0x5C, CHR ''f'']
      else if n = 13 then [CHR 0x5C, CHR ''r'']
      else if n < 32 then [CHR 0x5C, CHR ''u'', CHR ''0'', CHR ''0'', hex_char (n div 16), hex_char (n mod 16)]
      else [c])"

definition json_quote :: "string \<Rightarrow> string" where
  "json_quote s = CHR 0x22 # concat (map escape_char s) @ [CHR 0x22]"

text \<open>\<open>None\<close> is \<open>undefined\<close>: a key with such a value is left out, in an array it reads null.\<close>

fun json_text :: "(rat \<Rightarrow> string) \<Rightarrow> jsv \<Rightarrow> string option" where
  "json_text num VUndef = None"
| "json_text num VNull = Some ''null''"
| "json_text num (VBool b) = Some (if b then ''true'' else ''false'')"
| "json_text num (VNum n) = Some (num n)"
| "json_text num (VStr s) = Some (json_quote s)"
| "json_text num (VArr xs) =
     Some (''['' @ join_with '','' (map (\<lambda>x. case json_text num x of None \<Rightarrow> ''null'' | Some t \<Rightarrow> t) xs) @ '']'')"
| "json_text num (VObj ps) =
     Some (''{'' @ join_with '','' (concat (map (\<lambda>p. case json_text num (snd p) of None \<Rightarrow> []
                                             | Some t \<Rightarrow> [json_quote (fst p) @ '':'' @ t]) ps)) @ ''}'')"

text \<open>The value inside a template literal.\<close>

definition template_text :: "string option \<Rightarrow> string" where
  "template_text t = (case t of None \<Rightarrow> ''undefined'' | Some s \<Rightarrow> s)"

section \<open>canonicalStableStringify\<close>

lemma size_obj_get [termination_simp]:
  "size (obj_get ps k) < Suc (size_list (size_prod (\<lambda>_. 0) size) ps)"
  by (auto simp: obj_get_def dest!: map_of_SomeD size_obj_member split: option.split)

function canonicalStableStringify :: "(rat \<Rightarrow> string) \<Rightarrow> jsv \<Rightarrow> string option" where
  "canonicalStableStringify num (VObj ps) =
     Some (''{'' @ join_with '',''
        (map (\<lambda>k. json_quote k @ '':'' @ template_text (canonicalStableStringify num (obj_get ps k)))
           (sort (map fst ps))) @ ''}'')"
| "canonicalStableStringify num (VArr xs) =
     Some (''['' @ join_with '','' (map (\<lambda>x. case canonicalStableStringify num x of None \<Rightarrow> [] | Some t \<Rightarrow> t) xs) @ '']'')"
| "canonicalStableStringify num VUndef = json_text num VUndef"
| "canonicalStableStringify num VNull = json_text num VNull"
| "canonicalStableStringify num (VBool b) = json_text num (VBool b)"
| "canonicalStableStringify num (VNum n) = json_text num (VNum n)"
| "canonicalStableStringify num (VStr s) = json_text num (VStr s)"
  by pat_completeness auto
termination
  by (relation "measure (\<lambda>(_, v). size v)") (auto simp: size_obj_get size_list_estimation' intro: le_imp_less_Suc)

section \<open>Reading a text back\<close>

text \<open>What follows a value inside a text: nothing, or one of the three delimiters.\<close>

definition delimited :: "string \<Rightarrow> bool" where
  "delimited r \<longleftrightarrow> r = [] \<or> hd r \<in> {CHR '','', CHR '']'', CHR ''}''}"

definition number_chars :: string where
  "number_chars = ''0123456789+-.e''"

definition number_texts :: "(rat \<Rightarrow> string) \<Rightarrow> bool" where
  "number_texts num \<longleftrightarrow> inj num \<and> (\<forall>n. num n \<noteq> [] \<and> set (num n) \<subseteq> set number_chars)"

lemma delimited_simps [simp]:
  "delimited []" "delimited (CHR '','' # r)" "delimited (CHR '']'' # r)" "delimited (CHR ''}'' # r)"
  by (simp_all add: delimited_def)

lemma append_delimited:
  assumes "set s \<subseteq> A" and "set t \<subseteq> A" and "s @ r = t @ r'"
    and "r = [] \<or> hd r \<notin> A" and "r' = [] \<or> hd r' \<notin> A"
  shows "s = t \<and> r = r'"
  using assms
proof (induction s arbitrary: t)
  case Nil
  then show ?case by (cases t) (auto simp: Cons_eq_append_conv)
next
  case (Cons c s)
  then show ?case by (cases t) auto
qed

lemma hex_char_code: "n < 16 \<Longrightarrow> (of_char (hex_char n) :: nat) = (if n < 10 then 48 + n else 87 + n)"
  by (simp add: hex_char_def take_bit_nat_eq_self)

lemma hex_char_inj:
  assumes "m < 16" and "n < 16" and "hex_char m = hex_char n"
  shows "m = n"
  using arg_cong [OF assms(3), of "of_char :: char \<Rightarrow> nat"] assms(1,2)
  by (simp add: hex_char_code split: if_splits)

lemma hex_pair_inj:
  assumes "m < 32" and "n < (32 :: nat)"
    and "hex_char (m div 16) = hex_char (n div 16)" and "hex_char (m mod 16) = hex_char (n mod 16)"
  shows "m = n"
proof -
  have "m div 16 = n div 16" "m mod 16 = n mod 16"
    using assms by (auto intro!: hex_char_inj)
  then show ?thesis by (metis div_mult_mod_eq)
qed

text \<open>The code a short escape stands for.\<close>

definition unescape :: "char \<Rightarrow> nat" where
  "unescape l =
     (if l = CHR ''b'' then 8 else if l = CHR ''t'' then 9 else if l = CHR ''n'' then 10
      else if l = CHR ''f'' then 12 else if l = CHR ''r'' then 13 else of_char l)"

lemma escape_cases:
  obtains (plain) "escape_char c = [c]" "c \<noteq> CHR 0x22" "c \<noteq> CHR 0x5C"
  | (short) l where "escape_char c = [CHR 0x5C, l]" "l \<noteq> CHR ''u''" "unescape l = of_char c"
  | (hex) "escape_char c = [CHR 0x5C, CHR ''u'', CHR ''0'', CHR ''0'',
             hex_char (of_char c div 16), hex_char (of_char c mod 16)]" "of_char c < (32 :: nat)"
proof -
  let ?n = "of_char c :: nat"
  consider "?n = 34" | "?n = 92" | "?n = 8" | "?n = 9" | "?n = 10" | "?n = 12" | "?n = 13"
    | "?n < 32" "?n \<notin> {8, 9, 10, 12, 13}" | "\<not> ?n < 32" "?n \<noteq> 34" "?n \<noteq> 92" by auto
  then show thesis
  proof cases
    case 8
    then have "\<not> ?n = 34" "\<not> ?n = 92" "\<not> ?n = 8" "\<not> ?n = 9" "\<not> ?n = 10" "\<not> ?n = 12" "\<not> ?n = 13" by auto
    with 8 hex show thesis by (simp add: escape_char_def Let_def)
  next
    case 9
    then have "\<not> ?n = 8" "\<not> ?n = 9" "\<not> ?n = 10" "\<not> ?n = 12" "\<not> ?n = 13" by auto
    moreover have "c \<noteq> CHR 0x22" "c \<noteq> CHR 0x5C" using 9 by auto
    ultimately show thesis using 9 plain by (simp add: escape_char_def Let_def)
  qed (auto intro: short simp: escape_char_def Let_def unescape_def)
qed

lemma escape_quote_free: "escape_char c @ x \<noteq> CHR 0x22 # y"
  by (cases c rule: escape_cases) auto

lemma escape_decode:
  assumes "escape_char c @ x = escape_char d @ y"
  shows "c = d \<and> x = y"
  using assms
proof (cases c rule: escape_cases; cases d rule: escape_cases)
  fix l l'
  assume "escape_char c = [CHR 0x5C, l]" "unescape l = of_char c"
    "escape_char d = [CHR 0x5C, l']" "unescape l' = of_char d"
  with assms show ?thesis by (metis append_Cons append_Nil list.inject of_char_eq_iff)
next
  assume *: "escape_char c = [CHR 0x5C, CHR ''u'', CHR ''0'', CHR ''0'',
             hex_char (of_char c div 16), hex_char (of_char c mod 16)]" "of_char c < (32 :: nat)"
    "escape_char d = [CHR 0x5C, CHR ''u'', CHR ''0'', CHR ''0'',
             hex_char (of_char d div 16), hex_char (of_char d mod 16)]" "of_char d < (32 :: nat)"
  then have "(of_char c :: nat) = of_char d" "x = y"
    using assms hex_pair_inj [of "of_char c" "of_char d"] by simp_all
  then show ?thesis by simp
qed auto

lemma escapes_decode:
  "concat (map escape_char s) @ CHR 0x22 # r = concat (map escape_char t) @ CHR 0x22 # r' \<Longrightarrow> s = t \<and> r = r'"
proof (induction s arbitrary: t)
  case Nil
  show ?case
  proof (cases t)
    case (Cons d t')
    with Nil have "escape_char d @ concat (map escape_char t') @ CHR 0x22 # r' = CHR 0x22 # r" by simp
    then show ?thesis by (simp add: escape_quote_free)
  qed (use Nil in simp)
next
  case (Cons c s)
  show ?case
  proof (cases t)
    case Nil
    with Cons.prems show ?thesis by (simp add: escape_quote_free)
  next
    case (Cons d t')
    with Cons.prems have "escape_char c @ concat (map escape_char s) @ CHR 0x22 # r
        = escape_char d @ concat (map escape_char t') @ CHR 0x22 # r'" by simp
    from escape_decode [OF this] Cons.IH [of t'] Cons show ?thesis by blast
  qed
qed

lemma json_quote_decode: "json_quote s @ r = json_quote t @ r' \<Longrightarrow> s = t \<and> r = r'"
  using escapes_decode [of s r t r'] unfolding json_quote_def by simp

text \<open>
  Two comma-separated sequences with the same text, when the text of an element can be read
  back and neither starts with the closing bracket.
\<close>

lemma join_Cons: "join_with sep (x # xs) = x @ (if xs = [] then [] else sep @ join_with sep xs)"
  by (cases xs) simp_all

lemma join_decode:
  assumes "\<And>x y r r'. x \<in> set xs \<Longrightarrow> y \<in> set ys \<Longrightarrow> delimited r \<Longrightarrow> delimited r' \<Longrightarrow>
      f x @ r = g y @ r' \<Longrightarrow> R x y \<and> r = r'"
    and "\<And>x. x \<in> set xs \<Longrightarrow> f x \<noteq> [] \<and> hd (f x) \<noteq> c"
    and "\<And>y. y \<in> set ys \<Longrightarrow> g y \<noteq> [] \<and> hd (g y) \<noteq> c"
    and "delimited (c # r)" and "c \<noteq> CHR '',''"
    and "join_with '','' (map f xs) @ c # r = join_with '','' (map g ys) @ c # r'"
  shows "list_all2 R xs ys \<and> r = r'"
  using assms
proof (induction xs arbitrary: ys)
  case Nil
  show ?case
  proof (cases ys)
    case (Cons y ys')
    with Nil(3) [of y] Nil(6) show ?thesis by (cases "g y") (auto simp: join_Cons)
  qed (use Nil(6) in simp)
next
  case (Cons x xs)
  show ?case
  proof (cases ys)
    case Nil
    with Cons.prems(2) [of x] Cons.prems(6) show ?thesis
      by (auto simp: join_Cons append_eq_Cons_conv)
  next
    case ys: (Cons y ys')
    let ?t = "\<lambda>h zs q. (if zs = [] then [] else '','' @ join_with '','' (map h zs)) @ c # q"
    have "f x @ ?t f xs r = g y @ ?t g ys' r'" using Cons.prems(6) ys by (simp add: join_Cons)
    moreover have "delimited (?t f xs r)" "delimited (?t g ys' r')"
      using Cons.prems(4) by (simp_all add: delimited_def)
    ultimately have R: "R x y" and tails: "?t f xs r = ?t g ys' r'"
      using Cons.prems(1) [of x y] ys by auto
    have "xs = [] \<longleftrightarrow> ys' = []" using tails Cons.prems(5) by (auto split: if_splits)
    then have "join_with '','' (map f xs) @ c # r = join_with '','' (map g ys') @ c # r'"
      using tails by (auto split: if_splits)
    then have "list_all2 R xs ys' \<and> r = r'"
      using Cons.prems ys by (intro Cons.IH) auto
    with R ys show ?thesis by simp
  qed
qed

section \<open>The canonical text determines the value\<close>

abbreviation canon :: "(rat \<Rightarrow> string) \<Rightarrow> jsv \<Rightarrow> string" where
  "canon num v \<equiv> template_text (canonicalStableStringify num v)"

definition canon_entry :: "(rat \<Rightarrow> string) \<Rightarrow> obj \<Rightarrow> string \<Rightarrow> string" where
  "canon_entry num ps k = json_quote k @ '':'' @ canon num (obj_get ps k)"

declare canonicalStableStringify.simps(1,2) [simp del]

lemma canon_defined: "defined v \<Longrightarrow> (case canonicalStableStringify num v of None \<Rightarrow> [] | Some t \<Rightarrow> t) = canon num v"
  by (cases v) (simp_all add: template_text_def canonicalStableStringify.simps(1,2))

lemma canon_VArr:
  assumes "defined (VArr xs)"
  shows "canon num (VArr xs) = ''['' @ join_with '','' (map (canon num) xs) @ '']''"
proof -
  have "map (\<lambda>x. case canonicalStableStringify num x of None \<Rightarrow> [] | Some t \<Rightarrow> t) xs = map (canon num) xs"
    using assms by (intro map_cong refl) (simp add: canon_defined)
  then show ?thesis unfolding template_text_def by (subst canonicalStableStringify.simps) (simp only: option.simps)
qed

lemma canon_VObj:
  "canon num (VObj ps) = ''{'' @ join_with '','' (map (canon_entry num ps) (sort (map fst ps))) @ ''}''"
  unfolding canon_entry_def by (subst canonicalStableStringify.simps) (simp only: template_text_def option.simps)

text \<open>The first character of a text tells which kind of value it is the text of.\<close>

fun starts_value :: "jsv \<Rightarrow> char \<Rightarrow> bool" where
  "starts_value VUndef c = False"
| "starts_value VNull c = (c = CHR ''n'')"
| "starts_value (VBool b) c = (c = (if b then CHR ''t'' else CHR ''f''))"
| "starts_value (VNum n) c = (c \<in> set number_chars)"
| "starts_value (VStr s) c = (c = CHR 0x22)"
| "starts_value (VArr xs) c = (c = CHR ''['')"
| "starts_value (VObj ps) c = (c = CHR ''{'')"

lemma canon_first:
  assumes "number_texts num" and "defined v"
  obtains c t where "canon num v = c # t" "starts_value v c"
proof (cases v)
  case (VNum n)
  then obtain c t where ct: "num n = c # t" using assms(1) by (cases "num n") (auto simp: number_texts_def)
  then have "c \<in> set number_chars" using assms(1) by (metis list.set_intros(1) number_texts_def subsetD)
  with VNum ct that show thesis by (auto simp: template_text_def)
next
  case (VArr xs)
  with assms(2) have "canon num v = CHR ''['' # join_with '','' (map (canon num) xs) @ '']''"
    using canon_VArr by simp
  with VArr that show thesis by simp
next
  case (VObj ps)
  then have "canon num v = CHR ''{'' # join_with '','' (map (canon_entry num ps) (sort (map fst ps))) @ ''}''"
    using canon_VObj by simp
  with VObj that show thesis by simp
next
  case (VBool b)
  with that show thesis by (cases b) (auto simp: template_text_def)
qed (use assms that in \<open>auto simp: template_text_def json_quote_def\<close>)

lemma starts_value_kind:
  "starts_value v c \<Longrightarrow> starts_value w c \<Longrightarrow>
     (case (v, w) of (VNull, VNull) \<Rightarrow> True | (VBool b, VBool b') \<Rightarrow> b = b' | (VNum m, VNum n) \<Rightarrow> True
      | (VStr s, VStr t) \<Rightarrow> True | (VArr xs, VArr ys) \<Rightarrow> True | (VObj ps, VObj qs) \<Rightarrow> True | _ \<Rightarrow> False)"
  by (cases v; cases w) (auto simp: number_chars_def split: if_splits)

lemma starts_value_open: "starts_value v c \<Longrightarrow> c \<notin> {CHR '','', CHR '']'', CHR ''}''}"
  by (cases v) (auto simp: number_chars_def)

lemma sort_keys_member: "k \<in> set (sort (map fst ps)) \<Longrightarrow> (k, obj_get ps k) \<in> set ps"
proof -
  assume "k \<in> set (sort (map fst ps))"
  then obtain v where "map_of ps k = Some v" by (metis map_of_eq_None_iff not_None_eq set_map set_sort)
  then show ?thesis by (simp add: obj_get_def map_of_SomeD)
qed

lemma same_objects:
  assumes "distinct (map fst ps)" and "distinct (map fst qs)"
    and "list_all2 (\<lambda>k l. k = l \<and> same_value (obj_get ps k) (obj_get qs l))
           (sort (map fst ps)) (sort (map fst qs))"
  shows "same_value (VObj ps) (VObj qs)"
proof -
  have keys: "sort (map fst ps) = sort (map fst qs)"
    using assms(3) by (induction rule: list_all2_induct) auto
  then have "fst ` set qs \<subseteq> fst ` set ps" by (metis set_map set_sort subset_refl)
  moreover
  have "\<exists>w. map_of qs k = Some w \<and> same_value v w" if "(k, v) \<in> set ps" for k v
  proof -
    have k: "k \<in> set (sort (map fst ps))" using that by force
    then have "same_value (obj_get ps k) (obj_get qs k)"
      using assms(3) by (simp only: keys list_all2_same)
    moreover have "obj_get ps k = v" using that assms(1) by (simp add: obj_get_def)
    moreover have "map_of qs k = Some (obj_get qs k)"
      using sort_keys_member [of k qs] k keys assms(2) by simp
    ultimately show ?thesis by blast
  qed
  then have "case map_of qs k of Some w \<Rightarrow> same_value v w | None \<Rightarrow> False" if "(k, v) \<in> set ps" for k v
    using that by fastforce
  ultimately show ?thesis unfolding same_value.simps by blast
qed

lemma canon_entry_decode:
  assumes val: "\<And>r r'. delimited r \<Longrightarrow> delimited r' \<Longrightarrow>
      canon num (obj_get ps k) @ r = canon num (obj_get qs l) @ r' \<Longrightarrow>
      same_value (obj_get ps k) (obj_get qs l) \<and> r = r'"
    and "delimited r" and "delimited r'" and "canon_entry num ps k @ r = canon_entry num qs l @ r'"
  shows "(k = l \<and> same_value (obj_get ps k) (obj_get qs l)) \<and> r = r'"
proof -
  have "json_quote k @ '':'' @ canon num (obj_get ps k) @ r = json_quote l @ '':'' @ canon num (obj_get qs l) @ r'"
    using assms(4) by (simp add: canon_entry_def)
  from json_quote_decode [OF this] val [OF assms(2,3)] show ?thesis by auto
qed

lemma canon_entry_first: "canon_entry num ps k \<noteq> [] \<and> hd (canon_entry num ps k) \<noteq> CHR ''}''"
  by (simp add: canon_entry_def json_quote_def)

lemma canon_decode:
  assumes num: "number_texts num"
  shows "defined v \<Longrightarrow> v_wf v \<Longrightarrow> defined w \<Longrightarrow> v_wf w \<Longrightarrow> delimited r \<Longrightarrow> delimited r' \<Longrightarrow>
    canon num v @ r = canon num w @ r' \<Longrightarrow> same_value v w \<and> r = r'"
proof (induction v arbitrary: w r r' rule: measure_induct_rule [where f = size])
  case (less v)
  obtain c t where v: "canon num v = c # t" "starts_value v c" using canon_first [OF num less.prems(1)] .
  obtain d u where w: "canon num w = d # u" "starts_value w d" using canon_first [OF num less.prems(3)] .
  have "c = d" using less.prems(7) v w by simp
  note kind = starts_value_kind [OF v(2) w(2) [folded this]]
  have txts: "canon num v @ r = canon num w @ r'" by (rule less.prems(7))
  show ?case
  proof (cases v)
    case (VNum m)
    then obtain n where w': "w = VNum n" using kind by (cases w) auto
    have opened: "r = [] \<or> hd r \<notin> set number_chars" "r' = [] \<or> hd r' \<notin> set number_chars"
      using less.prems(5,6) by (auto simp: delimited_def number_chars_def)
    have "set (num m) \<subseteq> set number_chars" "set (num n) \<subseteq> set number_chars" "num m @ r = num n @ r'"
      using txts VNum w' num by (simp_all add: template_text_def number_texts_def)
    from append_delimited [OF this opened] have "num m = num n \<and> r = r'" .
    with num VNum w' show ?thesis by (simp add: number_texts_def inj_eq)
  next
    case (VStr s)
    then obtain s' where w': "w = VStr s'" using kind by (cases w) auto
    then show ?thesis using txts VStr json_quote_decode [of s r s' r'] by (simp add: template_text_def)
  next
    case (VArr xs)
    then obtain ys where w': "w = VArr ys" using kind by (cases w) auto
    have elem: "same_value x y \<and> q = q'" if "x \<in> set xs" "y \<in> set ys" "delimited q" "delimited q'"
      "canon num x @ q = canon num y @ q'" for x y q q'
      using less.IH [of x y q q'] less.prems that VArr w' size_list_estimation' [OF that(1), of "size x" size]
      by (simp add: less_Suc_eq_le)
    have first: "canon num x \<noteq> [] \<and> hd (canon num x) \<noteq> CHR '']''" if "defined x" for x
      using canon_first [OF num that] starts_value_open by (metis insertCI list.distinct(1) list.sel(1))
    have "list_all2 same_value xs ys \<and> r = r'"
      by (rule join_decode [of xs ys "canon num" "canon num" _ "CHR '']''" r r'])
        (use elem first less.prems VArr w' txts in \<open>auto simp: canon_VArr\<close>)
    with VArr w' show ?thesis by simp
  next
    case (VObj ps)
    then obtain qs where w': "w = VObj qs" using kind by (cases w) auto
    have "list_all2 (\<lambda>k l. k = l \<and> same_value (obj_get ps k) (obj_get qs l))
           (sort (map fst ps)) (sort (map fst qs)) \<and> r = r'"
    proof (rule join_decode [of _ _ "canon_entry num ps" "canon_entry num qs" _ "CHR ''}''" r r'])
      fix k l q q'
      assume kl: "k \<in> set (sort (map fst ps))" "l \<in> set (sort (map fst qs))"
        and q: "delimited q" "delimited q'" "canon_entry num ps k @ q = canon_entry num qs l @ q'"
      note members = sort_keys_member [OF kl(1)] sort_keys_member [OF kl(2)]
      have "size (obj_get ps k) < size v" unfolding VObj by (simp add: size_obj_get)
      then have "same_value (obj_get ps k) (obj_get qs l) \<and> p = p'"
        if "delimited p" "delimited p'" "canon num (obj_get ps k) @ p = canon num (obj_get qs l) @ p'" for p p'
        using that members less.prems VObj w' by (intro less.IH) auto
      from canon_entry_decode [OF this q]
      show "(k = l \<and> same_value (obj_get ps k) (obj_get qs l)) \<and> q = q'" .
    qed (use txts VObj w' in \<open>simp_all add: canon_VObj canon_entry_first\<close>)
    with same_objects [of ps qs] VObj w' less.prems show ?thesis by simp
  qed (use kind less.prems txts in \<open>cases w; simp add: template_text_def\<close>)+
qed

text \<open>Conversely the text depends on the order of no object's keys.\<close>

lemma same_keys_sorted:
  assumes "distinct (map fst ps)" and "distinct (map fst qs)" and "fst ` set ps = fst ` set qs"
  shows "sort (map fst ps) = sort (map fst qs)"
  using assms by (intro sorted_distinct_set_unique) simp_all

lemma canon_same:
  "v_wf v \<Longrightarrow> v_wf w \<Longrightarrow> same_value v w \<Longrightarrow>
   canonicalStableStringify num v = canonicalStableStringify num w"
proof (induction v w rule: same_value.induct)
  case (1 e a)
  have get: "obj_get e k = v" if "(k, v) \<in> set e" for k v using 1(2) that by (simp add: obj_get_def)
  have each: "\<exists>w. map_of a k = Some w \<and> same_value v w" if "(k, v) \<in> set e" for k v
    using same_version [OF 1(4), of k v] that 1(2) by simp
  have "fst ` set e = fst ` set a" using 1(4) each by (force dest: map_of_SomeD)
  then have keys: "sort (map fst e) = sort (map fst a)"
    using 1(2,3) by (intro same_keys_sorted) simp_all
  have "canonicalStableStringify num (obj_get e k) = canonicalStableStringify num (obj_get a k)"
    if "k \<in> set (sort (map fst a))" for k
  proof -
    have k: "(k, obj_get e k) \<in> set e" using that keys sort_keys_member by metis
    from each [OF this] obtain w where w: "map_of a k = Some w" "same_value (obj_get e k) w" by blast
    from map_of_SomeD [OF w(1)] k 1(2,3) have "v_wf (obj_get e k)" "v_wf w" by fastforce+
    with 1(1) [OF k refl w(1) _ _ w(2)] w(1) show ?thesis by (simp add: obj_get_def)
  qed
  then have "map (\<lambda>k. json_quote k @ '':'' @ canon num (obj_get e k)) (sort (map fst a))
      = map (\<lambda>k. json_quote k @ '':'' @ canon num (obj_get a k)) (sort (map fst a))"
    by (intro map_cong refl) (simp only:)
  with keys show ?case by (simp only: canonicalStableStringify.simps(1))
next
  case (2 xs ys)
  then have "list_all2 (\<lambda>x y. canonicalStableStringify num x = canonicalStableStringify num y) xs ys"
    by (auto simp: list_all2_conv_all_nth)
  then have "map (\<lambda>x. case canonicalStableStringify num x of None \<Rightarrow> [] | Some t \<Rightarrow> t) xs
      = map (\<lambda>x. case canonicalStableStringify num x of None \<Rightarrow> [] | Some t \<Rightarrow> t) ys"
    by (induction rule: list_all2_induct) auto
  then show ?case by (simp only: canonicalStableStringify.simps(2))
qed simp_all

text \<open>C22: Two well-formed values without \<open>undefined\<close> have the same canonical text exactly when they
  agree: the text does not depend on the order of any object's keys, and no two different values
  share it.
\<close>

theorem canonical_text_iff_agreement:
  assumes "number_texts num"
    and "v_wf v" and "defined v" and "v_wf w" and "defined w"
  shows "canonicalStableStringify num v = canonicalStableStringify num w \<longleftrightarrow> same_value v w"
  using canon_decode [OF assms(1,3,2,5,4), of "[]" "[]"] canon_same [OF assms(2,4)] by auto

text \<open>A text for every number: its fraction in lowest terms.\<close>

definition fraction_text :: "rat \<Rightarrow> string" where
  "fraction_text q =
     (if fst (quotient_of q) < 0 then ''-'' else ''+'') @ nat_text (nat \<bar>fst (quotient_of q)\<bar>)
     @ ''e'' @ nat_text (nat (snd (quotient_of q)))"

lemma digits_not_e: "list_all is_digit s \<Longrightarrow> CHR ''e'' \<notin> set s"
  by (auto simp: list_all_iff is_digit_def Let_def)

lemma digits_number_chars:
  assumes "list_all is_digit s"
  shows "set s \<subseteq> set number_chars"
proof
  fix c assume "c \<in> set s"
  then have "is_digit c" using assms by (simp add: list_all_iff)
  then have n: "48 \<le> (of_char c :: nat)" "(of_char c :: nat) \<le> 57" by (simp_all add: is_digit_def Let_def)
  have "(of_char c :: nat) \<in> {48, 49, 50, 51, 52, 53, 54, 55, 56, 57}"
    using n unfolding insert_iff empty_iff by presburger
  then have "(of_char c :: nat) \<in> of_char ` set ''0123456789''" by simp
  then have "c \<in> set ''0123456789''" by (metis imageE of_char_eq_iff)
  then show "c \<in> set number_chars" by (auto simp: number_chars_def)
qed

lemma nat_text_inj: "nat_text m = nat_text n \<Longrightarrow> m = n"
  by (metis digits_value_nat_text)

lemma split_at_char:
  assumes "s @ c # t = s' @ c # t'" and "c \<notin> set s" and "c \<notin> set s'"
  shows "s = s' \<and> t = t'"
  using assms
proof (induction s arbitrary: s')
  case Nil
  then show ?case by (cases s') auto
next
  case (Cons d s)
  then show ?case by (cases s') auto
qed

lemma number_texts_fraction: "number_texts fraction_text"
proof -
  have "p = q" if eq: "fraction_text p = fraction_text q" for p q
  proof -
    let ?s = "\<lambda>q. (if fst (quotient_of q) < 0 then ''-'' else ''+'') @ nat_text (nat \<bar>fst (quotient_of q)\<bar>)"
    have no_e: "CHR ''e'' \<notin> set (?s r)" for r
      using digits_not_e [OF nat_text_digits] by simp
    from eq have "?s p @ CHR ''e'' # nat_text (nat (snd (quotient_of p)))
        = ?s q @ CHR ''e'' # nat_text (nat (snd (quotient_of q)))"
      by (simp add: fraction_text_def)
    from split_at_char [OF this no_e no_e] have
      num: "?s p = ?s q" and den: "nat (snd (quotient_of p)) = nat (snd (quotient_of q))"
      using nat_text_inj by auto
    have "fst (quotient_of p) = fst (quotient_of q)"
      using num by (auto split: if_splits dest!: nat_text_inj)
    moreover have "snd (quotient_of p) = snd (quotient_of q)"
      using den quotient_of_denom_pos' [of p] quotient_of_denom_pos' [of q] by simp
    ultimately show ?thesis by (metis prod.collapse quotient_of_inject)
  qed
  moreover have "set (fraction_text q) \<subseteq> set number_chars" for q
    using digits_number_chars [OF nat_text_digits] by (auto simp: fraction_text_def number_chars_def)
  ultimately show ?thesis by (auto simp: number_texts_def inj_def fraction_text_def)
qed

lemma canonical_text_iff_agreement_witness:
  "canonicalStableStringify fraction_text (VObj [(''b'', VNum 1), (''a'', VArr [VNull, VStr ''x''])])
     = canonicalStableStringify fraction_text (VObj [(''a'', VArr [VNull, VStr ''x'']), (''b'', VNum 1)])
   \<and> canonicalStableStringify fraction_text (VObj [(''a'', VNum 1)])
     \<noteq> canonicalStableStringify fraction_text (VObj [(''a'', VStr ''1'')])"
  using canonical_text_iff_agreement [OF number_texts_fraction,
      of "VObj [(''b'', VNum 1), (''a'', VArr [VNull, VStr ''x''])]"
         "VObj [(''a'', VArr [VNull, VStr ''x'']), (''b'', VNum 1)]"]
    canonical_text_iff_agreement [OF number_texts_fraction,
      of "VObj [(''a'', VNum 1)]" "VObj [(''a'', VStr ''1'')]"]
  by simp

section \<open>The JSON text determines the value\<close>

abbreviation jtext :: "(rat \<Rightarrow> string) \<Rightarrow> jsv \<Rightarrow> string" where
  "jtext num v \<equiv> template_text (json_text num v)"

definition json_entry :: "(rat \<Rightarrow> string) \<Rightarrow> string \<times> jsv \<Rightarrow> string" where
  "json_entry num p = json_quote (fst p) @ '':'' @ jtext num (snd p)"

lemma json_text_defined: "defined v \<Longrightarrow> \<exists>t. json_text num v = Some t"
  by (cases v) simp_all

lemma jtext_VArr:
  assumes "defined (VArr xs)"
  shows "jtext num (VArr xs) = ''['' @ join_with '','' (map (jtext num) xs) @ '']''"
proof -
  have "map (\<lambda>x. case json_text num x of None \<Rightarrow> ''null'' | Some t \<Rightarrow> t) xs = map (jtext num) xs"
  proof (intro map_cong refl)
    fix x assume "x \<in> set xs"
    then obtain t where "json_text num x = Some t" using assms json_text_defined by fastforce
    then show "(case json_text num x of None \<Rightarrow> ''null'' | Some t \<Rightarrow> t) = jtext num x"
      by (simp add: template_text_def)
  qed
  then show ?thesis unfolding template_text_def by (simp only: json_text.simps option.simps)
qed

lemma jtext_VObj:
  assumes "defined (VObj ps)"
  shows "jtext num (VObj ps) = ''{'' @ join_with '','' (map (json_entry num) ps) @ ''}''"
proof -
  have "concat (map (\<lambda>p. case json_text num (snd p) of None \<Rightarrow> [] | Some t \<Rightarrow> [json_quote (fst p) @ '':'' @ t]) ps)
      = map (json_entry num) ps"
    using assms
  proof (induction ps)
    case (Cons p ps)
    then obtain t where "json_text num (snd p) = Some t" using json_text_defined by fastforce
    with Cons show ?case by (simp add: json_entry_def template_text_def)
  qed simp
  then show ?thesis unfolding template_text_def by (simp only: json_text.simps option.simps)
qed

lemma jtext_first:
  assumes "number_texts num" and "defined v"
  obtains c t where "jtext num v = c # t" "starts_value v c"
proof (cases v)
  case (VArr xs)
  with assms(2) have "jtext num v = CHR ''['' # join_with '','' (map (jtext num) xs) @ '']''"
    using jtext_VArr by simp
  with VArr that show thesis by simp
next
  case (VObj ps)
  with assms(2) have "jtext num v = CHR ''{'' # join_with '','' (map (json_entry num) ps) @ ''}''"
    using jtext_VObj by simp
  with VObj that show thesis by simp
qed (use canon_first [OF assms] that in \<open>auto simp: template_text_def\<close>)

lemma json_entry_decode:
  assumes val: "\<And>r r'. delimited r \<Longrightarrow> delimited r' \<Longrightarrow> jtext num (snd p) @ r = jtext num (snd q) @ r' \<Longrightarrow>
      snd p = snd q \<and> r = r'"
    and "delimited r" and "delimited r'" and "json_entry num p @ r = json_entry num q @ r'"
  shows "p = q \<and> r = r'"
proof -
  have "json_quote (fst p) @ '':'' @ jtext num (snd p) @ r = json_quote (fst q) @ '':'' @ jtext num (snd q) @ r'"
    using assms(4) by (simp add: json_entry_def)
  from json_quote_decode [OF this] val [OF assms(2,3)] show ?thesis by (auto intro: prod_eqI)
qed

lemma json_entry_first: "json_entry num p \<noteq> [] \<and> hd (json_entry num p) \<noteq> CHR ''}''"
  by (simp add: json_entry_def json_quote_def)

lemma json_decode:
  assumes num: "number_texts num"
  shows "defined v \<Longrightarrow> defined w \<Longrightarrow> delimited r \<Longrightarrow> delimited r' \<Longrightarrow>
    jtext num v @ r = jtext num w @ r' \<Longrightarrow> v = w \<and> r = r'"
proof (induction v arbitrary: w r r' rule: measure_induct_rule [where f = size])
  case (less v)
  obtain c t where v: "jtext num v = c # t" "starts_value v c" using jtext_first [OF num less.prems(1)] .
  obtain d u where w: "jtext num w = d # u" "starts_value w d" using jtext_first [OF num less.prems(2)] .
  have "c = d" using less.prems(5) v w by simp
  note kind = starts_value_kind [OF v(2) w(2) [folded this]]
  have txts: "jtext num v @ r = jtext num w @ r'" by (rule less.prems(5))
  show ?case
  proof (cases v)
    case (VNum m)
    then obtain n where w': "w = VNum n" using kind by (cases w) auto
    have opened: "r = [] \<or> hd r \<notin> set number_chars" "r' = [] \<or> hd r' \<notin> set number_chars"
      using less.prems(3,4) by (auto simp: delimited_def number_chars_def)
    have "set (num m) \<subseteq> set number_chars" "set (num n) \<subseteq> set number_chars" "num m @ r = num n @ r'"
      using txts VNum w' num by (simp_all add: template_text_def number_texts_def)
    from append_delimited [OF this opened] have "num m = num n \<and> r = r'" .
    with num VNum w' show ?thesis by (simp add: number_texts_def inj_eq)
  next
    case (VStr s)
    then obtain s' where w': "w = VStr s'" using kind by (cases w) auto
    then show ?thesis using txts VStr json_quote_decode [of s r s' r'] by (simp add: template_text_def)
  next
    case (VArr xs)
    then obtain ys where w': "w = VArr ys" using kind by (cases w) auto
    have elem: "x = y \<and> q = q'" if "x \<in> set xs" "y \<in> set ys" "delimited q" "delimited q'"
      "jtext num x @ q = jtext num y @ q'" for x y q q'
      using less.IH [of x y q q'] less.prems that VArr w' size_list_estimation' [OF that(1), of "size x" size]
      by (simp add: less_Suc_eq_le)
    have first: "jtext num x \<noteq> [] \<and> hd (jtext num x) \<noteq> CHR '']''" if "defined x" for x
      using jtext_first [OF num that] starts_value_open by (metis insertCI list.distinct(1) list.sel(1))
    have "list_all2 (=) xs ys \<and> r = r'"
      by (rule join_decode [of xs ys "jtext num" "jtext num" _ "CHR '']''" r r'])
        (use elem first less.prems(1,2) VArr w' txts jtext_VArr [of xs num] jtext_VArr [of ys num] in auto)
    with VArr w' show ?thesis by (simp add: list.rel_eq)
  next
    case (VObj ps)
    then obtain qs where w': "w = VObj qs" using kind by (cases w) auto
    have "list_all2 (=) ps qs \<and> r = r'"
    proof (rule join_decode [of _ _ "json_entry num" "json_entry num" _ "CHR ''}''" r r'])
      fix p q s s'
      assume pq: "p \<in> set ps" "q \<in> set qs"
        and s: "delimited s" "delimited s'" "json_entry num p @ s = json_entry num q @ s'"
      have "size (snd p) < size v" using size_obj_member [of "fst p" "snd p" ps] pq(1) VObj by simp
      then have "snd p = snd q \<and> t = t'"
        if "delimited t" "delimited t'" "jtext num (snd p) @ t = jtext num (snd q) @ t'" for t t'
        using that pq less.prems(1,2) VObj w' by (intro less.IH) auto
      from json_entry_decode [OF this s] show "p = q \<and> s = s'" .
    qed (use txts VObj w' less.prems(1,2) jtext_VObj [of ps num] jtext_VObj [of qs num] in \<open>simp_all add: json_entry_first\<close>)
    with VObj w' show ?thesis by (simp add: list.rel_eq)
  qed (use kind less.prems txts in \<open>cases w; simp add: template_text_def\<close>)+
qed

text \<open>At the top level of an object a key whose value is \<open>undefined\<close> leaves no trace.\<close>

lemma json_text_drop:
  "json_text num (VObj ps) = json_text num (VObj (filter (\<lambda>p. snd p \<noteq> VUndef) ps))"
proof -
  have "concat (map (\<lambda>p. case json_text num (snd p) of None \<Rightarrow> [] | Some t \<Rightarrow> [json_quote (fst p) @ '':'' @ t]) ps)
      = concat (map (\<lambda>p. case json_text num (snd p) of None \<Rightarrow> [] | Some t \<Rightarrow> [json_quote (fst p) @ '':'' @ t])
          (filter (\<lambda>p. snd p \<noteq> VUndef) ps))"
    by (induction ps) auto
  then show ?thesis by (simp only: json_text.simps)
qed

end
