(* ===== verification/Manifest.thy ===== *)
theory Manifest
  imports AnyValue
begin

text \<open>
  The mission manifest of the agentic runtime
  (\<open>apps/edge-runtime/src/agentic-ux/agentic-ux.schema.ts\<close>, \<open>manifest-generator.ts\<close>): its
  steps and plans, the detection of dependency cycles by depth-first search in the two forms the
  code has it (the schema's and the one of \<open>actions/lifecycle.ts\<close>), the checks the schema adds to
  the shape of a manifest, and the generator that makes a manifest of a goal.  The structural
  pass of the schema library is a parameter.
\<close>

section \<open>Steps and manifests\<close>

datatype risk_level = Risk_none | Risk_low | Risk_medium | Risk_high | Risk_critical

datatype approval_mode = Approval_none | Approval_user | Approval_tenant_policy | Approval_admin | Approval_external

datatype compensation_mode = Comp_none | Comp_reverse | Comp_soft_reverse | Comp_manual

record mission_step =
  stp_stepId :: string
  stp_description :: string
  stp_actionType :: string
  stp_input :: jsv
  stp_targetRef :: "string option"
  stp_dependsOn :: "string list option"
  stp_approvalMode :: approval_mode
  stp_risk :: risk_level

record verification_plan =
  vpl_checkId :: string
  vpl_stepId :: string
  vpl_type :: string
  vpl_expected :: string

record compensation_plan =
  cpl_stepId :: string
  cpl_compensateStepId :: "string option"
  cpl_mode :: compensation_mode
  cpl_reason :: "string option"
  cpl_requiresUserApproval :: "bool option"

record gogo_scope =
  gs_actions :: "string list option"
  gs_paths :: "string list option"
  gs_maxDrift :: "rat option"
  gs_maxCompensationTimeMs :: "rat option"

record gogo_authorization =
  gg_authorizedBy :: string
  gg_authorizedAt :: iso
  gg_scope :: "gogo_scope option"
  gg_constraints :: "(string \<times> bool) list option"
  gg_expiresAt :: "string option"
  gg_notes :: "string option"

record mission_manifest =
  mf_id :: string
  mf_sessionId :: string
  mf_tenantId :: string
  mf_correlationId :: string
  mf_stateProjectionVersion :: nat
  mf_intent :: string
  mf_expectedOutcome :: string
  mf_steps :: "mission_step list"
  mf_verificationPlan :: "verification_plan list"
  mf_compensationPlan :: "compensation_plan list"
  mf_gogo :: "gogo_authorization option"
  mf_status :: string
  mf_createdAt :: iso

text \<open>The dependencies a step declares, \<open>step.dependsOn ?? []\<close>.\<close>

definition stp_deps :: "mission_step \<Rightarrow> string list" where
  "stp_deps s = (case stp_dependsOn s of Some ds \<Rightarrow> ds | None \<Rightarrow> [])"

section \<open>Dependency cycles\<close>

text \<open>
  The graph is a map from step ids to dependencies; of two steps with one id the later is kept
  by the schema's map, the earlier found by the lifecycle's \<open>find\<close>.  A search returns \<open>None\<close> when
  it has met a cycle and the visited ids otherwise.
\<close>

type_synonym dep_graph = "(string \<times> string list) list"

definition deps_in :: "dep_graph \<Rightarrow> string \<Rightarrow> string list" where
  "deps_in g x = (case map_of g x of Some ds \<Rightarrow> ds | None \<Rightarrow> [])"

definition schema_graph :: "mission_step list \<Rightarrow> dep_graph" where
  "schema_graph steps = rev (map (\<lambda>s. (stp_stepId s, stp_deps s)) steps)"

definition lifecycle_graph :: "mission_step list \<Rightarrow> dep_graph" where
  "lifecycle_graph steps = map (\<lambda>s. (stp_stepId s, stp_deps s)) steps"

lemma deps_in_key: "deps_in g x \<noteq> [] \<Longrightarrow> x \<in> fst ` set g"
  by (metis deps_in_def map_of_eq_None_iff option.simps(4))

lemma card_insert_key [termination_simp]:
  assumes "x \<notin> visiting" and "deps_in g x \<noteq> []"
  shows "card (fst ` set g - insert x visiting) < card (fst ` set g - visiting)"
proof -
  have "x \<in> fst ` set g" using assms(2) by (rule deps_in_key)
  then have "fst ` set g - insert x visiting \<subset> fst ` set g - visiting" using assms(1) by auto
  then show ?thesis by (intro psubset_card_mono) simp_all
qed

function visit :: "dep_graph \<Rightarrow> string \<Rightarrow> string set \<Rightarrow> string set \<Rightarrow> string set option"
  and visit_all :: "dep_graph \<Rightarrow> string list \<Rightarrow> string set \<Rightarrow> string set \<Rightarrow> string set option"
where
  "visit g x visiting visited =
     (if x \<in> visiting then None
      else if x \<in> visited then Some visited
      else (case visit_all g (deps_in g x) (insert x visiting) visited of
              None \<Rightarrow> None
            | Some vs \<Rightarrow> Some (insert x vs)))"
| "visit_all g [] visiting visited = Some visited"
| "visit_all g (d # ds) visiting visited =
     (case visit g d visiting visited of
        None \<Rightarrow> None
      | Some vs \<Rightarrow> visit_all g ds visiting vs)"
  by pat_completeness auto
termination
proof (relation "inv_image (less_than <*lex*> less_than) (\<lambda>q. case q of
    Inl (g, x, visiting, visited) \<Rightarrow> (card (fst ` set g - visiting), 3)
  | Inr (g, ds, visiting, visited) \<Rightarrow> (card (fst ` set g - visiting), 2 + 2 * length ds))")
  fix g :: dep_graph and x :: string and visiting visited :: "string set"
  assume new: "x \<notin> visiting"
  show "(Inr (g, deps_in g x, insert x visiting, visited), Inl (g, x, visiting, visited))
     \<in> inv_image (less_than <*lex*> less_than) (\<lambda>q. case q of
    Inl (g, x, visiting, visited) \<Rightarrow> (card (fst ` set g - visiting), 3)
  | Inr (g, ds, visiting, visited) \<Rightarrow> (card (fst ` set g - visiting), 2 + 2 * length ds))"
  proof (cases "deps_in g x")
    case Nil
    have "card (fst ` set g - insert x visiting) \<le> card (fst ` set g - visiting)"
      by (intro card_mono) auto
    with Nil show ?thesis by auto
  qed (use card_insert_key [OF new, of g] in simp)
qed auto

definition hasDependencyCycle :: "mission_step list \<Rightarrow> bool" where
  "hasDependencyCycle steps = (visit_all (schema_graph steps) (map stp_stepId steps) {} {} = None)"

text \<open>The search of \<open>actions/lifecycle.ts\<close>: an id is marked visited when it is entered.\<close>

function dfs :: "dep_graph \<Rightarrow> string \<Rightarrow> string set \<Rightarrow> string set \<Rightarrow> string set option"
  and dfs_all :: "dep_graph \<Rightarrow> string list \<Rightarrow> string set \<Rightarrow> string set \<Rightarrow> string set option"
where
  "dfs g x inStack visited =
     (if x \<in> inStack then None
      else if x \<in> visited then Some visited
      else dfs_all g (deps_in g x) (insert x inStack) (insert x visited))"
| "dfs_all g [] inStack visited = Some visited"
| "dfs_all g (d # ds) inStack visited =
     (case dfs g d inStack visited of
        None \<Rightarrow> None
      | Some vs \<Rightarrow> dfs_all g ds inStack vs)"
  by pat_completeness auto
termination
proof (relation "inv_image (less_than <*lex*> less_than) (\<lambda>q. case q of
    Inl (g, x, inStack, visited) \<Rightarrow> (card (fst ` set g - inStack), 3)
  | Inr (g, ds, inStack, visited) \<Rightarrow> (card (fst ` set g - inStack), 2 + 2 * length ds))")
  fix g :: dep_graph and x :: string and inStack visited :: "string set"
  assume new: "x \<notin> inStack"
  show "(Inr (g, deps_in g x, insert x inStack, insert x visited), Inl (g, x, inStack, visited))
     \<in> inv_image (less_than <*lex*> less_than) (\<lambda>q. case q of
    Inl (g, x, inStack, visited) \<Rightarrow> (card (fst ` set g - inStack), 3)
  | Inr (g, ds, inStack, visited) \<Rightarrow> (card (fst ` set g - inStack), 2 + 2 * length ds))"
  proof (cases "deps_in g x")
    case Nil
    have "card (fst ` set g - insert x inStack) \<le> card (fst ` set g - inStack)"
      by (intro card_mono) auto
    with Nil show ?thesis by auto
  qed (use card_insert_key [OF new, of g] in simp)
qed auto

definition lifecycle_hasDependencyCycle :: "mission_step list \<Rightarrow> bool" where
  "lifecycle_hasDependencyCycle steps =
     (dfs_all (lifecycle_graph steps) (map stp_stepId steps) {} {} = None)"

section \<open>The search finds exactly the cycles\<close>

text \<open>The dependency relation: a step depends on each of its dependencies.\<close>

definition depends :: "dep_graph \<Rightarrow> (string \<times> string) set" where
  "depends g = {(x, d). d \<in> set (deps_in g x)}"

declare visit.simps [simp del] dfs.simps [simp del]

text \<open>The ids whose search is over: closed under dependencies, and on no cycle.\<close>

definition dfs_settled :: "dep_graph \<Rightarrow> string set \<Rightarrow> bool" where
  "dfs_settled g A \<longleftrightarrow> depends g `` A \<subseteq> A \<and> (\<forall>x \<in> A. (x, x) \<notin> (depends g)\<^sup>+)"

lemma settled_trancl:
  assumes "dfs_settled g A" and "x \<in> A" and "(x, y) \<in> (depends g)\<^sup>+"
  shows "y \<in> A"
  using assms(3,1,2) by (induction rule: trancl_induct) (auto simp: dfs_settled_def)

lemma settled_insert:
  assumes A: "dfs_settled g A" and "x \<notin> A" and deps: "set (deps_in g x) \<subseteq> A"
  shows "dfs_settled g (insert x A)"
proof -
  have "(x, x) \<notin> (depends g)\<^sup>+"
  proof
    assume "(x, x) \<in> (depends g)\<^sup>+"
    then obtain d where "(x, d) \<in> depends g" and "(d, x) \<in> (depends g)\<^sup>*" by (blast dest: tranclD)
    then have "d \<in> A" using deps by (auto simp: depends_def)
    with \<open>(d, x) \<in> (depends g)\<^sup>*\<close> A \<open>x \<notin> A\<close> show False
      using settled_trancl by (metis rtranclD)
  qed
  with A deps show ?thesis by (auto simp: dfs_settled_def depends_def)
qed

text \<open>A search that meets no cycle settles what it visits.\<close>

lemma visit_settles:
  "visit g x visiting visited = Some vs \<Longrightarrow> dfs_settled g visited \<Longrightarrow> visiting \<inter> visited = {} \<Longrightarrow>
     dfs_settled g vs \<and> insert x visited \<subseteq> vs \<and> visiting \<inter> vs = {}"
  "visit_all g ds visiting visited = Some vs \<Longrightarrow> dfs_settled g visited \<Longrightarrow> visiting \<inter> visited = {} \<Longrightarrow>
     dfs_settled g vs \<and> set ds \<union> visited \<subseteq> vs \<and> visiting \<inter> vs = {}"
proof (induction g x visiting visited and g ds visiting visited arbitrary: vs and vs
    rule: visit_visit_all.induct)
  case (1 g x visiting visited)
  show ?case
  proof (cases "x \<in> visited")
    case True
    with 1 show ?thesis by (auto simp: visit.simps [of g x] split: if_splits)
  next
    case False
    then obtain ws where new: "x \<notin> visiting" and ws: "visit_all g (deps_in g x) (insert x visiting) visited = Some ws"
      and vs: "vs = insert x ws"
      using 1(2) by (auto simp: visit.simps [of g x] split: if_splits option.splits)
    have *: "dfs_settled g ws \<and> set (deps_in g x) \<union> visited \<subseteq> ws \<and> insert x visiting \<inter> ws = {}"
      using 1(1) [OF new False ws] 1(3,4) False by auto
    then have "dfs_settled g (insert x ws)" by (intro settled_insert) auto
    with * vs new show ?thesis by auto
  qed
next
  case (3 g d ds visiting visited)
  then obtain ws where "visit g d visiting visited = Some ws" "visit_all g ds visiting ws = Some vs"
    by (auto split: option.splits)
  with 3(1) [OF this(1) 3(4,5)] 3(2) [OF this(1,2)] show ?case by auto
qed simp

text \<open>A search that stops has met a cycle, when what it is visiting leads to it.\<close>

lemma visit_cycle:
  "visit g x visiting visited = None \<Longrightarrow> (\<And>v. v \<in> visiting \<Longrightarrow> (v, x) \<in> (depends g)\<^sup>+) \<Longrightarrow>
     \<exists>y. (y, y) \<in> (depends g)\<^sup>+"
  "visit_all g ds visiting visited = None \<Longrightarrow>
     (\<And>v d. v \<in> visiting \<Longrightarrow> d \<in> set ds \<Longrightarrow> (v, d) \<in> (depends g)\<^sup>+) \<Longrightarrow> \<exists>y. (y, y) \<in> (depends g)\<^sup>+"
proof (induction g x visiting visited and g ds visiting visited rule: visit_visit_all.induct)
  case (1 g x visiting visited)
  show ?case
  proof (cases "x \<in> visiting")
    case False
    then have new: "x \<notin> visited" and stop: "visit_all g (deps_in g x) (insert x visiting) visited = None"
      using 1(2) by (auto simp: visit.simps [of g x] split: if_splits option.splits)
    have "(v, d) \<in> (depends g)\<^sup>+" if "v \<in> insert x visiting" "d \<in> set (deps_in g x)" for v d
      using that 1(3) [of v] by (auto simp: depends_def intro: trancl_into_trancl)
    with 1(1) [OF False new stop] show ?thesis by blast
  qed (use 1(3) in blast)
next
  case (3 g d ds visiting visited)
  then show ?case by (auto split: option.splits)
qed simp

lemma visit_all_iff:
  "visit_all g xs {} {} = None \<longleftrightarrow> (\<exists>x. (x, x) \<in> (depends g)\<^sup>+)" if "fst ` set g \<subseteq> set xs"
proof
  show "visit_all g xs {} {} = None \<Longrightarrow> \<exists>x. (x, x) \<in> (depends g)\<^sup>+" by (rule visit_cycle(2)) auto
next
  assume "\<exists>x. (x, x) \<in> (depends g)\<^sup>+"
  then obtain x where x: "(x, x) \<in> (depends g)\<^sup>+" by blast
  then obtain d where "(x, d) \<in> depends g" by (blast dest: tranclD)
  then have "x \<in> fst ` set g" by (intro deps_in_key) (auto simp: depends_def)
  show "visit_all g xs {} {} = None"
  proof (cases "visit_all g xs {} {}")
    case (Some vs)
    with visit_settles(2) [OF Some] have "dfs_settled g vs" "set xs \<subseteq> vs" by (auto simp: dfs_settled_def)
    moreover from this(2) \<open>x \<in> fst ` set g\<close> that have "x \<in> vs" by blast
    ultimately show ?thesis using x by (simp add: dfs_settled_def)
  qed simp
qed

text \<open>The lifecycle's search visits, beside what it is inside of, what the schema's visits.\<close>

lemma dfs_refines:
  "dfs g x visiting (visited \<union> visiting) = map_option (\<lambda>vs. vs \<union> visiting) (visit g x visiting visited)"
  "dfs_all g ds visiting (visited \<union> visiting) = map_option (\<lambda>vs. vs \<union> visiting) (visit_all g ds visiting visited)"
proof (induction g x visiting visited and g ds visiting visited rule: visit_visit_all.induct)
  case (1 g x visiting visited)
  show ?case
  proof (cases "x \<in> visiting \<or> x \<in> visited")
    case True
    then show ?thesis by (auto simp: visit.simps [of g x] dfs.simps [of g x])
  next
    case False
    then have "dfs g x visiting (visited \<union> visiting)
        = dfs_all g (deps_in g x) (insert x visiting) (visited \<union> insert x visiting)"
      by (simp add: dfs.simps [of g x])
    also have "\<dots> = map_option (\<lambda>vs. vs \<union> insert x visiting) (visit_all g (deps_in g x) (insert x visiting) visited)"
      using 1 False by blast
    finally show ?thesis using False
      by (auto simp: visit.simps [of g x] option.map_comp comp_def split: option.split)
  qed
next
  case (3 g d ds visiting visited)
  then show ?case by (auto split: option.split)
qed simp

lemma schema_graph_keys: "fst ` set (schema_graph steps) = stp_stepId ` set steps"
  by (simp add: schema_graph_def image_image)

lemma lifecycle_graph_keys: "fst ` set (lifecycle_graph steps) = stp_stepId ` set steps"
  by (simp add: lifecycle_graph_def image_image)

lemma hasDependencyCycle_iff:
  "hasDependencyCycle steps \<longleftrightarrow> (\<exists>x. (x, x) \<in> (depends (schema_graph steps))\<^sup>+)"
  unfolding hasDependencyCycle_def by (rule visit_all_iff) (simp add: schema_graph_keys)

lemma lifecycle_hasDependencyCycle_iff:
  "lifecycle_hasDependencyCycle steps \<longleftrightarrow> (\<exists>x. (x, x) \<in> (depends (lifecycle_graph steps))\<^sup>+)"
  unfolding lifecycle_hasDependencyCycle_def
  using dfs_refines(2) [of "lifecycle_graph steps" "map stp_stepId steps" "{}" "{}"]
    visit_all_iff [of "lifecycle_graph steps" "map stp_stepId steps"]
  by (simp add: lifecycle_graph_keys)

lemma depends_graphs:
  assumes "distinct (map stp_stepId steps)"
  shows "depends (lifecycle_graph steps) = depends (schema_graph steps)"
proof -
  have "map_of (schema_graph steps) = map_of (lifecycle_graph steps)"
    by (subst map_of_inject_set) (use assms in \<open>simp_all add: schema_graph_def lifecycle_graph_def comp_def rev_map [symmetric]\<close>)
  then show ?thesis by (simp add: depends_def deps_in_def)
qed

text \<open>C11: A manifest's dependency check fails exactly when some step depends on itself through one
  or more declared dependencies, and for steps with distinct ids the second implementation of
  the check, in the lifecycle runner, answers alike.
\<close>

theorem cycle_detection_correct:
  "(hasDependencyCycle steps \<longleftrightarrow> (\<exists>x. (x, x) \<in> (depends (schema_graph steps))\<^sup>+))
   \<and> (lifecycle_hasDependencyCycle steps \<longleftrightarrow> (\<exists>x. (x, x) \<in> (depends (lifecycle_graph steps))\<^sup>+))
   \<and> (if distinct (map stp_stepId steps)
      then lifecycle_hasDependencyCycle steps = hasDependencyCycle steps else True)"
  using hasDependencyCycle_iff lifecycle_hasDependencyCycle_iff depends_graphs by auto

section \<open>The schema's own checks\<close>

record zod_issue =
  iss_path :: "string list"
  iss_message :: string
  iss_code :: string

definition custom_issue :: "string list \<Rightarrow> string \<Rightarrow> zod_issue" where
  "custom_issue path message = \<lparr>iss_path = path, iss_message = message, iss_code = ''custom''\<rparr>"

text \<open>The elements of a \<open>Set\<close> of the list's elements, in the order of insertion.\<close>

definition set_order :: "'a list \<Rightarrow> 'a list" where
  "set_order xs = rev (remdups (rev xs))"

fun duplicate_issues :: "nat \<Rightarrow> string set \<Rightarrow> mission_step list \<Rightarrow> zod_issue list" where
  "duplicate_issues i seen [] = []"
| "duplicate_issues i seen (s # ss) =
     (if stp_stepId s \<in> seen
      then [custom_issue [''steps'', nat_text i, ''stepId''] ''stepId must be unique within the mission manifest'']
      else [])
     @ duplicate_issues (Suc i) (insert (stp_stepId s) seen) ss"

definition unknown_dependency_issues :: "mission_step list \<Rightarrow> zod_issue list" where
  "unknown_dependency_issues steps =
     concat (map (\<lambda>(i, s).
        map (\<lambda>d. custom_issue [''steps'', nat_text i, ''dependsOn''] (''step dependsOn unknown stepId: '' @ d))
          (filter (\<lambda>d. d \<notin> stp_stepId ` set steps) (stp_deps s))) (enumerate 0 steps))"

definition undeclared_issues :: "string \<Rightarrow> string \<Rightarrow> string list \<Rightarrow> mission_step list \<Rightarrow> zod_issue list" where
  "undeclared_issues field what declared steps =
     map (\<lambda>i. custom_issue [field] (''missing '' @ what @ '' declaration for stepId: '' @ i))
       (filter (\<lambda>i. i \<notin> set declared) (set_order (map stp_stepId steps)))"

definition unapproved :: "mission_step \<Rightarrow> bool" where
  "unapproved s \<longleftrightarrow> stp_approvalMode s = Approval_none \<and> stp_risk s \<noteq> Risk_none"

definition approval_issues :: "mission_step list \<Rightarrow> zod_issue list" where
  "approval_issues steps =
     map (\<lambda>(i, s). custom_issue [''steps'', nat_text i, ''approvalMode'']
            ''non-none risk actions must declare an approval mode'')
       (filter (\<lambda>(i, s). unapproved s) (enumerate 0 steps))"

definition superRefine :: "mission_manifest \<Rightarrow> zod_issue list" where
  "superRefine m =
     (let steps = mf_steps m in
      duplicate_issues 0 {} steps
      @ unknown_dependency_issues steps
      @ (if hasDependencyCycle steps
         then [custom_issue [''steps''] ''mission manifest steps must not contain dependency cycles''] else [])
      @ (if length (mf_compensationPlan m) \<noteq> length steps
         then [custom_issue [''compensationPlan''] ''compensationPlan must declare one entry per mission step'']
         else [])
      @ undeclared_issues ''compensationPlan'' ''compensation'' (map cpl_stepId (mf_compensationPlan m)) steps
      @ undeclared_issues ''verificationPlan'' ''verification'' (map vpl_stepId (mf_verificationPlan m)) steps
      @ approval_issues steps)"

text \<open>
  \<open>AgenticMissionManifestSchema.safeParse\<close>.  The structural pass of the library is the
  parameter \<open>shape\<close>: its issues, and the typed manifest unless the pass was aborted.
\<close>

type_synonym 'd shape_pass = "'d \<Rightarrow> zod_issue list \<times> mission_manifest option"

definition safeParse :: "'d shape_pass \<Rightarrow> 'd \<Rightarrow> zod_issue list + mission_manifest" where
  "safeParse shape data =
     (case shape data of
        (issues, None) \<Rightarrow> Inl issues
      | (issues, Some m) \<Rightarrow>
          if issues @ superRefine m = [] then Inr m else Inl (issues @ superRefine m))"

section \<open>What the schema accepts\<close>

definition well_planned :: "mission_manifest \<Rightarrow> bool" where
  "well_planned m \<longleftrightarrow>
     (let steps = mf_steps m; ids = map stp_stepId steps in
      distinct ids
      \<and> (\<forall>s \<in> set steps. set (stp_deps s) \<subseteq> set ids)
      \<and> \<not> hasDependencyCycle steps
      \<and> length (mf_compensationPlan m) = length steps
      \<and> set ids \<subseteq> cpl_stepId ` set (mf_compensationPlan m)
      \<and> set ids \<subseteq> vpl_stepId ` set (mf_verificationPlan m)
      \<and> (\<forall>s \<in> set steps. stp_risk s = Risk_none \<or> stp_approvalMode s \<noteq> Approval_none))"

lemma set_set_order [simp]: "set (set_order xs) = set xs"
  by (simp add: set_order_def)

lemma distinct_set_order [simp]: "distinct (set_order xs)"
  by (simp add: set_order_def)

lemma set_order_distinct: "distinct xs \<Longrightarrow> set_order xs = xs"
  by (simp add: set_order_def distinct_remdups_id)

lemma duplicate_issues_Nil:
  "duplicate_issues i seen ss = [] \<longleftrightarrow> distinct (map stp_stepId ss) \<and> stp_stepId ` set ss \<inter> seen = {}"
  by (induction ss arbitrary: i seen) auto

lemma set_enumerate_snd: "snd ` set (enumerate n xs) = set xs"
  by (metis map_snd_enumerate set_map)

lemma unknown_dependency_issues_Nil:
  "unknown_dependency_issues steps = [] \<longleftrightarrow> (\<forall>s \<in> set steps. set (stp_deps s) \<subseteq> stp_stepId ` set steps)"
proof -
  have "unknown_dependency_issues steps = [] \<longleftrightarrow>
      (\<forall>s \<in> snd ` set (enumerate 0 steps). set (stp_deps s) \<subseteq> stp_stepId ` set steps)"
    by (simp add: unknown_dependency_issues_def filter_empty_conv split_def subset_iff) blast
  then show ?thesis by (simp only: set_enumerate_snd)
qed

lemma undeclared_issues_Nil:
  "undeclared_issues f w declared steps = [] \<longleftrightarrow> stp_stepId ` set steps \<subseteq> set declared"
  by (auto simp: undeclared_issues_def filter_empty_conv)

lemma approval_issues_Nil:
  "approval_issues steps = [] \<longleftrightarrow> (\<forall>s \<in> set steps. \<not> unapproved s)"
proof -
  have "approval_issues steps = [] \<longleftrightarrow> (\<forall>s \<in> snd ` set (enumerate 0 steps). \<not> unapproved s)"
    by (auto simp: approval_issues_def filter_empty_conv)
  then show ?thesis by (simp only: set_enumerate_snd)
qed

lemma superRefine_Nil: "superRefine m = [] \<longleftrightarrow> well_planned m"
  by (auto simp: superRefine_def well_planned_def Let_def duplicate_issues_Nil
      unknown_dependency_issues_Nil undeclared_issues_Nil approval_issues_Nil unapproved_def)

lemma safeParse_Inr:
  "safeParse shape data = Inr m \<longleftrightarrow> shape data = ([], Some m) \<and> well_planned m"
  by (auto simp: safeParse_def superRefine_Nil split: prod.split option.split)

section \<open>Manifests from goals\<close>

record mission_goal =
  gl_intent :: string
  gl_actionType :: string
  gl_input :: jsv
  gl_tenantId :: string
  gl_correlationId :: string
  gl_sessionId :: "string option"

definition defaultRisk :: "string \<Rightarrow> risk_level" where
  "defaultRisk t =
     (if starts_with t ''calculator.'' then Risk_none
      else if starts_with t ''browser.'' then Risk_low
      else if starts_with t ''canvas.'' then Risk_low
      else if starts_with t ''chat.'' then Risk_none
      else if starts_with t ''form.'' then Risk_low
      else if t = ''lead.capture'' then Risk_medium
      else if t = ''payment.initiate'' then Risk_critical
      else if t = ''site.publish'' then Risk_high
      else if t = ''site.rollback'' then Risk_high
      else Risk_low)"

definition defaultApproval :: "string \<Rightarrow> approval_mode" where
  "defaultApproval t =
     (if starts_with t ''calculator.'' then Approval_none
      else if starts_with t ''browser.'' then Approval_user
      else if starts_with t ''canvas.'' then Approval_user
      else if t = ''payment.initiate'' then Approval_admin
      else if t = ''site.publish'' then Approval_admin
      else if t = ''site.rollback'' then Approval_admin
      else Approval_none)"

definition defaultCompensationMode :: "string \<Rightarrow> compensation_mode" where
  "defaultCompensationMode t =
     (if t = ''canvas.add_node'' then Comp_reverse
      else if t = ''canvas.delete_node'' then Comp_reverse
      else if t = ''lead.capture'' then Comp_reverse
      else if t = ''site.publish'' then Comp_manual
      else if starts_with t ''calculator.'' then Comp_none
      else Comp_none)"

definition defaultVerificationCheckType :: "string \<Rightarrow> string" where
  "defaultVerificationCheckType t =
     (if starts_with t ''calculator.'' then ''calculator_output_check''
      else if starts_with t ''canvas.'' then ''state_projection''
      else if t = ''site.publish'' then ''audit_event_check''
      else ''schema_validation'')"

definition goal_manifest :: "iso \<Rightarrow> nat \<Rightarrow> mission_goal \<Rightarrow> mission_manifest" where
  "goal_manifest now missionCounter goal =
     (let n = nat_text missionCounter; stepId = ''step-'' @ n; t = gl_actionType goal in
      \<lparr>mf_id = ''mission-'' @ n,
       mf_sessionId = (case gl_sessionId goal of Some i \<Rightarrow> i | None \<Rightarrow> ''session-'' @ n),
       mf_tenantId = gl_tenantId goal,
       mf_correlationId = gl_correlationId goal,
       mf_stateProjectionVersion = 1,
       mf_intent = gl_intent goal,
       mf_expectedOutcome = ''Successfully executed '' @ [CHR 0x22] @ t @ [CHR 0x22] @ '' with provided input'',
       mf_steps = [\<lparr>stp_stepId = stepId, stp_description = gl_intent goal, stp_actionType = t,
                    stp_input = gl_input goal, stp_targetRef = None, stp_dependsOn = Some [],
                    stp_approvalMode = defaultApproval t, stp_risk = defaultRisk t\<rparr>],
       mf_verificationPlan = [\<lparr>vpl_checkId = ''check-'' @ n, vpl_stepId = stepId,
                    vpl_type = defaultVerificationCheckType t,
                    vpl_expected = ''Action completed without error''\<rparr>],
       mf_compensationPlan = [\<lparr>cpl_stepId = stepId, cpl_compensateStepId = None,
                    cpl_mode = defaultCompensationMode t, cpl_reason = None,
                    cpl_requiresUserApproval = None\<rparr>],
       mf_gogo = None,
       mf_status = ''proposed'',
       mf_createdAt = now\<rparr>)"

text \<open>The parse throws when there is an issue; the module's counter advances either way.\<close>

definition generateManifestFromGoal ::
  "mission_manifest shape_pass \<Rightarrow> iso \<Rightarrow> nat \<Rightarrow> mission_goal \<Rightarrow> (zod_issue list + mission_manifest) \<times> nat" where
  "generateManifestFromGoal shape now missionCounter goal =
     (let n = missionCounter + 1 in (safeParse shape (goal_manifest now n goal), n))"

lemma goal_no_cycle: "\<not> hasDependencyCycle [s]" if "stp_deps s = []"
  using that by (auto simp: hasDependencyCycle_def schema_graph_def visit.simps deps_in_def)

lemma goal_manifest_planned:
  "well_planned (goal_manifest now n goal) \<longleftrightarrow>
     defaultRisk (gl_actionType goal) = Risk_none \<or> defaultApproval (gl_actionType goal) \<noteq> Approval_none"
  by (simp add: well_planned_def goal_manifest_def Let_def stp_deps_def goal_no_cycle)

text \<open>
  A manifest generated from a goal passes the schema's own checks exactly when its action
  type is a calculator, browser, canvas or chat action, a payment or a site publication or
  rollback.  For every other type, lead capture and form submission among them, the default
  risk is not none while the default approval is none, and the generator throws.
\<close>

theorem generated_manifest_accepted:
  fixes goal :: mission_goal
  defines "t \<equiv> gl_actionType goal"
  shows "(case fst (generateManifestFromGoal (\<lambda>m. ([], Some m)) now n goal) of
            Inr m \<Rightarrow> m = goal_manifest now (n + 1) goal
                    \<and> (list_ex (starts_with t) [''calculator.'', ''browser.'', ''canvas.'', ''chat.'']
                       \<or> t \<in> {''payment.initiate'', ''site.publish'', ''site.rollback''})
          | Inl issues \<Rightarrow> issues \<noteq> []
                    \<and> \<not> list_ex (starts_with t) [''calculator.'', ''browser.'', ''canvas.'', ''chat.'']
                    \<and> t \<notin> {''payment.initiate'', ''site.publish'', ''site.rollback''})"
proof -
  have *: "defaultRisk t = Risk_none \<or> defaultApproval t \<noteq> Approval_none \<longleftrightarrow>
      list_ex (starts_with t) [''calculator.'', ''browser.'', ''canvas.'', ''chat.'']
      \<or> t \<in> {''payment.initiate'', ''site.publish'', ''site.rollback''}"
    by (auto simp: defaultRisk_def defaultApproval_def starts_with_def)
  show ?thesis
    using goal_manifest_planned [of now "n + 1" goal] superRefine_Nil [of "goal_manifest now (n + 1) goal"]
    unfolding * [unfolded t_def] t_def generateManifestFromGoal_def Let_def fst_conv
    by (auto simp: safeParse_def)
qed

end
