(* ===== verification/Reconcile.thy ===== *)
theory Reconcile
  imports Drift JsonText Manifest
begin

text \<open>
  The contracts of actions and missions (\<open>apps/edge-runtime/src/actions/types.ts\<close>) and the
  reconciliation of a mission with its desired state (\<open>reconcile.ts\<close>).  An effect takes the
  world, of a type the model leaves open, and returns the message of the exception it threw or
  its result, with the world after it.  The environment bindings an action is given are part
  of the world.
\<close>

section \<open>Actions\<close>

type_synonym ('w, 'a) eff = "'w \<Rightarrow> (string + 'a) \<times> 'w"

record action_context =
  ax_correlationId :: string
  ax_tenantId :: string
  ax_missionId :: string
  ax_actionId :: string

datatype act_status = Act_success | Act_failure | Act_partial

record action_result =
  ar_status :: act_status
  ar_output :: jsv
  ar_error :: "string option"
  ar_durationMs :: int

record dry_run_output =
  dry_expectedOutputType :: string
  dry_sideEffects :: "string list"
  dry_idempotent :: bool
  dry_estimatedDurationMs :: "rat option"

record 'w edge_action =
  ac_type :: string
  ac_execute :: "action_context \<Rightarrow> jsv \<Rightarrow> ('w, action_result) eff"
  ac_compensate :: "(action_context \<Rightarrow> jsv \<Rightarrow> jsv \<Rightarrow> ('w, unit) eff) option"
  ac_dryRun :: "(jsv \<Rightarrow> jsv \<Rightarrow> string + dry_run_output) option"

section \<open>Missions and decisions\<close>

datatype reconcile_decision =
    Complete
  | Continue "string option"
  | Compensate string
  | Halt string

record executed_action =
  ex_actionId :: string
  ex_type :: string
  ex_input :: jsv
  ex_output :: jsv
  ex_status :: act_status

record reconcile_context =
  rc_missionId :: string
  rc_correlationId :: string
  rc_desiredState :: obj
  rc_currentState :: obj
  rc_executedActions :: "executed_action list"
  rc_remainingActions :: "(string \<times> string) list"
  rc_driftResults :: "drift_result list"

record 'w mission_definition =
  md_id :: string
  md_name :: string
  md_desiredState :: obj
  md_actions :: "'w edge_action list"
  md_reconcile :: "(reconcile_context \<Rightarrow> ('w, reconcile_decision) eff) option"
  md_driftThreshold :: "rat option"
  md_maxIterations :: "nat option"
  md_maxCompensationTimeMs :: "nat option"
  md_gogo :: "gogo_authorization option"

section \<open>Reconcile functions\<close>

definition defaultReconcile :: "reconcile_context \<Rightarrow> ('w, reconcile_decision) eff" where
  "defaultReconcile ctx w = (Inr (Continue None), w)"

definition buildReconcileContext ::
  "string \<Rightarrow> string \<Rightarrow> obj \<Rightarrow> obj \<Rightarrow> executed_action list \<Rightarrow> (string \<times> string) list \<Rightarrow> reconcile_context" where
  "buildReconcileContext missionId correlationId desiredState currentState executed remaining =
     \<lparr>rc_missionId = missionId, rc_correlationId = correlationId, rc_desiredState = desiredState,
      rc_currentState = currentState, rc_executedActions = executed, rc_remainingActions = remaining,
      rc_driftResults = computeDrift desiredState currentState []\<rparr>"

text \<open>\<open>toFixed(1)\<close> of a number that is not negative.\<close>

definition to_fixed1 :: "rat \<Rightarrow> string" where
  "to_fixed1 q = (let n = nat \<lfloor>10 * q + 1 / 2\<rfloor> in nat_text (n div 10) @ ''.'' @ nat_text (n mod 10))"

definition drift_reason :: "(rat \<Rightarrow> string) \<Rightarrow> drift_result \<Rightarrow> string" where
  "drift_reason num r =
     template_text (dr_path r) @ '': expected '' @ template_text (json_text num (dr_expected r))
     @ '', got '' @ template_text (json_text num (dr_actual r))"

text \<open>\<open>worst.path || worst.key\<close>.\<close>

definition drift_place :: "drift_result \<Rightarrow> string" where
  "drift_place r = (case dr_path r of Some (c # cs) \<Rightarrow> c # cs | _ \<Rightarrow> dr_key r)"

definition drift_decision ::
  "(rat \<Rightarrow> string) \<Rightarrow> rat \<Rightarrow> rat option \<Rightarrow> reconcile_context \<Rightarrow> reconcile_decision" where
  "drift_decision num threshold maxScoreOpt ctx =
     (let maxScore = (case maxScoreOpt of Some m \<Rightarrow> m | None \<Rightarrow> 5);
          score = computeDriftScore (rc_driftResults ctx);
          errors = filter (\<lambda>r. dr_severity r = Some Sev_error) (rc_driftResults ctx)
      in if score = 0 then Complete
         else if score \<ge> maxScore \<and> length (rc_executedActions ctx) > 0
         then Compensate (''Drift score '' @ to_fixed1 score @ '' exceeds max '' @ num maxScore
                @ ''. Issues: '' @ join_with ''; '' (map (drift_reason num) errors))
         else if score > threshold \<and> rc_remainingActions ctx = []
         then (case errors of
                 worst # _ \<Rightarrow> Halt (''Drift score '' @ to_fixed1 score @ '' exceeds threshold '' @ num threshold
                                @ '' with no remaining actions. Key issue: '' @ drift_place worst)
               | [] \<Rightarrow> Complete)
         else Continue None)"

definition driftReconcile ::
  "(rat \<Rightarrow> string) \<Rightarrow> rat \<Rightarrow> rat option \<Rightarrow> reconcile_context \<Rightarrow> ('w, reconcile_decision) eff" where
  "driftReconcile num threshold maxScore ctx w = (Inr (drift_decision num threshold maxScore ctx), w)"

section \<open>The reconcile loop\<close>

datatype terminated_by = By_complete | By_compensate | By_halt | By_loop_limit

record reconcile_loop_result =
  rl_finalDecision :: reconcile_decision
  rl_iterations :: nat
  rl_allDriftResults :: "drift_result list"
  rl_terminatedBy :: terminated_by

text \<open>
  The loop \<open>while (iterations < maxIterations)\<close>; the first argument is the number of iterations
  left.  The context is built anew in every round, from the same state.
\<close>

fun reconcile_rounds ::
  "nat \<Rightarrow> nat \<Rightarrow> (reconcile_context \<Rightarrow> ('w, reconcile_decision) eff) \<Rightarrow> reconcile_context \<Rightarrow> nat \<Rightarrow>
   drift_result list \<Rightarrow> ('w, reconcile_loop_result) eff" where
  "reconcile_rounds 0 maxIterations reconcileFn ctx iterations allDrift w =
     (Inr \<lparr>rl_finalDecision = Halt (''Loop limit ('' @ nat_text maxIterations @ '') exceeded''),
           rl_iterations = iterations, rl_allDriftResults = allDrift, rl_terminatedBy = By_loop_limit\<rparr>, w)"
| "reconcile_rounds (Suc left) maxIterations reconcileFn ctx iterations allDrift w =
     (let iterations = iterations + 1; allDrift = rc_driftResults ctx;
          finish = (\<lambda>decision by. \<lparr>rl_finalDecision = decision, rl_iterations = iterations,
                      rl_allDriftResults = allDrift, rl_terminatedBy = by\<rparr>)
      in case reconcileFn ctx w of
           (Inl err, w') \<Rightarrow> (Inl err, w')
         | (Inr decision, w') \<Rightarrow>
             (case decision of
                Complete \<Rightarrow> (Inr (finish decision By_complete), w')
              | Compensate r \<Rightarrow> (Inr (finish decision By_compensate), w')
              | Halt r \<Rightarrow> (Inr (finish decision By_halt), w')
              | Continue n \<Rightarrow>
                  if rc_remainingActions ctx = []
                  then reconcile_rounds left maxIterations reconcileFn ctx iterations allDrift w'
                  else (Inr (finish decision By_complete), w')))"

definition runReconcileLoop ::
  "'w mission_definition \<Rightarrow> string \<Rightarrow> obj \<Rightarrow> executed_action list \<Rightarrow> (string \<times> string) list \<Rightarrow>
   ('w, reconcile_loop_result) eff" where
  "runReconcileLoop mission correlationId currentState executed remaining =
     (let reconcileFn = (case md_reconcile mission of Some f \<Rightarrow> f | None \<Rightarrow> defaultReconcile);
          maxIterations = (case md_maxIterations mission of Some n \<Rightarrow> n | None \<Rightarrow> 50);
          ctx = buildReconcileContext (md_id mission) correlationId (md_desiredState mission)
                  currentState executed remaining
      in reconcile_rounds maxIterations maxIterations reconcileFn ctx 0 [])"

section \<open>How the loop ends\<close>

lemma reconcile_rounds_bounds:
  assumes "reconcile_rounds left maxIterations f ctx i d w = (Inr r, w')"
  shows "rl_iterations r \<le> i + left
    \<and> (rl_terminatedBy r = By_loop_limit \<longrightarrow> rl_iterations r = i + left)
    \<and> (rl_terminatedBy r \<noteq> By_loop_limit \<longrightarrow> i < rl_iterations r)
    \<and> (rc_remainingActions ctx \<noteq> [] \<longrightarrow> rl_iterations r \<le> i + 1)"
  using assms
proof (induction left arbitrary: i d w)
  case (Suc left)
  obtain x w2 where f: "f ctx w = (x, w2)" by fastforce
  show ?case
  proof (cases x)
    case (Inr decision)
    with f Suc.prems Suc.IH [of "i + 1" "rc_driftResults ctx" w2] show ?thesis
      by (cases decision) (auto simp: Let_def split: if_splits)
  qed (use f Suc.prems in \<open>simp add: Let_def\<close>)
qed auto

text \<open>C26: Whatever the reconcile function decides and whatever it does to the world, the loop ends:
  it calls the function at most \<open>maxIterations\<close> times (50 by default), at most once while
  actions remain, and exactly \<open>maxIterations\<close> times when it reports the loop limit.
\<close>

theorem reconcile_loop_bounded:
  "case runReconcileLoop mission cid cur executed remaining w of
     (Inl err, _) \<Rightarrow> md_reconcile mission \<noteq> None
   | (Inr r, _) \<Rightarrow>
       rl_iterations r \<le> (case md_maxIterations mission of Some n \<Rightarrow> n | None \<Rightarrow> 50)
       \<and> (if rl_terminatedBy r = By_loop_limit
          then rl_iterations r = (case md_maxIterations mission of Some n \<Rightarrow> n | None \<Rightarrow> 50)
          else 0 < rl_iterations r)
       \<and> (remaining = [] \<or> rl_iterations r \<le> 1)"
proof -
  have never: "fst (reconcile_rounds left n defaultReconcile ctx i d v) \<noteq> Inl e" for left n ctx i d e and v :: 'a
    by (induction left arbitrary: i d) (auto simp: defaultReconcile_def Let_def)
  show ?thesis
  proof (cases "runReconcileLoop mission cid cur executed remaining w")
    case (Pair x w')
    show ?thesis
    proof (cases x)
      case (Inl e)
      have "md_reconcile mission \<noteq> None"
        using arg_cong [OF Pair, of fst] Inl never
        by (cases "md_reconcile mission") (simp_all add: runReconcileLoop_def Let_def)
      with Pair Inl show ?thesis by simp
    next
      case (Inr r)
      from reconcile_rounds_bounds [OF Pair [unfolded runReconcileLoop_def Let_def Inr]]
      have "rl_iterations r \<le> 0 + (case md_maxIterations mission of Some n \<Rightarrow> n | None \<Rightarrow> 50)
        \<and> (rl_terminatedBy r = By_loop_limit \<longrightarrow> rl_iterations r = 0 + (case md_maxIterations mission of Some n \<Rightarrow> n | None \<Rightarrow> 50))
        \<and> (rl_terminatedBy r \<noteq> By_loop_limit \<longrightarrow> 0 < rl_iterations r)
        \<and> (rc_remainingActions (buildReconcileContext (md_id mission) cid (md_desiredState mission) cur executed remaining) \<noteq> []
            \<longrightarrow> rl_iterations r \<le> 0 + 1)" .
      with Pair Inr show ?thesis by (auto simp: buildReconcileContext_def)
    qed
  qed
qed

text \<open>A function that answers alike in every round, and changes nothing.\<close>

lemma reconcile_rounds_constant:
  assumes "\<And>v. f ctx v = (Inr decision, v)"
  shows "reconcile_rounds (Suc left) maxIterations f ctx i d w =
    (case decision of
       Continue n \<Rightarrow>
         if rc_remainingActions ctx = []
         then (Inr \<lparr>rl_finalDecision = Halt (''Loop limit ('' @ nat_text maxIterations @ '') exceeded''),
                    rl_iterations = i + Suc left, rl_allDriftResults = rc_driftResults ctx,
                    rl_terminatedBy = By_loop_limit\<rparr>, w)
         else (Inr \<lparr>rl_finalDecision = decision, rl_iterations = i + 1,
                    rl_allDriftResults = rc_driftResults ctx, rl_terminatedBy = By_complete\<rparr>, w)
     | _ \<Rightarrow> (Inr \<lparr>rl_finalDecision = decision, rl_iterations = i + 1, rl_allDriftResults = rc_driftResults ctx,
             rl_terminatedBy = (case decision of Complete \<Rightarrow> By_complete | Compensate r \<Rightarrow> By_compensate
                                | Halt r \<Rightarrow> By_halt | Continue n \<Rightarrow> By_complete)\<rparr>, w))"
proof (cases decision)
  case (Continue n)
  have "rc_remainingActions ctx = [] \<Longrightarrow> reconcile_rounds (Suc left) maxIterations f ctx i d w =
      (Inr \<lparr>rl_finalDecision = Halt (''Loop limit ('' @ nat_text maxIterations @ '') exceeded''),
            rl_iterations = i + Suc left, rl_allDriftResults = rc_driftResults ctx,
            rl_terminatedBy = By_loop_limit\<rparr>, w)"
    using assms Continue by (induction left arbitrary: i d) (simp_all add: Let_def)
  with assms Continue show ?thesis by (simp add: Let_def)
qed (use assms in \<open>simp_all add: Let_def\<close>)

text \<open>
  What the drift-based reconcile function makes of a state.  Without drift the loop
  completes in one round.  A score of at least the maximum compensates once an action has run.
  Otherwise, when no action remains, a score above the threshold halts on an error and
  completes without one, while drift within the threshold is evaluated again and again, the
  state being the same, until the loop limit.  When actions remain the loop reports completion.
\<close>

theorem drift_reconcile_outcome:
  fixes mission :: "'w mission_definition" and num threshold maxScore and n :: nat and cur :: obj
  defines "m \<equiv> mission\<lparr>md_reconcile := Some (driftReconcile num threshold maxScore), md_maxIterations := Some (Suc n)\<rparr>"
    and "drift \<equiv> computeDrift (md_desiredState mission) cur []"
    and "maximum \<equiv> (case maxScore of Some s \<Rightarrow> s | None \<Rightarrow> 5)"
  shows "\<exists>r. runReconcileLoop m cid cur executed remaining w = (Inr r, w)
    \<and> rl_allDriftResults r = drift
    \<and> rl_terminatedBy r =
        (if drift = [] then By_complete
         else if computeDriftScore drift \<ge> maximum \<and> executed \<noteq> [] then By_compensate
         else if remaining \<noteq> [] then By_complete
         else if computeDriftScore drift \<le> threshold then By_loop_limit
         else if list_ex (\<lambda>r. dr_severity r = Some Sev_error) drift then By_halt else By_complete)
    \<and> rl_iterations r = (if rl_terminatedBy r = By_loop_limit then Suc n else 1)"
proof -
  define ctx where "ctx = buildReconcileContext (md_id mission) cid (md_desiredState mission) cur executed remaining"
  have ctx: "rc_driftResults ctx = drift" "rc_executedActions ctx = executed" "rc_remainingActions ctx = remaining"
    by (simp_all add: ctx_def buildReconcileContext_def drift_def)
  have run: "runReconcileLoop m cid cur executed remaining w =
      reconcile_rounds (Suc n) (Suc n) (driftReconcile num threshold maxScore) ctx 0 [] w"
    by (simp add: runReconcileLoop_def m_def ctx_def Let_def del: reconcile_rounds.simps)
  have errors: "list_ex (\<lambda>r. dr_severity r = Some Sev_error) drift
      \<longleftrightarrow> filter (\<lambda>r. dr_severity r = Some Sev_error) drift \<noteq> []"
    by (auto simp: list_ex_iff filter_empty_conv)
  have decision: "driftReconcile num threshold maxScore ctx v = (Inr (drift_decision num threshold maxScore ctx), v)"
    for v :: 'w by (simp add: driftReconcile_def)
  note rounds = reconcile_rounds_constant [where f = "driftReconcile num threshold maxScore", OF decision]
  show ?thesis
    unfolding run rounds ctx errors
    by (cases "filter (\<lambda>r. dr_severity r = Some Sev_error) drift")
      (auto simp: drift_decision_def ctx Let_def computeDriftScore_zero maximum_def [symmetric])
qed

end
