(* ===== verification/Compensation.thy ===== *)
theory Compensation
  imports Reconcile "HOL-Library.Sublist"
begin

text \<open>
  The compensation runner (\<open>apps/edge-runtime/src/actions/compensation.ts\<close>): the reversal of the
  actions that succeeded before a mission failed, last one first, under a deadline.  The world
  of a run is the number of clock readings so far, the events handed to the audit ledger, and
  the world the actions act on; the clock is a parameter, a function of the number of readings.
\<close>

section \<open>The world of a run\<close>

record audit_event =
  ae_type :: string
  ae_tenantId :: string
  ae_actor :: string
  ae_sessionId :: "string option"
  ae_data :: obj
  ae_idempotency_key :: "string option"

record 'w run_world =
  rw_tick :: nat
  rw_audit :: "audit_event list"
  rw_ext :: 'w

type_synonym clock = "nat \<Rightarrow> int"

text \<open>\<open>Date.now()\<close>.\<close>

definition date_now :: "clock \<Rightarrow> 'w run_world \<Rightarrow> int \<times> 'w run_world" where
  "date_now clk w = (clk (rw_tick w), w\<lparr>rw_tick := rw_tick w + 1\<rparr>)"

text \<open>An effect on the actions' world, lifted to the world of the run.\<close>

definition lift_eff :: "('w, 'a) eff \<Rightarrow> ('w run_world, 'a) eff" where
  "lift_eff f w = (let (r, x) = f (rw_ext w) in (r, w\<lparr>rw_ext := x\<rparr>))"

section \<open>Records and reports\<close>

datatype compensation_status = Cs_pending | Cs_success | Cs_failure | Cs_timeout

record compensation_record =
  cr_missionId :: string
  cr_actionId :: string
  cr_compensationActionId :: string
  cr_input :: jsv
  cr_originalOutput :: jsv
  cr_status :: compensation_status
  cr_startedAt :: int
  cr_completedAt :: "int option"
  cr_error :: "string option"
  cr_correlationId :: string

datatype overall_status = Os_compensated | Os_compensated_partial | Os_failed

record compensation_report =
  rp_missionId :: string
  rp_totalSucceeded :: nat
  rp_attempted :: nat
  rp_succeeded :: nat
  rp_failed :: nat
  rp_skipped :: nat
  rp_records :: "compensation_record list"
  rp_overallStatus :: overall_status
  rp_totalDurationMs :: int

record 'w succeeded_action =
  su_action :: "'w edge_action"
  su_actionId :: string
  su_input :: jsv
  su_output :: jsv

text \<open>The failed action of the options is only carried along, and left out.\<close>

record 'w compensate_opts =
  co_missionId :: string
  co_correlationId :: string
  co_tenantId :: string
  co_succeededActions :: "'w succeeded_action list"
  co_maxTimeMs :: "int option"

section \<open>runCompensation\<close>

record compensation_tally =
  ty_records :: "compensation_record list"
  ty_attempted :: nat
  ty_succeeded :: nat
  ty_failed :: nat
  ty_skipped :: nat

definition comp_context :: "'w compensate_opts \<Rightarrow> 'w succeeded_action \<Rightarrow> action_context" where
  "comp_context opts entry =
     \<lparr>ax_correlationId = co_correlationId opts, ax_tenantId = co_tenantId opts,
      ax_missionId = co_missionId opts, ax_actionId = su_actionId entry\<rparr>"

definition comp_record ::
  "'w compensate_opts \<Rightarrow> 'w succeeded_action \<Rightarrow> string \<Rightarrow> compensation_status \<Rightarrow> int \<Rightarrow> int option \<Rightarrow>
   string option \<Rightarrow> compensation_record" where
  "comp_record opts entry ending status startedAt completedAt err =
     \<lparr>cr_missionId = co_missionId opts, cr_actionId = su_actionId entry,
      cr_compensationActionId = su_actionId entry @ ending, cr_input = su_input entry,
      cr_originalOutput = su_output entry, cr_status = status, cr_startedAt = startedAt,
      cr_completedAt = completedAt, cr_error = err, cr_correlationId = co_correlationId opts\<rparr>"

definition millis_text :: "int \<Rightarrow> string" where
  "millis_text i = (if i < 0 then ''-'' @ nat_text (nat (- i)) else nat_text (nat i))"

text \<open>One round of the loop over the reversed actions.\<close>

definition compensate_entry ::
  "clock \<Rightarrow> 'w compensate_opts \<Rightarrow> int \<Rightarrow> int \<Rightarrow> 'w succeeded_action \<Rightarrow>
   compensation_tally \<times> 'w run_world \<Rightarrow> compensation_tally \<times> 'w run_world" where
  "compensate_entry clk opts maxTime deadline entry tw =
     (let (ty, w) = tw; (t, w1) = date_now clk w in
      if t \<ge> deadline
      then (ty\<lparr>ty_records := ty_records ty @ [comp_record opts entry ''_comp_timeout'' Cs_timeout deadline None
                 (Some (''Compensation deadline ('' @ millis_text maxTime @ ''ms) exceeded''))],
               ty_failed := ty_failed ty + 1\<rparr>, w1)
      else (case ac_compensate (su_action entry) of
              None \<Rightarrow> (ty\<lparr>ty_skipped := ty_skipped ty + 1\<rparr>, w1)
            | Some compensate \<Rightarrow>
                let (startedAt, w2) = date_now clk w1;
                    (r, w3) = lift_eff (compensate (comp_context opts entry) (su_input entry) (su_output entry)) w2;
                    (completedAt, w4) = date_now clk w3
                in (case r of
                      Inr _ \<Rightarrow>
                        (ty\<lparr>ty_records := ty_records ty @ [comp_record opts entry ''_comp'' Cs_success startedAt
                                            (Some completedAt) None],
                            ty_succeeded := ty_succeeded ty + 1, ty_attempted := ty_attempted ty + 1\<rparr>, w4)
                    | Inl err \<Rightarrow>
                        (ty\<lparr>ty_records := ty_records ty @ [comp_record opts entry ''_comp'' Cs_failure startedAt
                                            (Some completedAt) (Some err)],
                            ty_failed := ty_failed ty + 1, ty_attempted := ty_attempted ty + 1\<rparr>, w4))))"

definition runCompensation :: "clock \<Rightarrow> 'w compensate_opts \<Rightarrow> 'w run_world \<Rightarrow> compensation_report \<times> 'w run_world" where
  "runCompensation clk opts w =
     (let maxTime = (case co_maxTimeMs opts of Some m \<Rightarrow> m | None \<Rightarrow> 30000);
          (t0, w0) = date_now clk w;
          deadline = t0 + maxTime;
          start = \<lparr>ty_records = [], ty_attempted = 0, ty_succeeded = 0, ty_failed = 0, ty_skipped = 0\<rparr>;
          (ty, w1) = fold (compensate_entry clk opts maxTime deadline) (rev (co_succeededActions opts)) (start, w0);
          status = (if ty_failed ty = 0 \<and> ty_attempted ty > 0 then Os_compensated
                    else if ty_succeeded ty > 0 then Os_compensated_partial else Os_failed);
          (duration, w2) =
            (case ty_records ty of
               [] \<Rightarrow> (0, w1)
             | first # _ \<Rightarrow>
                 (case cr_completedAt (last (ty_records ty)) of
                    Some c \<Rightarrow> (c - cr_startedAt first, w1)
                  | None \<Rightarrow> let (t, w') = date_now clk w1 in (t - cr_startedAt first, w')))
      in (\<lparr>rp_missionId = co_missionId opts, rp_totalSucceeded = length (co_succeededActions opts),
           rp_attempted = ty_attempted ty, rp_succeeded = ty_succeeded ty, rp_failed = ty_failed ty,
           rp_skipped = ty_skipped ty, rp_records = ty_records ty, rp_overallStatus = status,
           rp_totalDurationMs = duration\<rparr>, w2))"

section \<open>Every action is accounted for\<close>

definition with_status :: "compensation_status \<Rightarrow> compensation_record list \<Rightarrow> nat" where
  "with_status st rs = length (filter (\<lambda>r. cr_status r = st) rs)"

lemma with_status_simps [simp]:
  "with_status st [] = 0"
  "with_status st (rs @ rs') = with_status st rs + with_status st rs'"
  "with_status st (r # rs) = (if cr_status r = st then 1 else 0) + with_status st rs"
  by (simp_all add: with_status_def)

definition tally_inv :: "string list \<Rightarrow> compensation_tally \<Rightarrow> bool" where
  "tally_inv ids ty \<longleftrightarrow>
     ty_succeeded ty = with_status Cs_success (ty_records ty)
     \<and> ty_failed ty = with_status Cs_failure (ty_records ty) + with_status Cs_timeout (ty_records ty)
     \<and> ty_attempted ty = with_status Cs_success (ty_records ty) + with_status Cs_failure (ty_records ty)
     \<and> ty_attempted ty + ty_skipped ty + with_status Cs_timeout (ty_records ty) = length ids
     \<and> subseq (map cr_actionId (ty_records ty)) ids"

lemma subseq_snoc: "subseq xs ys \<Longrightarrow> subseq (xs @ [x]) (ys @ [x])" "subseq xs ys \<Longrightarrow> subseq xs (ys @ [x])"
  by (simp_all add: list_emb_append_mono list_emb_prefix)

lemma comp_record_sel [simp]:
  "cr_status (comp_record opts entry ending st a b c) = st"
  "cr_actionId (comp_record opts entry ending st a b c) = su_actionId entry"
  by (simp_all add: comp_record_def)

lemma compensate_entry_tally:
  assumes "tally_inv ids (fst tw)"
  shows "tally_inv (ids @ [su_actionId entry]) (fst (compensate_entry clk opts maxTime deadline entry tw))"
  using assms
  by (auto simp: tally_inv_def compensate_entry_def Let_def split_def subseq_snoc split: option.split sum.split)

lemma compensate_fold_tally:
  "tally_inv ids (fst tw) \<Longrightarrow>
   tally_inv (ids @ map su_actionId es) (fst (fold (compensate_entry clk opts maxTime deadline) es tw))"
proof (induction es arbitrary: ids tw)
  case (Cons e es)
  from Cons.IH [OF compensate_entry_tally [OF Cons.prems]] show ?case by simp
qed simp

text \<open>C23: The report of a compensation run accounts for every action that had succeeded: each was
  attempted, skipped for lack of a compensation, or timed out; the counts are those of the
  records; and the records come in reverse order of execution, none twice.  The run counts as
  compensated exactly when something was attempted and nothing failed or timed out.
\<close>

theorem compensation_accounts_for_all:
  fixes opts :: "'w compensate_opts" and w clk
  defines "rep \<equiv> fst (runCompensation clk opts w)"
  shows "rp_totalSucceeded rep = length (co_succeededActions opts)
    \<and> rp_attempted rep + rp_skipped rep + with_status Cs_timeout (rp_records rep) = rp_totalSucceeded rep
    \<and> rp_attempted rep = rp_succeeded rep + with_status Cs_failure (rp_records rep)
    \<and> rp_failed rep = with_status Cs_failure (rp_records rep) + with_status Cs_timeout (rp_records rep)
    \<and> subseq (map cr_actionId (rp_records rep)) (rev (map su_actionId (co_succeededActions opts)))
    \<and> (rp_overallStatus rep = Os_compensated \<longleftrightarrow> 0 < rp_attempted rep
         \<and> rp_succeeded rep + rp_skipped rep = rp_totalSucceeded rep)"
proof -
  let ?max = "case co_maxTimeMs opts of Some m \<Rightarrow> m | None \<Rightarrow> 30000"
  let ?start = "\<lparr>ty_records = [], ty_attempted = 0, ty_succeeded = 0, ty_failed = 0, ty_skipped = 0\<rparr>"
  let ?w0 = "snd (date_now clk w)"
  define ty where "ty = fst (fold (compensate_entry clk opts ?max (fst (date_now clk w) + ?max))
    (rev (co_succeededActions opts)) (?start, ?w0))"
  have inv: "tally_inv (map su_actionId (rev (co_succeededActions opts))) ty"
  proof -
    have "tally_inv [] (fst (?start, ?w0))" by (simp add: tally_inv_def)
    from compensate_fold_tally [OF this] show ?thesis unfolding ty_def append_Nil .
  qed
  have rep: "rp_totalSucceeded rep = length (co_succeededActions opts)" "rp_attempted rep = ty_attempted ty"
    "rp_succeeded rep = ty_succeeded ty" "rp_failed rep = ty_failed ty" "rp_skipped rep = ty_skipped ty"
    "rp_records rep = ty_records ty"
    "rp_overallStatus rep = (if ty_failed ty = 0 \<and> ty_attempted ty > 0 then Os_compensated
                    else if ty_succeeded ty > 0 then Os_compensated_partial else Os_failed)"
    by (simp_all add: rep_def runCompensation_def Let_def split_def ty_def)
  show ?thesis unfolding rep using inv by (auto simp: tally_inv_def rev_map)
qed

section \<open>Within the deadline nothing is left out\<close>

definition comp_undo :: "'w compensate_opts \<Rightarrow> 'w succeeded_action \<Rightarrow> 'w \<Rightarrow> 'w" where
  "comp_undo opts e x =
     (case ac_compensate (su_action e) of
        None \<Rightarrow> x
      | Some f \<Rightarrow> snd (f (comp_context opts e) (su_input e) (su_output e) x))"

definition compensable :: "'w succeeded_action \<Rightarrow> bool" where
  "compensable e \<longleftrightarrow> ac_compensate (su_action e) \<noteq> None"

lemma date_now_ext [simp]:
  "rw_ext (snd (date_now clk w)) = rw_ext w" "rw_audit (snd (date_now clk w)) = rw_audit w"
  "fst (date_now clk w) = clk (rw_tick w)"
  by (simp_all add: date_now_def)

lemma compensate_entry_in_time:
  assumes "\<And>t. clk t < deadline"
  shows "rw_ext (snd (compensate_entry clk opts maxTime deadline e tw)) = comp_undo opts e (rw_ext (snd tw))
    \<and> map cr_actionId (ty_records (fst (compensate_entry clk opts maxTime deadline e tw)))
      = map cr_actionId (ty_records (fst tw)) @ (if compensable e then [su_actionId e] else [])
    \<and> with_status Cs_timeout (ty_records (fst (compensate_entry clk opts maxTime deadline e tw)))
      = with_status Cs_timeout (ty_records (fst tw))"
  using assms
  by (auto simp: compensate_entry_def Let_def split_def lift_eff_def comp_undo_def compensable_def not_le date_now_def
      split: option.split sum.split)

lemma compensate_fold_in_time:
  assumes "\<And>t. clk t < deadline"
  shows "rw_ext (snd (fold (compensate_entry clk opts maxTime deadline) es tw)) = fold (comp_undo opts) es (rw_ext (snd tw))
    \<and> map cr_actionId (ty_records (fst (fold (compensate_entry clk opts maxTime deadline) es tw)))
      = map cr_actionId (ty_records (fst tw)) @ map su_actionId (filter compensable es)
    \<and> with_status Cs_timeout (ty_records (fst (fold (compensate_entry clk opts maxTime deadline) es tw)))
      = with_status Cs_timeout (ty_records (fst tw))"
proof (induction es arbitrary: tw)
  case (Cons e es)
  note step = compensate_entry_in_time [OF assms, where opts = opts and maxTime = maxTime and e = e and tw = tw]
  show ?case using Cons.IH [of "compensate_entry clk opts maxTime deadline e tw"] step by simp
qed simp

text \<open>The deadline of a run that starts in \<open>w\<close> is never reached.\<close>

definition within_deadline :: "clock \<Rightarrow> int \<Rightarrow> 'w run_world \<Rightarrow> bool" where
  "within_deadline clk maxTime w \<longleftrightarrow> (\<forall>t. clk t < clk (rw_tick w) + maxTime)"

text \<open>The report and the world of a run, read off the tally of its loop.\<close>

abbreviation empty_tally :: compensation_tally where
  "empty_tally \<equiv> \<lparr>ty_records = [], ty_attempted = 0, ty_succeeded = 0, ty_failed = 0, ty_skipped = 0\<rparr>"

lemma runCompensation_reads:
  assumes "fold (compensate_entry clk opts maxTime (clk (rw_tick w) + maxTime)) (rev (co_succeededActions opts))
      (empty_tally, snd (date_now clk w)) = (ty, w1)"
    and "maxTime = (case co_maxTimeMs opts of Some m \<Rightarrow> m | None \<Rightarrow> 30000)"
  shows "rw_ext (snd (runCompensation clk opts w)) = rw_ext w1
    \<and> rw_audit (snd (runCompensation clk opts w)) = rw_audit w1
    \<and> rp_records (fst (runCompensation clk opts w)) = ty_records ty"
  using assms(1)
  by (auto simp: runCompensation_def Let_def split_def assms(2) [symmetric] split: list.split option.split)

lemma runCompensation_in_time:
  assumes "within_deadline clk (case co_maxTimeMs opts of Some m \<Rightarrow> m | None \<Rightarrow> 30000) w"
  shows "rw_ext (snd (runCompensation clk opts w)) = fold (comp_undo opts) (rev (co_succeededActions opts)) (rw_ext w)
    \<and> map cr_actionId (rp_records (fst (runCompensation clk opts w)))
      = map su_actionId (filter compensable (rev (co_succeededActions opts)))
    \<and> with_status Cs_timeout (rp_records (fst (runCompensation clk opts w))) = 0"
proof -
  define maxTime where "maxTime = (case co_maxTimeMs opts of Some m \<Rightarrow> m | None \<Rightarrow> 30000)"
  have time: "clk t < clk (rw_tick w) + maxTime" for t
    using assms by (simp add: within_deadline_def maxTime_def)
  obtain ty w1 where run: "fold (compensate_entry clk opts maxTime (clk (rw_tick w) + maxTime))
      (rev (co_succeededActions opts)) (empty_tally, snd (date_now clk w)) = (ty, w1)" by fastforce
  show ?thesis
    using runCompensation_reads [OF run maxTime_def]
      compensate_fold_in_time [where clk = clk, OF time, where opts = opts and maxTime = maxTime
        and es = "rev (co_succeededActions opts)" and tw = "(empty_tally, snd (date_now clk w))"]
    unfolding run by simp
qed

text \<open>C10: Within the deadline every succeeded action that has a compensation is compensated exactly
  once, in reverse order of execution, whether or not the compensations before it threw; the
  world after the run is the one those compensations leave, one after the other.
\<close>

theorem compensation_undoes_in_reverse:
  assumes "within_deadline clk (case co_maxTimeMs opts of Some m \<Rightarrow> m | None \<Rightarrow> 30000) w"
  shows "rw_ext (snd (runCompensation clk opts w)) = fold (comp_undo opts) (rev (co_succeededActions opts)) (rw_ext w)
    \<and> map cr_actionId (rp_records (fst (runCompensation clk opts w)))
      = rev (map su_actionId (filter compensable (co_succeededActions opts)))
    \<and> with_status Cs_timeout (rp_records (fst (runCompensation clk opts w))) = 0"
  using runCompensation_in_time [OF assms] by (simp add: rev_map rev_filter)

text \<open>A counter as the world: each action adds to it, its compensation subtracts.\<close>

definition counter_action :: "string \<Rightarrow> int \<Rightarrow> int edge_action" where
  "counter_action t k =
     \<lparr>ac_type = t,
      ac_execute = (\<lambda>ctx input x. (Inr \<lparr>ar_status = Act_success, ar_output = VNull, ar_error = None,
                                        ar_durationMs = 0\<rparr>, x + k)),
      ac_compensate = Some (\<lambda>ctx input out x. (Inr (), x - k)),
      ac_dryRun = None\<rparr>"

definition counter_entry :: "string \<Rightarrow> int \<Rightarrow> int succeeded_action" where
  "counter_entry i k =
     \<lparr>su_action = counter_action i k, su_actionId = i, su_input = VNull, su_output = VNull\<rparr>"

definition counter_opts :: "int compensate_opts" where
  "counter_opts =
     \<lparr>co_missionId = ''m'', co_correlationId = ''c'', co_tenantId = ''t'',
      co_succeededActions = [counter_entry ''a'' 2, counter_entry ''b'' 5], co_maxTimeMs = None\<rparr>"

lemma compensation_undoes_in_reverse_witness:
  "map cr_actionId (rp_records (fst (runCompensation (\<lambda>_. 0) counter_opts
      \<lparr>rw_tick = 0, rw_audit = [], rw_ext = 7\<rparr>))) = [''b'', ''a'']
   \<and> rw_ext (snd (runCompensation (\<lambda>_. 0) counter_opts \<lparr>rw_tick = 0, rw_audit = [], rw_ext = 7\<rparr>)) = 0"
  using compensation_undoes_in_reverse [of "\<lambda>_. 0" counter_opts "\<lparr>rw_tick = 0, rw_audit = [], rw_ext = 7\<rparr>"]
  by (simp add: within_deadline_def counter_opts_def counter_entry_def counter_action_def comp_undo_def compensable_def)

end
