(* ===== verification/Planner.thy ===== *)
theory Planner
  imports Manifest "HOL-Library.Multiset"
begin

text \<open>
  The planner of the agentic runtime
  (\<open>apps/edge-runtime/src/agentic-ux/agentic-ux.runtime.ts\<close>): the validation of a manifest, the
  topological sort of its steps by Kahn's algorithm, the rounds of steps that may run in
  parallel, the cost estimate and the compensation action of a step, and the pipeline of them.
  The queue loop of the sort carries fuel, one unit for each step taken from the queue; that
  the number of steps is enough is part of its correctness.  The dash of a
  warning's text is written as two hyphens.
\<close>

section \<open>Validation\<close>

record validation_error =
  ve_path :: string
  ve_message :: string
  ve_code :: string

record validation_result =
  vr_valid :: bool
  vr_errors :: "validation_error list"
  vr_warnings :: "string list"

definition risk_text :: "risk_level \<Rightarrow> string" where
  "risk_text r = (case r of Risk_none \<Rightarrow> ''none'' | Risk_low \<Rightarrow> ''low'' | Risk_medium \<Rightarrow> ''medium''
                  | Risk_high \<Rightarrow> ''high'' | Risk_critical \<Rightarrow> ''critical'')"

definition quoted :: "string \<Rightarrow> string" where
  "quoted s = CHR 0x22 # s @ [CHR 0x22]"

definition step_field :: "nat \<Rightarrow> string \<Rightarrow> string" where
  "step_field i f = ''steps['' @ nat_text i @ ''].'' @ f"

definition validateManifest :: "'d shape_pass \<Rightarrow> 'd \<Rightarrow> validation_result" where
  "validateManifest shape data =
     (case safeParse shape data of
        Inl issues \<Rightarrow>
          \<lparr>vr_valid = False,
           vr_errors = map (\<lambda>i. \<lparr>ve_path = join_with ''.'' (iss_path i), ve_message = iss_message i,
                                 ve_code = iss_code i\<rparr>) issues,
           vr_warnings = []\<rparr>
      | Inr manifest \<Rightarrow>
          (let steps = mf_steps manifest;
               errors =
                 map (\<lambda>(i, s). \<lparr>ve_path = step_field i ''approvalMode'',
                        ve_message = ''Step '' @ quoted (stp_stepId s) @ '' has risk ''
                          @ quoted (risk_text (stp_risk s)) @ '' but approvalMode is '' @ quoted ''none'',
                        ve_code = ''risk_approval_mismatch''\<rparr>)
                   (filter (\<lambda>(i, s). unapproved s) (enumerate 0 steps))
                 @ (if hasDependencyCycle steps
                    then [\<lparr>ve_path = ''steps'',
                           ve_message = ''Mission manifest steps contain dependency cycles'',
                           ve_code = ''dependency_cycle''\<rparr>] else [])
                 @ map (\<lambda>(i, s). \<lparr>ve_path = step_field i ''targetRef'',
                        ve_message = ''targetRef must not be empty'', ve_code = ''empty_target_ref''\<rparr>)
                   (filter (\<lambda>(i, s). case stp_targetRef s of
                                       Some r \<Rightarrow> r \<noteq> [] \<and> length (trim r) = 0 | None \<Rightarrow> False)
                     (enumerate 0 steps));
               warnings =
                 map (\<lambda>s. ''Step '' @ quoted (stp_stepId s)
                            @ '' has critical risk level -- requires careful review'')
                   (filter (\<lambda>s. stp_risk s = Risk_critical) steps)
           in \<lparr>vr_valid = (errors = []), vr_errors = errors, vr_warnings = warnings\<rparr>))"

section \<open>Topological sort\<close>

text \<open>
  The three maps of the sort: steps by id (of two with one id the later), the number of
  unprocessed dependencies, and the ids that wait for an id.  The last two are total functions
  whose values off the steps' ids are never read.
\<close>

definition step_by_id :: "mission_step list \<Rightarrow> string \<Rightarrow> mission_step option" where
  "step_by_id steps i = map_of (rev (map (\<lambda>s. (stp_stepId s, s)) steps)) i"

text \<open>The pairs of a step's id and one of its dependencies that is a step, in program order.\<close>

definition dep_edges :: "mission_step list \<Rightarrow> (string \<times> string) list" where
  "dep_edges steps =
     concat (map (\<lambda>s. map (Pair (stp_stepId s)) (filter (\<lambda>d. d \<in> stp_stepId ` set steps) (stp_deps s))) steps)"

definition count_edges :: "(string \<times> string) list \<Rightarrow> (string \<Rightarrow> int) \<times> (string \<Rightarrow> string list)" where
  "count_edges es =
     foldl (\<lambda>(inDegree, dependents) (x, d).
              (inDegree(x := inDegree x + 1), dependents(d := dependents d @ [x])))
       (\<lambda>_. 0, \<lambda>_. []) es"

text \<open>One dependent after the other loses a dependency; those left with none join the queue.\<close>

fun release :: "string list \<Rightarrow> (string \<Rightarrow> int) \<Rightarrow> string list \<Rightarrow> (string \<Rightarrow> int) \<times> string list" where
  "release [] inDegree queue = (inDegree, queue)"
| "release (x # xs) inDegree queue =
     (let newDegree = inDegree x - 1 in
      release xs (inDegree(x := newDegree)) (if newDegree = 0 then queue @ [x] else queue))"

text \<open>The queue loop; \<open>None\<close> is fuel that ran out before the queue did.\<close>

fun kahn :: "nat \<Rightarrow> (string \<Rightarrow> string list) \<Rightarrow> (string \<Rightarrow> int) \<Rightarrow> string list \<Rightarrow> string list \<Rightarrow> string list option" where
  "kahn fuel dependents inDegree [] order = Some order"
| "kahn 0 dependents inDegree (current # queue) order = None"
| "kahn (Suc fuel) dependents inDegree (current # queue) order =
     (let (inDegree', queue') = release (dependents current) inDegree queue
      in kahn fuel dependents inDegree' queue' (order @ [current]))"

record sort_result =
  sr_sorted :: "mission_step list"
  sr_error :: "string option"

definition topologicalSort :: "mission_step list \<Rightarrow> sort_result option" where
  "topologicalSort steps =
     (if hasDependencyCycle steps
      then Some \<lparr>sr_sorted = [], sr_error = Some ''Cannot sort: dependency cycle detected''\<rparr>
      else
        let ids = set_order (map stp_stepId steps);
            (inDegree, dependents) = count_edges (dep_edges steps);
            queue = filter (\<lambda>i. inDegree i = 0) ids
        in (case kahn (length ids) dependents inDegree queue [] of
              None \<Rightarrow> None
            | Some order \<Rightarrow>
                let sorted = map (\<lambda>i. the (step_by_id steps i)) order in
                if length sorted \<noteq> length steps
                then Some \<lparr>sr_sorted = [], sr_error = Some ''Cannot sort: some steps are unreachable''\<rparr>
                else Some \<lparr>sr_sorted = sorted, sr_error = None\<rparr>))"

section \<open>Parallel sets\<close>

record parallel_set =
  ps_round :: nat
  ps_steps :: "mission_step list"

function parallel_rounds :: "(string \<Rightarrow> mission_step) \<Rightarrow> nat \<Rightarrow> string set \<Rightarrow> string list \<Rightarrow> parallel_set list" where
  "parallel_rounds stepMap rnd assigned remaining =
     (if remaining = [] then []
      else
        let ready = filter (\<lambda>i. set (stp_deps (stepMap i)) \<subseteq> assigned) remaining in
        if ready = [] then []
        else \<lparr>ps_round = rnd, ps_steps = map stepMap ready\<rparr>
             # parallel_rounds stepMap (rnd + 1) (assigned \<union> set ready)
                 (filter (\<lambda>i. i \<notin> set ready) remaining))"
  by pat_completeness auto
termination
  by (relation "measure (\<lambda>(_, _, _, remaining). length remaining)")
    (auto simp: filter_empty_conv intro!: length_filter_less)

definition computeParallelSets :: "mission_step list \<Rightarrow> parallel_set list" where
  "computeParallelSets steps =
     (if steps = [] then []
      else parallel_rounds (\<lambda>i. the (step_by_id steps i)) 0 {} (set_order (map stp_stepId steps)))"

section \<open>Costs\<close>

record task_cost =
  tc_stepId :: string
  tc_estimatedCost :: rat
  tc_confidence :: string

definition actionCostMap :: "(string \<times> rat) list" where
  "actionCostMap =
     [(''calculator.execute'', 1), (''calculator.insert'', 2), (''canvas.update_node'', 2),
      (''canvas.add_node'', 3), (''canvas.delete_node'', 1), (''canvas.move_node'', 2),
      (''chat.start_session'', 1), (''chat.submit_field'', 1), (''chat.request_tool'', 1),
      (''form.collect_field'', 1), (''form.submit'', 2), (''document.upload'', 5),
      (''lead.capture'', 2), (''mcp_tool.call'', 5), (''mcp_app.open'', 3),
      (''browser.inspect'', 2), (''browser.click'', 1), (''browser.fill'', 1),
      (''browser.select'', 1), (''browser.submit'', 2), (''booking.create'', 4),
      (''payment.initiate'', 5), (''crm.submit'', 3), (''analytics.goal.set'', 1),
      (''personalization.apply'', 3), (''site.publish'', 5), (''site.rollback'', 4)]"

definition risk_multiplier :: "risk_level \<Rightarrow> rat" where
  "risk_multiplier r = (case r of Risk_none \<Rightarrow> 1 | Risk_low \<Rightarrow> 12 / 10 | Risk_medium \<Rightarrow> 15 / 10
                        | Risk_high \<Rightarrow> 2 | Risk_critical \<Rightarrow> 3)"

text \<open>\<open>Math.round(x * 100) / 100\<close>.\<close>

definition round_cents :: "rat \<Rightarrow> rat" where
  "round_cents x = of_int \<lfloor>x * 100 + 1 / 2\<rfloor> / 100"

definition estimateTaskCost :: "mission_step \<Rightarrow> task_cost" where
  "estimateTaskCost s =
     (let baseCost = (case map_of actionCostMap (stp_actionType s) of Some c \<Rightarrow> c | None \<Rightarrow> 3) in
      \<lparr>tc_stepId = stp_stepId s,
       tc_estimatedCost = round_cents (baseCost * risk_multiplier (stp_risk s)),
       tc_confidence = (if stp_risk s = Risk_none \<or> stp_risk s = Risk_low then ''high'' else ''medium'')\<rparr>)"

section \<open>Reverse actions and state snapshots\<close>

definition self_reverse_actions :: "string list" where
  "self_reverse_actions =
     [''canvas.update_node'', ''canvas.move_node'', ''calculator.execute'', ''calculator.insert'',
      ''chat.start_session'', ''chat.submit_field'', ''chat.request_tool'', ''form.collect_field'',
      ''form.submit'', ''document.upload'', ''lead.capture'', ''mcp_tool.call'', ''mcp_app.open'',
      ''browser.inspect'', ''browser.click'', ''browser.fill'', ''browser.select'', ''browser.submit'',
      ''booking.create'', ''payment.initiate'', ''crm.submit'', ''analytics.goal.set'',
      ''personalization.apply'']"

definition REVERSE_ACTION_MAP :: "(string \<times> string) list" where
  "REVERSE_ACTION_MAP =
     [(''canvas.add_node'', ''canvas.delete_node''), (''canvas.delete_node'', ''canvas.add_node''),
      (''site.publish'', ''site.rollback''), (''site.rollback'', ''site.publish'')]
     @ map (\<lambda>t. (t, t)) self_reverse_actions"

record state_snapshot =
  sn_stepId :: string
  sn_action :: string
  sn_stateBefore :: jsv
  sn_stateAfter :: jsv
  sn_timestamp :: iso

definition recordStateBefore :: "iso \<Rightarrow> mission_step \<Rightarrow> jsv \<Rightarrow> state_snapshot" where
  "recordStateBefore now s contextState =
     \<lparr>sn_stepId = stp_stepId s, sn_action = stp_actionType s,
      sn_stateBefore = v_coalesce contextState (VObj []), sn_stateAfter = VNull, sn_timestamp = now\<rparr>"

definition recordStateAfter :: "iso \<Rightarrow> state_snapshot \<Rightarrow> jsv \<Rightarrow> state_snapshot" where
  "recordStateAfter now snapshot contextState =
     snapshot\<lparr>sn_stateAfter := v_coalesce contextState (VObj []), sn_timestamp := now\<rparr>"

record compensation_action =
  ca_stepId :: string
  ca_originalActionType :: string
  ca_reverseActionType :: string
  ca_requiresManualReview :: bool
  ca_compensationPayload :: jsv

definition computeCompensationAction ::
  "mission_step \<Rightarrow> state_snapshot \<Rightarrow> compensation_plan option \<Rightarrow> compensation_action" where
  "computeCompensationAction s snapshot plan =
     (let t = stp_actionType s in
      \<lparr>ca_stepId = stp_stepId s,
       ca_originalActionType = t,
       ca_reverseActionType = (case map_of REVERSE_ACTION_MAP t of Some r \<Rightarrow> r | None \<Rightarrow> t),
       ca_requiresManualReview =
         (stp_risk s = Risk_critical \<or> t = ''payment.initiate'' \<or> t = ''document.upload''
          \<or> t = ''site.publish'' \<or> map_option cpl_mode plan = Some Comp_manual),
       ca_compensationPayload =
         VObj [(''originalStepId'', VStr (stp_stepId s)), (''originalActionType'', VStr t),
               (''stateBefore'', sn_stateBefore snapshot), (''stateAfter'', sn_stateAfter snapshot),
               (''reason'', VStr (case Option.bind plan cpl_reason of Some r \<Rightarrow> r
                                | None \<Rightarrow> ''Automatic compensation for failed step''))]\<rparr>)"

section \<open>Validate and plan\<close>

record plan_result =
  pl_valid :: bool
  pl_errors :: "validation_error list"
  pl_warnings :: "string list"
  pl_sortedSteps :: "mission_step list"
  pl_parallelSets :: "parallel_set list"
  pl_taskCosts :: "task_cost list"
  pl_sortError :: "string option"

text \<open>The pipeline sorts the steps of the data it was given, not of the parsed manifest.\<close>

definition validateAndPlan :: "mission_manifest shape_pass \<Rightarrow> mission_manifest \<Rightarrow> plan_result option" where
  "validateAndPlan shape data =
     (let validation = validateManifest shape data in
      if \<not> vr_valid validation
      then Some \<lparr>pl_valid = False, pl_errors = vr_errors validation, pl_warnings = vr_warnings validation,
                 pl_sortedSteps = [], pl_parallelSets = [], pl_taskCosts = [], pl_sortError = None\<rparr>
      else map_option (\<lambda>sortResult.
        \<lparr>pl_valid = True, pl_errors = [], pl_warnings = vr_warnings validation,
         pl_sortedSteps = sr_sorted sortResult,
         pl_parallelSets = (if sr_error sortResult \<noteq> None then [] else computeParallelSets (sr_sorted sortResult)),
         pl_taskCosts = (if sr_error sortResult \<noteq> None then [] else map estimateTaskCost (sr_sorted sortResult)),
         pl_sortError = sr_error sortResult\<rparr>) (topologicalSort (mf_steps data)))"

section \<open>The sort respects the dependencies\<close>

lemma count_edges_degree: "fst (count_edges es) x = int (length (filter (\<lambda>e. fst e = x) es))"
  by (induction es rule: rev_induct) (auto simp: count_edges_def split: prod.split)

lemma count_edges_dependents: "snd (count_edges es) d = map fst (filter (\<lambda>e. snd e = d) es)"
  by (induction es rule: rev_induct) (auto simp: count_edges_def split: prod.split)

text \<open>What a step taken from the queue does to the counts, and whom it adds to the queue.\<close>

lemma release_degree: "fst (release xs deg queue) x = deg x - int (count_list xs x)"
  by (induction xs arbitrary: deg queue) (auto simp: Let_def)

lemma release_queue:
  assumes "\<And>x. x \<in> set xs \<Longrightarrow> int (count_list xs x) \<le> deg x"
  shows "\<exists>new. snd (release xs deg queue) = queue @ new \<and> distinct new
    \<and> set new = {x \<in> set xs. deg x = int (count_list xs x)}"
  using assms
proof (induction xs arbitrary: deg queue)
  case (Cons y ys)
  let ?deg = "deg(y := deg y - 1)"
  let ?q = "if deg y - 1 = 0 then queue @ [y] else queue"
  have "int (count_list ys x) \<le> ?deg x" if "x \<in> set ys" for x
    using Cons.prems [of x] that by (auto split: if_splits)
  from Cons.IH [OF this, of ?q] obtain new where new: "snd (release ys ?deg ?q) = ?q @ new"
    "distinct new" "set new = {x \<in> set ys. ?deg x = int (count_list ys x)}" by blast
  show ?case
  proof (cases "deg y = 1")
    case True
    then have "count_list ys y = 0" using Cons.prems [of y] by simp
    then have "y \<notin> set ys" by (simp add: count_list_0_iff)
    with True new show ?thesis by (intro exI [of _ "y # new"]) (auto simp: Let_def count_list_0_iff)
  next
    case False
    have "set new = {x \<in> set (y # ys). deg x = int (count_list (y # ys) x)}"
    proof (cases "y \<in> set ys")
      case True
      with new(3) show ?thesis by auto
    next
      case notin: False
      then have "count_list ys y = 0" by (simp add: count_list_0_iff)
      with notin False new(3) show ?thesis by auto
    qed
    with False new show ?thesis by (intro exI [of _ new]) (auto simp: Let_def)
  qed
qed simp

text \<open>The invariant of the queue loop: \<open>order\<close> is sorted so far, \<open>queue\<close> is ready.\<close>

definition kahn_inv :: "string set \<Rightarrow> (string \<times> string) list \<Rightarrow> (string \<Rightarrow> int) \<Rightarrow> string list \<Rightarrow> string list \<Rightarrow> bool" where
  "kahn_inv ids es deg queue order \<longleftrightarrow>
     (\<forall>x. deg x = int (length (filter (\<lambda>e. fst e = x \<and> snd e \<notin> set order) es)))
     \<and> distinct (order @ queue)
     \<and> (\<forall>x. x \<in> set (order @ queue) \<longleftrightarrow> x \<in> ids \<and> deg x = 0)
     \<and> (\<forall>pre x post. order = pre @ x # post \<longrightarrow> (\<forall>d. (x, d) \<in> set es \<longrightarrow> d \<in> set pre))"

lemma count_list_filter: "count_list xs x = length (filter ((=) x) xs)"
  by (induction xs) auto

lemma kahn_inv_step:
  assumes inv: "kahn_inv ids es deg (c # queue) order" and es: "fst ` set es \<subseteq> ids"
  defines "xs \<equiv> map fst (filter (\<lambda>e. snd e = c) es)"
  shows "kahn_inv ids es (fst (release xs deg queue)) (snd (release xs deg queue)) (order @ [c])"
proof -
  let ?n = "\<lambda>x P. length (filter (\<lambda>e. fst e = x \<and> P (snd e)) es)"
  have deg: "deg x = int (?n x (\<lambda>d. d \<notin> set order))" for x using inv by (simp add: kahn_inv_def)
  have c: "c \<notin> set order" "c \<notin> set queue" "deg c = 0" "c \<in> ids" using inv by (auto simp: kahn_inv_def)
  have cnt: "count_list xs x = ?n x (\<lambda>d. d = c)" for x
    unfolding xs_def count_list_filter filter_map filter_filter length_map
    by (rule arg_cong [of _ _ length], rule filter_cong) auto
  have split: "?n x (\<lambda>d. d \<notin> set order) = ?n x (\<lambda>d. d = c) + ?n x (\<lambda>d. d \<notin> set (order @ [c]))" for x
    using c(1) by (induction es) auto
  have "int (count_list xs x) \<le> deg x" for x using deg cnt split by simp
  then obtain new where new: "snd (release xs deg queue) = queue @ new" "distinct new"
    "set new = {x \<in> set xs. deg x = int (count_list xs x)}" using release_queue by blast
  have deg': "fst (release xs deg queue) x = int (?n x (\<lambda>d. d \<notin> set (order @ [c])))" for x
    using release_degree [of xs deg queue x] deg cnt split by simp
  have ready: "x \<in> set (order @ c # queue) \<longleftrightarrow> x \<in> ids \<and> deg x = 0" for x
    using inv by (auto simp: kahn_inv_def)
  have pos: "deg x \<noteq> 0" "x \<in> ids" if "x \<in> set new" for x
  proof -
    have "x \<in> set xs" using that new(3) by simp
    then show "x \<in> ids" using es by (auto simp: xs_def)
    have "count_list xs x \<noteq> 0" using \<open>x \<in> set xs\<close> by (simp add: count_list_0_iff)
    then show "deg x \<noteq> 0" using that new(3) by simp
  qed
  have "x \<in> set ((order @ [c]) @ queue @ new) \<longleftrightarrow> x \<in> ids \<and> fst (release xs deg queue) x = 0" for x
  proof (cases "x \<in> set (order @ c # queue)")
    case True
    with ready have "x \<in> ids" "deg x = 0" by auto
    then have "fst (release xs deg queue) x = 0" using deg [of x] deg' [of x] split [of x] by linarith
    with True \<open>x \<in> ids\<close> show ?thesis by auto
  next
    case False
    have "x \<in> set new \<longleftrightarrow> x \<in> ids \<and> fst (release xs deg queue) x = 0"
    proof
      assume "x \<in> set new"
      then show "x \<in> ids \<and> fst (release xs deg queue) x = 0"
        using pos new(3) release_degree [of xs deg queue x] by simp
    next
      assume *: "x \<in> ids \<and> fst (release xs deg queue) x = 0"
      then have "deg x = int (count_list xs x)" using release_degree [of xs deg queue x] by simp
      moreover have "deg x \<noteq> 0" using False ready * by blast
      ultimately have "count_list xs x \<noteq> 0" by simp
      then have "x \<in> set xs" by (metis count_list_0_iff)
      with \<open>deg x = int (count_list xs x)\<close> show "x \<in> set new" using new(3) by simp
    qed
    with False show ?thesis by auto
  qed
  moreover have "distinct ((order @ [c]) @ queue @ new)"
  proof -
    have "distinct (order @ c # queue)" using inv by (simp add: kahn_inv_def)
    moreover have "set new \<inter> set (order @ c # queue) = {}" using pos(1) ready by blast
    ultimately show ?thesis using new(2) by auto
  qed
  moreover have "d \<in> set pre" if "order @ [c] = pre @ x # post" "(x, d) \<in> set es" for pre x post d
  proof (cases post rule: rev_cases)
    case Nil
    with that have "x = c" "pre = order" by auto
    with c(3) deg that(2) show ?thesis by (auto simp: filter_empty_conv)
  next
    case (snoc post' y)
    with that(1) have "order = pre @ x # post'" by simp
    with inv that(2) show ?thesis unfolding kahn_inv_def by blast
  qed
  ultimately show ?thesis using deg' new(1) by (simp add: kahn_inv_def)
qed

text \<open>With an id of fuel for every step the loop ends, and its invariant holds at the end.\<close>

lemma kahn_complete:
  assumes "kahn_inv ids es deg queue order" and "finite ids" and "fst ` set es \<subseteq> ids"
    and "card ids \<le> fuel + length order"
    and dependents: "\<And>d. dependents d = map fst (filter (\<lambda>e. snd e = d) es)"
  shows "\<exists>order' deg'. kahn fuel dependents deg queue order = Some order' \<and> kahn_inv ids es deg' [] order'"
  using assms(1,4)
proof (induction fuel arbitrary: deg queue order)
  case 0
  have "card (set (order @ queue)) \<le> card ids"
    using 0(1) assms(2) by (intro card_mono) (auto simp: kahn_inv_def)
  moreover have "distinct (order @ queue)" using 0(1) by (simp add: kahn_inv_def)
  ultimately have "length order + length queue \<le> card ids" by (metis distinct_card length_append)
  moreover have "card ids \<le> length order" using 0(2) by simp
  ultimately have "length queue = 0" by linarith
  with 0(1) show ?case by auto
next
  case (Suc fuel)
  show ?case
  proof (cases queue)
    case (Cons c q)
    have "kahn_inv ids es (fst (release (dependents c) deg q)) (snd (release (dependents c) deg q)) (order @ [c])"
      unfolding dependents by (rule kahn_inv_step) (use Suc.prems(1) Cons assms(3) in auto)
    from Suc.IH [OF this] Suc.prems(2) Cons show ?thesis by (simp split: prod.split) (metis fst_conv snd_conv)
  qed (use Suc.prems(1) in auto)
qed

text \<open>When nothing is left in the queue, acyclicity leaves nothing unsorted.\<close>

lemma sink_exists:
  assumes "acyclic r" and "finite r" and "x \<in> A" and "\<And>x. x \<in> A \<Longrightarrow> \<exists>y \<in> A. (x, y) \<in> r"
  shows False
proof -
  have "wf (r\<inverse>)" using assms(1,2) by (simp add: finite_acyclic_wf_converse)
  then obtain z where "z \<in> A" "\<And>y. (y, z) \<in> r\<inverse> \<Longrightarrow> y \<notin> A" using assms(3) by (metis wfE_min)
  with assms(4) show False by blast
qed

lemma kahn_inv_all:
  assumes "kahn_inv ids es deg [] order" and "acyclic (set es)" and "snd ` set es \<subseteq> ids"
  shows "set order = ids"
proof (rule ccontr)
  have order: "x \<in> set order \<longleftrightarrow> x \<in> ids \<and> deg x = 0"
    and deg: "deg x = int (length (filter (\<lambda>e. fst e = x \<and> snd e \<notin> set order) es))" for x
    using assms(1) unfolding kahn_inv_def append_Nil2 by blast+
  assume "set order \<noteq> ids"
  then obtain x where "x \<in> ids - set order" using order by blast
  moreover have "\<exists>y \<in> ids - set order. (x, y) \<in> set es" if "x \<in> ids - set order" for x
  proof -
    have "deg x \<noteq> 0" using that order by blast
    then have "filter (\<lambda>e. fst e = x \<and> snd e \<notin> set order) es \<noteq> []" using deg [of x] by auto
    then obtain e where "e \<in> set es" "fst e = x" "snd e \<notin> set order" by (auto simp: filter_empty_conv)
    with assms(3) show ?thesis by (intro bexI [of _ "snd e"]) (auto simp: image_subset_iff)
  qed
  ultimately show False using sink_exists [OF assms(2)] by blast
qed

lemma deps_in_schema_graph:
  assumes "distinct (map stp_stepId steps)" and "s \<in> set steps"
  shows "deps_in (schema_graph steps) (stp_stepId s) = stp_deps s"
proof -
  have "map_of (schema_graph steps) (stp_stepId s) = Some (stp_deps s)"
    using assms by (intro map_of_is_SomeI) (auto simp: schema_graph_def comp_def rev_map [symmetric])
  then show ?thesis by (simp add: deps_in_def)
qed

lemma set_dep_edges:
  assumes "distinct (map stp_stepId steps)"
  shows "set (dep_edges steps) = {(x, d) \<in> depends (schema_graph steps). d \<in> stp_stepId ` set steps}"
proof -
  let ?g = "schema_graph steps"
  have edge: "(\<exists>s \<in> set steps. stp_stepId s = x \<and> d \<in> set (stp_deps s)) \<longleftrightarrow> d \<in> set (deps_in ?g x)" for x d
  proof
    assume d: "d \<in> set (deps_in ?g x)"
    then have "x \<in> stp_stepId ` set steps" by (metis deps_in_key empty_iff empty_set schema_graph_keys)
    then obtain s where "s \<in> set steps" "x = stp_stepId s" by blast
    with d deps_in_schema_graph [OF assms] show "\<exists>s \<in> set steps. stp_stepId s = x \<and> d \<in> set (stp_deps s)" by auto
  qed (use deps_in_schema_graph [OF assms] in auto)
  have "(x, d) \<in> set (dep_edges steps) \<longleftrightarrow>
      d \<in> stp_stepId ` set steps \<and> (\<exists>s \<in> set steps. stp_stepId s = x \<and> d \<in> set (stp_deps s))" for x d
    by (auto simp: dep_edges_def)
  then show ?thesis unfolding edge by (auto simp: depends_def)
qed

lemma step_by_id_distinct:
  assumes "distinct (map stp_stepId steps)" and "s \<in> set steps"
  shows "step_by_id steps (stp_stepId s) = Some s"
  using assms by (auto simp: step_by_id_def comp_def rev_map [symmetric] intro!: map_of_is_SomeI)

text \<open>
  The order of an acyclic list of steps with distinct ids: a permutation of the steps in which
  every step comes after those of its dependencies that are steps.
\<close>

definition in_dependency_order :: "mission_step list \<Rightarrow> bool" where
  "in_dependency_order ss \<longleftrightarrow>
     (\<forall>pre s post. ss = pre @ s # post \<longrightarrow>
        set (stp_deps s) \<inter> stp_stepId ` set ss \<subseteq> stp_stepId ` set pre)"

lemma kahn_inv_start:
  assumes "distinct ids" and "fst ` set es \<subseteq> set ids"
  shows "kahn_inv (set ids) es (fst (count_edges es)) (filter (\<lambda>i. fst (count_edges es) i = 0) ids) []"
  using assms by (auto simp: kahn_inv_def count_edges_degree)

lemma acyclic_dep_edges:
  assumes "distinct (map stp_stepId steps)" and "\<not> hasDependencyCycle steps"
  shows "acyclic (set (dep_edges steps))"
proof -
  have "acyclic (depends (schema_graph steps))"
    using assms(2) hasDependencyCycle_iff by (auto simp: acyclic_def)
  moreover have "set (dep_edges steps) \<subseteq> depends (schema_graph steps)"
    using set_dep_edges [OF assms(1)] by auto
  ultimately show ?thesis by (rule acyclic_subset)
qed

lemma topologicalSort_acyclic:
  assumes dist: "distinct (map stp_stepId steps)" and acyc: "\<not> hasDependencyCycle steps"
  shows "\<exists>ss. topologicalSort steps = Some \<lparr>sr_sorted = ss, sr_error = None\<rparr>
    \<and> mset ss = mset steps \<and> in_dependency_order ss"
proof -
  let ?ids = "map stp_stepId steps" and ?es = "dep_edges steps"
  let ?deg = "fst (count_edges ?es)" and ?dep = "snd (count_edges ?es)"
  have es: "fst ` set ?es \<subseteq> set ?ids" "snd ` set ?es \<subseteq> set ?ids" by (auto simp: dep_edges_def)
  have ids: "set_order ?ids = ?ids" using dist by (rule set_order_distinct)
  obtain order deg' where run: "kahn (length ?ids) ?dep ?deg (filter (\<lambda>i. ?deg i = 0) ?ids) [] = Some order"
    and inv: "kahn_inv (set ?ids) ?es deg' [] order"
    using kahn_complete [OF kahn_inv_start [OF dist es(1)], of "length ?ids" ?dep] es(1)
      distinct_card [OF dist] count_edges_dependents [of ?es] by auto
  have all: "set order = set ?ids" by (rule kahn_inv_all [OF inv acyclic_dep_edges [OF dist acyc] es(2)])
  have dorder: "distinct order" using inv by (simp add: kahn_inv_def)
  let ?ss = "map (\<lambda>i. the (step_by_id steps i)) order"
  have ids_back: "map stp_stepId ?ss = order"
    unfolding map_map comp_def
    by (rule map_idI) (use all step_by_id_distinct [OF dist] in \<open>auto simp: image_iff\<close>)
  have "set ?ss = set steps"
    using all step_by_id_distinct [OF dist] by (auto simp: image_iff)
  moreover have "distinct ?ss" using dorder ids_back by (metis distinct_map)
  ultimately have perm: "mset ?ss = mset steps" using dist by (metis distinct_map set_eq_iff_mset_eq_distinct)
  have "set (stp_deps s) \<inter> stp_stepId ` set ?ss \<subseteq> stp_stepId ` set pre" if "?ss = pre @ s # post" for pre s post
  proof
    fix d assume d: "d \<in> set (stp_deps s) \<inter> stp_stepId ` set ?ss"
    have s: "s \<in> set steps" using that \<open>set ?ss = set steps\<close> by (metis in_set_conv_decomp)
    have "(stp_stepId s, d) \<in> set ?es"
      using d s \<open>set ?ss = set steps\<close> by (auto simp: dep_edges_def)
    moreover have "order = map stp_stepId pre @ stp_stepId s # map stp_stepId post"
      using ids_back that by (metis list.simps(9) map_append)
    moreover have "\<forall>pre x post. order = pre @ x # post \<longrightarrow> (\<forall>d. (x, d) \<in> set ?es \<longrightarrow> d \<in> set pre)"
      using inv unfolding kahn_inv_def by (elim conjE)
    ultimately have "d \<in> set (map stp_stepId pre)" by blast
    then show "d \<in> stp_stepId ` set pre" by simp
  qed
  then have "in_dependency_order ?ss" by (simp add: in_dependency_order_def)
  moreover have "topologicalSort steps = Some \<lparr>sr_sorted = ?ss, sr_error = None\<rparr>"
    using run acyc ids mset_eq_length [OF perm]
    by (simp add: topologicalSort_def Let_def split_def)
  ultimately show ?thesis using perm by blast
qed

section \<open>The rounds cover the steps, each as early as it can run\<close>

declare parallel_rounds.simps [simp del]

definition round_ids :: "parallel_set list \<Rightarrow> string set" where
  "round_ids rs = stp_stepId ` set (concat (map ps_steps rs))"

lemma round_ids_simps [simp]:
  "round_ids [] = {}"
  "round_ids (p # rs) = stp_stepId ` set (ps_steps p) \<union> round_ids rs"
  by (auto simp: round_ids_def)

lemma filter_partition: "mset (filter P xs) + mset (filter (\<lambda>x. x \<notin> set (filter P xs)) xs) = mset xs"
proof -
  have "filter (\<lambda>x. x \<notin> set (filter P xs)) xs = filter (\<lambda>x. \<not> P x) xs" by (rule filter_cong) auto
  then show ?thesis by (simp only: mset_filter multiset_partition [symmetric])
qed

lemma parallel_rounds_all:
  assumes progress: "\<And>R. R \<subseteq> ids \<Longrightarrow> R \<noteq> {} \<Longrightarrow> \<exists>i \<in> R. set (stp_deps (stepMap i)) \<subseteq> ids - R"
    and "assigned \<union> set remaining = ids" and "assigned \<inter> set remaining = {}"
  shows "mset (concat (map ps_steps (parallel_rounds stepMap rnd assigned remaining))) = mset (map stepMap remaining)"
  using assms
proof (induction stepMap rnd assigned remaining rule: parallel_rounds.induct)
  case (1 stepMap rnd assigned remaining)
  define ready where "ready = filter (\<lambda>i. set (stp_deps (stepMap i)) \<subseteq> assigned) remaining"
  let ?rest = "filter (\<lambda>i. i \<notin> set ready) remaining"
  show ?case
  proof (cases "remaining = []")
    case False
    with 1(2) [of "set remaining"] 1(3,4)
    obtain i where "i \<in> set remaining" "set (stp_deps (stepMap i)) \<subseteq> ids - set remaining" by auto
    with 1(3,4) have "i \<in> set ready" by (auto simp: ready_def)
    then have nonempty: "ready \<noteq> []" by auto
    have "assigned \<union> set ready \<union> set ?rest = ids" "(assigned \<union> set ready) \<inter> set ?rest = {}"
      using 1(3,4) by (auto simp: ready_def)
    from 1(1) [OF False ready_def nonempty 1(2) this]
    have "mset (concat (map ps_steps (parallel_rounds stepMap (rnd + 1) (assigned \<union> set ready) ?rest)))
        = mset (map stepMap ?rest)" by blast
    moreover have "mset ready + mset ?rest = mset remaining"
      unfolding ready_def by (rule filter_partition)
    then have "image_mset stepMap (mset ready) + image_mset stepMap (mset ?rest) = image_mset stepMap (mset remaining)"
      by (metis image_mset_union)
    ultimately show ?thesis
      using False nonempty
      by (simp add: parallel_rounds.simps [of stepMap rnd assigned remaining] Let_def ready_def [symmetric] del: mset_filter)
  qed (simp add: parallel_rounds.simps)
qed

lemma parallel_rounds_subset:
  "set (concat (map ps_steps (parallel_rounds stepMap rnd assigned remaining))) \<subseteq> stepMap ` set remaining"
proof (induction stepMap rnd assigned remaining rule: parallel_rounds.induct)
  case (1 stepMap rnd assigned remaining)
  let ?ready = "filter (\<lambda>i. set (stp_deps (stepMap i)) \<subseteq> assigned) remaining"
  let ?rest = "filter (\<lambda>i. i \<notin> set ?ready) remaining"
  show ?case
  proof (cases "remaining = [] \<or> ?ready = []")
    case False
    have "set (concat (map ps_steps (parallel_rounds stepMap (rnd + 1) (assigned \<union> set ?ready) ?rest)))
        \<subseteq> stepMap ` set ?rest"
      using False by (intro 1) simp_all
    also have "\<dots> \<subseteq> stepMap ` set remaining" by auto
    finally have tail: "set (concat (map ps_steps (parallel_rounds stepMap (rnd + 1) (assigned \<union> set ?ready) ?rest)))
        \<subseteq> stepMap ` set remaining" .
    have "parallel_rounds stepMap rnd assigned remaining =
        \<lparr>ps_round = rnd, ps_steps = map stepMap ?ready\<rparr>
        # parallel_rounds stepMap (rnd + 1) (assigned \<union> set ?ready) ?rest"
      using False by (subst parallel_rounds.simps) (simp only: Let_def de_Morgan_disj if_False)
    with tail show ?thesis by (simp only: list.map concat.simps set_append parallel_set.simps) auto
  qed (auto simp: parallel_rounds.simps [of stepMap rnd assigned remaining])
qed

text \<open>
  A step of a round depends only on steps of earlier rounds, and not only on steps of rounds
  before the last of them.
\<close>

lemma parallel_rounds_early:
  assumes "\<And>i. i \<in> set remaining \<Longrightarrow> stp_stepId (stepMap i) = i"
    and "parallel_rounds stepMap rnd assigned remaining = pre @ p # post" and "s \<in> set (ps_steps p)"
  shows "ps_round p = rnd + length pre
    \<and> set (stp_deps s) \<subseteq> assigned \<union> round_ids pre
    \<and> (pre = [] \<or> \<not> set (stp_deps s) \<subseteq> assigned \<union> round_ids (butlast pre))"
  using assms
proof (induction stepMap rnd assigned remaining arbitrary: pre rule: parallel_rounds.induct)
  case (1 stepMap rnd assigned remaining)
  define ready where "ready = filter (\<lambda>i. set (stp_deps (stepMap i)) \<subseteq> assigned) remaining"
  let ?rest = "filter (\<lambda>i. i \<notin> set ready) remaining"
  let ?first = "\<lparr>ps_round = rnd, ps_steps = map stepMap ready\<rparr>"
  have nonempty: "remaining \<noteq> []" "ready \<noteq> []"
    using 1(3) by (auto simp: parallel_rounds.simps [of stepMap rnd] Let_def ready_def [symmetric] split: if_splits)
  then have unfold: "?first # parallel_rounds stepMap (rnd + 1) (assigned \<union> set ready) ?rest = pre @ p # post"
    using 1(3) by (simp add: parallel_rounds.simps [of stepMap rnd assigned] Let_def ready_def [symmetric])
  have ids: "stp_stepId ` set (ps_steps ?first) = set ready"
    using 1(2) by (auto simp: ready_def image_image)
  show ?case
  proof (cases pre)
    case Nil
    with unfold 1(4) show ?thesis by (auto simp: ready_def)
  next
    case (Cons q pre')
    with unfold have q: "q = ?first"
      and rest: "parallel_rounds stepMap (rnd + 1) (assigned \<union> set ready) ?rest = pre' @ p # post" by auto
    have IH: "ps_round p = rnd + 1 + length pre' \<and> set (stp_deps s) \<subseteq> assigned \<union> set ready \<union> round_ids pre'
      \<and> (pre' = [] \<or> \<not> set (stp_deps s) \<subseteq> assigned \<union> set ready \<union> round_ids (butlast pre'))"
      using 1(1) [OF nonempty(1) ready_def nonempty(2) _ rest 1(4)] 1(2) by auto
    have late: "\<not> set (stp_deps s) \<subseteq> assigned"
    proof -
      have "s \<in> set (concat (map ps_steps (parallel_rounds stepMap (rnd + 1) (assigned \<union> set ready) ?rest)))"
        using rest 1(4) by simp
      then obtain i where "i \<in> set ?rest" "s = stepMap i"
        using parallel_rounds_subset [of stepMap "rnd + 1" "assigned \<union> set ready" ?rest] by blast
      then show ?thesis by (auto simp: ready_def)
    qed
    show ?thesis
    proof (cases "pre' = []")
      case True
      with late IH Cons q ids show ?thesis by simp
    next
      case False
      with IH Cons q ids show ?thesis by (auto simp: Un_assoc)
    qed
  qed
qed

lemma parallel_rounds_nonempty:
  "p \<in> set (parallel_rounds stepMap rnd assigned remaining) \<Longrightarrow> ps_steps p \<noteq> []"
proof (induction stepMap rnd assigned remaining rule: parallel_rounds.induct)
  case (1 stepMap rnd assigned remaining)
  then show ?case
    by (auto simp: parallel_rounds.simps [of stepMap rnd assigned remaining] Let_def split: if_splits)
qed

definition earliest_rounds :: "parallel_set list \<Rightarrow> bool" where
  "earliest_rounds rs \<longleftrightarrow>
     (\<forall>pre p post. rs = pre @ p # post \<longrightarrow> ps_round p = length pre
        \<and> (\<forall>s \<in> set (ps_steps p). set (stp_deps s) \<subseteq> round_ids pre
             \<and> (pre = [] \<or> \<not> set (stp_deps s) \<subseteq> round_ids (butlast pre))))"

lemma dep_edges_member:
  "(x, d) \<in> set (dep_edges ss) \<longleftrightarrow>
     (\<exists>s \<in> set ss. stp_stepId s = x \<and> d \<in> set (stp_deps s)) \<and> d \<in> stp_stepId ` set ss"
  by (auto simp: dep_edges_def)

lemma dep_edges_cong: "set ss = set ts \<Longrightarrow> set (dep_edges ss) = set (dep_edges ts)"
  by (auto simp: dep_edges_member)

lemma computeParallelSets_rounds:
  assumes dist: "distinct (map stp_stepId ss)" and acyc: "acyclic (set (dep_edges ss))"
    and known: "\<And>s. s \<in> set ss \<Longrightarrow> set (stp_deps s) \<subseteq> stp_stepId ` set ss"
  shows "mset (concat (map ps_steps (computeParallelSets ss))) = mset ss
    \<and> earliest_rounds (computeParallelSets ss)"
proof -
  let ?ids = "map stp_stepId ss"
  define stepMap where "stepMap = (\<lambda>i. the (step_by_id ss i))"
  have step: "stepMap (stp_stepId s) = s" if "s \<in> set ss" for s
    using step_by_id_distinct [OF dist that] by (simp add: stepMap_def)
  have ids: "stp_stepId (stepMap i) = i" "stepMap i \<in> set ss" if "i \<in> set ?ids" for i
    using that step by auto
  have run: "computeParallelSets ss = parallel_rounds stepMap 0 {} ?ids"
    by (simp add: computeParallelSets_def stepMap_def set_order_distinct [OF dist] parallel_rounds.simps)
  have progress: "\<exists>i \<in> R. set (stp_deps (stepMap i)) \<subseteq> set ?ids - R" if R: "R \<subseteq> set ?ids" "R \<noteq> {}" for R
  proof (rule ccontr)
    assume none: "\<not> ?thesis"
    have "\<exists>d \<in> R. (i, d) \<in> set (dep_edges ss)" if "i \<in> R" for i
    proof -
      have i: "i \<in> set ?ids" using that R by blast
      have "\<not> set (stp_deps (stepMap i)) \<subseteq> set ?ids - R" using none that by (simp only: bex_simps not_False_eq_True)
      then obtain d where d: "d \<in> set (stp_deps (stepMap i))" "d \<notin> set ?ids - R" unfolding subset_iff by blast
      have "d \<in> stp_stepId ` set ss" using known [OF ids(2) [OF i]] d(1) by blast
      then have "d \<in> R" using d(2) by auto
      moreover have "(i, d) \<in> set (dep_edges ss)"
        using ids [OF i] d(1) \<open>d \<in> stp_stepId ` set ss\<close> by (auto simp: dep_edges_member)
      ultimately show ?thesis by blast
    qed
    with R(2) sink_exists [OF acyc] show False by blast
  qed
  have "mset (concat (map ps_steps (computeParallelSets ss))) = mset (map stepMap ?ids)"
    unfolding run by (rule parallel_rounds_all [where ids = "set ?ids"]) (use progress in auto)
  also have "map stepMap ?ids = ss" using step by (simp add: map_idI)
  finally have all: "mset (concat (map ps_steps (computeParallelSets ss))) = mset ss" .
  have "earliest_rounds (computeParallelSets ss)"
    unfolding earliest_rounds_def run
  proof (intro allI impI)
    fix pre p post
    assume rs: "parallel_rounds stepMap 0 {} ?ids = pre @ p # post"
    have early: "ps_round p = 0 + length pre \<and> set (stp_deps s) \<subseteq> {} \<union> round_ids pre
        \<and> (pre = [] \<or> \<not> set (stp_deps s) \<subseteq> {} \<union> round_ids (butlast pre))" if "s \<in> set (ps_steps p)" for s
      using parallel_rounds_early [OF ids(1) rs that] .
    have "ps_steps p \<noteq> []" using parallel_rounds_nonempty [of p stepMap 0 "{}" ?ids] rs by simp
    then obtain s where "s \<in> set (ps_steps p)" by (cases "ps_steps p") auto
    with early [OF this] early show "ps_round p = length pre \<and> (\<forall>s \<in> set (ps_steps p).
        set (stp_deps s) \<subseteq> round_ids pre \<and> (pre = [] \<or> \<not> set (stp_deps s) \<subseteq> round_ids (butlast pre)))"
      by simp
  qed
  with all show ?thesis ..
qed

text \<open>A manifest the schema accepts is planned completely.\<close>

lemma well_planned_sorts:
  assumes "well_planned m"
  shows "\<exists>ss. topologicalSort (mf_steps m) = Some \<lparr>sr_sorted = ss, sr_error = None\<rparr>
    \<and> mset ss = mset (mf_steps m) \<and> in_dependency_order ss
    \<and> mset (concat (map ps_steps (computeParallelSets ss))) = mset (mf_steps m)
    \<and> earliest_rounds (computeParallelSets ss)"
proof -
  have m: "distinct (map stp_stepId (mf_steps m))" "\<not> hasDependencyCycle (mf_steps m)"
    "\<And>s. s \<in> set (mf_steps m) \<Longrightarrow> set (stp_deps s) \<subseteq> stp_stepId ` set (mf_steps m)"
    using assms by (auto simp: well_planned_def Let_def)
  from topologicalSort_acyclic [OF m(1,2)] obtain ss
    where ss: "topologicalSort (mf_steps m) = Some \<lparr>sr_sorted = ss, sr_error = None\<rparr>"
      "mset ss = mset (mf_steps m)" "in_dependency_order ss" by blast
  have set: "set ss = set (mf_steps m)" using ss(2) by (metis set_mset_mset)
  have "distinct (map stp_stepId ss)"
    using m(1) ss(2) by (metis mset_eq_imp_distinct_iff mset_map)
  moreover have "acyclic (set (dep_edges ss))"
    using acyclic_dep_edges [OF m(1,2)] dep_edges_cong [OF set] by simp
  ultimately have "mset (concat (map ps_steps (computeParallelSets ss))) = mset ss
    \<and> earliest_rounds (computeParallelSets ss)"
    using m(3) set by (intro computeParallelSets_rounds) auto
  with ss show ?thesis by auto
qed

lemma validateManifest_valid:
  assumes "vr_valid (validateManifest shape data)"
  shows "\<exists>m. safeParse shape data = Inr m \<and> vr_errors (validateManifest shape data) = []"
  using assms by (cases "safeParse shape data") (auto simp: validateManifest_def Let_def)

text \<open>C9: Whenever the pipeline finds a manifest valid it plans it completely: the sort succeeds
  and is a permutation of the steps with every step after its dependencies, the rounds hold
  every step exactly once, each in the earliest round its dependencies allow, and every step
  has a cost.  An invalid manifest gets no plan.  The queue loop never runs out of fuel.
\<close>

theorem valid_manifest_is_planned:
  assumes "\<And>m issues m'. shape m = (issues, Some m') \<Longrightarrow> mf_steps m' = mf_steps m"
  shows "case validateAndPlan shape data of
      None \<Rightarrow> False
    | Some p \<Rightarrow>
        if pl_valid p
        then pl_sortError p = None \<and> mset (pl_sortedSteps p) = mset (mf_steps data)
          \<and> in_dependency_order (pl_sortedSteps p)
          \<and> mset (concat (map ps_steps (pl_parallelSets p))) = mset (mf_steps data)
          \<and> earliest_rounds (pl_parallelSets p)
          \<and> map tc_stepId (pl_taskCosts p) = map stp_stepId (pl_sortedSteps p)
        else pl_sortedSteps p = [] \<and> pl_parallelSets p = []"
proof (cases "vr_valid (validateManifest shape data)")
  case True
  from validateManifest_valid [OF this] obtain m where "safeParse shape data = Inr m" by (elim exE conjE)
  then have "shape data = ([], Some m)" "well_planned m" by (simp_all add: safeParse_Inr)
  moreover from assms [OF this(1)] have "mf_steps m = mf_steps data" .
  ultimately obtain ss where "topologicalSort (mf_steps data) = Some \<lparr>sr_sorted = ss, sr_error = None\<rparr>"
    "mset ss = mset (mf_steps data)" "in_dependency_order ss"
    "mset (concat (map ps_steps (computeParallelSets ss))) = mset (mf_steps data)"
    "earliest_rounds (computeParallelSets ss)"
    using well_planned_sorts [of m] by auto
  with True show ?thesis by (simp add: validateAndPlan_def Let_def comp_def estimateTaskCost_def)
qed (simp add: validateAndPlan_def Let_def)

definition example_step :: "string \<Rightarrow> string list \<Rightarrow> mission_step" where
  "example_step i ds =
     \<lparr>stp_stepId = i, stp_description = ''work'', stp_actionType = ''calculator.execute'', stp_input = VObj [],
      stp_targetRef = None, stp_dependsOn = Some ds, stp_approvalMode = Approval_none, stp_risk = Risk_none\<rparr>"

definition example_manifest :: mission_manifest where
  "example_manifest =
     (goal_manifest ''2026-01-01T00:00:00.000Z'' 1
        \<lparr>gl_intent = ''work'', gl_actionType = ''calculator.execute'', gl_input = VObj [], gl_tenantId = ''t'',
         gl_correlationId = ''c'', gl_sessionId = None\<rparr>)
     \<lparr>mf_steps := [example_step ''c'' [''a'', ''b''], example_step ''b'' [''a''], example_step ''a'' []],
      mf_compensationPlan := map (\<lambda>i. \<lparr>cpl_stepId = i, cpl_compensateStepId = None, cpl_mode = Comp_none,
        cpl_reason = None, cpl_requiresUserApproval = None\<rparr>) [''a'', ''b'', ''c''],
      mf_verificationPlan := map (\<lambda>i. \<lparr>vpl_checkId = i, vpl_stepId = i, vpl_type = ''schema_validation'',
        vpl_expected = ''done''\<rparr>) [''a'', ''b'', ''c'']\<rparr>"

lemma example_planned: "well_planned example_manifest"
  by (auto simp: well_planned_def example_manifest_def example_step_def stp_deps_def hasDependencyCycle_def
      schema_graph_def deps_in_def visit.simps)

lemma example_valid: "vr_valid (validateManifest (\<lambda>m. ([], Some m)) example_manifest)"
proof -
  have "safeParse (\<lambda>m. ([], Some m)) example_manifest = Inr example_manifest"
    using example_planned by (simp add: safeParse_Inr)
  moreover have "\<not> hasDependencyCycle (mf_steps example_manifest)"
    using example_planned by (simp add: well_planned_def Let_def)
  ultimately show ?thesis
    by (simp add: validateManifest_def Let_def example_manifest_def example_step_def unapproved_def)
qed

lemma valid_manifest_is_planned_witness:
  "case validateAndPlan (\<lambda>m. ([], Some m)) example_manifest of
      None \<Rightarrow> False
    | Some p \<Rightarrow> pl_valid p \<and> mset (pl_sortedSteps p) = mset (mf_steps example_manifest)
        \<and> in_dependency_order (pl_sortedSteps p) \<and> earliest_rounds (pl_parallelSets p)"
proof -
  have "case validateAndPlan (\<lambda>m. ([], Some m)) example_manifest of None \<Rightarrow> True | Some p \<Rightarrow> pl_valid p"
    using example_valid by (simp add: validateAndPlan_def Let_def split: option.split)
  with valid_manifest_is_planned [of "\<lambda>m. ([], Some m)" example_manifest] show ?thesis
    by (auto split: option.splits if_splits)
qed

end
