(* ===== verification/Lifecycle.thy ===== *)
theory Lifecycle
  imports Compensation Planner Sorting "HOL-Library.AList"
begin

text \<open>
  The mission lifecycle (\<open>apps/edge-runtime/src/actions/lifecycle.ts\<close>) with the audit events it
  sends (\<open>audit-writer.ts\<close>): the registry of actions, the execution of a manifest's steps with
  reconciliation after each and compensation on failure, the replay of recorded events and the
  dry run.  Callbacks may change the world and throw.  Audit events are recorded in the order
  they are sent; the telemetry spans are left out.
\<close>

section \<open>The registry\<close>

type_synonym 'w registry = "(string \<times> 'w edge_action) list"

definition registerAction :: "'w registry \<Rightarrow> 'w edge_action \<Rightarrow> 'w registry" where
  "registerAction reg action = AList.update (ac_type action) action reg"

definition getAction :: "'w registry \<Rightarrow> string \<Rightarrow> 'w edge_action option" where
  "getAction reg t = map_of reg t"

definition listActions :: "'w registry \<Rightarrow> 'w edge_action list" where
  "listActions reg = map snd reg"

definition stepInput :: "mission_step \<Rightarrow> jsv" where
  "stepInput s = v_coalesce (stp_input s) (VObj [])"

section \<open>Records and results\<close>

record 'w exec_record =
  xr_step :: mission_step
  xr_action :: "'w edge_action"
  xr_ctx :: action_context
  xr_result :: action_result
  xr_stateBefore :: jsv
  xr_stateAfter :: jsv

datatype mission_status =
  Ms_success | Ms_failure | Ms_compensated | Ms_compensated_partial | Ms_halted | Ms_loop_limit

record 'w mission_result =
  mr_missionId :: string
  mr_correlationId :: string
  mr_status :: mission_status
  mr_executedActions :: "'w exec_record list"
  mr_failedAction :: "'w exec_record option"
  mr_compensationReport :: "compensation_report option"
  mr_reconcileResult :: "reconcile_loop_result option"
  mr_totalDurationMs :: int
  mr_error :: "string option"

text \<open>\<open>lo_auditLedger\<close>: the environment has the binding of the audit ledger.\<close>

record 'w lifecycle_opts =
  lo_mission :: "'w mission_definition"
  lo_manifest :: mission_manifest
  lo_correlationId :: string
  lo_tenantId :: string
  lo_auditLedger :: bool
  lo_onActionStart :: "(mission_step \<Rightarrow> action_context \<Rightarrow> ('w, unit) eff) option"
  lo_onActionComplete :: "(mission_step \<Rightarrow> action_result \<Rightarrow> action_context \<Rightarrow> ('w, unit) eff) option"
  lo_onCompensation :: "(compensation_report \<Rightarrow> ('w, unit) eff) option"
  lo_onReconcile :: "(reconcile_loop_result \<Rightarrow> ('w, unit) eff) option"

section \<open>Audit events\<close>

definition audit_types :: "string list" where
  "audit_types = [''action_executed'', ''mission_executed'', ''compensation_executed'']"

definition appendToAuditLedger :: "bool \<Rightarrow> audit_event \<Rightarrow> 'w run_world \<Rightarrow> 'w run_world" where
  "appendToAuditLedger bound event w =
     (if ae_type event \<notin> set audit_types then w
      else if \<not> bound then w
      else w\<lparr>rw_audit := rw_audit w @ [event]\<rparr>)"

definition status_text :: "act_status \<Rightarrow> string" where
  "status_text s = (case s of Act_success \<Rightarrow> ''success'' | Act_failure \<Rightarrow> ''failure'' | Act_partial \<Rightarrow> ''partial'')"

definition mission_status_text :: "mission_status \<Rightarrow> string" where
  "mission_status_text s =
     (case s of Ms_success \<Rightarrow> ''success'' | Ms_failure \<Rightarrow> ''failure'' | Ms_compensated \<Rightarrow> ''compensated''
      | Ms_compensated_partial \<Rightarrow> ''compensated_partial'' | Ms_halted \<Rightarrow> ''halted''
      | Ms_loop_limit \<Rightarrow> ''loop_limit'')"

definition action_event :: "'w exec_record \<Rightarrow> audit_event" where
  "action_event r =
     \<lparr>ae_type = ''action_executed'', ae_tenantId = ax_tenantId (xr_ctx r), ae_actor = ''system'',
      ae_sessionId = Some (ax_correlationId (xr_ctx r)),
      ae_data = [(''actionType'', VStr (stp_actionType (xr_step r))), (''input'', stp_input (xr_step r)),
        (''output'', ar_output (xr_result r)), (''status'', VStr (status_text (ar_status (xr_result r)))),
        (''stepId'', VStr (stp_stepId (xr_step r))), (''missionId'', VStr (ax_missionId (xr_ctx r))),
        (''correlationId'', VStr (ax_correlationId (xr_ctx r)))],
      ae_idempotency_key = Some (ax_missionId (xr_ctx r) @ '':'' @ stp_stepId (xr_step r) @ '':action'')\<rparr>"

definition auditActionExecuted :: "bool \<Rightarrow> 'w exec_record \<Rightarrow> 'w run_world \<Rightarrow> 'w run_world" where
  "auditActionExecuted bound r = appendToAuditLedger bound (action_event r)"

definition auditMissionExecuted :: "bool \<Rightarrow> 'w mission_result \<Rightarrow> 'w run_world \<Rightarrow> 'w run_world" where
  "auditMissionExecuted bound r = appendToAuditLedger bound
     \<lparr>ae_type = ''mission_executed'', ae_tenantId = mr_correlationId r, ae_actor = ''system'',
      ae_sessionId = Some (mr_correlationId r),
      ae_data = [(''missionId'', VStr (mr_missionId r)), (''status'', VStr (mission_status_text (mr_status r))),
        (''correlationId'', VStr (mr_correlationId r)),
        (''actionCount'', VNum (of_nat (length (mr_executedActions r))))],
      ae_idempotency_key = Some (mr_missionId r @ '':complete'')\<rparr>"

definition auditCompensationExecuted ::
  "bool \<Rightarrow> string \<Rightarrow> string \<Rightarrow> string \<Rightarrow> string \<Rightarrow> 'w run_world \<Rightarrow> 'w run_world" where
  "auditCompensationExecuted bound tenantId missionId correlationId compensationType = appendToAuditLedger bound
     \<lparr>ae_type = ''compensation_executed'', ae_tenantId = tenantId, ae_actor = ''system'',
      ae_sessionId = Some correlationId,
      ae_data = [(''missionId'', VStr missionId), (''correlationId'', VStr correlationId),
        (''compensationType'', VStr compensationType)],
      ae_idempotency_key = Some (missionId @ '':compensate:'' @ compensationType)\<rparr>"

section \<open>The steps of a mission\<close>

text \<open>The order of execution: by the number of declared dependencies, stably.\<close>

definition run_order :: "mission_step list \<Rightarrow> mission_step list" where
  "run_order steps = js_sort (\<lambda>a b. length (stp_deps a) \<le> length (stp_deps b)) steps"

definition step_context :: "'w lifecycle_opts \<Rightarrow> mission_step \<Rightarrow> action_context" where
  "step_context opts s =
     \<lparr>ax_correlationId = lo_correlationId opts, ax_tenantId = lo_tenantId opts,
      ax_missionId = md_id (lo_mission opts), ax_actionId = stp_stepId s\<rparr>"

text \<open>The record of a step of unknown type, with its stand-in action.\<close>

definition failing_action :: "string \<Rightarrow> 'w edge_action" where
  "failing_action t =
     \<lparr>ac_type = t,
      ac_execute = (\<lambda>ctx input w. (Inr \<lparr>ar_status = Act_failure, ar_output = VNull, ar_error = None,
                                        ar_durationMs = 0\<rparr>, w)),
      ac_compensate = None, ac_dryRun = None\<rparr>"

definition unknown_record :: "'w lifecycle_opts \<Rightarrow> mission_step \<Rightarrow> 'w exec_record" where
  "unknown_record opts s =
     \<lparr>xr_step = s, xr_action = failing_action (stp_actionType s), xr_ctx = step_context opts s,
      xr_result = \<lparr>ar_status = Act_failure, ar_output = VNull,
                   ar_error = Some (''Unknown action type: '' @ stp_actionType s), ar_durationMs = 0\<rparr>,
      xr_stateBefore = VNull, xr_stateAfter = VNull\<rparr>"

record 'w loop_state =
  ls_executed :: "'w exec_record list"
  ls_failed :: "'w exec_record option"
  ls_compensating :: bool

datatype 'w loop_exit =
    Next_step "'w loop_state"
  | Break_loop "'w loop_state"
  | Return_result "'w mission_result"
  | Reject string

text \<open>The handler of the \<open>try\<close> block around a step.\<close>

definition caught ::
  "clock \<Rightarrow> 'w lifecycle_opts \<Rightarrow> int \<Rightarrow> mission_step \<Rightarrow> 'w edge_action \<Rightarrow> jsv \<Rightarrow> string \<Rightarrow> 'w loop_state \<Rightarrow>
   'w run_world \<Rightarrow> 'w loop_exit \<times> 'w run_world" where
  "caught clk opts startTime s action stateBefore err ls w =
     (let (t, w') = date_now clk w;
          r = \<lparr>xr_step = s, xr_action = action, xr_ctx = step_context opts s,
               xr_result = \<lparr>ar_status = Act_failure, ar_output = VNull, ar_error = Some err,
                            ar_durationMs = t - startTime\<rparr>,
               xr_stateBefore = stateBefore, xr_stateAfter = VNull\<rparr>
      in (Break_loop (ls\<lparr>ls_executed := ls_executed ls @ [r], ls_failed := Some r\<rparr>), w'))"

definition executed_summary :: "'w exec_record \<Rightarrow> executed_action" where
  "executed_summary e =
     \<lparr>ex_actionId = stp_stepId (xr_step e), ex_type = stp_actionType (xr_step e),
      ex_input = stepInput (xr_step e), ex_output = ar_output (xr_result e),
      ex_status = (if ar_status (xr_result e) = Act_success then Act_success else Act_failure)\<rparr>"

definition state_object :: "jsv \<Rightarrow> obj" where
  "state_object v = (case v of VObj ps \<Rightarrow> ps | _ \<Rightarrow> [])"

definition mission_result_of ::
  "'w lifecycle_opts \<Rightarrow> mission_status \<Rightarrow> 'w loop_state \<Rightarrow> compensation_report option \<Rightarrow>
   reconcile_loop_result option \<Rightarrow> int \<Rightarrow> string option \<Rightarrow> 'w mission_result" where
  "mission_result_of opts status ls report reconcile duration err =
     \<lparr>mr_missionId = md_id (lo_mission opts), mr_correlationId = lo_correlationId opts, mr_status = status,
      mr_executedActions = ls_executed ls, mr_failedAction = ls_failed ls, mr_compensationReport = report,
      mr_reconcileResult = reconcile, mr_totalDurationMs = duration, mr_error = err\<rparr>"

definition decision_reason :: "reconcile_decision \<Rightarrow> string \<Rightarrow> string" where
  "decision_reason d fallback = (case d of Halt r \<Rightarrow> r | Compensate r \<Rightarrow> r | _ \<Rightarrow> fallback)"

text \<open>What the loop does with the result of a reconciliation.\<close>

definition after_reconcile ::
  "clock \<Rightarrow> 'w lifecycle_opts \<Rightarrow> int \<Rightarrow> reconcile_loop_result \<Rightarrow> 'w loop_state \<Rightarrow> 'w run_world \<Rightarrow>
   'w loop_exit \<times> 'w run_world" where
  "after_reconcile clk opts startTime rr ls w =
     (case rl_terminatedBy rr of
        By_complete \<Rightarrow>
          let (t, w') = date_now clk w in
          (Return_result (mission_result_of opts Ms_success ls None (Some rr) (t - startTime) None), w')
      | By_compensate \<Rightarrow> (Break_loop (ls\<lparr>ls_compensating := True\<rparr>), w)
      | By_halt \<Rightarrow>
          let (t, w') = date_now clk w in
          (Return_result (mission_result_of opts Ms_halted ls None (Some rr) (t - startTime)
             (Some (decision_reason (rl_finalDecision rr) ''Mission halted by reconcile''))), w')
      | By_loop_limit \<Rightarrow>
          let (t, w') = date_now clk w in
          (Return_result (mission_result_of opts Ms_loop_limit ls None (Some rr) (t - startTime)
             (Some (decision_reason (rl_finalDecision rr) ''Loop limit exceeded''))), w'))"

text \<open>An optional callback.\<close>

definition callback :: "('w, unit) eff option \<Rightarrow> ('w run_world, unit) eff" where
  "callback f w = (case f of None \<Rightarrow> (Inr (), w) | Some g \<Rightarrow> lift_eff g w)"

definition reconcile_step ::
  "clock \<Rightarrow> 'w lifecycle_opts \<Rightarrow> mission_step list \<Rightarrow> int \<Rightarrow> mission_step \<Rightarrow> 'w edge_action \<Rightarrow> jsv \<Rightarrow> jsv \<Rightarrow>
   'w loop_state \<Rightarrow> 'w run_world \<Rightarrow> 'w loop_exit \<times> 'w run_world" where
  "reconcile_step clk opts sortedSteps startTime s action stateBefore stateAfter ls w =
     (case lift_eff (runReconcileLoop (lo_mission opts) (lo_correlationId opts) (state_object stateAfter)
              (map executed_summary (ls_executed ls))
              (map (\<lambda>s. (stp_stepId s, stp_actionType s)) (drop (length (ls_executed ls)) sortedSteps))) w of
        (Inl err, w1) \<Rightarrow> caught clk opts startTime s action stateBefore err ls w1
      | (Inr rr, w1) \<Rightarrow>
          (case callback (map_option (\<lambda>f. f rr) (lo_onReconcile opts)) w1 of
             (Inl err, w2) \<Rightarrow> caught clk opts startTime s action stateBefore err ls w2
           | (Inr _, w2) \<Rightarrow> after_reconcile clk opts startTime rr ls w2))"

definition run_step ::
  "clock \<Rightarrow> (int \<Rightarrow> iso) \<Rightarrow> 'w registry \<Rightarrow> 'w lifecycle_opts \<Rightarrow> mission_step list \<Rightarrow> int \<Rightarrow> mission_step \<Rightarrow>
   'w loop_state \<Rightarrow> 'w run_world \<Rightarrow> 'w loop_exit \<times> 'w run_world" where
  "run_step clk toIso reg opts sortedSteps startTime s ls w =
     (case getAction reg (stp_actionType s) of
        None \<Rightarrow> (Break_loop (ls\<lparr>ls_failed := Some (unknown_record opts s)\<rparr>), w)
      | Some action \<Rightarrow>
          let ctx = step_context opts s;
              (t1, w1) = date_now clk w;
              before = recordStateBefore (toIso t1) s (VObj [])
          in (case callback (map_option (\<lambda>f. f s ctx) (lo_onActionStart opts)) w1 of
                (Inl err, w2) \<Rightarrow> (Reject err, w2)
              | (Inr _, w2) \<Rightarrow>
                  (case lift_eff (ac_execute action ctx (stepInput s)) w2 of
                     (Inl err, w3) \<Rightarrow> caught clk opts startTime s action (sn_stateBefore before) err ls w3
                   | (Inr result, w3) \<Rightarrow>
                       let (t2, w4) = date_now clk w3;
                           after = recordStateAfter (toIso t2) before (sn_stateBefore before);
                           r = \<lparr>xr_step = s, xr_action = action, xr_ctx = ctx, xr_result = result,
                                xr_stateBefore = sn_stateBefore before, xr_stateAfter = sn_stateAfter after\<rparr>;
                           ls1 = ls\<lparr>ls_executed := ls_executed ls @ [r]\<rparr>
                       in (case callback (map_option (\<lambda>f. f s result ctx) (lo_onActionComplete opts)) w4 of
                             (Inl err, w5) \<Rightarrow> caught clk opts startTime s action (sn_stateBefore before) err ls1 w5
                           | (Inr _, w5) \<Rightarrow>
                               let w6 = auditActionExecuted (lo_auditLedger opts) r w5 in
                               if ar_status result = Act_failure
                               then (Break_loop (ls1\<lparr>ls_failed := Some r\<rparr>), w6)
                               else if md_reconcile (lo_mission opts) = None then (Next_step ls1, w6)
                               else reconcile_step clk opts sortedSteps startTime s action
                                      (sn_stateBefore before) (sn_stateAfter after) ls1 w6))))"

fun run_steps ::
  "clock \<Rightarrow> (int \<Rightarrow> iso) \<Rightarrow> 'w registry \<Rightarrow> 'w lifecycle_opts \<Rightarrow> mission_step list \<Rightarrow> int \<Rightarrow> mission_step list \<Rightarrow>
   'w loop_state \<Rightarrow> 'w run_world \<Rightarrow> 'w loop_exit \<times> 'w run_world" where
  "run_steps clk toIso reg opts sortedSteps startTime [] ls w = (Break_loop ls, w)"
| "run_steps clk toIso reg opts sortedSteps startTime (s # ss) ls w =
     (if ls_compensating ls then (Break_loop ls, w)
      else (case run_step clk toIso reg opts sortedSteps startTime s ls w of
              (Next_step ls', w') \<Rightarrow> run_steps clk toIso reg opts sortedSteps startTime ss ls' w'
            | (exit, w') \<Rightarrow> (exit, w')))"

section \<open>runMission\<close>

text \<open>
  The compensation phase.  The filter's second test, that the record is not the failed one,
  never decides: a failed record's status is failure.  The mission's own limit on the time of
  compensation is not passed on.
\<close>

definition succeeded_actions :: "'w loop_state \<Rightarrow> 'w succeeded_action list" where
  "succeeded_actions ls =
     map (\<lambda>e. \<lparr>su_action = xr_action e, su_actionId = stp_stepId (xr_step e),
                su_input = stepInput (xr_step e), su_output = ar_output (xr_result e)\<rparr>)
       (filter (\<lambda>e. ar_status (xr_result e) = Act_success) (ls_executed ls))"

definition mission_comp_opts :: "'w lifecycle_opts \<Rightarrow> 'w loop_state \<Rightarrow> 'w compensate_opts" where
  "mission_comp_opts opts ls =
     \<lparr>co_missionId = md_id (lo_mission opts), co_correlationId = lo_correlationId opts,
      co_tenantId = lo_tenantId opts, co_succeededActions = succeeded_actions ls, co_maxTimeMs = None\<rparr>"

definition compensated_status :: "overall_status \<Rightarrow> mission_status" where
  "compensated_status s = (case s of Os_compensated \<Rightarrow> Ms_compensated
     | Os_compensated_partial \<Rightarrow> Ms_compensated_partial | Os_failed \<Rightarrow> Ms_failure)"

definition failed_error :: "'w loop_state \<Rightarrow> string option" where
  "failed_error ls = Option.bind (ls_failed ls) (\<lambda>r. ar_error (xr_result r))"

definition compensation_phase ::
  "clock \<Rightarrow> 'w lifecycle_opts \<Rightarrow> int \<Rightarrow> 'w loop_state \<Rightarrow> ('w run_world, 'w mission_result) eff" where
  "compensation_phase clk opts startTime ls w =
     (let (report, w1) = runCompensation clk (mission_comp_opts opts ls) w in
      case callback (map_option (\<lambda>f. f report) (lo_onCompensation opts)) w1 of
        (Inl err, w2) \<Rightarrow> (Inl err, w2)
      | (Inr _, w2) \<Rightarrow>
          let w3 = fold (\<lambda>r. auditCompensationExecuted (lo_auditLedger opts) (lo_tenantId opts)
                        (md_id (lo_mission opts)) (lo_correlationId opts) (cr_actionId r))
                     (rp_records report) w2;
              (t, w4) = date_now clk w3
          in (Inr (mission_result_of opts (compensated_status (rp_overallStatus report)) ls (Some report) None
                    (t - startTime) (failed_error ls)), w4))"

definition normal_completion ::
  "clock \<Rightarrow> 'w lifecycle_opts \<Rightarrow> int \<Rightarrow> 'w loop_state \<Rightarrow> ('w run_world, 'w mission_result) eff" where
  "normal_completion clk opts startTime ls w =
     (let hasFailures = list_ex (\<lambda>e. ar_status (xr_result e) = Act_failure) (ls_executed ls);
          (t, w1) = date_now clk w;
          result = mission_result_of opts (if hasFailures then Ms_failure else Ms_success) ls None None
                     (t - startTime) (failed_error ls)
      in (Inr result, auditMissionExecuted (lo_auditLedger opts) result w1))"

definition finish_mission ::
  "clock \<Rightarrow> 'w lifecycle_opts \<Rightarrow> int \<Rightarrow> 'w loop_state \<Rightarrow> ('w run_world, 'w mission_result) eff" where
  "finish_mission clk opts startTime ls w =
     (if (ls_failed ls \<noteq> None \<or> ls_compensating ls) \<and> succeeded_actions ls \<noteq> []
      then compensation_phase clk opts startTime ls w
      else normal_completion clk opts startTime ls w)"

definition start_state :: "'w loop_state" where
  "start_state = \<lparr>ls_executed = [], ls_failed = None, ls_compensating = False\<rparr>"

definition runMission ::
  "clock \<Rightarrow> (int \<Rightarrow> iso) \<Rightarrow> 'w registry \<Rightarrow> 'w lifecycle_opts \<Rightarrow> ('w run_world, 'w mission_result) eff" where
  "runMission clk toIso reg opts w =
     (let (startTime, w1) = date_now clk w;
          sortedSteps = run_order (mf_steps (lo_manifest opts))
      in (case run_steps clk toIso reg opts sortedSteps startTime sortedSteps start_state w1 of
            (Reject err, w2) \<Rightarrow> (Inl err, w2)
          | (Return_result r, w2) \<Rightarrow> (Inr r, w2)
          | (Break_loop ls, w2) \<Rightarrow> finish_mission clk opts startTime ls w2
          | (Next_step ls, w2) \<Rightarrow> finish_mission clk opts startTime ls w2))"

section \<open>Replay\<close>

record replay_event =
  rv_sequence :: rat
  rv_actionType :: string
  rv_input :: jsv
  rv_expectedOutput :: jsv
  rv_expectedStatus :: jsv
  rv_correlationId :: string

record replay_detail =
  rd_sequence :: rat
  rd_actionType :: string
  rd_input :: jsv
  rd_expectedOutput :: jsv
  rd_expectedStatus :: jsv
  rd_actualOutput :: jsv
  rd_actualStatus :: string
  rd_match :: bool
  rd_error :: "string option"

record replay_result =
  rs_missionId :: string
  rs_totalEvents :: nat
  rs_passed :: nat
  rs_failed :: nat
  rs_details :: "replay_detail list"

definition replay_detail_of :: "replay_event \<Rightarrow> jsv \<Rightarrow> string \<Rightarrow> bool \<Rightarrow> string option \<Rightarrow> replay_detail" where
  "replay_detail_of e out status matches err =
     \<lparr>rd_sequence = rv_sequence e, rd_actionType = rv_actionType e, rd_input = rv_input e,
      rd_expectedOutput = rv_expectedOutput e, rd_expectedStatus = rv_expectedStatus e,
      rd_actualOutput = out, rd_actualStatus = status, rd_match = matches, rd_error = err\<rparr>"

text \<open>The text of an expected status inside a message.\<close>

definition status_template :: "jsv \<Rightarrow> string" where
  "status_template v = (case v of VStr s \<Rightarrow> s | VNull \<Rightarrow> ''null'' | _ \<Rightarrow> ''undefined'')"

definition replay_event_step ::
  "(rat \<Rightarrow> string) \<Rightarrow> 'w registry \<Rightarrow> string \<Rightarrow> replay_event \<Rightarrow> 'w \<Rightarrow> replay_detail \<times> 'w" where
  "replay_event_step num reg missionName e x =
     (case getAction reg (rv_actionType e) of
        None \<Rightarrow> (replay_detail_of e VNull ''error'' False (Some (''Unknown action type: '' @ rv_actionType e)), x)
      | Some action \<Rightarrow>
          (case ac_execute action
                  \<lparr>ax_correlationId = rv_correlationId e, ax_tenantId = ''replay'', ax_missionId = missionName,
                   ax_actionId = ''replay-'' @ num (rv_sequence e)\<rparr> (rv_input e) x of
             (Inl err, x') \<Rightarrow> (replay_detail_of e VNull ''error'' False (Some err), x')
           | (Inr result, x') \<Rightarrow>
               let matches = (VStr (status_text (ar_status result)) = rv_expectedStatus e
                              \<and> json_text num (ar_output result) = json_text num (rv_expectedOutput e))
               in (replay_detail_of e (ar_output result) (status_text (ar_status result)) matches
                     (if matches then None
                      else Some (''Expected '' @ status_template (rv_expectedStatus e) @ '', got ''
                             @ status_text (ar_status result))), x')))"

fun replay_events ::
  "(rat \<Rightarrow> string) \<Rightarrow> 'w registry \<Rightarrow> string \<Rightarrow> replay_event list \<Rightarrow> 'w \<Rightarrow> replay_detail list \<times> 'w" where
  "replay_events num reg missionName [] x = ([], x)"
| "replay_events num reg missionName (e # es) x =
     (let (d, x1) = replay_event_step num reg missionName e x;
          (ds, x2) = replay_events num reg missionName es x1
      in (d # ds, x2))"

definition replayMission ::
  "(rat \<Rightarrow> string) \<Rightarrow> 'w registry \<Rightarrow> string \<Rightarrow> replay_event list \<Rightarrow> 'w \<Rightarrow> replay_result \<times> 'w" where
  "replayMission num reg missionName events x =
     (let (details, x') = replay_events num reg missionName events x in
      (\<lparr>rs_missionId = missionName, rs_totalEvents = length events,
        rs_passed = length (filter rd_match details), rs_failed = length (filter (\<lambda>d. \<not> rd_match d) details),
        rs_details = details\<rparr>, x'))"

section \<open>Dry run\<close>

record dry_action_report =
  da_type :: string
  da_input :: jsv
  da_expectedOutputType :: string
  da_sideEffects :: "string list"
  da_idempotent :: bool
  da_hasCompensation :: bool
  da_estimatedDurationMs :: "rat option"

record dry_run_report =
  dr_missionId :: string
  dr_valid :: bool
  dr_actions :: "dry_action_report list"
  dr_warnings :: "string list"
  dr_errors :: "string list"
  dr_estimatedTotalDurationMs :: rat

definition has_reverse :: "string \<Rightarrow> bool" where
  "has_reverse t \<longleftrightarrow> (case map_of REVERSE_ACTION_MAP t of Some r \<Rightarrow> r \<noteq> [] | None \<Rightarrow> False)"

text \<open>The report of one step, with its warning, its error and its share of the estimate.\<close>

definition dry_run_step ::
  "'w registry \<Rightarrow> mission_step \<Rightarrow> string + dry_action_report \<times> string list \<times> string list \<times> rat" where
  "dry_run_step reg s =
     (case getAction reg (stp_actionType s) of
        None \<Rightarrow>
          Inr (\<lparr>da_type = stp_actionType s, da_input = stepInput s, da_expectedOutputType = ''unknown'',
                da_sideEffects = [''unknown''], da_idempotent = False,
                da_hasCompensation = has_reverse (stp_actionType s), da_estimatedDurationMs = None\<rparr>,
               [], [''Unknown action type: '' @ stp_actionType s], 0)
      | Some action \<Rightarrow>
          (let hasComp = (ac_compensate action \<noteq> None \<or> has_reverse (ac_type action)) in
           case ac_dryRun action of
             Some f \<Rightarrow>
               (case f (stepInput s) (VObj []) of
                  Inl err \<Rightarrow> Inl err
                | Inr dry \<Rightarrow>
                    Inr (\<lparr>da_type = ac_type action, da_input = stepInput s,
                          da_expectedOutputType = dry_expectedOutputType dry,
                          da_sideEffects = dry_sideEffects dry, da_idempotent = dry_idempotent dry,
                          da_hasCompensation = hasComp, da_estimatedDurationMs = dry_estimatedDurationMs dry\<rparr>,
                         [], [], (case dry_estimatedDurationMs dry of Some d \<Rightarrow> d | None \<Rightarrow> 100)))
           | None \<Rightarrow>
               Inr (\<lparr>da_type = ac_type action, da_input = stepInput s, da_expectedOutputType = ''unknown'',
                     da_sideEffects = [''unknown''], da_idempotent = False, da_hasCompensation = hasComp,
                     da_estimatedDurationMs = None\<rparr>,
                    [''Action '' @ [CHR 0x27] @ ac_type action @ [CHR 0x27]
                     @ '' has no dryRun() function - side effects unknown''], [], 100)))"

fun dry_run_steps ::
  "'w registry \<Rightarrow> mission_step list \<Rightarrow> string + dry_action_report list \<times> string list \<times> string list \<times> rat" where
  "dry_run_steps reg [] = Inr ([], [], [], 0)"
| "dry_run_steps reg (s # ss) =
     (case dry_run_step reg s of
        Inl err \<Rightarrow> Inl err
      | Inr (a, ws, es, ms) \<Rightarrow>
          (case dry_run_steps reg ss of
             Inl err \<Rightarrow> Inl err
           | Inr (as, ws', es', ms') \<Rightarrow> Inr (a # as, ws @ ws', es @ es', ms + ms')))"

definition dryRunMission ::
  "'w registry \<Rightarrow> 'w mission_definition \<Rightarrow> mission_manifest \<Rightarrow> string + dry_run_report" where
  "dryRunMission reg mission manifest =
     (case dry_run_steps reg (mf_steps manifest) of
        Inl err \<Rightarrow> Inl err
      | Inr (actions, warnings, errors, ms) \<Rightarrow>
          let errors = errors @ (if lifecycle_hasDependencyCycle (mf_steps manifest)
                                 then [''Mission steps have a dependency cycle''] else [])
          in Inr \<lparr>dr_missionId = md_id mission, dr_valid = (errors = []), dr_actions = actions,
                  dr_warnings = warnings, dr_errors = errors, dr_estimatedTotalDurationMs = ms\<rparr>)"

section \<open>A mission without reconciliation and callbacks\<close>

definition plain_opts :: "'w lifecycle_opts \<Rightarrow> bool" where
  "plain_opts opts \<longleftrightarrow>
     md_reconcile (lo_mission opts) = None \<and> lo_onActionStart opts = None \<and> lo_onActionComplete opts = None
     \<and> lo_onCompensation opts = None \<and> lo_onReconcile opts = None"

text \<open>
  An action is reversible when an execution that does not succeed leaves the world as it was,
  and one that succeeds is undone by its compensation, or changed nothing when it has none.
\<close>

definition reversible :: "'w edge_action \<Rightarrow> bool" where
  "reversible a \<longleftrightarrow>
     (\<forall>ctx input x.
        case ac_execute a ctx input x of
          (Inl err, x') \<Rightarrow> x' = x
        | (Inr r, x') \<Rightarrow>
            (if ar_status r = Act_success
             then (case ac_compensate a of Some f \<Rightarrow> snd (f ctx input (ar_output r) x') = x | None \<Rightarrow> x' = x)
             else x' = x))"

lemma reversibleD:
  assumes "reversible a" and "ac_execute a ctx input x = (res, x')"
  shows "case res of
      Inl err \<Rightarrow> x' = x
    | Inr r \<Rightarrow>
        (if ar_status r = Act_success
         then (case ac_compensate a of Some f \<Rightarrow> snd (f ctx input (ar_output r) x') = x | None \<Rightarrow> x' = x)
         else x' = x)"
proof -
  have "case ac_execute a ctx input x of
          (Inl err, x') \<Rightarrow> x' = x
        | (Inr r, x') \<Rightarrow>
            (if ar_status r = Act_success
             then (case ac_compensate a of Some f \<Rightarrow> snd (f ctx input (ar_output r) x') = x | None \<Rightarrow> x' = x)
             else x' = x)"
    using assms(1) unfolding reversible_def by (elim allE)
  with assms(2) show ?thesis by (cases res) simp_all
qed

lemma appendToAuditLedger_ext [simp]: "rw_ext (appendToAuditLedger b e w) = rw_ext w"
  by (simp add: appendToAuditLedger_def)

lemma audit_ext [simp]:
  "rw_ext (auditActionExecuted b r w) = rw_ext w"
  "rw_ext (auditMissionExecuted b m w) = rw_ext w"
  "rw_ext (auditCompensationExecuted b t i c k w) = rw_ext w"
  by (simp_all add: auditActionExecuted_def auditMissionExecuted_def auditCompensationExecuted_def)

lemma audit_fold_ext [simp]:
  "rw_ext (fold (\<lambda>r. auditCompensationExecuted b t m c (f r)) rs w) = rw_ext w"
  by (induction rs arbitrary: w) simp_all

lemma callback_None [simp]: "callback None w = (Inr (), w)"
  by (simp add: callback_def)

text \<open>What undoing the succeeded actions of a state would make of a world.\<close>

definition undo_all :: "'w lifecycle_opts \<Rightarrow> 'w loop_state \<Rightarrow> 'w \<Rightarrow> 'w" where
  "undo_all opts ls x = fold (comp_undo (mission_comp_opts opts start_state)) (rev (succeeded_actions ls)) x"

lemma comp_undo_opts: "comp_undo (mission_comp_opts opts ls) = comp_undo (mission_comp_opts opts ls')"
  by (rule ext)+ (simp add: comp_undo_def comp_context_def mission_comp_opts_def split: option.split)

lemma succeeded_actions_cong: "ls_executed ls = ls_executed ls' \<Longrightarrow> succeeded_actions ls = succeeded_actions ls'"
  by (simp add: succeeded_actions_def)

lemma undo_all_snoc:
  assumes "ls_executed ls' = ls_executed ls @ [e]"
  shows "undo_all opts ls' x =
    undo_all opts ls (if ar_status (xr_result e) = Act_success
      then comp_undo (mission_comp_opts opts start_state)
             \<lparr>su_action = xr_action e, su_actionId = stp_stepId (xr_step e),
              su_input = stepInput (xr_step e), su_output = ar_output (xr_result e)\<rparr> x
      else x)"
  by (simp add: undo_all_def succeeded_actions_def assms)

text \<open>One step of a plain mission, on every branch.\<close>

lemma run_step_plain:
  assumes plain: "plain_opts opts" and rev: "\<And>a. a \<in> snd ` set reg \<Longrightarrow> reversible a"
    and none: "ls_failed ls = None"
  shows "\<exists>ls' w' es. run_step clk toIso reg opts order t s ls w =
      ((if ls_failed ls' = None then Next_step ls' else Break_loop ls'), w')
    \<and> ls_executed ls' = ls_executed ls @ es \<and> ls_compensating ls' = ls_compensating ls
    \<and> undo_all opts ls' (rw_ext w') = undo_all opts ls (rw_ext w)
    \<and> list_all (\<lambda>e. xr_step e = s) es
    \<and> (case ls_failed ls' of
          None \<Rightarrow> length es = 1 \<and> list_all (\<lambda>e. ar_status (xr_result e) \<noteq> Act_failure) es
        | Some r \<Rightarrow> xr_step r = s \<and> ar_status (xr_result r) = Act_failure \<and> es \<in> {[], [r]})"
proof (cases "getAction reg (stp_actionType s)")
  case None
  then show ?thesis
    by (intro exI [of _ "ls\<lparr>ls_failed := Some (unknown_record opts s)\<rparr>"] exI [of _ w] exI [of _ "[]"])
      (simp add: run_step_def undo_all_def succeeded_actions_def unknown_record_def)
next
  case (Some action)
  then have "action \<in> snd ` set reg" by (force simp: getAction_def dest: map_of_SomeD)
  from rev [OF this] have act: "reversible action" .
  let ?ctx = "step_context opts s"
  let ?w1 = "snd (date_now clk w)"
  obtain res x where ex: "ac_execute action ?ctx (stepInput s) (rw_ext w) = (res, x)" by fastforce
  show ?thesis
  proof (cases res)
    case (Inl err)
    define r where "r = \<lparr>xr_step = s, xr_action = action, xr_ctx = ?ctx,
               xr_result = \<lparr>ar_status = Act_failure, ar_output = VNull, ar_error = Some err,
                 ar_durationMs = clk (rw_tick (?w1\<lparr>rw_ext := x\<rparr>)) - t\<rparr>,
               xr_stateBefore = VObj [], xr_stateAfter = VNull\<rparr>"
    let ?ls = "ls\<lparr>ls_executed := ls_executed ls @ [r], ls_failed := Some r\<rparr>"
    have "x = rw_ext w" using reversibleD [OF act ex] Inl by simp
    moreover have "run_step clk toIso reg opts order t s ls w = (Break_loop ?ls, snd (date_now clk (?w1\<lparr>rw_ext := x\<rparr>)))"
      using Some plain ex Inl
      by (simp add: run_step_def plain_opts_def lift_eff_def caught_def recordStateBefore_def Let_def split_def r_def)
    moreover have "undo_all opts ?ls y = undo_all opts ls y" for y
      by (simp add: undo_all_def succeeded_actions_def r_def)
    ultimately show ?thesis
      by (intro exI [of _ ?ls] exI [of _ "snd (date_now clk (?w1\<lparr>rw_ext := x\<rparr>))"] exI [of _ "[r]"]) (simp add: r_def)
  next
    case (Inr result)
    define r where "r = \<lparr>xr_step = s, xr_action = action, xr_ctx = ?ctx, xr_result = result,
               xr_stateBefore = VObj [], xr_stateAfter = VObj []\<rparr>"
    let ?ls = "ls\<lparr>ls_executed := ls_executed ls @ [r],
                 ls_failed := (if ar_status result = Act_failure then Some r else None)\<rparr>"
    let ?w = "auditActionExecuted (lo_auditLedger opts) r (snd (date_now clk (?w1\<lparr>rw_ext := x\<rparr>)))"
    have "run_step clk toIso reg opts order t s ls w =
        ((if ar_status result = Act_failure then Break_loop ?ls else Next_step ?ls), ?w)"
      using Some plain ex Inr none
      by (auto simp: run_step_def plain_opts_def lift_eff_def recordStateBefore_def recordStateAfter_def
          Let_def split_def r_def)
    moreover have "undo_all opts ?ls x = undo_all opts ls (rw_ext w)"
    proof -
      have "?ctx = comp_context (mission_comp_opts opts start_state)
          \<lparr>su_action = action, su_actionId = stp_stepId s, su_input = stepInput s, su_output = ar_output result\<rparr>"
        by (simp add: step_context_def comp_context_def mission_comp_opts_def)
      with reversibleD [OF act ex] Inr show ?thesis
        by (subst undo_all_snoc [of ?ls ls r]) (auto simp: r_def comp_undo_def split: option.splits if_splits)
    qed
    ultimately show ?thesis
      by (intro exI [of _ ?ls] exI [of _ ?w] exI [of _ "[r]"]) (simp add: r_def)
  qed
qed

lemma run_steps_plain:
  assumes plain: "plain_opts opts" and rev: "\<And>a. a \<in> snd ` set reg \<Longrightarrow> reversible a"
  shows "ls_failed ls = None \<Longrightarrow> \<not> ls_compensating ls \<Longrightarrow>
    \<exists>ls' w' es. run_steps clk toIso reg opts order t ss ls w = (Break_loop ls', w')
    \<and> ls_executed ls' = ls_executed ls @ es \<and> \<not> ls_compensating ls'
    \<and> undo_all opts ls' (rw_ext w') = undo_all opts ls (rw_ext w)
    \<and> map xr_step es = take (length es) ss
    \<and> (case ls_failed ls' of
          None \<Rightarrow> length es = length ss \<and> list_all (\<lambda>e. ar_status (xr_result e) \<noteq> Act_failure) es
        | Some r \<Rightarrow> ar_status (xr_result r) = Act_failure
            \<and> (\<exists>k < length ss. xr_step r = ss ! k \<and> length es \<in> {k, Suc k}))"
proof (induction ss arbitrary: ls w)
  case (Cons s ss)
  from run_step_plain [OF plain rev Cons.prems(1), where reg = reg and clk = clk and toIso = toIso and order = order and t = t and s = s and w = w]
  obtain ls1 w1 es1 where step: "run_step clk toIso reg opts order t s ls w =
        ((if ls_failed ls1 = None then Next_step ls1 else Break_loop ls1), w1)"
      "ls_executed ls1 = ls_executed ls @ es1" "ls_compensating ls1 = ls_compensating ls"
      "undo_all opts ls1 (rw_ext w1) = undo_all opts ls (rw_ext w)" "list_all (\<lambda>e. xr_step e = s) es1"
    and fail: "case ls_failed ls1 of
          None \<Rightarrow> length es1 = 1 \<and> list_all (\<lambda>e. ar_status (xr_result e) \<noteq> Act_failure) es1
        | Some r \<Rightarrow> xr_step r = s \<and> ar_status (xr_result r) = Act_failure \<and> es1 \<in> {[], [r]}" by blast
  show ?case
  proof (cases "ls_failed ls1")
    case None
    then obtain e where es1: "es1 = [e]" using fail by (auto simp: length_Suc_conv)
    from Cons.IH [of ls1 w1] None step(3) Cons.prems(2)
    obtain ls' w' es where IH: "run_steps clk toIso reg opts order t ss ls1 w1 = (Break_loop ls', w')"
      "ls_executed ls' = ls_executed ls1 @ es" "\<not> ls_compensating ls'"
      "undo_all opts ls' (rw_ext w') = undo_all opts ls1 (rw_ext w1)" "map xr_step es = take (length es) ss"
      and tail: "case ls_failed ls' of
          None \<Rightarrow> length es = length ss \<and> list_all (\<lambda>e. ar_status (xr_result e) \<noteq> Act_failure) es
        | Some r \<Rightarrow> ar_status (xr_result r) = Act_failure
            \<and> (\<exists>k < length ss. xr_step r = ss ! k \<and> length es \<in> {k, Suc k})" by auto
    have "case ls_failed ls' of
          None \<Rightarrow> length (e # es) = length (s # ss) \<and> list_all (\<lambda>e. ar_status (xr_result e) \<noteq> Act_failure) (e # es)
        | Some r \<Rightarrow> ar_status (xr_result r) = Act_failure
            \<and> (\<exists>k < length (s # ss). xr_step r = (s # ss) ! k \<and> length (e # es) \<in> {k, Suc k})"
    proof (cases "ls_failed ls'")
      case (Some r)
      with tail obtain k where "k < length ss" "xr_step r = ss ! k" "length es \<in> {k, Suc k}" by auto
      then have "Suc k < length (s # ss)" "xr_step r = (s # ss) ! Suc k" "length (e # es) \<in> {Suc k, Suc (Suc k)}"
        by auto
      then have "\<exists>k < length (s # ss). xr_step r = (s # ss) ! k \<and> length (e # es) \<in> {k, Suc k}" by blast
      with Some tail show ?thesis by simp
    qed (use tail fail None es1 in simp)
    with IH step None es1 Cons.prems(2) show ?thesis
      by (intro exI [of _ ls'] exI [of _ w'] exI [of _ "e # es"]) simp
  next
    case (Some r)
    with fail step Cons.prems(2) show ?thesis
      by (intro exI [of _ ls1] exI [of _ w1] exI [of _ es1]) (auto intro!: exI [of _ 0])
  qed
qed simp

text \<open>The phase after the loop.\<close>

lemma compensation_phase_plain:
  assumes "plain_opts opts" and "\<And>t t'. clk t < clk t' + 30000"
  shows "\<exists>r w'. compensation_phase clk opts start ls w = (Inr r, w')
    \<and> mr_executedActions r = ls_executed ls \<and> mr_failedAction r = ls_failed ls \<and> mr_error r = failed_error ls
    \<and> rw_ext w' = undo_all opts ls (rw_ext w)"
proof -
  have "within_deadline clk (case co_maxTimeMs (mission_comp_opts opts ls) of Some m \<Rightarrow> m | None \<Rightarrow> 30000) w"
    using assms(2) by (simp add: within_deadline_def mission_comp_opts_def)
  from runCompensation_in_time [OF this]
  have ext: "rw_ext (snd (runCompensation clk (mission_comp_opts opts ls) w)) = undo_all opts ls (rw_ext w)"
    by (simp add: undo_all_def comp_undo_opts [of opts ls start_state]) (simp add: mission_comp_opts_def)
  show ?thesis
    using assms(1) ext
    by (simp add: compensation_phase_def plain_opts_def Let_def split_def mission_result_of_def)
qed

lemma finish_mission_plain:
  assumes "plain_opts opts" and "\<And>t t'. clk t < clk t' + 30000" and "\<not> ls_compensating ls"
  shows "\<exists>r w'. finish_mission clk opts start ls w = (Inr r, w')
    \<and> mr_executedActions r = ls_executed ls \<and> mr_failedAction r = ls_failed ls \<and> mr_error r = failed_error ls
    \<and> (case ls_failed ls of
          None \<Rightarrow> rw_ext w' = rw_ext w
            \<and> mr_status r = (if list_ex (\<lambda>e. ar_status (xr_result e) = Act_failure) (ls_executed ls)
                            then Ms_failure else Ms_success)
        | Some _ \<Rightarrow> rw_ext w' = undo_all opts ls (rw_ext w))"
proof (cases "ls_failed ls \<noteq> None \<and> succeeded_actions ls \<noteq> []")
  case True
  with compensation_phase_plain [where clk = clk and start = start and ls = ls and w = w, OF assms(1,2)] show ?thesis
    by (auto simp: finish_mission_def)
next
  case False
  then have "ls_failed ls \<noteq> None \<Longrightarrow> undo_all opts ls (rw_ext w) = rw_ext w" by (simp add: undo_all_def)
  with False assms(3) show ?thesis
    by (auto simp: finish_mission_def normal_completion_def mission_result_of_def Let_def split_def split: option.split)
qed

text \<open>C6: A mission without a reconcile function and callbacks, all of whose registered actions are
  reversible, is all or nothing as long as its clock readings stay within thirty seconds.
  Either no step fails: then every step of the manifest has been executed, in the run's order,
  and the status is success.  Or a step fails, throws or has an unknown type: then the steps
  after it have not been started, and the world is as it was before the mission.
\<close>

theorem mission_all_or_nothing:
  assumes "plain_opts opts" and "\<And>a. a \<in> snd ` set reg \<Longrightarrow> reversible a"
    and "\<And>t t'. clk t < clk t' + 30000"
  shows "\<exists>r w'. runMission clk toIso reg opts w = (Inr r, w')
    \<and> (case mr_failedAction r of
          None \<Rightarrow> mr_status r = Ms_success
            \<and> map xr_step (mr_executedActions r) = run_order (mf_steps (lo_manifest opts))
        | Some f \<Rightarrow> rw_ext w' = rw_ext w \<and> ar_status (xr_result f) = Act_failure
            \<and> mr_error r = ar_error (xr_result f)
            \<and> (\<exists>k < length (mf_steps (lo_manifest opts)).
                 xr_step f = run_order (mf_steps (lo_manifest opts)) ! k
                 \<and> length (mr_executedActions r) \<in> {k, Suc k}
                 \<and> map xr_step (mr_executedActions r)
                   = take (length (mr_executedActions r)) (run_order (mf_steps (lo_manifest opts)))))"
proof -
  let ?order = "run_order (mf_steps (lo_manifest opts))"
  let ?w1 = "snd (date_now clk w)" and ?t = "clk (rw_tick w)"
  from run_steps_plain [OF assms(1,2), where reg = reg and ls = start_state and clk = clk and toIso = toIso and order = ?order and t = ?t and ss = ?order and w = ?w1]
  obtain ls w2 where run: "run_steps clk toIso reg opts ?order ?t ?order start_state ?w1 = (Break_loop ls, w2)"
    and comp: "\<not> ls_compensating ls" and undo: "undo_all opts ls (rw_ext w2) = undo_all opts start_state (rw_ext w)"
    and steps: "map xr_step (ls_executed ls) = take (length (ls_executed ls)) ?order"
    and fail: "case ls_failed ls of
          None \<Rightarrow> length (ls_executed ls) = length ?order
            \<and> list_all (\<lambda>e. ar_status (xr_result e) \<noteq> Act_failure) (ls_executed ls)
        | Some r \<Rightarrow> ar_status (xr_result r) = Act_failure
            \<and> (\<exists>k < length ?order. xr_step r = ?order ! k \<and> length (ls_executed ls) \<in> {k, Suc k})"
    by (auto simp: start_state_def)
  have "undo_all opts start_state x = x" for x by (simp add: undo_all_def succeeded_actions_def start_state_def)
  with undo have undo: "undo_all opts ls (rw_ext w2) = rw_ext w" by simp
  from finish_mission_plain [where clk = clk and start = ?t and w = w2, OF assms(1,3) comp]
  obtain r w' where fin: "finish_mission clk opts ?t ls w2 = (Inr r, w')"
    "mr_executedActions r = ls_executed ls" "mr_failedAction r = ls_failed ls" "mr_error r = failed_error ls"
    "case ls_failed ls of
          None \<Rightarrow> rw_ext w' = rw_ext w2
            \<and> mr_status r = (if list_ex (\<lambda>e. ar_status (xr_result e) = Act_failure) (ls_executed ls)
                            then Ms_failure else Ms_success)
        | Some _ \<Rightarrow> rw_ext w' = undo_all opts ls (rw_ext w2)" by blast
  have result: "runMission clk toIso reg opts w = (Inr r, w')"
    using run fin(1) by (simp add: runMission_def Let_def split_def)
  show ?thesis
  proof (cases "ls_failed ls")
    case None
    with fail fin steps result show ?thesis
      by (intro exI [of _ r] exI [of _ w']) (auto simp: list_all_iff list_ex_iff)
  next
    case (Some f)
    with fail fin steps result undo show ?thesis
      by (intro exI [of _ r] exI [of _ w']) (auto simp: failed_error_def run_order_def)
  qed
qed

text \<open>A mission over the counter world: the second step has a type nobody registered.\<close>

definition example_opts :: "mission_step list \<Rightarrow> int lifecycle_opts" where
  "example_opts steps =
     \<lparr>lo_mission = \<lparr>md_id = ''m'', md_name = ''m'', md_desiredState = [], md_actions = [], md_reconcile = None,
        md_driftThreshold = None, md_maxIterations = None, md_maxCompensationTimeMs = None, md_gogo = None\<rparr>,
      lo_manifest = example_manifest\<lparr>mf_steps := steps\<rparr>, lo_correlationId = ''c'', lo_tenantId = ''t'',
      lo_auditLedger = False, lo_onActionStart = None, lo_onActionComplete = None,
      lo_onCompensation = None, lo_onReconcile = None\<rparr>"

definition typed_step :: "string \<Rightarrow> string \<Rightarrow> mission_step" where
  "typed_step i t = (example_step i [])\<lparr>stp_actionType := t\<rparr>"

lemma counter_reversible: "reversible (counter_action t k)"
  by (simp add: reversible_def counter_action_def)

lemma mission_all_or_nothing_witness:
  "\<exists>r w'. runMission (\<lambda>_. 0) (\<lambda>_. []) [(''up'', counter_action ''up'' 2)]
      (example_opts [typed_step ''a'' ''up'', typed_step ''b'' ''gone''])
      \<lparr>rw_tick = 0, rw_audit = [], rw_ext = 7\<rparr> = (Inr r, w')
    \<and> (if mr_failedAction r = None then mr_status r = Ms_success else rw_ext w' = 7)"
proof -
  have plain: "plain_opts (example_opts [typed_step ''a'' ''up'', typed_step ''b'' ''gone''])"
    by (simp add: plain_opts_def example_opts_def)
  obtain r w' where run: "runMission (\<lambda>_. 0) (\<lambda>_. []) [(''up'', counter_action ''up'' 2)]
      (example_opts [typed_step ''a'' ''up'', typed_step ''b'' ''gone''])
      \<lparr>rw_tick = 0, rw_audit = [], rw_ext = 7\<rparr> = (Inr r, w')"
    and outcome: "case mr_failedAction r of None \<Rightarrow> mr_status r = Ms_success | Some f \<Rightarrow> rw_ext w' = 7"
    using mission_all_or_nothing [where reg = "[(''up'', counter_action ''up'' 2)]" and clk = "\<lambda>_. 0"
        and toIso = "\<lambda>_. []" and w = "\<lparr>rw_tick = 0, rw_audit = [], rw_ext = 7\<rparr>", OF plain]
    by (auto simp: counter_reversible split: option.splits)
  show ?thesis
    by (intro exI [of _ r] exI [of _ w'] conjI run) (use outcome in \<open>simp split: option.splits\<close>)
qed

section \<open>A step of unknown type\<close>

lemma run_step_unknown:
  "getAction reg (stp_actionType s) = None \<Longrightarrow>
   run_step clk toIso reg opts order t s ls w = (Break_loop (ls\<lparr>ls_failed := Some (unknown_record opts s)\<rparr>), w)"
  by (simp add: run_step_def)

lemma dry_run_steps_errors:
  "dry_run_steps reg ss = Inr (as, ws, es, ms) \<Longrightarrow>
     es = map (\<lambda>s. ''Unknown action type: '' @ stp_actionType s)
            (filter (\<lambda>s. getAction reg (stp_actionType s) = None) ss)
     \<and> length as = length ss"
proof (induction ss arbitrary: as ws es ms)
  case (Cons s ss)
  then show ?case
    by (auto simp: dry_run_step_def Let_def split: option.splits sum.splits prod.splits)
qed simp

text \<open>C40: A mission whose first step, in the run's order, has a type that is not registered reports
  success: nothing is executed or compensated, and only the error message tells.  The dry run
  of the same manifest finds it invalid.
\<close>

theorem unknown_action_reports_success:
  assumes "run_order (mf_steps (lo_manifest opts)) = s # ss" and "getAction reg (stp_actionType s) = None"
  shows "\<exists>r w'. runMission clk toIso reg opts w = (Inr r, w')
    \<and> mr_status r = Ms_success \<and> mr_executedActions r = [] \<and> mr_compensationReport r = None
    \<and> mr_error r = Some (''Unknown action type: '' @ stp_actionType s)
    \<and> rw_ext w' = rw_ext w
    \<and> (case dryRunMission reg m (lo_manifest opts) of Inl err \<Rightarrow> True | Inr report \<Rightarrow> \<not> dr_valid report)"
proof -
  have "s \<in> set (mf_steps (lo_manifest opts))"
    using arg_cong [OF assms(1), of set] by (auto simp: run_order_def)
  then have "filter (\<lambda>s. getAction reg (stp_actionType s) = None) (mf_steps (lo_manifest opts)) \<noteq> []"
    using assms(2) by (auto simp: filter_empty_conv)
  then have "case dryRunMission reg m (lo_manifest opts) of Inl err \<Rightarrow> True | Inr report \<Rightarrow> \<not> dr_valid report"
    by (auto simp: dryRunMission_def Let_def dest!: dry_run_steps_errors split: sum.split)
  moreover have "\<exists>r w'. runMission clk toIso reg opts w = (Inr r, w')
    \<and> mr_status r = Ms_success \<and> mr_executedActions r = [] \<and> mr_compensationReport r = None
    \<and> mr_error r = Some (''Unknown action type: '' @ stp_actionType s) \<and> rw_ext w' = rw_ext w"
    using assms by (simp add: runMission_def Let_def split_def run_step_unknown start_state_def finish_mission_def
        succeeded_actions_def normal_completion_def mission_result_of_def failed_error_def unknown_record_def)
  ultimately show ?thesis by blast
qed

lemma unknown_action_reports_success_witness:
  "\<exists>r w'. runMission (\<lambda>_. 0) (\<lambda>_. []) [(''up'', counter_action ''up'' 2)]
      (example_opts [typed_step ''a'' ''payment.initiate'', typed_step ''b'' ''up''])
      \<lparr>rw_tick = 0, rw_audit = [], rw_ext = 7\<rparr> = (Inr r, w')
    \<and> mr_status r = Ms_success \<and> mr_executedActions r = []
    \<and> mr_error r = Some ''Unknown action type: payment.initiate''"
proof -
  have order: "run_order (mf_steps (lo_manifest (example_opts [typed_step ''a'' ''payment.initiate'', typed_step ''b'' ''up''])))
      = [typed_step ''a'' ''payment.initiate'', typed_step ''b'' ''up'']"
    by (simp add: example_opts_def run_order_def js_sort_def typed_step_def example_step_def stp_deps_def)
  obtain r w' where "runMission (\<lambda>_. 0) (\<lambda>_. []) [(''up'', counter_action ''up'' 2)]
      (example_opts [typed_step ''a'' ''payment.initiate'', typed_step ''b'' ''up''])
      \<lparr>rw_tick = 0, rw_audit = [], rw_ext = 7\<rparr> = (Inr r, w')"
    "mr_status r = Ms_success" "mr_executedActions r = []"
    "mr_error r = Some (''Unknown action type: '' @ stp_actionType (typed_step ''a'' ''payment.initiate''))"
    using unknown_action_reports_success [OF order, where m = "lo_mission (example_opts [])" and reg = "[(''up'', counter_action ''up'' 2)]"
        and clk = "\<lambda>_. 0" and toIso = "\<lambda>_. []" and w = "\<lparr>rw_tick = 0, rw_audit = [], rw_ext = 7\<rparr>"]
    by (auto simp: getAction_def typed_step_def)
  then show ?thesis
    by (intro exI [of _ r] exI [of _ w'] conjI) (simp_all add: typed_step_def)
qed

section \<open>A mission with a reconcile function\<close>

definition exit_records :: "'w loop_exit \<Rightarrow> 'w exec_record list" where
  "exit_records e = (case e of Next_step ls \<Rightarrow> ls_executed ls | Break_loop ls \<Rightarrow> ls_executed ls
     | Return_result r \<Rightarrow> mr_executedActions r | Reject m \<Rightarrow> [])"

fun goes_on :: "'w loop_exit \<Rightarrow> bool" where
  "goes_on (Next_step ls) = True"
| "goes_on _ = False"

lemma caught_stops:
  "\<not> goes_on (fst (caught clk opts t s a b err ls w))"
  "map xr_step (exit_records (fst (caught clk opts t s a b err ls w))) = map xr_step (ls_executed ls) @ [s]"
  by (simp_all add: caught_def Let_def split_def exit_records_def)

lemma after_reconcile_stops:
  "\<not> goes_on (fst (after_reconcile clk opts t rr ls w))"
  "exit_records (fst (after_reconcile clk opts t rr ls w)) = ls_executed ls"
  by (simp_all add: after_reconcile_def Let_def split_def exit_records_def mission_result_of_def split: terminated_by.split)

lemma reconcile_step_stops:
  "\<not> goes_on (fst (reconcile_step clk opts order t s a b c ls w))
   \<and> map xr_step (exit_records (fst (reconcile_step clk opts order t s a b c ls w)))
     \<in> {map xr_step (ls_executed ls), map xr_step (ls_executed ls) @ [s]}"
  by (auto simp: reconcile_step_def caught_stops after_reconcile_stops split: prod.split sum.split)

text \<open>The loop is over, and of this step it has recorded nothing, once or twice.\<close>

definition stopped_at :: "mission_step \<Rightarrow> 'w loop_state \<Rightarrow> 'w loop_exit \<Rightarrow> bool" where
  "stopped_at s ls e \<longleftrightarrow> \<not> goes_on e
     \<and> (map xr_step (exit_records e)
          \<in> {map xr_step (ls_executed ls), map xr_step (ls_executed ls) @ [s], map xr_step (ls_executed ls) @ [s, s]}
        \<or> exit_records e = [])"

lemma stopped_at_exits:
  "stopped_at s ls (fst (caught clk opts t s a b err ls w))"
  "xr_step r = s \<Longrightarrow> stopped_at s ls (fst (caught clk opts t s a b err (ls\<lparr>ls_executed := ls_executed ls @ [r]\<rparr>) w))"
  "xr_step r = s \<Longrightarrow>
     stopped_at s ls (fst (reconcile_step clk opts order t s a b c (ls\<lparr>ls_executed := ls_executed ls @ [r]\<rparr>) w))"
  "stopped_at s ls (Reject m)"
  "stopped_at s ls (Break_loop (ls\<lparr>ls_failed := f\<rparr>))"
  "xr_step r = s \<Longrightarrow> stopped_at s ls (Break_loop (ls\<lparr>ls_executed := ls_executed ls @ [r], ls_failed := f\<rparr>))"
  using caught_stops [of clk opts t s a b err ls w]
    caught_stops [of clk opts t s a b err "ls\<lparr>ls_executed := ls_executed ls @ [r]\<rparr>" w]
    reconcile_step_stops [of clk opts order t s a b c "ls\<lparr>ls_executed := ls_executed ls @ [r]\<rparr>" w]
  by (auto simp: stopped_at_def exit_records_def)

lemma run_step_reconciled:
  assumes "md_reconcile (lo_mission opts) \<noteq> None"
  shows "stopped_at s ls (fst (run_step clk toIso reg opts order t s ls w))"
proof -
  obtain f where "md_reconcile (lo_mission opts) = Some f" using assms by blast
  then show ?thesis
    by (simp add: run_step_def Let_def stopped_at_exits split: option.split prod.split sum.split)
qed

lemma finish_mission_records:
  "(case fst (finish_mission clk opts t ls w) of Inl e \<Rightarrow> True | Inr r \<Rightarrow> mr_executedActions r = ls_executed ls)"
  by (auto simp: finish_mission_def compensation_phase_def normal_completion_def mission_result_of_def Let_def split_def
      split: sum.split prod.split)

text \<open>C21: A mission that has a reconcile function executes at most one of its steps, the first of
  the run's order, whatever the function decides: every way the reconcile loop can end, the
  one of \<open>continue\<close> with actions remaining among them, ends the mission.  The step is recorded a
  second time when a callback or the reconcile function throws after it.
\<close>

theorem reconciled_mission_runs_one_step:
  assumes "md_reconcile (lo_mission opts) \<noteq> None"
  shows "case fst (runMission clk toIso reg opts w) of
      Inl err \<Rightarrow> True
    | Inr r \<Rightarrow> length (mr_executedActions r) \<le> 2
        \<and> list_all (\<lambda>e. Some (xr_step e) = List.find (\<lambda>_. True) (run_order (mf_steps (lo_manifest opts))))
            (mr_executedActions r)"
proof (cases "run_order (mf_steps (lo_manifest opts))")
  case Nil
  then show ?thesis
    using finish_mission_records [where clk = clk and opts = opts and t = "clk (rw_tick w)" and ls = start_state
        and w = "snd (date_now clk w)"]
    by (auto simp: runMission_def Let_def split_def start_state_def split: sum.splits)
next
  case (Cons s ss)
  let ?t = "clk (rw_tick w)" and ?w1 = "snd (date_now clk w)"
  obtain e w2 where run: "run_step clk toIso reg opts (s # ss) ?t s start_state ?w1 = (e, w2)" by fastforce
  have "stopped_at s start_state e"
    using run_step_reconciled [OF assms, where clk = clk and toIso = toIso and reg = reg and order = "s # ss"
      and t = ?t and s = s and ls = start_state and w = ?w1] unfolding run fst_conv .
  then have stop: "\<not> goes_on e" and records: "map xr_step (exit_records e) \<in> {[], [s], [s, s]}"
    by (auto simp: start_state_def stopped_at_def)
  have steps: "run_steps clk toIso reg opts (s # ss) ?t (s # ss) start_state ?w1 = (e, w2)"
    using stop run by (cases e) (simp_all add: start_state_def)
  have mission: "runMission clk toIso reg opts w =
      (case e of Reject err \<Rightarrow> (Inl err, w2) | Return_result r \<Rightarrow> (Inr r, w2)
       | Break_loop ls \<Rightarrow> finish_mission clk opts ?t ls w2 | Next_step ls \<Rightarrow> finish_mission clk opts ?t ls w2)"
    using steps by (simp add: runMission_def Let_def split_def Cons del: run_steps.simps split: loop_exit.split)
  have ok: "length xs \<le> 2 \<and> list_all (\<lambda>e. Some (xr_step e) = List.find (\<lambda>_. True) (s # ss)) xs"
    if "map xr_step xs \<in> {[], [s], [s, s]}" for xs :: "'a exec_record list"
  proof -
    have "length (map xr_step xs) \<le> 2" using that by (elim insertE emptyE) (erule ssubst, simp)+
    then have "length xs \<le> 2" by simp
    moreover have "set (map xr_step xs) \<subseteq> {s}" using that by auto
    ultimately show ?thesis by (auto simp: list_all_iff)
  qed
  show ?thesis
  proof (cases e)
    case (Break_loop ls)
    with records ok [of "ls_executed ls"]
      finish_mission_records [where clk = clk and opts = opts and t = ?t and ls = ls and w = w2] Cons mission
    show ?thesis by (simp add: exit_records_def split: sum.splits)
  next
    case (Return_result r)
    with records ok [of "mr_executedActions r"] Cons mission show ?thesis by (simp add: exit_records_def)
  qed (use stop mission in simp_all)
qed

lemma reconciled_mission_runs_one_step_witness:
  "case fst (runMission (\<lambda>_. 0) (\<lambda>_. []) [(''up'', counter_action ''up'' 2)]
      ((example_opts [typed_step ''a'' ''up'', typed_step ''b'' ''up''])
         \<lparr>lo_mission := (lo_mission (example_opts []))\<lparr>md_reconcile := Some defaultReconcile\<rparr>\<rparr>)
      \<lparr>rw_tick = 0, rw_audit = [], rw_ext = 7\<rparr>) of
     Inl err \<Rightarrow> True
   | Inr r \<Rightarrow> length (mr_executedActions r) \<le> 2"
  using reconciled_mission_runs_one_step [of "(example_opts [typed_step ''a'' ''up'', typed_step ''b'' ''up''])
         \<lparr>lo_mission := (lo_mission (example_opts []))\<lparr>md_reconcile := Some defaultReconcile\<rparr>\<rparr>"
      "\<lambda>_. 0" "\<lambda>_. []" "[(''up'', counter_action ''up'' 2)]" "\<lparr>rw_tick = 0, rw_audit = [], rw_ext = 7\<rparr>"]
  by (simp split: sum.splits)

section \<open>Dry run and replay\<close>

text \<open>
  A dry run that returns reports on every step, and finds the mission valid exactly when
  every step's action type is registered and no step depends on itself through declared
  dependencies.
\<close>

theorem dry_run_validity:
  "case dryRunMission reg mission manifest of
     Inl err \<Rightarrow> True
   | Inr report \<Rightarrow>
       length (dr_actions report) = length (mf_steps manifest)
       \<and> (dr_valid report \<longleftrightarrow>
            list_all (\<lambda>s. getAction reg (stp_actionType s) \<noteq> None) (mf_steps manifest)
            \<and> (\<nexists>x. (x, x) \<in> (depends (lifecycle_graph (mf_steps manifest)))\<^sup>+))"
  by (auto simp: dryRunMission_def Let_def filter_empty_conv list_all_iff lifecycle_hasDependencyCycle_iff
      dest!: dry_run_steps_errors split: sum.split)

lemma replay_events_details:
  "fst (replay_events num reg m es x) = ds \<Longrightarrow>
     map rd_sequence ds = map rv_sequence es \<and> map rd_expectedOutput ds = map rv_expectedOutput es
     \<and> list_all (\<lambda>d. rd_match d \<longleftrightarrow> rd_error d = None) ds
     \<and> list_all (\<lambda>d. rd_match d \<longrightarrow> VStr (rd_actualStatus d) = rd_expectedStatus d
                        \<and> json_text num (rd_actualOutput d) = json_text num (rd_expectedOutput d)) ds"
proof (induction es arbitrary: x ds)
  case (Cons e es)
  have head: "rd_sequence d = rv_sequence e \<and> rd_expectedOutput d = rv_expectedOutput e
      \<and> (rd_match d \<longleftrightarrow> rd_error d = None)
      \<and> (rd_match d \<longrightarrow> VStr (rd_actualStatus d) = rd_expectedStatus d
            \<and> json_text num (rd_actualOutput d) = json_text num (rd_expectedOutput d))"
    if "d = fst (replay_event_step num reg m e x)" for d
    using that by (auto simp: replay_event_step_def replay_detail_of_def Let_def split: option.split sum.split prod.split)
  from Cons.prems obtain d ds' where "ds = d # ds'" "d = fst (replay_event_step num reg m e x)"
    "ds' = fst (replay_events num reg m es (snd (replay_event_step num reg m e x)))"
    by (auto simp: Let_def split_def)
  with Cons.IH [OF this(3) [symmetric]] head [of d] show ?case by simp
qed simp

text \<open>
  A replay reports on every event, in order; an event passes exactly when its report carries
  no error, and only when the action's status is the expected one and the two outputs have the
  same JSON text; passed and failed events add up to all.
\<close>

theorem replay_reports_every_event:
  fixes events :: "replay_event list" and num reg missionName x
  defines "res \<equiv> fst (replayMission num reg missionName events x)"
  shows "rs_passed res + rs_failed res = length events \<and> rs_totalEvents res = length events
    \<and> map rd_sequence (rs_details res) = map rv_sequence events
    \<and> rs_passed res = length (filter (\<lambda>d. rd_error d = None) (rs_details res))
    \<and> list_all (\<lambda>d. if rd_match d then VStr (rd_actualStatus d) = rd_expectedStatus d
                        \<and> json_text num (rd_actualOutput d) = json_text num (rd_expectedOutput d) else True)
        (rs_details res)"
proof -
  define ds where "ds = fst (replay_events num reg missionName events x)"
  note details = replay_events_details [OF ds_def [symmetric]]
  have res: "rs_passed res = length (filter rd_match ds)" "rs_failed res = length (filter (\<lambda>d. \<not> rd_match d) ds)"
    "rs_totalEvents res = length events" "rs_details res = ds"
    by (simp_all add: res_def replayMission_def Let_def split_def ds_def)
  have "length ds = length events" using details by (metis length_map)
  moreover have "length (filter rd_match ds) + length (filter (\<lambda>d. \<not> rd_match d) ds) = length ds"
    by (rule sum_length_filter_compl)
  moreover have "filter rd_match ds = filter (\<lambda>d. rd_error d = None) ds"
    using details by (intro filter_cong refl) (simp add: list_all_iff)
  ultimately show ?thesis using details unfolding res by (simp add: list_all_iff)
qed

end
