(* ===== verification/AuditLedger.thy ===== *)
theory AuditLedger
  imports JsonText Sorting "HOL-Library.Sublist"
begin

text \<open>
  The audit ledger (\<open>apps/edge-runtime/src/objects/AuditLedger.ts\<close>): one Durable Object per
  tenant whose storage holds the event streams, their sequence counters and last hashes, the
  anchors and the idempotency records.  The storage is the one map of the object, from the texts
  the code builds to values of any of these kinds, so the keys can meet: the stream of the session
  \<open>x:seq\<close> and the counter of the session \<open>x\<close> have the same key.  A handler that finds a value of
  another kind where JavaScript would go on with it converted to a text returns \<open>None\<close>, which
  is beyond the model; where it would throw, the answer is the one of the handler's \<open>catch\<close>.
  A request brings the parsed body, with its fields of the types the code casts them to, and what
  the platform supplies while it is handled: the month, the time and a fresh id.  The digest is a
  parameter; JSON text is that of \<open>JsonText\<close>.  The live event stream (\<open>handleStream\<close> and the
  frame an append pushes to it) and the console are left out.
\<close>

section \<open>Storage\<close>

record audit_envelope =
  en_id :: string
  en_seq :: nat
  en_ts :: rat
  en_version :: nat
  en_tenantId :: string
  en_sessionId :: "string option"
  en_type :: string
  en_actor :: string
  en_hash :: string
  en_data :: jsv

datatype stored =
    SV_stream "audit_envelope list"
  | SV_seq nat
  | SV_hash string
  | SV_anchor nat string rat
  | SV_idempotent string nat

type_synonym ledger_storage = "string \<Rightarrow> stored option"

definition empty_ledger :: ledger_storage where
  "empty_ledger = (\<lambda>_. None)"

text \<open>What \<open>storage.get\<close> gives where one kind of value is expected; \<open>None\<close> is a value of another kind.\<close>

definition get_stream :: "ledger_storage \<Rightarrow> string \<Rightarrow> audit_envelope list option" where
  "get_stream st k = (case st k of None \<Rightarrow> Some [] | Some (SV_stream es) \<Rightarrow> Some es | _ \<Rightarrow> None)"

definition get_seq :: "ledger_storage \<Rightarrow> string \<Rightarrow> nat option" where
  "get_seq st k = (case st k of None \<Rightarrow> Some 0 | Some (SV_seq n) \<Rightarrow> Some n | _ \<Rightarrow> None)"

definition get_hash :: "ledger_storage \<Rightarrow> string \<Rightarrow> string option option" where
  "get_hash st k = (case st k of None \<Rightarrow> Some None | Some (SV_hash h) \<Rightarrow> Some (Some h) | _ \<Rightarrow> None)"

definition get_idempotent :: "ledger_storage \<Rightarrow> string \<Rightarrow> (string \<times> nat) option option" where
  "get_idempotent st k = (case st k of None \<Rightarrow> Some None | Some (SV_idempotent i n) \<Rightarrow> Some (Some (i, n)) | _ \<Rightarrow> None)"

record platform =
  pf_month :: string
  pf_now :: rat
  pf_uuid :: string

record append_body =
  ab_tenantId :: "string option"
  ab_sessionId :: "string option"
  ab_idempotency_key :: "string option"
  ab_type :: "string option"
  ab_action :: "string option"
  ab_actor :: "string option"
  ab_data :: jsv
  ab_metadata :: jsv

text \<open>The operator \<open>||\<close> on optional texts.\<close>

definition or_text :: "string option \<Rightarrow> string option \<Rightarrow> string option" where
  "or_text a b = (case a of Some (c # cs) \<Rightarrow> a | _ \<Rightarrow> b)"

definition given :: "string option \<Rightarrow> bool" where
  "given a \<longleftrightarrow> (case a of Some (c # cs) \<Rightarrow> True | _ \<Rightarrow> False)"

definition MAX_EVENT_SIZE :: nat where
  "MAX_EVENT_SIZE = 10 * 1024"

definition ALLOWED_EVENTS :: "string list" where
  "ALLOWED_EVENTS =
     [''chat_message'', ''field_updated'', ''stage_changed'', ''scoring_completed'', ''document_uploaded'',
      ''automation_executed'', ''ui_config_updated'', ''action_executed'', ''mission_executed'',
      ''compensation_executed'']"

definition ALLOWED_ACTORS :: "string list" where
  "ALLOWED_ACTORS = [''user'', ''system'', ''llm'', ''automation'']"

definition buildStorageKey :: "string \<Rightarrow> string \<Rightarrow> string option \<Rightarrow> string" where
  "buildStorageKey month tenantId sessionId =
     (case sessionId of
        Some (c # cs) \<Rightarrow> ''audit:'' @ tenantId @ '':'' @ c # cs
      | _ \<Rightarrow> ''audit:'' @ tenantId @ '':system:'' @ month)"

definition seqKey :: "string \<Rightarrow> string" where
  "seqKey storageKey = storageKey @ '':seq''"

definition hashKey :: "string \<Rightarrow> string" where
  "hashKey storageKey = storageKey @ '':lasthash''"

definition anchorKey :: "string \<Rightarrow> nat \<Rightarrow> string" where
  "anchorKey storageKey seq = storageKey @ '':anchor:'' @ nat_text seq"

definition idempotentKey :: "string \<Rightarrow> string" where
  "idempotentKey k = ''idempotent:'' @ k"

section \<open>The text an entry's hash covers\<close>

definition prehash_json :: "audit_envelope \<Rightarrow> obj" where
  "prehash_json e =
     [(''id'', VStr (en_id e)), (''seq'', VNum (of_nat (en_seq e))), (''ts'', VNum (en_ts e)),
      (''version'', VNum (of_nat (en_version e))), (''tenantId'', VStr (en_tenantId e)),
      (''sessionId'', (case en_sessionId e of Some s \<Rightarrow> VStr s | None \<Rightarrow> VUndef)),
      (''type'', VStr (en_type e)), (''actor'', VStr (en_actor e)), (''data'', en_data e)]"

definition envelope_json :: "audit_envelope \<Rightarrow> obj" where
  "envelope_json e = prehash_json e @ [(''hash'', VStr (en_hash e))]"

definition genesis_hash :: string where
  "genesis_hash = replicate 64 (CHR ''0'')"

definition hash_input :: "(rat \<Rightarrow> string) \<Rightarrow> string \<Rightarrow> audit_envelope \<Rightarrow> string" where
  "hash_input num prevHash e =
     prevHash @ '':'' @ nat_text (en_seq e) @ '':'' @ template_text (json_text num (VObj (prehash_json e)))"

section \<open>Append\<close>

datatype append_response =
    Appended bool string nat string
  | Append_error nat string

text \<open>The message for the scoring queue, when the binding exists.\<close>

record automation_message =
  au_eventType :: string
  au_tenantId :: string
  au_sessionId :: "string option"
  au_seq :: nat
  au_ts :: rat

definition append_envelope ::
  "platform \<Rightarrow> string \<Rightarrow> string option \<Rightarrow> nat \<Rightarrow> string \<Rightarrow> string \<Rightarrow> append_body \<Rightarrow> audit_envelope" where
  "append_envelope pf tenantId session seq eventType actor body =
     \<lparr>en_id = pf_uuid pf, en_seq = seq, en_ts = pf_now pf, en_version = 1, en_tenantId = tenantId,
      en_sessionId = session, en_type = eventType, en_actor = actor, en_hash = [],
      en_data = v_coalesce (ab_data body) (v_coalesce (ab_metadata body) (VObj []))\<rparr>"

text \<open>
  The counter, the hash and the anchor are stored before the stream is read; a value of another
  kind under the stream's key has no \<open>push\<close>, and the handler stops there.
\<close>

definition store_entry ::
  "string \<Rightarrow> string option \<Rightarrow> audit_envelope \<Rightarrow> string option \<Rightarrow> ledger_storage \<Rightarrow> bool \<times> ledger_storage" where
  "store_entry storageKey session e ikey st =
     (let seq = en_seq e;
          st = st(seqKey storageKey \<mapsto> SV_seq seq, hashKey storageKey \<mapsto> SV_hash (en_hash e));
          st = (if seq mod 100 = 0 \<and> given session
                then st(anchorKey storageKey seq \<mapsto> SV_anchor seq (en_hash e) (en_ts e)) else st)
      in (case get_stream st storageKey of
            None \<Rightarrow> (False, st)
          | Some entries \<Rightarrow>
              let st = st(storageKey \<mapsto> SV_stream (entries @ [e]))
              in (True, case ikey of
                    Some (c # cs) \<Rightarrow> st(idempotentKey (c # cs) \<mapsto> SV_idempotent (en_id e) seq)
                  | _ \<Rightarrow> st)))"

definition append_event ::
  "(rat \<Rightarrow> string) \<Rightarrow> (string \<Rightarrow> string) \<Rightarrow> bool \<Rightarrow> platform \<Rightarrow> append_body \<Rightarrow> string \<Rightarrow> string option \<Rightarrow> string \<Rightarrow>
   string \<Rightarrow> nat \<Rightarrow> string option \<Rightarrow> ledger_storage \<Rightarrow> append_response \<times> automation_message list \<times> ledger_storage" where
  "append_event num sha256 queue pf body tenantId session eventType actor prevSeq prevHash st =
     (let storageKey = buildStorageKey (pf_month pf) tenantId session;
          seq = prevSeq + 1;
          pre = append_envelope pf tenantId session seq eventType actor body;
          e = pre\<lparr>en_hash := sha256 (hash_input num (the (or_text prevHash (Some genesis_hash))) pre)\<rparr>
      in if length (template_text (json_text num (VObj (envelope_json e)))) > MAX_EVENT_SIZE
         then (Append_error 413 ''Event exceeds 10240 byte limit'', [], st)
         else (case store_entry storageKey session e (ab_idempotency_key body) st of
             (False, st') \<Rightarrow> (Append_error 500 ''Failed to append'', [], st')
           | (True, st') \<Rightarrow>
               (Appended False (en_id e) seq storageKey,
                (if queue then [\<lparr>au_eventType = eventType, au_tenantId = tenantId,
                   au_sessionId = session, au_seq = seq, au_ts = en_ts e\<rparr>] else []), st')))"

definition handleAppend ::
  "(rat \<Rightarrow> string) \<Rightarrow> (string \<Rightarrow> string) \<Rightarrow> bool \<Rightarrow> platform \<Rightarrow> append_body option \<Rightarrow> string option \<Rightarrow> ledger_storage \<Rightarrow>
   (append_response \<times> automation_message list \<times> ledger_storage) option" where
  "handleAppend num sha256 queue pf bodyOpt sessionId st =
     (case bodyOpt of
        None \<Rightarrow> Some (Append_error 500 ''Failed to append'', [], st)
      | Some body \<Rightarrow>
          (case or_text (ab_tenantId body) None of
             None \<Rightarrow> Some (Append_error 400 ''tenantId required'', [], st)
           | Some tenantId \<Rightarrow>
               let session = or_text (ab_sessionId body) sessionId;
                   storageKey = buildStorageKey (pf_month pf) tenantId session;
                   ikey = ab_idempotency_key body
               in (case (if given ikey then get_idempotent st (idempotentKey (the ikey)) else Some None) of
                     None \<Rightarrow> None
                   | Some (Some (entryId, seq)) \<Rightarrow> Some (Appended True entryId seq storageKey, [], st)
                   | Some None \<Rightarrow>
                       let eventType = (case ab_type body of Some t \<Rightarrow> t | None \<Rightarrow>
                                          (case ab_action body of Some t \<Rightarrow> t | None \<Rightarrow> ''unknown''));
                           actor = to_lower (the (or_text (ab_actor body) (Some ''system'')))
                       in if eventType \<notin> set ALLOWED_EVENTS
                          then Some (Append_error 400 (''Event type '' @ [CHR 0x27] @ eventType @ [CHR 0x27]
                                  @ '' is not in the whitelist''), [], st)
                          else if actor \<notin> set ALLOWED_ACTORS
                          then Some (Append_error 400 (''Actor '' @ [CHR 0x27] @ actor @ [CHR 0x27]
                                  @ '' is not in the whitelist''), [], st)
                          else (case (get_seq st (seqKey storageKey), get_hash st (hashKey storageKey)) of
                              (Some prevSeq, Some prevHash) \<Rightarrow>
                                Some (append_event num sha256 queue pf body tenantId session eventType actor prevSeq prevHash st)
                            | _ \<Rightarrow> None))))"

section \<open>List, count and close\<close>

text \<open>\<open>parseInt(s, 10)\<close>; \<open>None\<close> is NaN.\<close>

definition js_parse_int :: "string \<Rightarrow> int option" where
  "js_parse_int s =
     (let s = dropWhile is_space s;
          (neg, s) = (case s of c # cs \<Rightarrow> if c = CHR ''-'' then (True, cs) else if c = CHR ''+'' then (False, cs) else (False, s)
                      | [] \<Rightarrow> (False, s));
          ds = takeWhile is_digit s
      in if ds = [] then None
         else Some ((if neg then -1 else 1) * int (digits_value ds)))"

text \<open>\<open>xs.slice(from, to)\<close> for a \<open>from\<close> that is not negative; \<open>None\<close> is NaN, which reads as 0.\<close>

definition js_slice :: "nat \<Rightarrow> int option \<Rightarrow> 'a list \<Rightarrow> 'a list" where
  "js_slice from to xs =
     (let t = (case to of None \<Rightarrow> 0 | Some i \<Rightarrow> if i < 0 then nat (int (length xs) + i) else nat i)
      in take (t - from) (drop from xs))"

fun find_index :: "('a \<Rightarrow> bool) \<Rightarrow> 'a list \<Rightarrow> nat option" where
  "find_index P [] = None"
| "find_index P (x # xs) = (if P x then Some 0 else map_option Suc (find_index P xs))"

record list_page =
  pg_entries :: "audit_envelope list"
  pg_total :: nat
  pg_key :: string
  pg_nextCursor :: "nat option"

definition newest_first :: "audit_envelope list \<Rightarrow> audit_envelope list" where
  "newest_first es = js_sort (\<lambda>a b. en_seq b \<le> en_seq a) es"

text \<open>
  The handler's catch answers 500 for a stored value that has no \<open>sort\<close>, and for a full page of no
  entries, which has no last entry to take a cursor from.
\<close>

definition handleList ::
  "string \<Rightarrow> string option \<Rightarrow> string option \<Rightarrow> string option \<Rightarrow> string option \<Rightarrow> ledger_storage \<Rightarrow>
   (nat \<times> string) + list_page" where
  "handleList month tenantIdOpt sessionId cursorStr limitStr st =
     (case or_text tenantIdOpt None of
        None \<Rightarrow> Inl (400, ''tenantId required'')
      | Some tenantId \<Rightarrow>
          let storageKey = buildStorageKey month tenantId sessionId
          in (case get_stream st storageKey of
             None \<Rightarrow> Inl (500, ''Failed to list'')
           | Some entries \<Rightarrow>
          let sorted_entries = newest_first entries;
              cursor = (case or_text cursorStr None of Some c \<Rightarrow> js_parse_int c | None \<Rightarrow> Some 0);
              limit = map_option (\<lambda>n. min n 500) (js_parse_int (the (or_text limitStr (Some ''100''))));
              startIndex = (case cursor of
                              Some c \<Rightarrow> if c > 0 then find_index (\<lambda>e. int (en_seq e) = c) sorted_entries else None
                            | None \<Rightarrow> None);
              sliceStart = (case startIndex of Some i \<Rightarrow> i + 1 | None \<Rightarrow> 0);
              page = js_slice sliceStart (map_option (\<lambda>n. int sliceStart + n) limit) sorted_entries
          in if limit = Some (int (length page))
             then (if page = [] then Inl (500, ''Failed to list'')
                   else Inr \<lparr>pg_entries = page, pg_total = length sorted_entries, pg_key = storageKey,
                             pg_nextCursor = Some (en_seq (last page))\<rparr>)
             else Inr \<lparr>pg_entries = page, pg_total = length sorted_entries, pg_key = storageKey,
                       pg_nextCursor = None\<rparr>))"

definition handleCount ::
  "string \<Rightarrow> string option \<Rightarrow> string option \<Rightarrow> ledger_storage \<Rightarrow> ((nat \<times> string) + nat \<times> nat) option" where
  "handleCount month tenantIdOpt sessionId st =
     (case or_text tenantIdOpt None of
        None \<Rightarrow> Some (Inl (400, ''tenantId required''))
      | Some tenantId \<Rightarrow>
          (case get_stream st (buildStorageKey month tenantId sessionId) of
             None \<Rightarrow> None
           | Some [] \<Rightarrow> Some (Inr (0, 0))
           | Some (e # es) \<Rightarrow> Some (Inr (length (e # es), en_seq (last (e # es))))))"

definition session_anchor :: "platform \<Rightarrow> string \<Rightarrow> string \<Rightarrow> nat \<Rightarrow> string \<Rightarrow> audit_envelope" where
  "session_anchor pf tenantId sessionId lastSeq lastHash =
     \<lparr>en_id = pf_uuid pf, en_seq = 1, en_ts = pf_now pf, en_version = 1, en_tenantId = tenantId,
      en_sessionId = Some sessionId, en_type = ''session_anchor'', en_actor = ''system'', en_hash = lastHash,
      en_data = VObj [(''lastSeq'', VNum (of_nat lastSeq)), (''lastHash'', VStr lastHash),
                      (''sessionId'', VStr sessionId)]\<rparr>"

definition handleClose ::
  "platform \<Rightarrow> string option option \<Rightarrow> string option \<Rightarrow> ledger_storage \<Rightarrow>
   (((nat \<times> string) + string \<times> nat \<times> string) \<times> ledger_storage) option" where
  "handleClose pf tenantIdOpt sessionIdOpt st =
     (case tenantIdOpt of
        None \<Rightarrow> Some (Inl (500, ''Failed to close session''), st)
      | Some t \<Rightarrow>
          (case or_text t None of
             None \<Rightarrow> Some (Inl (400, ''tenantId required''), st)
           | Some tenantId \<Rightarrow>
               (case or_text sessionIdOpt None of
                  None \<Rightarrow> Some (Inl (400, ''sessionId required''), st)
                | Some sessionId \<Rightarrow>
                    let storageKey = buildStorageKey (pf_month pf) tenantId (Some sessionId)
                    in (case (get_hash st (hashKey storageKey), get_seq st (seqKey storageKey)) of
                          (Some hashOpt, Some lastSeq) \<Rightarrow>
                            (case or_text hashOpt None of
                               None \<Rightarrow> Some (Inl (400, ''No events in session''), st)
                             | Some lastHash \<Rightarrow>
                                 if lastSeq = 0 then Some (Inl (400, ''No events in session''), st)
                                 else
                                   let systemKey = buildStorageKey (pf_month pf) tenantId None
                                   in (case get_stream st systemKey of
                                         None \<Rightarrow> Some (Inl (500, ''Failed to close session''), st)
                                       | Some existing \<Rightarrow>
                                           Some (Inr (sessionId, lastSeq, lastHash),
                                             st(systemKey \<mapsto> SV_stream
                                               (existing @ [session_anchor pf tenantId sessionId lastSeq lastHash])))))
                        | _ \<Rightarrow> None))))"

section \<open>The chain of a stream\<close>

text \<open>Entries numbered from \<open>n + 1\<close>, each hash covering the one before it.\<close>

fun chain_ok :: "(rat \<Rightarrow> string) \<Rightarrow> (string \<Rightarrow> string) \<Rightarrow> string \<Rightarrow> nat \<Rightarrow> audit_envelope list \<Rightarrow> bool" where
  "chain_ok num sha256 prev n [] = True"
| "chain_ok num sha256 prev n (e # es) =
     (en_seq e = n + 1 \<and> en_hash e = sha256 (hash_input num prev e) \<and> chain_ok num sha256 (en_hash e) (n + 1) es)"

definition stream_of :: "ledger_storage \<Rightarrow> string \<Rightarrow> audit_envelope list" where
  "stream_of st k = (case get_stream st k of Some es \<Rightarrow> es | None \<Rightarrow> [])"

definition last_hash :: "string \<Rightarrow> audit_envelope list \<Rightarrow> string" where
  "last_hash prev es = (if es = [] then prev else en_hash (last es))"

definition stream_ok :: "(rat \<Rightarrow> string) \<Rightarrow> (string \<Rightarrow> string) \<Rightarrow> ledger_storage \<Rightarrow> string \<Rightarrow> bool" where
  "stream_ok num sha256 st k =
     (case get_stream st k of
        None \<Rightarrow> False
      | Some es \<Rightarrow> get_seq st (seqKey k) = Some (length es)
          \<and> get_hash st (hashKey k) = Some (if es = [] then None else Some (en_hash (last es)))
          \<and> chain_ok num sha256 genesis_hash 0 es)"

text \<open>A digest is written as 64 hexadecimal digits.\<close>

definition digest_texts :: "(string \<Rightarrow> string) \<Rightarrow> bool" where
  "digest_texts sha256 \<longleftrightarrow> (\<forall>x. length (sha256 x) = 64 \<and> CHR '':'' \<notin> set (sha256 x))"

lemma chain_ok_snoc:
  "chain_ok num sha256 prev n (es @ [e]) \<longleftrightarrow>
     chain_ok num sha256 prev n es \<and> en_seq e = n + length es + 1
     \<and> en_hash e = sha256 (hash_input num (last_hash prev es) e)"
  by (induction es arbitrary: prev n) (auto simp: last_hash_def)

lemma chain_ok_hashes:
  "digest_texts sha256 \<Longrightarrow> chain_ok num sha256 prev n es \<Longrightarrow> e \<in> set es \<Longrightarrow>
     length (en_hash e) = 64 \<and> CHR '':'' \<notin> set (en_hash e)"
  by (induction es arbitrary: prev n) (auto simp: digest_texts_def)

section \<open>The keys of the storage\<close>

lemma nat_text_nonempty: "nat_text n \<noteq> []"
  by (cases "n < 10") (simp_all add: nat_text.simps [of n])

text \<open>
  The texts that are a counter's, a last hash's or an anchor's key; a stream is stored under
  such a key when its session id ends in \<open>:seq\<close>, \<open>:lasthash\<close> or \<open>:anchor:\<close> and a number, or is
  such an ending without the colon.
\<close>

definition service_key :: "string \<Rightarrow> bool" where
  "service_key k \<longleftrightarrow> suffix '':seq'' k \<or> suffix '':lasthash'' k \<or> suffix '':anchor:'' (rev (dropWhile is_digit (rev k)))"

definition stream_key :: "string \<Rightarrow> bool" where
  "stream_key k \<longleftrightarrow> prefix ''audit:'' k \<and> \<not> service_key k"

lemma key_inj [simp]: "seqKey k = seqKey k' \<longleftrightarrow> k = k'" "hashKey k = hashKey k' \<longleftrightarrow> k = k'"
  by (simp_all add: seqKey_def hashKey_def)

lemma key_last: "last (seqKey k) = CHR ''q''" "last (hashKey k) = CHR ''h''" "is_digit (last (anchorKey k n))"
proof -
  have "last (nat_text n) \<in> set (nat_text n)" "nat_text n \<noteq> []"
    using nat_text_nonempty [of n] by simp_all
  then show "is_digit (last (anchorKey k n))"
    using nat_text_digits [of n] by (simp add: anchorKey_def list_all_iff)
qed (simp_all add: seqKey_def hashKey_def)

lemma seqKey_other [simp]: "seqKey k \<noteq> hashKey j" "seqKey k \<noteq> anchorKey j n" "hashKey k \<noteq> anchorKey j n"
  "hashKey j \<noteq> seqKey k" "anchorKey j n \<noteq> seqKey k" "anchorKey j n \<noteq> hashKey k"
proof -
  have digit: "\<not> is_digit (CHR ''q'')" "\<not> is_digit (CHR ''h'')" by (simp_all add: is_digit_def Let_def)
  have "last (seqKey k) \<noteq> last (hashKey j)" by (simp add: key_last)
  then show sh: "seqKey k \<noteq> hashKey j" by metis
  show sa: "seqKey k \<noteq> anchorKey j n" using digit(1) key_last(1) [of k] key_last(3) [of j n] by metis
  show ha: "hashKey k \<noteq> anchorKey j n" using digit(2) key_last(2) [of k] key_last(3) [of j n] by metis
  show "hashKey j \<noteq> seqKey k" "anchorKey j n \<noteq> seqKey k" "anchorKey j n \<noteq> hashKey k"
    using sh sa ha by metis+
qed

lemma service_keys: "service_key (seqKey k)" "service_key (hashKey k)" "service_key (anchorKey k n)"
proof -
  have "dropWhile is_digit (rev (nat_text n) @ rev (k @ '':anchor:'')) = rev (k @ '':anchor:'')"
    using nat_text_digits [of n] by (subst dropWhile_append2) (auto simp: list_all_iff is_digit_def Let_def)
  then have "rev (dropWhile is_digit (rev (anchorKey k n))) = k @ '':anchor:''"
    by (simp add: anchorKey_def)
  then show "service_key (anchorKey k n)" by (simp add: service_key_def suffix_def)
qed (simp_all add: service_key_def seqKey_def hashKey_def suffix_def)

lemma stream_key_other:
  assumes "stream_key k"
  shows "k \<noteq> seqKey j" "k \<noteq> hashKey j" "k \<noteq> anchorKey j n" "k \<noteq> idempotentKey x"
    "seqKey k \<noteq> idempotentKey x" "hashKey k \<noteq> idempotentKey x" "anchorKey k n \<noteq> idempotentKey x"
    "seqKey j \<noteq> k" "hashKey j \<noteq> k" "anchorKey j n \<noteq> k" "idempotentKey x \<noteq> k"
    "idempotentKey x \<noteq> seqKey k" "idempotentKey x \<noteq> hashKey k" "idempotentKey x \<noteq> anchorKey k n"
proof -
  have service: "\<not> service_key k" using assms by (simp add: stream_key_def)
  show "k \<noteq> seqKey j" "k \<noteq> hashKey j" "k \<noteq> anchorKey j n" "seqKey j \<noteq> k" "hashKey j \<noteq> k" "anchorKey j n \<noteq> k"
    using service service_keys by metis+
  obtain rest where k: "k = CHR ''a'' # rest" using assms by (auto simp: stream_key_def prefix_def)
  show "k \<noteq> idempotentKey x" "seqKey k \<noteq> idempotentKey x" "hashKey k \<noteq> idempotentKey x" "anchorKey k n \<noteq> idempotentKey x"
    "idempotentKey x \<noteq> k" "idempotentKey x \<noteq> seqKey k" "idempotentKey x \<noteq> hashKey k" "idempotentKey x \<noteq> anchorKey k n"
    by (simp_all add: k idempotentKey_def seqKey_def hashKey_def anchorKey_def)
qed

lemma buildStorageKey_prefix [simp]: "prefix ''audit:'' (buildStorageKey month t s)"
  by (simp add: buildStorageKey_def split: option.split list.split)

lemma store_entry_frame:
  "x \<noteq> seqKey k \<Longrightarrow> x \<noteq> hashKey k \<Longrightarrow> x \<noteq> anchorKey k (en_seq e) \<Longrightarrow> x \<noteq> k \<Longrightarrow> (\<And>i. x \<noteq> idempotentKey i) \<Longrightarrow>
     snd (store_entry k s e ikey st) x = st x"
  by (simp add: store_entry_def Let_def split: option.split list.split)

lemma store_entry_idempotent:
  assumes "stream_key k" and "get_idempotent st (idempotentKey x) \<noteq> None"
  shows "get_idempotent (snd (store_entry k s e ikey st)) (idempotentKey x) \<noteq> None"
proof -
  have "snd (store_entry k s e ikey st) (idempotentKey x) = st (idempotentKey x) \<or>
      (\<exists>i n. snd (store_entry k s e ikey st) (idempotentKey x) = Some (SV_idempotent i n))"
    unfolding store_entry_def Let_def
    using stream_key_other [OF assms(1)] by (auto split: option.split list.split)
  with assms(2) show ?thesis by (auto simp: get_idempotent_def)
qed

lemma store_entry_same:
  assumes "stream_key k" and "get_stream st k = Some es"
  shows "fst (store_entry k s e ikey st)"
    and "get_stream (snd (store_entry k s e ikey st)) k = Some (es @ [e])"
    and "get_seq (snd (store_entry k s e ikey st)) (seqKey k) = Some (en_seq e)"
    and "get_hash (snd (store_entry k s e ikey st)) (hashKey k) = Some (Some (en_hash e))"
proof -
  let ?st = "if en_seq e mod 100 = 0 \<and> given s
     then st(seqKey k \<mapsto> SV_seq (en_seq e), hashKey k \<mapsto> SV_hash (en_hash e),
        anchorKey k (en_seq e) \<mapsto> SV_anchor (en_seq e) (en_hash e) (en_ts e))
     else st(seqKey k \<mapsto> SV_seq (en_seq e), hashKey k \<mapsto> SV_hash (en_hash e))"
  have "get_stream ?st k = Some es" using assms by (simp add: get_stream_def stream_key_other)
  then have eq: "store_entry k s e ikey st = (True, case ikey of
      Some (c # cs) \<Rightarrow> (?st(k \<mapsto> SV_stream (es @ [e])))(idempotentKey (c # cs) \<mapsto> SV_idempotent (en_id e) (en_seq e))
    | _ \<Rightarrow> ?st(k \<mapsto> SV_stream (es @ [e])))"
    by (simp only: store_entry_def Let_def option.case)
  show "fst (store_entry k s e ikey st)"
    "get_stream (snd (store_entry k s e ikey st)) k = Some (es @ [e])"
    "get_seq (snd (store_entry k s e ikey st)) (seqKey k) = Some (en_seq e)"
    "get_hash (snd (store_entry k s e ikey st)) (hashKey k) = Some (Some (en_hash e))"
    unfolding eq using assms(1)
    by (simp_all add: get_stream_def get_seq_def get_hash_def stream_key_other split: option.split list.split)
qed

section \<open>The chain is kept\<close>

lemma hash_input_hash [simp]: "hash_input num prev (e\<lparr>en_hash := h\<rparr>) = hash_input num prev e"
  by (simp add: hash_input_def prehash_json_def)

lemma append_envelope_seq [simp]: "en_seq (append_envelope pf t s n ty a b) = n"
  by (simp add: append_envelope_def)

text \<open>Every key holds a value of the kind it is read as.\<close>

definition kinds_ok :: "ledger_storage \<Rightarrow> bool" where
  "kinds_ok st \<longleftrightarrow>
     (\<forall>k. stream_key k \<longrightarrow> get_stream st k \<noteq> None \<and> get_seq st (seqKey k) \<noteq> None \<and> get_hash st (hashKey k) \<noteq> None)
     \<and> (\<forall>x. get_idempotent st (idempotentKey x) \<noteq> None)"

lemma store_entry_other:
  assumes "stream_key k" and "stream_key j" and "j \<noteq> k"
  shows "snd (store_entry k s e ikey st) j = st j"
    and "snd (store_entry k s e ikey st) (seqKey j) = st (seqKey j)"
    and "snd (store_entry k s e ikey st) (hashKey j) = st (hashKey j)"
  by (rule store_entry_frame; use assms in \<open>simp add: stream_key_other\<close>)+

lemma kinds_ok_store:
  assumes "kinds_ok st" and "stream_key k"
  shows "kinds_ok (snd (store_entry k s e ikey st))"
proof -
  obtain es where "get_stream st k = Some es" using assms unfolding kinds_ok_def by blast
  note same = store_entry_same [OF assms(2) this, of s e ikey]
  have "get_stream (snd (store_entry k s e ikey st)) j \<noteq> None
      \<and> get_seq (snd (store_entry k s e ikey st)) (seqKey j) \<noteq> None
      \<and> get_hash (snd (store_entry k s e ikey st)) (hashKey j) \<noteq> None" if "stream_key j" for j
  proof (cases "j = k")
    case True
    with same show ?thesis by simp
  next
    case False
    note other = store_entry_other [OF assms(2) that False, of s e ikey st]
    show ?thesis using assms(1) that by (simp add: kinds_ok_def get_stream_def get_seq_def get_hash_def other)
  qed
  with assms store_entry_idempotent [OF assms(2)] show ?thesis by (simp add: kinds_ok_def)
qed

lemma stream_ok_store_other:
  assumes "stream_key k" and "stream_key j" and "j \<noteq> k"
  shows "stream_ok num sha256 (snd (store_entry k s e ikey st)) j \<longleftrightarrow> stream_ok num sha256 st j"
proof -
  note other = store_entry_other [OF assms, of s e ikey st]
  have "get_stream (snd (store_entry k s e ikey st)) j = get_stream st j"
    "get_seq (snd (store_entry k s e ikey st)) (seqKey j) = get_seq st (seqKey j)"
    "get_hash (snd (store_entry k s e ikey st)) (hashKey j) = get_hash st (hashKey j)"
    by (simp_all add: get_stream_def get_seq_def get_hash_def other)
  then show ?thesis by (simp add: stream_ok_def split: option.split)
qed

lemma stream_ok_store:
  assumes ok: "stream_ok num sha256 st k" and dig: "digest_texts sha256" and key: "stream_key k"
    and seq: "en_seq e = the (get_seq st (seqKey k)) + 1"
    and hash: "en_hash e = sha256 (hash_input num (the (or_text (the (get_hash st (hashKey k))) (Some genesis_hash))) e)"
  shows "stream_ok num sha256 (snd (store_entry k s e ikey st)) k"
proof -
  obtain es where es: "get_stream st k = Some es" "get_seq st (seqKey k) = Some (length es)"
    "get_hash st (hashKey k) = Some (if es = [] then None else Some (en_hash (last es)))"
    "chain_ok num sha256 genesis_hash 0 es"
    using ok by (auto simp: stream_ok_def split: option.splits)
  have "the (or_text (the (get_hash st (hashKey k))) (Some genesis_hash)) = last_hash genesis_hash es"
  proof (cases "es = []")
    case False
    then have "length (en_hash (last es)) = 64" using chain_ok_hashes [OF dig es(4)] by simp
    then have "en_hash (last es) \<noteq> []" by auto
    with False es(3) show ?thesis
      by (cases "en_hash (last es)") (auto simp: last_hash_def or_text_def)
  qed (use es in \<open>simp add: last_hash_def or_text_def\<close>)
  with es seq hash show ?thesis
    by (simp add: stream_ok_def store_entry_same [OF key es(1)] chain_ok_snoc)
qed

lemma append_event_state:
  assumes "kinds_ok st" and "stream_key (buildStorageKey (pf_month pf) t s)"
  shows "\<exists>r msgs st'. append_event num sha256 queue pf body t s ty actor n h st = (r, msgs, st') \<and>
    (st' = st \<or> (\<exists>e i. st' = snd (store_entry (buildStorageKey (pf_month pf) t s) s e i st) \<and> en_seq e = n + 1
       \<and> en_hash e = sha256 (hash_input num (the (or_text h (Some genesis_hash))) e)))"
proof -
  obtain es where "get_stream st (buildStorageKey (pf_month pf) t s) = Some es"
    using assms unfolding kinds_ok_def by blast
  note stored = store_entry_same(1) [OF assms(2) this]
  define e where "e = (let pre = append_envelope pf t s (n + 1) ty actor body
    in pre\<lparr>en_hash := sha256 (hash_input num (the (or_text h (Some genesis_hash))) pre)\<rparr>)"
  have e: "en_seq e = n + 1" "en_hash e = sha256 (hash_input num (the (or_text h (Some genesis_hash))) e)"
    by (simp_all add: e_def Let_def)
  obtain st' where st': "store_entry (buildStorageKey (pf_month pf) t s) s e (ab_idempotency_key body) st = (True, st')"
    using stored by (metis (full_types) prod.collapse)
  then have snd: "snd (store_entry (buildStorageKey (pf_month pf) t s) s e (ab_idempotency_key body) st) = st'" by simp
  have "append_event num sha256 queue pf body t s ty actor n h st =
      (if length (template_text (json_text num (VObj (envelope_json e)))) > MAX_EVENT_SIZE
       then (Append_error 413 ''Event exceeds 10240 byte limit'', [], st)
       else (Appended False (en_id e) (n + 1) (buildStorageKey (pf_month pf) t s),
         (if queue then [\<lparr>au_eventType = ty, au_tenantId = t, au_sessionId = s, au_seq = n + 1, au_ts = en_ts e\<rparr>] else []), st'))"
    unfolding append_event_def Let_def e_def [unfolded Let_def, symmetric] st' prod.case bool.case ..
  with e snd show ?thesis by (metis (no_types))
qed

text \<open>An append either leaves the storage as it is or stores one entry with the next number.\<close>

lemma handleAppend_state:
  assumes "kinds_ok st"
    and "\<forall>b t. body = Some b \<longrightarrow> or_text (ab_tenantId b) None = Some t \<longrightarrow>
      stream_key (buildStorageKey (pf_month pf) t (or_text (ab_sessionId b) q))"
  obtains r msgs where "handleAppend num sha256 queue pf body q st = Some (r, msgs, st)"
  | r msgs k s e i where "handleAppend num sha256 queue pf body q st = Some (r, msgs, snd (store_entry k s e i st))"
      "stream_key k" "en_seq e = the (get_seq st (seqKey k)) + 1"
      "en_hash e = sha256 (hash_input num (the (or_text (the (get_hash st (hashKey k))) (Some genesis_hash))) e)"
proof (cases "\<exists>r msgs. handleAppend num sha256 queue pf body q st = Some (r, msgs, st)")
  case stored: False
  then obtain b where b: "body = Some b" by (cases body) (simp_all add: handleAppend_def)
  with stored obtain t where t: "or_text (ab_tenantId b) None = Some t"
    by (cases "or_text (ab_tenantId b) None") (simp_all add: handleAppend_def)
  let ?s = "or_text (ab_sessionId b) q"
  let ?k = "buildStorageKey (pf_month pf) t ?s"
  have key: "stream_key ?k" using assms(2) b t by blast
  obtain n h where nh: "get_seq st (seqKey ?k) = Some n" "get_hash st (hashKey ?k) = Some h"
    using assms(1) key unfolding kinds_ok_def by blast
  have "get_idempotent st (idempotentKey x) \<noteq> None" for x using assms(1) by (simp add: kinds_ok_def)
  then obtain found where found: "(if given (ab_idempotency_key b) then get_idempotent st (idempotentKey (the (ab_idempotency_key b)))
      else Some None) = Some found" by (metis not_None_eq)
  define ty where "ty = (case ab_type b of Some t \<Rightarrow> t | None \<Rightarrow> (case ab_action b of Some t \<Rightarrow> t | None \<Rightarrow> ''unknown''))"
  define actor where "actor = to_lower (the (or_text (ab_actor b) (Some ''system'')))"
  have "found = None" "ty \<in> set ALLOWED_EVENTS" "actor \<in> set ALLOWED_ACTORS"
    using stored unfolding handleAppend_def b t option.case Let_def found ty_def actor_def
    by (auto split: option.splits if_splits)
  then have A: "handleAppend num sha256 queue pf body q st = Some (append_event num sha256 queue pf b t ?s ty actor n h st)"
    unfolding handleAppend_def b t option.case Let_def found nh prod.case ty_def [symmetric] actor_def [symmetric] by simp
  with stored append_event_state [OF assms(1) key, of num sha256 queue b ty actor n h] nh key that(2) show ?thesis
    by (metis option.sel)
qed (use that(1) in blast)

section \<open>Requests in sequence\<close>

datatype ledger_request =
    Rq_append bool platform "append_body option" "string option"
  | Rq_close platform "string option option" "string option"

definition ledger_apply ::
  "(rat \<Rightarrow> string) \<Rightarrow> (string \<Rightarrow> string) \<Rightarrow> ledger_request \<Rightarrow> ledger_storage \<Rightarrow> ledger_storage option" where
  "ledger_apply num sha256 rq st =
     (case rq of
        Rq_append queue pf body q \<Rightarrow> map_option (\<lambda>r. snd (snd r)) (handleAppend num sha256 queue pf body q st)
      | Rq_close pf t s \<Rightarrow> map_option snd (handleClose pf t s st))"

fun ledger_run ::
  "(rat \<Rightarrow> string) \<Rightarrow> (string \<Rightarrow> string) \<Rightarrow> ledger_request list \<Rightarrow> ledger_storage \<Rightarrow> ledger_storage option" where
  "ledger_run num sha256 [] st = Some st"
| "ledger_run num sha256 (rq # rqs) st = Option.bind (ledger_apply num sha256 rq st) (ledger_run num sha256 rqs)"

text \<open>The streams a request writes a session anchor to, and those it reads or writes at all.\<close>

definition anchor_key :: "ledger_request \<Rightarrow> string list" where
  "anchor_key rq =
     (case rq of
        Rq_append queue pf body q \<Rightarrow> []
      | Rq_close pf t s \<Rightarrow>
          (case Option.bind t (\<lambda>t. or_text t None) of
             Some tenantId \<Rightarrow> [buildStorageKey (pf_month pf) tenantId None] | None \<Rightarrow> []))"

definition request_keys :: "ledger_request \<Rightarrow> string list" where
  "request_keys rq =
     (case rq of
        Rq_append queue pf body q \<Rightarrow>
          (case body of None \<Rightarrow> [] | Some b \<Rightarrow>
             (case or_text (ab_tenantId b) None of None \<Rightarrow> []
              | Some tenantId \<Rightarrow> [buildStorageKey (pf_month pf) tenantId (or_text (ab_sessionId b) q)]))
      | Rq_close pf t s \<Rightarrow>
          (case Option.bind t (\<lambda>t. or_text t None) of
             Some tenantId \<Rightarrow> [buildStorageKey (pf_month pf) tenantId None, buildStorageKey (pf_month pf) tenantId s]
           | None \<Rightarrow> []))"

lemma get_put_stream:
  assumes "stream_key k"
  shows "get_seq (st(k \<mapsto> v)) (seqKey j) = get_seq st (seqKey j)"
    and "get_hash (st(k \<mapsto> v)) (hashKey j) = get_hash st (hashKey j)"
    and "get_idempotent (st(k \<mapsto> v)) (idempotentKey x) = get_idempotent st (idempotentKey x)"
  using stream_key_other [OF assms] by (simp_all add: get_seq_def get_hash_def get_idempotent_def)

lemma handleClose_state:
  assumes "kinds_ok st" and "list_all stream_key (request_keys (Rq_close pf t s))"
  obtains r where "handleClose pf t s st = Some (r, st)"
  | r k es where "handleClose pf t s st = Some (r, st(k \<mapsto> SV_stream es))" "stream_key k"
      "k \<in> set (anchor_key (Rq_close pf t s))"
proof (cases "\<exists>tenant session. Option.bind t (\<lambda>t. or_text t None) = Some tenant \<and> or_text s None = Some session")
  case False
  then have "\<exists>r. handleClose pf t s st = Some (r, st)"
    by (auto simp: handleClose_def split: option.split)
  with that(1) show ?thesis by blast
next
  case True
  then obtain t' tenant session where t: "t = Some t'" "or_text t' None = Some tenant" and s: "or_text s None = Some session"
    by (cases t) auto
  then have "s = Some session" by (auto simp: or_text_def split: option.splits list.splits)
  with assms(2) t have keys: "stream_key (buildStorageKey (pf_month pf) tenant None)"
    "stream_key (buildStorageKey (pf_month pf) tenant (Some session))"
    by (simp_all add: request_keys_def)
  obtain h n es where "get_hash st (hashKey (buildStorageKey (pf_month pf) tenant (Some session))) = Some h"
    "get_seq st (seqKey (buildStorageKey (pf_month pf) tenant (Some session))) = Some n"
    "get_stream st (buildStorageKey (pf_month pf) tenant None) = Some es"
    using assms(1) keys unfolding kinds_ok_def by (metis not_None_eq)
  then have "(\<exists>r. handleClose pf t s st = Some (r, st)) \<or>
      (\<exists>r es. handleClose pf t s st = Some (r, st(buildStorageKey (pf_month pf) tenant None \<mapsto> SV_stream es)))"
    by (auto simp: handleClose_def t s Let_def split: option.split)
  with that keys(1) t show ?thesis by (auto simp: anchor_key_def)
qed

lemma ledger_apply_ok:
  assumes "kinds_ok st" and "list_all stream_key (request_keys rq)" and "digest_texts sha256"
  obtains st' where "ledger_apply num sha256 rq st = Some st'" "kinds_ok st'"
    "\<And>k. stream_key k \<Longrightarrow> k \<notin> set (anchor_key rq) \<Longrightarrow> stream_ok num sha256 st k \<Longrightarrow> stream_ok num sha256 st' k"
proof (cases rq)
  case (Rq_append queue pf body q)
  have "\<forall>b t. body = Some b \<longrightarrow> or_text (ab_tenantId b) None = Some t \<longrightarrow>
      stream_key (buildStorageKey (pf_month pf) t (or_text (ab_sessionId b) q))"
    using assms(2) by (auto simp: request_keys_def Rq_append)
  from assms(1) this show ?thesis
  proof (cases rule: handleAppend_state [of st body pf q num sha256 queue])
    case (1 r msgs)
    with that [of st] assms(1) Rq_append show ?thesis by (simp add: ledger_apply_def)
  next
    case (2 r msgs k s e i)
    have "stream_ok num sha256 (snd (store_entry k s e i st)) j" if "stream_key j" "stream_ok num sha256 st j" for j
      using that stream_ok_store [OF _ assms(3) 2(2-4)] stream_ok_store_other [OF 2(2)] by (cases "j = k") simp_all
    with that [of "snd (store_entry k s e i st)"] kinds_ok_store [OF assms(1) 2(2)] 2(1) Rq_append show ?thesis
      by (simp add: ledger_apply_def)
  qed
next
  case (Rq_close pf t s)
  from assms(1,2) [unfolded Rq_close] show ?thesis
  proof (cases rule: handleClose_state)
    case (1 r)
    with that [of st] assms(1) Rq_close show ?thesis by (simp add: ledger_apply_def)
  next
    case (2 r k es)
    note put = get_put_stream [OF 2(2), of st "SV_stream es"]
    have stream: "get_stream (st(k \<mapsto> SV_stream es)) j = (if j = k then Some es else get_stream st j)" for j
      by (simp add: get_stream_def)
    have "kinds_ok (st(k \<mapsto> SV_stream es))" using assms(1) by (simp add: kinds_ok_def put stream)
    moreover have "stream_ok num sha256 (st(k \<mapsto> SV_stream es)) j = stream_ok num sha256 st j" if "j \<noteq> k" for j
      using that by (simp add: stream_ok_def put stream split: option.split)
    ultimately show ?thesis
      using that [of "st(k \<mapsto> SV_stream es)"] 2 Rq_close by (fastforce simp: ledger_apply_def)
  qed
qed

lemma ledger_run_ok:
  assumes "digest_texts sha256"
  shows "kinds_ok st \<Longrightarrow> list_all stream_key (concat (map request_keys rqs)) \<Longrightarrow> stream_key k \<Longrightarrow>
    k \<notin> set (concat (map anchor_key rqs)) \<Longrightarrow> stream_ok num sha256 st k \<Longrightarrow>
    \<exists>st'. ledger_run num sha256 rqs st = Some st' \<and> kinds_ok st' \<and> stream_ok num sha256 st' k"
proof (induction rqs arbitrary: st)
  case (Cons rq rqs)
  then have keys: "list_all stream_key (request_keys rq)" by simp
  obtain st' where st': "ledger_apply num sha256 rq st = Some st'" "kinds_ok st'" "stream_ok num sha256 st' k"
    using ledger_apply_ok [OF Cons.prems(1) keys assms, where num = num] Cons.prems(3-5)
    by (metis UnCI concat.simps(2) list.simps(9) set_append)
  show ?case using Cons.IH [OF st'(2) _ _ _ st'(3)] Cons.prems(2-4) st'(1) by simp
qed simp

lemma empty_ledger_ok: "kinds_ok empty_ledger" "stream_ok num sha256 empty_ledger k"
  by (simp_all add: kinds_ok_def stream_ok_def empty_ledger_def get_stream_def get_seq_def get_hash_def get_idempotent_def)

lemma request_keys_audit: "list_all (prefix ''audit:'') (request_keys rq)"
  by (simp add: request_keys_def split: ledger_request.split option.split)

text \<open>C7: After any sequence of append and close requests none of which names a stream that has the key
  of a counter, a last hash or an anchor, every read found a value of its kind, and in every
  stream that no close request wrote an anchor to, the entries are numbered from one without
  gaps, the counter is their number, every entry's hash covers its own content and the hash
  before it, and the stored last hash is the last entry's.\<close>

theorem ledger_streams_stay_chained:
  assumes "digest_texts sha256" and "list_all (\<lambda>k. \<not> service_key k) (concat (map request_keys rqs))"
    and "stream_key k" and "k \<notin> set (concat (map anchor_key rqs))"
  shows "\<exists>st. ledger_run num sha256 rqs empty_ledger = Some st \<and> stream_ok num sha256 st k"
proof -
  have "list_all stream_key (concat (map request_keys rqs))"
    using assms(2) request_keys_audit by (fastforce simp: list_all_iff stream_key_def)
  from ledger_run_ok [OF assms(1) empty_ledger_ok(1) this assms(3,4) empty_ledger_ok(2)] show ?thesis by blast
qed

definition example_body :: append_body where
  "example_body =
     \<lparr>ab_tenantId = Some ''t'', ab_sessionId = Some ''s'', ab_idempotency_key = Some ''once'',
      ab_type = Some ''chat_message'', ab_action = None, ab_actor = None, ab_data = VObj [], ab_metadata = VUndef\<rparr>"

definition example_platform :: platform where
  "example_platform = \<lparr>pf_month = ''2026-01'', pf_now = 5, pf_uuid = ''u''\<rparr>"

lemma ledger_streams_stay_chained_witness:
  "\<exists>st. ledger_run (\<lambda>_. ''1'') (\<lambda>_. replicate 64 (CHR ''a''))
        [Rq_append False example_platform (Some example_body) None,
         Rq_close example_platform (Some (Some ''t'')) (Some ''s'')] empty_ledger = Some st \<and>
     stream_ok (\<lambda>_. ''1'') (\<lambda>_. replicate 64 (CHR ''a'')) st ''audit:t:s''"
  by (rule ledger_streams_stay_chained)
    (simp_all add: digest_texts_def anchor_key_def request_keys_def or_text_def buildStorageKey_def example_platform_def
      example_body_def stream_key_def service_key_def suffix_to_prefix is_digit_def Let_def)

text \<open>
  Without the hypothesis on the keys the counter is lost: the stream of the session \<open>x:seq\<close> is
  stored under the counter key of the session \<open>x\<close>, whose next append reads a list of entries as
  its number.
\<close>

lemma session_key_collision:
  assumes "x \<noteq> []"
  shows "buildStorageKey month t (Some (x @ '':seq'')) = seqKey (buildStorageKey month t (Some x))"
    and "get_stream st (seqKey (buildStorageKey month t (Some x))) = Some (e # es) \<Longrightarrow>
      get_seq st (seqKey (buildStorageKey month t (Some x))) = None"
  using assms by (cases x; simp add: buildStorageKey_def seqKey_def)
    (auto simp: get_stream_def get_seq_def split: option.splits stored.splits)

lemma colliding_sessions:
  "ledger_run (\<lambda>_. ''1'') (\<lambda>_. replicate 64 (CHR ''a''))
     [Rq_append False example_platform (Some (example_body\<lparr>ab_sessionId := Some ''x:seq''\<rparr>)) None,
      Rq_append False example_platform
        (Some (example_body\<lparr>ab_sessionId := Some ''x'', ab_idempotency_key := Some ''other''\<rparr>)) None] empty_ledger = None"
  by (simp add: ledger_apply_def handleAppend_def append_event_def store_entry_def example_body_def example_platform_def or_text_def given_def
      empty_ledger_def get_stream_def get_seq_def get_hash_def get_idempotent_def idempotentKey_def seqKey_def hashKey_def
      ALLOWED_EVENTS_def ALLOWED_ACTORS_def to_lower_def lower_char_def buildStorageKey_def append_envelope_def
      MAX_EVENT_SIZE_def json_quote_def escape_char_def envelope_json_def prehash_json_def template_text_def Let_def)

section \<open>Idempotency\<close>

lemma store_entry_recorded:
  assumes "store_entry k s e (Some (c # cs)) st = (True, st')"
  shows "get_idempotent st' (idempotentKey (c # cs)) = Some (Some (en_id e, en_seq e))"
proof -
  have "\<exists>st1. store_entry k s e (Some (c # cs)) st = (case get_stream st1 k of
      None \<Rightarrow> (False, st1)
    | Some es \<Rightarrow> (True, (st1(k \<mapsto> SV_stream (es @ [e])))(idempotentKey (c # cs) \<mapsto> SV_idempotent (en_id e) (en_seq e))))"
    unfolding store_entry_def Let_def option.case list.case by (rule exI, rule refl)
  with assms show ?thesis by (auto simp: get_idempotent_def split: option.splits)
qed

lemma handleAppend_appended:
  assumes "handleAppend num sha256 queue pf (Some body) q st = Some (Appended False entryId seq key, msgs, st')"
    and "ab_idempotency_key body = Some (c # cs)"
  shows "get_idempotent st' (idempotentKey (c # cs)) = Some (Some (entryId, seq))"
proof -
  obtain t s ty actor n h where
    "append_event num sha256 queue pf body t s ty actor n h st = (Appended False entryId seq key, msgs, st')"
    using assms(1) by (auto simp: handleAppend_def Let_def split: option.splits if_splits)
  then show ?thesis
    using assms(2) store_entry_recorded
    by (fastforce simp: append_event_def append_envelope_def Let_def split: if_splits prod.splits bool.splits)
qed

text \<open>C39: An append that stored an entry under an idempotency key, sent again, stores nothing and
  enqueues nothing: it answers with the first entry's id and number, whatever the second request
  otherwise holds, as long as it names a tenant.
\<close>

theorem append_is_idempotent:
  assumes "handleAppend num sha256 queue pf (Some body) q st = Some (Appended False entryId seq key, msgs, st')"
    and "ab_idempotency_key body = Some (c # cs)"
    and "ab_idempotency_key body' = Some (c # cs)" and "or_text (ab_tenantId body') None = Some tenantId"
  shows "handleAppend num sha256 queue' pf' (Some body') q' st'
      = Some (Appended True entryId seq (buildStorageKey (pf_month pf') tenantId (or_text (ab_sessionId body') q')), [], st')"
  using handleAppend_appended [OF assms(1,2)] assms(3,4)
  by (simp add: handleAppend_def [of num sha256 queue'] given_def Let_def)

lemma append_is_idempotent_witness:
  "\<exists>msgs st'. handleAppend (\<lambda>_. ''1'') (\<lambda>_. []) False example_platform (Some example_body) None empty_ledger
      = Some (Appended False ''u'' 1 ''audit:t:s'', msgs, st') \<and>
    handleAppend (\<lambda>_. ''1'') (\<lambda>_. []) False example_platform (Some example_body) None st'
      = Some (Appended True ''u'' 1 ''audit:t:s'', [], st')"
proof -
  obtain msgs st' where first: "handleAppend (\<lambda>_. ''1'') (\<lambda>_. []) False example_platform (Some example_body) None empty_ledger
      = Some (Appended False ''u'' 1 ''audit:t:s'', msgs, st')"
    by (simp add: handleAppend_def append_event_def store_entry_def example_body_def example_platform_def or_text_def given_def
        empty_ledger_def get_stream_def get_seq_def get_hash_def get_idempotent_def idempotentKey_def seqKey_def hashKey_def
        ALLOWED_EVENTS_def ALLOWED_ACTORS_def to_lower_def lower_char_def buildStorageKey_def append_envelope_def
        MAX_EVENT_SIZE_def json_quote_def escape_char_def envelope_json_def prehash_json_def template_text_def Let_def)
  from append_is_idempotent [OF this, where c = "CHR ''o''" and cs = "''nce''" and body' = example_body
      and tenantId = "''t''" and queue' = False and pf' = example_platform and q' = None] first show ?thesis
    by (simp add: example_body_def or_text_def example_platform_def buildStorageKey_def)
qed

section \<open>The last hash determines the stream\<close>

fun chain_inputs :: "(rat \<Rightarrow> string) \<Rightarrow> string \<Rightarrow> audit_envelope list \<Rightarrow> string set" where
  "chain_inputs num prev [] = {}"
| "chain_inputs num prev (e # es) = insert (hash_input num prev e) (chain_inputs num (en_hash e) es)"

lemma chain_inputs_snoc:
  "chain_inputs num prev (es @ [e]) = insert (hash_input num (last_hash prev es) e) (chain_inputs num prev es)"
  by (induction es arbitrary: prev) (auto simp: last_hash_def)

lemma nat_text_no_colon: "CHR '':'' \<notin> set (nat_text n)"
proof
  assume "CHR '':'' \<in> set (nat_text n)"
  then have "is_digit (CHR '':'')" using nat_text_digits [of n] by (simp only: list_all_iff)
  then show False by (simp add: is_digit_def Let_def)
qed

lemma prehash_json_inj:
  assumes "number_texts num" and "defined (en_data e)" and "defined (en_data f)"
    and "jtext num (VObj (prehash_json e)) = jtext num (VObj (prehash_json f))"
  shows "e\<lparr>en_hash := h\<rparr> = f\<lparr>en_hash := h\<rparr>"
proof -
  let ?clean = "\<lambda>e. filter (\<lambda>p. snd p \<noteq> VUndef) (prehash_json e)"
  have "defined (VObj (?clean e))" "defined (VObj (?clean f))"
    using assms(2,3) by (auto simp: prehash_json_def split: option.splits)
  moreover have "jtext num (VObj (?clean e)) @ [] = jtext num (VObj (?clean f)) @ []"
    using assms(4) json_text_drop [of num "prehash_json e"] json_text_drop [of num "prehash_json f"] by simp
  ultimately have "?clean e = ?clean f"
    using json_decode [OF assms(1)] by (metis delimited_simps(1) jsv.inject(5))
  moreover have "en_data e \<noteq> VUndef" "en_data f \<noteq> VUndef" using assms(2,3) by auto
  ultimately show ?thesis
    by (cases "en_sessionId e"; cases "en_sessionId f")
      (auto simp: prehash_json_def intro!: audit_envelope.equality)
qed

lemma hash_input_inj:
  assumes "number_texts num" and "defined (en_data e)" and "defined (en_data f)"
    and "CHR '':'' \<notin> set p" and "CHR '':'' \<notin> set q" and "hash_input num p e = hash_input num q f"
  shows "p = q \<and> en_seq e = en_seq f \<and> e\<lparr>en_hash := h\<rparr> = f\<lparr>en_hash := h\<rparr>"
proof -
  have "p @ CHR '':'' # nat_text (en_seq e) @ CHR '':'' # jtext num (VObj (prehash_json e))
      = q @ CHR '':'' # nat_text (en_seq f) @ CHR '':'' # jtext num (VObj (prehash_json f))"
    using assms(6) by (simp add: hash_input_def)
  from split_at_char [OF this assms(4,5)] have "p = q"
    and rest: "nat_text (en_seq e) @ CHR '':'' # jtext num (VObj (prehash_json e))
      = nat_text (en_seq f) @ CHR '':'' # jtext num (VObj (prehash_json f))" by auto
  from split_at_char [OF rest nat_text_no_colon nat_text_no_colon]
  have "en_seq e = en_seq f" "jtext num (VObj (prehash_json e)) = jtext num (VObj (prehash_json f))"
    using nat_text_inj by auto
  with prehash_json_inj [OF assms(1-3)] \<open>p = q\<close> show ?thesis by blast
qed

lemma last_hash_no_colon:
  assumes "digest_texts sha256" and "chain_ok num sha256 genesis_hash 0 es"
  shows "CHR '':'' \<notin> set (last_hash genesis_hash es)"
proof (cases "es = []")
  case False
  then have "last es \<in> set es" by simp
  with assms False show ?thesis using chain_ok_hashes by (fastforce simp: last_hash_def)
qed (simp add: last_hash_def genesis_hash_def)

text \<open>C8: Two streams whose numbers and hashes check, and whose last entries carry the same hash,
  are the same stream, entry for entry and field for field, provided the digest has no
  collision among the texts the two streams hash and event data came as JSON.  So changing,
  dropping, inserting or reordering entries of a stream shows in its last hash.
\<close>

theorem last_hash_determines_stream:
  assumes num: "number_texts num" and dig: "digest_texts sha256"
    and "chain_ok num sha256 genesis_hash 0 es" and "chain_ok num sha256 genesis_hash 0 es'"
    and "list_all (\<lambda>e. defined (en_data e)) es" and "list_all (\<lambda>e. defined (en_data e)) es'"
    and "inj_on sha256 (chain_inputs num genesis_hash es \<union> chain_inputs num genesis_hash es')"
    and "es \<noteq> []" and "es' \<noteq> []" and "en_hash (last es) = en_hash (last es')"
  shows "es = es'"
  using assms(3-)
proof (induction es arbitrary: es' rule: rev_induct)
  case (snoc e xs)
  then obtain ys f where es': "es' = ys @ [f]" by (metis rev_exhaust)
  let ?p = "last_hash genesis_hash xs" and ?q = "last_hash genesis_hash ys"
  have e: "chain_ok num sha256 genesis_hash 0 xs" "en_seq e = length xs + 1" "en_hash e = sha256 (hash_input num ?p e)"
    and f: "chain_ok num sha256 genesis_hash 0 ys" "en_seq f = length ys + 1" "en_hash f = sha256 (hash_input num ?q f)"
    using snoc.prems(1,2) es' by (simp_all add: chain_ok_snoc)
  have "sha256 (hash_input num ?p e) = sha256 (hash_input num ?q f)"
    using snoc.prems(8) e(3) f(3) es' by simp
  then have "hash_input num ?p e = hash_input num ?q f"
    by (rule inj_onD [OF snoc.prems(5) [unfolded es' chain_inputs_snoc]]) simp_all
  from hash_input_inj [OF num _ _ last_hash_no_colon [OF dig e(1)] last_hash_no_colon [OF dig f(1)] this]
  have same: "?p = ?q" "en_seq e = en_seq f" "e\<lparr>en_hash := en_hash e\<rparr> = f\<lparr>en_hash := en_hash e\<rparr>"
    using snoc.prems(3,4) es' by auto
  have "en_hash e = en_hash f" using snoc.prems(8) es' by simp
  have "e = e\<lparr>en_hash := en_hash e\<rparr>" by simp
  also note same(3)
  also have "f\<lparr>en_hash := en_hash e\<rparr> = f" using \<open>en_hash e = en_hash f\<close> by simp
  finally have "e = f" .
  have len: "length xs = length ys" using same(2) e(2) f(2) by simp
  have "xs = ys"
  proof (cases "xs = []")
    case False
    then have "ys \<noteq> []" using len by auto
    have "inj_on sha256 (chain_inputs num genesis_hash xs \<union> chain_inputs num genesis_hash ys)"
      using snoc.prems(5) unfolding es' chain_inputs_snoc by (rule inj_on_subset) auto
    moreover have "en_hash (last xs) = en_hash (last ys)"
      using same(1) False \<open>ys \<noteq> []\<close> by (simp add: last_hash_def)
    ultimately show ?thesis
      using snoc.IH [OF e(1) f(1)] snoc.prems(3,4) es' False \<open>ys \<noteq> []\<close> by simp
  qed (use len in simp)
  with \<open>e = f\<close> es' show ?case by simp
qed simp

definition example_entry :: audit_envelope where
  "example_entry = \<lparr>en_id = ''u'', en_seq = 1, en_ts = 0, en_version = 1, en_tenantId = ''t'', en_sessionId = None,
     en_type = ''chat_message'', en_actor = ''user'', en_hash = replicate 64 (CHR ''a''), en_data = VObj []\<rparr>"

lemma last_hash_determines_stream_witness:
  "[example_entry] = [example_entry\<lparr>en_hash := replicate 64 (CHR ''a'')\<rparr>]"
proof (rule last_hash_determines_stream [OF number_texts_fraction, of "\<lambda>_. replicate 64 (CHR ''a'')"])
  show "inj_on (\<lambda>_. replicate 64 (CHR ''a''))
      (chain_inputs fraction_text genesis_hash [example_entry]
        \<union> chain_inputs fraction_text genesis_hash [example_entry\<lparr>en_hash := replicate 64 (CHR ''a'')\<rparr>])"
    by (simp add: inj_on_def)
qed (simp_all add: digest_texts_def example_entry_def number_texts_fraction)

section \<open>Reading a stream page by page\<close>

lemma chain_ok_seqs:
  "chain_ok num sha256 prev n es \<Longrightarrow> map en_seq es = [n + 1 ..< n + 1 + length es]"
  by (induction es arbitrary: prev n) (auto simp: upt_conv_Cons)

lemma newest_first_rev:
  assumes "map en_seq es = [m ..< m + length es]"
  shows "newest_first es = rev es"
proof -
  let ?le = "\<lambda>a b. en_seq b \<le> en_seq a"
  have inj: "inj_on en_seq (set es)" using assms by (metis distinct_map distinct_upt)
  have tot: "total_preorder_on A ?le" for A :: "audit_envelope set"
    by (auto simp: total_preorder_on_def)
  have lin: "linear_on (set (newest_first es)) ?le"
    using inj tot by (auto simp: linear_on_def newest_first_def inj_on_def)
  have "sorted (map en_seq es)" unfolding assms by simp
  then have desc: "sorted_wrt ?le (rev es)" by (simp add: sorted_wrt_rev sorted_map)
  show ?thesis
    by (rule sorted_wrt_unique [OF lin _ _ desc])
      (use tot sorted_js_sort [OF tot] in \<open>simp_all add: newest_first_def\<close>)
qed

lemma js_parse_int_nat: "js_parse_int (nat_text n) = Some (int n)"
proof -
  have digits: "list_all is_digit (nat_text n)" by (rule nat_text_digits)
  have nonempty: "nat_text n \<noteq> []" by (rule nat_text_nonempty)
  then obtain c cs where c: "nat_text n = c # cs" by (cases "nat_text n") auto
  have "is_digit c" using digits c by simp
  then have "\<not> is_space c" "c \<noteq> CHR ''-''" "c \<noteq> CHR ''+''"
    by (auto simp: is_digit_def is_space_def Let_def)
  moreover have "takeWhile is_digit (nat_text n) = nat_text n" using digits by (simp add: list_all_iff)
  ultimately show ?thesis using c nonempty digits_value_nat_text [of n] by (simp add: js_parse_int_def Let_def)
qed

lemma find_index_nth:
  "i < length xs \<Longrightarrow> P (xs ! i) \<Longrightarrow> (\<And>j. j < i \<Longrightarrow> \<not> P (xs ! j)) \<Longrightarrow> find_index P xs = Some i"
proof (induction xs arbitrary: i)
  case (Cons x xs)
  show ?case
  proof (cases i)
    case (Suc j)
    have "\<not> P x" using Cons.prems(3) [of 0] Suc by simp
    moreover have "find_index P xs = Some j"
    proof (rule Cons.IH)
      show "\<not> P (xs ! k)" if "k < j" for k using Cons.prems(3) [of "Suc k"] that Suc by simp
    qed (use Cons.prems Suc in simp_all)
    ultimately show ?thesis using Suc by simp
  qed (use Cons.prems in simp)
qed simp

text \<open>What a reader that follows the cursors collects; \<open>None\<close> is an error or fuel that ran out.\<close>

fun read_pages ::
  "nat \<Rightarrow> string \<Rightarrow> string \<Rightarrow> string option \<Rightarrow> nat \<Rightarrow> nat \<Rightarrow> ledger_storage \<Rightarrow> audit_envelope list option" where
  "read_pages 0 month tenantId sessionId limit cursor st = None"
| "read_pages (Suc fuel) month tenantId sessionId limit cursor st =
     (case handleList month (Some tenantId) sessionId (Some (nat_text cursor)) (Some (nat_text limit)) st of
        Inl err \<Rightarrow> None
      | Inr page \<Rightarrow>
          (case pg_nextCursor page of
             None \<Rightarrow> Some (pg_entries page)
           | Some c \<Rightarrow> map_option (\<lambda>rest. pg_entries page @ rest)
                         (read_pages fuel month tenantId sessionId limit c st)))"

lemma handleList_page:
  assumes es: "get_stream st (buildStorageKey month (c # cs) sessionId) = Some es"
    and seqs: "map en_seq es = [1 ..< 1 + length es]"
    and limit: "1 \<le> limit" "limit \<le> 500" and p: "p \<le> length es"
    and cursor: "cursor = (if p = 0 then 0 else en_seq (rev es ! (p - 1)))"
  shows "\<exists>key. handleList month (Some (c # cs)) sessionId (Some (nat_text cursor)) (Some (nat_text limit)) st
    = Inr \<lparr>pg_entries = take limit (drop p (rev es)), pg_total = length es, pg_key = key,
           pg_nextCursor = (if length es - p < limit then None else Some (en_seq (rev es ! (p + limit - 1))))\<rparr>"
proof -
  let ?key = "buildStorageKey month (c # cs) sessionId" and ?r = "rev es"
  have newest: "newest_first es = ?r" using newest_first_rev [OF seqs] .
  have seq: "en_seq (?r ! i) = length es - i" if "i < length es" for i
  proof -
    have "map en_seq es ! (length es - 1 - i) = 1 + (length es - 1 - i)"
      unfolding seqs using that by (intro nth_upt) simp
    with that show ?thesis by (simp add: rev_nth)
  qed
  define start where "start = (case (if int cursor > 0 then find_index (\<lambda>e. int (en_seq e) = int cursor) ?r else None) of
      Some i \<Rightarrow> i + 1 | None \<Rightarrow> 0)"
  have start: "start = p"
  proof (cases "p = 0")
    case False
    have "find_index (\<lambda>e. int (en_seq e) = int cursor) ?r = Some (p - 1)"
      by (rule find_index_nth) (use False p seq cursor in auto)
    moreover have "int cursor > 0" using False p seq cursor by simp
    ultimately show ?thesis using False by (simp add: start_def)
  qed (simp add: start_def cursor)
  have slice: "js_slice p (Some (int p + int limit)) ?r = take limit (drop p ?r)"
    by (simp add: js_slice_def) (metis add_diff_cancel_left' nat_int of_nat_add)
  let ?page = "take limit (drop p ?r)"
  have len: "length ?page = min limit (length es - p)" by simp
  have given: "or_text (Some (nat_text n)) d = Some (nat_text n)" for n d
    using nat_text_nonempty [of n] by (cases "nat_text n") (auto simp: or_text_def)
  have lim: "map_option (\<lambda>n. min n 500) (js_parse_int (the (Some (nat_text limit)))) = Some (int limit)"
    using limit by (simp add: js_parse_int_nat)
  have last: "en_seq (last ?page) = en_seq (?r ! (p + limit - 1))" if "limit \<le> length es - p"
    using that limit p by (simp add: last_conv_nth nth_append)
  have "handleList month (Some (c # cs)) sessionId (Some (nat_text cursor)) (Some (nat_text limit)) st
    = (if Some (int limit) = Some (int (length ?page))
       then (if ?page = [] then Inl (500, ''Failed to list'')
             else Inr \<lparr>pg_entries = ?page, pg_total = length es, pg_key = ?key,
                       pg_nextCursor = Some (en_seq (last ?page))\<rparr>)
       else Inr \<lparr>pg_entries = ?page, pg_total = length es, pg_key = ?key, pg_nextCursor = None\<rparr>)"
    unfolding handleList_def or_text_def [of "Some (c # cs)"] list.case option.case Let_def es newest lim
      given js_parse_int_nat start_def [symmetric] start option.map slice length_rev ..
  also have "\<dots> = Inr \<lparr>pg_entries = ?page, pg_total = length es, pg_key = ?key,
           pg_nextCursor = (if length es - p < limit then None else Some (en_seq (?r ! (p + limit - 1))))\<rparr>"
    using len limit(1) last by (auto simp: min_def)
  finally show ?thesis by blast
qed

lemma read_pages_from:
  assumes es: "get_stream st (buildStorageKey month (c # cs) sessionId) = Some es"
    and seqs: "map en_seq es = [1 ..< 1 + length es]" and limit: "1 \<le> limit" "limit \<le> 500"
  shows "p \<le> length es \<Longrightarrow> length es - p < fuel \<Longrightarrow>
    read_pages fuel month (c # cs) sessionId limit (if p = 0 then 0 else en_seq (rev es ! (p - 1))) st
      = Some (drop p (rev es))"
proof (induction fuel arbitrary: p)
  case (Suc fuel)
  obtain key where page:
    "handleList month (Some (c # cs)) sessionId
        (Some (nat_text (if p = 0 then 0 else en_seq (rev es ! (p - 1))))) (Some (nat_text limit)) st
      = Inr \<lparr>pg_entries = take limit (drop p (rev es)), pg_total = length es, pg_key = key,
           pg_nextCursor = (if length es - p < limit then None else Some (en_seq (rev es ! (p + limit - 1))))\<rparr>"
    using handleList_page [OF es seqs limit Suc.prems(1) refl] by blast
  show ?case
  proof (cases "length es - p < limit")
    case True
    then show ?thesis by (simp only: read_pages.simps page) simp
  next
    case False
    then have "read_pages fuel month (c # cs) sessionId limit (en_seq (rev es ! (p + limit - 1))) st
        = Some (drop (p + limit) (rev es))"
      using Suc.IH [of "p + limit"] Suc.prems limit(1) by simp
    moreover have "take limit (drop p (rev es)) @ drop (p + limit) (rev es) = drop p (rev es)"
      by (metis add.commute append_take_drop_id drop_drop)
    ultimately show ?thesis using False by (simp only: read_pages.simps page) simp
  qed
qed simp

text \<open>C25: A reader that starts at cursor 0 and follows the cursor of every page, with a limit between 1
  and 500, gets every entry of a stream whose numbers and hashes check exactly once, newest
  first: the stream is neither truncated nor repeated, also when its length is a multiple of the
  limit.\<close>

theorem pages_cover_stream:
  assumes "get_stream st (buildStorageKey month (c # cs) sessionId) = Some es"
    and "chain_ok num sha256 genesis_hash 0 es"
    and "1 \<le> limit" and "limit \<le> 500" and "length es < fuel"
  shows "read_pages fuel month (c # cs) sessionId limit 0 st = Some (rev es)"
  using read_pages_from [OF assms(1) _ assms(3,4), where p = 0 and fuel = fuel] chain_ok_seqs [OF assms(2)] assms(5)
  by simp

lemma pages_cover_stream_witness:
  "read_pages 2 ''2026-01'' ''t'' None 1 0 [''audit:t:system:2026-01'' \<mapsto> SV_stream [example_entry]] = Some [example_entry]"
proof -
  let ?st = "[''audit:t:system:2026-01'' \<mapsto> SV_stream [example_entry]]"
  have key: "buildStorageKey ''2026-01'' ''t'' None = ''audit:t:system:2026-01''"
    by (simp add: buildStorageKey_def)
  have "chain_ok num (\<lambda>_. replicate 64 (CHR ''a'')) genesis_hash 0 [example_entry]" for num
    by (simp add: example_entry_def)
  from pages_cover_stream [where st = ?st and month = "''2026-01''" and c = "CHR ''t''" and cs = "[]"
      and sessionId = None and limit = 1 and fuel = 2, unfolded key, OF _ this] show ?thesis
    by (simp add: get_stream_def)
qed

end
