(* ===== verification/AuditReplay.thy ===== *)
theory AuditReplay
  imports Lifecycle AuditLedger
begin

text \<open>
  Audited missions and their replay: the delivery of audit events to the ledger of their tenant
  (\<open>apps/edge-runtime/src/actions/audit-writer.ts\<close>), and \<open>replayFromAuditLedger\<close> of
  \<open>apps/edge-runtime/src/actions/lifecycle.ts\<close>, which reads them back page by page.  The ledgers
  are a map from the names of Durable Objects to their storage.  The stub is a parameter: what
  a request for the URL of a page answers.  Its loop need not end, so it is a partial function.
\<close>

section \<open>Delivery\<close>

text \<open>What a value is after it was sent as JSON.\<close>

fun wire :: "jsv \<Rightarrow> jsv" where
  "wire (VArr xs) = VArr (map (\<lambda>x. if x = VUndef then VNull else wire x) xs)"
| "wire (VObj ps) = VObj (map (\<lambda>p. (fst p, wire (snd p))) (filter (\<lambda>p. snd p \<noteq> VUndef) ps))"
| "wire v = v"

definition event_body :: "audit_event \<Rightarrow> append_body" where
  "event_body e =
     \<lparr>ab_tenantId = Some (ae_tenantId e), ab_sessionId = ae_sessionId e, ab_idempotency_key = ae_idempotency_key e,
      ab_type = Some (ae_type e), ab_action = None, ab_actor = Some (ae_actor e), ab_data = wire (VObj (ae_data e)),
      ab_metadata = VUndef\<rparr>"

definition ledger_name :: "string \<Rightarrow> string" where
  "ledger_name tenantId = ''tenant:'' @ tenantId"

text \<open>\<open>None\<close> is an append beyond the model of the ledger.\<close>

definition deliver ::
  "(rat \<Rightarrow> string) \<Rightarrow> (string \<Rightarrow> string) \<Rightarrow> platform \<Rightarrow> audit_event \<Rightarrow> (string \<Rightarrow> ledger_storage) \<Rightarrow>
   (string \<Rightarrow> ledger_storage) option" where
  "deliver num sha256 pf e ledgers =
     (let name = ledger_name (ae_tenantId e) in
      map_option (\<lambda>r. ledgers(name := snd (snd r)))
        (handleAppend num sha256 False pf (Some (event_body e)) None (ledgers name)))"

lemma deliver_other: "deliver num sha256 pf e ledgers = Some ledgers' \<Longrightarrow> name \<noteq> ledger_name (ae_tenantId e) \<Longrightarrow>
    ledgers' name = ledgers name"
  by (auto simp: deliver_def Let_def)

text \<open>An event delivered again under its idempotency key changes no ledger, once it was stored.\<close>

lemma deliver_again:
  assumes "handleAppend num sha256 False pf (Some (event_body e)) None (ledgers (ledger_name (ae_tenantId e)))
      = Some (Appended False entryId seq key, msgs, st')"
    and "ae_idempotency_key e = Some (c # cs)"
  shows "deliver num sha256 pf e ledgers = Some (ledgers(ledger_name (ae_tenantId e) := st')) \<and>
    deliver num sha256 pf' e (ledgers(ledger_name (ae_tenantId e) := st')) = Some (ledgers(ledger_name (ae_tenantId e) := st'))"
proof -
  have "get_idempotent st' (idempotentKey (c # cs)) = Some (Some (entryId, seq))"
    using handleAppend_appended [OF assms(1)] assms(2) by (simp add: event_body_def)
  moreover obtain d ds where "ae_tenantId e = d # ds"
    using assms(1) by (cases "ae_tenantId e") (auto simp: handleAppend_def event_body_def or_text_def)
  ultimately have "handleAppend num sha256 False pf' (Some (event_body e)) None st' =
      Some (Appended True entryId seq (buildStorageKey (pf_month pf') (ae_tenantId e) (or_text (ae_sessionId e) None)), [], st')"
    using assms(2) by (simp add: handleAppend_def event_body_def or_text_def [of "Some (d # ds)"] given_def Let_def)
  with assms(1) show ?thesis by (simp add: deliver_def Let_def)
qed

section \<open>Replay from the ledger\<close>

text \<open>
  The reply to a request for a page: \<open>None\<close> has no entries, an error is one the request throws.
  A reply with entries has a cursor, which is null on the last page.
\<close>

type_synonym list_reply = "(audit_envelope list \<times> nat option) option"

text \<open>The two texts of an entry's data are taken as the interface of the replay declares them.\<close>

definition data_text :: "jsv \<Rightarrow> string" where
  "data_text v = (case v of VStr s \<Rightarrow> s | _ \<Rightarrow> ''undefined'')"

definition replay_event_of :: "audit_envelope \<Rightarrow> replay_event" where
  "replay_event_of entry =
     \<lparr>rv_sequence = of_nat (en_seq entry), rv_actionType = data_text (v_get (en_data entry) ''actionType''),
      rv_input = v_get (en_data entry) ''input'', rv_expectedOutput = v_get (en_data entry) ''expectedOutput'',
      rv_expectedStatus = v_get (en_data entry) ''expectedStatus'',
      rv_correlationId = data_text (v_get (en_data entry) ''correlationId'')\<rparr>"

definition page_events :: "audit_envelope list \<Rightarrow> replay_event list" where
  "page_events entries = map replay_event_of (filter (\<lambda>entry. en_type entry = ''action_executed'') entries)"

text \<open>The URL of a page: \<open>/list?cursor=${cursor}&limit=500\<close>.\<close>

definition page_url :: "nat \<Rightarrow> string" where
  "page_url cursor = ''/list?cursor='' @ nat_text cursor @ ''&limit=500''"

partial_function (option) collect_events ::
  "(string \<Rightarrow> string + list_reply) \<Rightarrow> nat \<Rightarrow> (string + replay_event list) option" where
  "collect_events stub cursor =
     (case stub (page_url cursor) of
        Inl err \<Rightarrow> Some (Inl err)
      | Inr None \<Rightarrow> Some (Inr [])
      | Inr (Some (entries, None)) \<Rightarrow> Some (Inr (page_events entries))
      | Inr (Some (entries, Some c)) \<Rightarrow>
          Option.bind (collect_events stub c)
            (\<lambda>r. Some (case r of Inl err \<Rightarrow> Inl err | Inr events \<Rightarrow> Inr (page_events entries @ events))))"

text \<open>\<open>None\<close>: the call does not return.\<close>

definition replayFromAuditLedger ::
  "(rat \<Rightarrow> string) \<Rightarrow> 'w registry \<Rightarrow> (string \<Rightarrow> string + list_reply) \<Rightarrow> string \<Rightarrow> 'w \<Rightarrow>
   ((string + replay_result \<times> nat) \<times> 'w) option" where
  "replayFromAuditLedger num reg stub missionId x =
     map_option (\<lambda>r. case r of
         Inl err \<Rightarrow> (Inl err, x)
       | Inr events \<Rightarrow> (let (res, x') = replayMission num reg missionId events x in (Inr (res, length events), x')))
       (collect_events stub 0)"

section \<open>The ledger's answer\<close>

text \<open>
  \<open>fetch\<close> of the ledger for a GET request, as far as the replay can see it: the path and the
  parameters of a URL without escapes, the handler of a page, and whether the answer has entries.
\<close>

definition url_path :: "string \<Rightarrow> string" where
  "url_path url = takeWhile (\<lambda>c. c \<noteq> CHR ''?'') url"

definition url_param :: "string \<Rightarrow> string \<Rightarrow> string option" where
  "url_param url k =
     map_of (map (\<lambda>p. (takeWhile (\<lambda>c. c \<noteq> CHR ''='') p, drop 1 (dropWhile (\<lambda>c. c \<noteq> CHR ''='') p)))
       (split_on (CHR ''&'') (drop 1 (dropWhile (\<lambda>c. c \<noteq> CHR ''?'') url)))) k"

definition ledger_get :: "string \<Rightarrow> ledger_storage \<Rightarrow> string \<Rightarrow> list_reply" where
  "ledger_get month st url =
     (if url_path url = ''/list''
      then (case handleList month (url_param url ''tenantId'') (or_text (url_param url ''sessionId'') None)
               (url_param url ''cursor'') (url_param url ''limit'') st of
              Inl refusal \<Rightarrow> None
            | Inr page \<Rightarrow> Some (pg_entries page, pg_nextCursor page))
      else None)"

lemma page_url_params:
  "url_path (page_url n) = ''/list''" "url_param (page_url n) ''tenantId'' = None"
  "url_param (page_url n) ''cursor'' = Some (nat_text n)" "url_param (page_url n) ''limit'' = Some ''500''"
proof -
  have digits: "list_all is_digit (nat_text n)" by (rule nat_text_digits)
  then have "CHR ''&'' \<notin> set (nat_text n)" "CHR ''='' \<notin> set (nat_text n)"
    by (auto simp: list_all_iff is_digit_def Let_def)
  then have "split_on (CHR ''&'') (drop 1 (dropWhile (\<lambda>c. c \<noteq> CHR ''?'') (page_url n))) = [''cursor='' @ nat_text n, ''limit=500'']"
    using split_on_append [of "CHR ''&''" "''cursor='' @ nat_text n" "''limit=500''"] split_on_no_sep [of "CHR ''&''" "''limit=500''"]
    by (simp add: page_url_def)
  then show "url_param (page_url n) ''tenantId'' = None" "url_param (page_url n) ''cursor'' = Some (nat_text n)"
    "url_param (page_url n) ''limit'' = Some ''500''"
    by (simp_all add: url_param_def)
qed (simp add: url_path_def page_url_def)

lemma ledger_get_refused: "ledger_get month st (page_url n) = None"
  by (simp add: ledger_get_def page_url_params handleList_def or_text_def)

text \<open>C24: Replaying from the audit ledger replays nothing, whatever the ledger holds: a page is
  requested without a tenant, which the ledger refuses, so over any stub that throws or passes the
  request on to the ledger, the call throws that error or returns the result of a mission without
  events, and no action is executed.\<close>

theorem replay_from_ledger_is_empty:
  assumes "\<forall>url. (\<exists>err. stub url = Inl err) \<or> (\<exists>month st. stub url = Inr (ledger_get month st url))"
  shows "(\<exists>err. stub (page_url 0) = Inl err \<and> replayFromAuditLedger num reg stub missionId x = Some (Inl err, x)) \<or>
    replayFromAuditLedger num reg stub missionId x
      = Some (Inr (\<lparr>rs_missionId = missionId, rs_totalEvents = 0, rs_passed = 0, rs_failed = 0, rs_details = []\<rparr>, 0), x)"
proof -
  consider err where "stub (page_url 0) = Inl err" | "stub (page_url 0) = Inr None"
    using assms ledger_get_refused by metis
  then show ?thesis
    by cases (simp_all add: replayFromAuditLedger_def collect_events.simps replayMission_def)
qed

lemma replay_from_ledger_is_empty_witness:
  "replayFromAuditLedger (\<lambda>_. ''1'') []
     (\<lambda>url. Inr (ledger_get ''2026-01'' [''audit:t:s'' \<mapsto> SV_stream [example_entry]] url)) ''m'' (0 :: int)
   = Some (Inr (\<lparr>rs_missionId = ''m'', rs_totalEvents = 0, rs_passed = 0, rs_failed = 0, rs_details = []\<rparr>, 0), 0)"
  using replay_from_ledger_is_empty [of "\<lambda>url. Inr (ledger_get ''2026-01'' [''audit:t:s'' \<mapsto> SV_stream [example_entry]] url)"
      "\<lambda>_. ''1''" "[]" "''m''" "0 :: int"] by auto

section \<open>What is audited\<close>

text \<open>
  The data the lifecycle audits of an action hold its status and output, and not the expected ones
  the replay compares with, so an entry made of them never matches.
\<close>

lemma obj_get_absent: "k \<notin> fst ` set ps \<Longrightarrow> obj_get ps k = VUndef"
  by (simp add: obj_get_def map_of_eq_None_iff [THEN iffD2])

lemma wire_absent: "k \<notin> fst ` set ps \<Longrightarrow> v_get (wire (VObj ps)) k = VUndef"
  by (auto intro!: obj_get_absent)

lemma audited_entry_unmatched:
  assumes "en_data entry = wire (VObj (ae_data (action_event r)))"
  shows "\<not> rd_match (fst (replay_event_step num reg m (replay_event_of entry) x))"
proof -
  have "v_get (wire (VObj (ae_data (action_event r)))) ''expectedStatus'' = VUndef"
    by (rule wire_absent) (simp add: action_event_def)
  then have "rv_expectedStatus (replay_event_of entry) = VUndef" using assms by (simp add: replay_event_of_def)
  then show ?thesis
    by (simp add: replay_event_step_def replay_detail_of_def Let_def split: option.split sum.split prod.split)
qed

end
