(* ===== verification/Spec2Isabelle.thy ===== *)
theory Spec2Isabelle
  imports ApplyConsumer Scheduler Derive Billing Revocation AuditReplay
begin

text \<open>
  A verification development of two applications of the repository: the telemetry Worker in
  \<open>src/apps/afirmico-tesla/src\<close>, a Cloudflare Worker that collects telemetry of members' vehicles
  under their consent, applies telemetry configurations to the vehicles through a signer and
  releases quote packages; and the missions of the edge runtime in
  \<open>src/apps/edge-runtime/src\<close>, which plan a manifest of actions, run it with reconciliation and
  compensation, and record it in an audit ledger.

  Shared theories:

  \<^item> \<open>Prelude\<close>: tables as lists of rows with the SQL statements the code issues, the contracts of
    an upsert and of a rollout that can be halted as locales, and the string operations.
  \<^item> \<open>JsValue\<close>, \<open>JsNumber\<close>, \<open>JsDate\<close>, \<open>Utf8\<close>, \<open>Sorting\<close>: parsed JSON with the reads the code
    applies to it, the conversions of \<open>Number\<close>, dates as milliseconds, the bytes of
    \<open>TextEncoder\<close> with lone surrogates replaced, and the stable sort with the lemmas that a
    linear order sorts every permutation alike.
  \<^item> \<open>Network\<close>: the environment: clock, random source, digest, and the services called over the
    network as oracles.

  The telemetry Worker:

  \<^item> \<open>Store\<close> (\<open>store.ts\<close>, \<open>consent-policy.ts\<close>): members, vehicles, consents, tokens, audit, gates,
    the constant-time comparison.
  \<^item> \<open>ConfigScope\<close> (\<open>config-groups.ts\<close>, \<open>config-scope.ts\<close>): vehicle groups, their consistency under
    every operation, and the resolution of a configuration from global, group and vehicle entries.
  \<^item> \<open>Telemetry\<close> (\<open>telemetry.ts\<close>): parsing, tier resolution, normalisation, deduplication,
    persistence under the constraints of the schema, signal accounting, the run log.
  \<^item> \<open>PollCoordinator\<close> (\<open>poll-coordinator.ts\<close>): the poll that rides on an ingested batch, and its
    cadence.
  \<^item> \<open>Ingest\<close> (the route \<open>POST /ingest/telemetry\<close> of \<open>index.ts\<close>): authentication, archive, run, gate,
    and what a payload stores.
  \<^item> \<open>KeyPairing\<close> (\<open>key-pairing.ts\<close>): polling of the virtual key, the access token, reconciliation.
  \<^item> \<open>ConfigApply\<close> (\<open>config-apply.ts\<close>): one vehicle's configuration request, the canary conditions,
    adoption, the synchronous sweep and its canary.
  \<^item> \<open>ApplyQueue\<close> (\<open>apply-enqueue.ts\<close>, \<open>apply-processor.ts\<close>): enqueueing and the cron processor;
    \<open>ApplyConsumer\<close> (\<open>apply-queue-consumer.ts\<close>): the queue consumer and the dead letters.  Both are
    instances of the locale \<open>halting_rollout\<close>: a closed run is never touched again.
  \<^item> \<open>VehicleConfig\<close> (\<open>vehicle-config.ts\<close> and the removal in \<open>index.ts\<close>): the fields block, the
    configuration row, the redaction of upstream errors.
  \<^item> \<open>Release\<close> (\<open>release.ts\<close>): CSV, release eligibility, quote packages, download links;
    \<open>Quotes\<close> (the quote routes of \<open>index.ts\<close>): requests, offers, decisions and policies;
    \<open>Revocation\<close> (\<open>POST /auth/revoke\<close>): the withdrawal of consent and all it closes.
  \<^item> \<open>Onboarding\<close> (\<open>onboarding.ts\<close>): mobile number and postcode; \<open>Timezone\<close> (\<open>timezone.ts\<close>): the
    state of a postcode and local times; \<open>Billing\<close> (\<open>billing.ts\<close> and \<open>GET /healthz\<close>).
  \<^item> \<open>Derive\<close> (\<open>derive.ts\<close>): the driver profile of a window; \<open>Scheduler\<close> (\<open>scheduler.ts\<close>): the
    recurrence of export schedules.

  The missions of the edge runtime:

  \<^item> \<open>AnyValue\<close>, \<open>Drift\<close> (\<open>actions/compute-drift.ts\<close>), \<open>JsonText\<close> (\<open>canonicalStableStringify\<close> of
    \<open>agentic-ux/agentic-ux.schema.ts\<close>): values, their comparison and their text, which is read
    back.
  \<^item> \<open>Manifest\<close> (\<open>agentic-ux.schema.ts\<close>, \<open>manifest-generator.ts\<close>): manifests, their checks, and the
    two searches for a dependency cycle, proved against the transitive closure;
    \<open>Planner\<close> (\<open>agentic-ux.runtime.ts\<close>): Kahn's sort, parallel rounds, costs, the pipeline.
  \<^item> \<open>Reconcile\<close> (\<open>actions/types.ts\<close>, \<open>actions/reconcile.ts\<close>): actions and the reconciliation loop;
    \<open>Compensation\<close> (\<open>actions/compensation.ts\<close>); \<open>Lifecycle\<close> (\<open>actions/lifecycle.ts\<close>): the mission
    run, replay and dry run.
  \<^item> \<open>AuditLedger\<close> (\<open>objects/AuditLedger.ts\<close>): the Durable Object over its one key-value storage;
    \<open>AuditReplay\<close> (\<open>actions/audit-writer.ts\<close>, \<open>replayFromAuditLedger\<close>): delivery and replay.

  The database of the Worker is a record with one field per table, \<open>store_db\<close> extended by each
  component with its own tables; an operation takes the environment, its arguments and the
  database, and returns its result and the new database.  A thrown error is \<open>Inl\<close> of its message.
  Every effect outside the database advances \<open>tick\<close>, and the oracles of the environment take it, so
  that two calls may be answered differently.  The actions of a mission are any functions on a
  world of any type.

  Bounds.  A cron tick takes 50 items.  The comparison of secrets is exact below 2^32 bytes, the
  width of its accumulator.  The loop of the topological sort has fuel of one unit per step, and
  the theorem of the planner shows that it does not run out on a valid manifest; a reader of the
  ledger's pages has fuel beyond the length of the stream.  The loop of the replay from the ledger
  need not end and is a partial function.  The reconciliation loop is bounded by its own
  iteration limit.

  Parameters, for what is not code of the repository: the replies of the network, the clock, the
  random source, the digest, the collation of \<open>localeCompare\<close>, the text of a number, the structural
  pass of zod over a manifest, and the stub of a Durable Object.  Numbers are exact rationals; NaN
  and infinite numbers are modelled where the code tests for them and are otherwise outside the
  model, as is a payload whose \<open>createdAt\<close> is not a text.  The ledger is modelled as long as it
  reads values of the kind it expects where JavaScript would convert another.

  Not modelled: of the Worker the admin routes, the pages and the routing of \<open>index.ts\<close>, OAuth and
  the token cryptography, analytics, and the export files and their mail; of the edge runtime
  everything but the missions (pages, API routes, chat, documents, canvas, calculators, the live
  event stream of the ledger); and the other applications of the repository (canvas, state engine,
  document database, the INEOS site, the browser extension and the shared packages).
\<close>

end
